(* ===== verification/Spaces_Prelude.thy ===== *)
theory Spaces_Prelude
  imports Main "HOL-Library.Word" "HOL-Library.State_Monad" "HOL-Library.Sublist"
begin

text \<open>
  What the components share.

  \<^item> Machines. A native program of the repository is a sequence of computations on its own
    data and of calls into the kernel, the message bus and the libraries it links. A program is
    modelled as a value of the library's state monad over the record \<open>mach\<close>: \<open>prog\<close> is the
    program's own mutable data, \<open>hist\<close> is the list of everything it has asked of the
    outside so far, in order, each entry with the answer it got. An answer of the outside is a
    function of that history, so the environment may behave in any way, adaptively.
  \<^item> Weakest preconditions over that monad (\<open>wp\<close>), as simplification rules collected in
    \<open>wp_simps\<close>; and \<open>emitted\<close>, the part of the history that a computation adds.
  \<^item> C strings as character lists without their terminating zero byte, and the functions of
    the C library and of GLib on strings that the sources use.
\<close>

named_theorems wp_simps \<open>weakest preconditions of the primitive computations\<close>

section \<open>Machines\<close>

record ('s, 'e) mach =
  prog :: 's
  hist :: "'e list"

type_synonym ('s, 'e, 'a) comp = "(('s, 'e) mach, 'a) state"

definition sys :: "('e list \<Rightarrow> 'r) \<Rightarrow> ('r \<Rightarrow> 'e) \<Rightarrow> ('s, 'e, 'r) comp" where
  "sys answer event =
     State (\<lambda>s. let r = answer (hist s) in (r, s\<lparr>hist := hist s @ [event r]\<rparr>))"

definition emit :: "'e \<Rightarrow> ('s, 'e, unit) comp" where
  "emit e = State (\<lambda>s. ((), s\<lparr>hist := hist s @ [e]\<rparr>))"

definition gets :: "('s \<Rightarrow> 'r) \<Rightarrow> ('s, 'e, 'r) comp" where
  "gets f = State (\<lambda>s. (f (prog s), s))"

definition modify :: "('s \<Rightarrow> 's) \<Rightarrow> ('s, 'e, unit) comp" where
  "modify f = State (\<lambda>s. ((), s\<lparr>prog := f (prog s)\<rparr>))"

abbreviation ret :: "'a \<Rightarrow> ('s, 'e, 'a) comp" where
  "ret \<equiv> State_Monad.return"

definition cond :: "bool \<Rightarrow> ('s, 'e, unit) comp \<Rightarrow> ('s, 'e, unit) comp" where
  "cond b m = (if b then m else ret ())"

fun each :: "('a \<Rightarrow> ('s, 'e, unit) comp) \<Rightarrow> 'a list \<Rightarrow> ('s, 'e, unit) comp" where
  "each f [] = ret ()"
| "each f (x # xs) = do { f x; each f xs }"

section \<open>Weakest preconditions\<close>

definition wp :: "('m, 'a) state \<Rightarrow> ('a \<Rightarrow> 'm \<Rightarrow> bool) \<Rightarrow> 'm \<Rightarrow> bool" where
  "wp m Q s = (case run_state m s of (a, s') \<Rightarrow> Q a s')"

lemma wp_return [wp_simps]: "wp (State_Monad.return a) Q s = Q a s"
  by (simp add: wp_def)

lemma wp_bind [wp_simps]: "wp (State_Monad.bind m f) Q s = wp m (\<lambda>a. wp (f a) Q) s"
  by (simp add: wp_def split: prod.splits)

lemma wp_sys [wp_simps]:
  "wp (sys f e) Q s = Q (f (hist s)) (s\<lparr>hist := hist s @ [e (f (hist s))]\<rparr>)"
  by (simp add: wp_def sys_def Let_def)

lemma wp_emit [wp_simps]: "wp (emit e) Q s = Q () (s\<lparr>hist := hist s @ [e]\<rparr>)"
  by (simp add: wp_def emit_def)

lemma wp_gets [wp_simps]: "wp (gets f) Q s = Q (f (prog s)) s"
  by (simp add: wp_def gets_def)

lemma wp_modify [wp_simps]: "wp (modify f) Q s = Q () (s\<lparr>prog := f (prog s)\<rparr>)"
  by (simp add: wp_def modify_def)

lemma wp_cond [wp_simps]: "wp (cond b m) Q s = (if b then wp m Q s else Q () s)"
  by (simp add: cond_def wp_return)

lemma wp_if [wp_simps]:
  "wp (if b then m else n) Q s = (if b then wp m Q s else wp n Q s)"
  by simp

lemma wp_case_option [wp_simps]:
  "wp (case x of None \<Rightarrow> m | Some y \<Rightarrow> f y) Q s =
     (case x of None \<Rightarrow> wp m Q s | Some y \<Rightarrow> wp (f y) Q s)"
  by (simp split: option.split)

lemma wp_case_sum [wp_simps]:
  "wp (case x of Inl y \<Rightarrow> g y | Inr z \<Rightarrow> f z) Q s =
     (case x of Inl y \<Rightarrow> wp (g y) Q s | Inr z \<Rightarrow> wp (f z) Q s)"
  by (simp split: sum.split)

lemma wp_case_prod [wp_simps]:
  "wp (case x of (a, b) \<Rightarrow> f a b) Q s = (case x of (a, b) \<Rightarrow> wp (f a b) Q s)"
  by (simp split: prod.split)

lemma wp_case_list [wp_simps]:
  "wp (case xs of [] \<Rightarrow> m | y # ys \<Rightarrow> f y ys) Q s =
     (case xs of [] \<Rightarrow> wp m Q s | y # ys \<Rightarrow> wp (f y ys) Q s)"
  by (simp split: list.split)

lemma wp_mono: "wp m P s \<Longrightarrow> (\<And>a t. P a t \<Longrightarrow> Q a t) \<Longrightarrow> wp m Q s"
  by (auto simp: wp_def)

lemma wp_run: "wp m Q s \<Longrightarrow> run_state m s = (a, s') \<Longrightarrow> Q a s'"
  by (simp add: wp_def)

lemma wpI: "(\<And>a s'. run_state m s = (a, s') \<Longrightarrow> Q a s') \<Longrightarrow> wp m Q s"
  by (auto simp: wp_def split: prod.split)

lemma wp_any: "(\<And>a s'. Q a s') \<Longrightarrow> wp m Q s"
  by (simp add: wp_def split: prod.split)

text \<open>What every result satisfies, whatever the run.\<close>

definition always_returns :: "('s, 'e, 'a) comp \<Rightarrow> ('a \<Rightarrow> bool) \<Rightarrow> bool" where
  "always_returns m P = (\<forall>s. wp m (\<lambda>r _. P r) s)"

lemma always_returns_intros:
  "P a \<Longrightarrow> always_returns (ret a) P"
  "(\<And>a. always_returns (f a) P) \<Longrightarrow> always_returns (State_Monad.bind m f) P"
  "(b \<Longrightarrow> always_returns g P) \<Longrightarrow> (\<not> b \<Longrightarrow> always_returns h P) \<Longrightarrow> always_returns (if b then g else h) P"
  by (auto simp: always_returns_def wp_simps intro: wp_any)

section \<open>What a computation adds to the history\<close>

definition returned :: "('s, 'e, 'a) comp \<Rightarrow> ('s, 'e) mach \<Rightarrow> 'a" where
  "returned m s = fst (run_state m s)"

definition final_state :: "('s, 'e, 'a) comp \<Rightarrow> ('s, 'e) mach \<Rightarrow> ('s, 'e) mach" where
  "final_state m s = snd (run_state m s)"

definition emitted :: "('s, 'e, 'a) comp \<Rightarrow> ('s, 'e) mach \<Rightarrow> 'e list" where
  "emitted m s = drop (length (hist s)) (hist (final_state m s))"

text \<open>
  \<open>emits m s P\<close>: run from \<open>s\<close>, \<open>m\<close> only appends to the history, and its result,
  the program data it leaves and the appended entries satisfy \<open>P\<close>.
\<close>

definition emits :: "('s, 'e, 'a) comp \<Rightarrow> ('s, 'e) mach \<Rightarrow> ('a \<Rightarrow> 's \<Rightarrow> 'e list \<Rightarrow> bool) \<Rightarrow> bool" where
  "emits m s P = wp m (\<lambda>a s'. \<exists>es. hist s' = hist s @ es \<and> P a (prog s') es) s"

lemma emitsD: "emits m s P \<Longrightarrow> P (returned m s) (prog (final_state m s)) (emitted m s)"
  by (auto simp: emits_def wp_def returned_def final_state_def emitted_def split: prod.splits)

lemma emits_hist: "emits m s P \<Longrightarrow> hist (final_state m s) = hist s @ emitted m s"
  by (auto simp: emits_def wp_def final_state_def emitted_def split: prod.splits)

lemma emits_mono: "emits m s P \<Longrightarrow> (\<And>a p es. P a p es \<Longrightarrow> Q a p es) \<Longrightarrow> emits m s Q"
  unfolding emits_def by (erule wp_mono) blast

lemma emits_conj: "emits m s P \<Longrightarrow> emits m s Q \<Longrightarrow> emits m s (\<lambda>a p es. P a p es \<and> Q a p es)"
  by (auto simp: emits_def wp_def split: prod.splits)

lemma emits_return: "P a (prog s) [] \<Longrightarrow> emits (ret a) s P"
  by (simp add: emits_def wp_simps)

lemma emits_bind:
  fixes m :: "('s, 'e, 'a) comp" and f :: "'a \<Rightarrow> ('s, 'e, 'b) comp"
  assumes "emits m s P"
    and "\<And>a s' es. hist s' = hist s @ es \<Longrightarrow> P a (prog s') es \<Longrightarrow>
           emits (f a) s' (\<lambda>b p es'. Q b p (es @ es'))"
  shows "emits (State_Monad.bind m f) s Q"
  unfolding emits_def wp_bind
proof (rule wp_mono [OF assms(1)[unfolded emits_def]])
  fix a and t :: "('s, 'e) mach"
  assume "\<exists>es. hist t = hist s @ es \<and> P a (prog t) es"
  then obtain es where h: "hist t = hist s @ es" and "P a (prog t) es" by blast
  then have "emits (f a) t (\<lambda>b p es'. Q b p (es @ es'))" by (rule assms(2))
  then show "wp (f a) (\<lambda>a s'. \<exists>es. hist s' = hist s @ es \<and> Q a (prog s') es) t"
    unfolding emits_def by (rule wp_mono) (auto simp: h)
qed

lemma emits_sys: "P (f (hist s)) (prog s) [e (f (hist s))] \<Longrightarrow> emits (sys f e) s P"
  by (simp add: emits_def wp_simps)

lemma emits_emit: "P () (prog s) [e] \<Longrightarrow> emits (emit e) s P"
  by (simp add: emits_def wp_simps)

lemma emits_gets: "P (f (prog s)) (prog s) [] \<Longrightarrow> emits (gets f) s P"
  by (simp add: emits_def wp_simps)

lemma emits_modify: "P () (f (prog s)) [] \<Longrightarrow> emits (modify f) s P"
  by (simp add: emits_def wp_simps)

lemmas emits_intros = emits_return emits_sys emits_emit emits_gets emits_modify

section \<open>Reachable states\<close>

text \<open>
  The programs that sit in an event loop are step relations: a step is one callback, run to its end
  on the main loop's thread. \<open>reach\<close> closes the initial states under steps; a client that
  shows a predicate inductive gets it on every reachable state from the locale below.
\<close>

inductive reach :: "('s \<Rightarrow> bool) \<Rightarrow> ('s \<Rightarrow> 's \<Rightarrow> bool) \<Rightarrow> 's \<Rightarrow> bool" for init step where
  reach_init: "init s \<Longrightarrow> reach init step s"
| reach_step: "reach init step s \<Longrightarrow> step s t \<Longrightarrow> reach init step t"

locale inductive_invariant =
  fixes init :: "'s \<Rightarrow> bool" and step :: "'s \<Rightarrow> 's \<Rightarrow> bool" and holds :: "'s \<Rightarrow> bool"
  assumes initially: "init s \<Longrightarrow> holds s"
    and preserved: "holds s \<Longrightarrow> step s t \<Longrightarrow> holds t"
begin

lemma always: "reach init step s \<Longrightarrow> holds s"
  by (induction rule: reach.induct) (auto intro: initially preserved)

lemma always_step: "reach init step s \<Longrightarrow> step s t \<Longrightarrow> holds t"
  using always preserved by blast

end

section \<open>Strings\<close>

definition g_str_has_prefix :: "string \<Rightarrow> string \<Rightarrow> bool" where
  "g_str_has_prefix s p = (take (length p) s = p)"

definition g_str_has_suffix :: "string \<Rightarrow> string \<Rightarrow> bool" where
  "g_str_has_suffix s p = g_str_has_prefix (rev s) (rev p)"

lemma g_str_has_prefix_iff: "g_str_has_prefix s p \<longleftrightarrow> (\<exists>t. s = p @ t)"
  unfolding g_str_has_prefix_def by (metis append_eq_conv_conj append_take_drop_id)

lemma g_str_has_prefix_append [simp]: "g_str_has_prefix (p @ t) p"
  by (simp add: g_str_has_prefix_def)

lemma g_str_has_prefix_refl [simp]: "g_str_has_prefix p p"
  by (simp add: g_str_has_prefix_def)

lemma g_str_has_suffix_iff: "g_str_has_suffix s p \<longleftrightarrow> (\<exists>t. s = t @ p)"
  unfolding g_str_has_suffix_def g_str_has_prefix_iff by (metis rev_append rev_rev_ident)

text \<open>
  \<open>split_on c s\<close> cuts at every \<open>c\<close> and keeps empty fields. GLib's \<open>g_strsplit\<close> (with no
  limit) is the same but for its documented special case: the empty string gives no field.
\<close>

fun split_on :: "char \<Rightarrow> string \<Rightarrow> string list" where
  "split_on c [] = [ [] ]"
| "split_on c (x # xs) =
     (if x = c then [] # split_on c xs
      else (case split_on c xs of [] \<Rightarrow> [ [x] ] | w # ws \<Rightarrow> (x # w) # ws))"

definition g_strsplit :: "string \<Rightarrow> char \<Rightarrow> string list" where
  "g_strsplit s c = (if s = [] then [] else split_on c s)"

lemma split_on_not_Nil [simp]: "split_on c s \<noteq> []"
  by (induction s) (auto split: list.split)

lemma split_on_free: "w \<in> set (split_on c s) \<Longrightarrow> c \<notin> set w"
  by (induction s arbitrary: w) (auto split: list.splits if_splits)

lemma split_on_append: "c \<notin> set w \<Longrightarrow> split_on c (w @ c # s) = w # split_on c s"
  by (induction w) auto

lemma split_on_single: "c \<notin> set w \<Longrightarrow> split_on c w = [w]"
  by (induction w) auto

text \<open>The first field and what follows it: how the cursor loops over \<open>strchr\<close> see a string.\<close>

lemma split_on_step:
  "split_on c s =
     takeWhile (\<lambda>x. x \<noteq> c) s #
     (case dropWhile (\<lambda>x. x \<noteq> c) s of [] \<Rightarrow> [] | _ # t \<Rightarrow> split_on c t)"
  by (induction s) (auto split: list.splits)

text \<open>Unsigned decimal numerals, as \<open>printf\<close> writes them.\<close>

definition digit_char :: "nat \<Rightarrow> char" where
  "digit_char d = char_of (48 + d)"

fun show_nat :: "nat \<Rightarrow> string" where
  "show_nat n = (if n < 10 then [digit_char n] else show_nat (n div 10) @ [digit_char (n mod 10)])"

declare show_nat.simps [simp del]

definition show_int :: "int \<Rightarrow> string" where
  "show_int i = (if i < 0 then CHR ''-'' # show_nat (nat (- i)) else show_nat (nat i))"

definition is_digit :: "char \<Rightarrow> bool" where
  "is_digit c = (48 \<le> (of_char c :: nat) \<and> (of_char c :: nat) \<le> 57)"

definition digit_value :: "char \<Rightarrow> nat" where
  "digit_value c = of_char c - 48"

lemma of_char_digit_char: "d < 10 \<Longrightarrow> (of_char (digit_char d) :: nat) = 48 + d"
  by (simp add: digit_char_def of_char_of)

lemma is_digit_digit_char [simp]: "d < 10 \<Longrightarrow> is_digit (digit_char d)"
  by (simp add: is_digit_def of_char_digit_char)

lemma digit_value_digit_char [simp]: "d < 10 \<Longrightarrow> digit_value (digit_char d) = d"
  by (simp add: digit_value_def of_char_digit_char)

lemma show_nat_digits: "c \<in> set (show_nat n) \<Longrightarrow> is_digit c"
  by (induction n rule: show_nat.induct) (subst (asm) show_nat.simps, auto split: if_splits)

lemma show_nat_not_Nil [simp]: "show_nat n \<noteq> []"
  by (subst show_nat.simps) simp

definition decimal :: "string \<Rightarrow> nat" where
  "decimal s = foldl (\<lambda>v c. v * 10 + digit_value c) 0 s"

lemma decimal_snoc [simp]: "decimal (s @ [c]) = decimal s * 10 + digit_value c"
  by (simp add: decimal_def)

lemma decimal_show_nat [simp]: "decimal (show_nat n) = n"
proof (induction n rule: show_nat.induct)
  case (1 n)
  show ?case
  proof (cases "n < 10")
    case True
    then show ?thesis by (subst show_nat.simps) (simp add: decimal_def)
  next
    case False
    with 1 have "decimal (show_nat (n div 10)) = n div 10" by simp
    with False show ?thesis by (subst show_nat.simps) simp
  qed
qed

text \<open>
  \<open>atoi\<close> and the digits of \<open>strtol\<close>: white space, a sign, digits. (The C library leaves
  overflow of \<open>atoi\<close> undefined; here the value is unbounded.)
\<close>

definition is_space :: "char \<Rightarrow> bool" where
  "is_space c = (let n = (of_char c :: nat) in n = 32 \<or> (9 \<le> n \<and> n \<le> 13))"

definition signed_numeral :: "string \<Rightarrow> int \<times> string \<times> string" where
  "signed_numeral s =
     (let t = dropWhile is_space s;
          neg = (t \<noteq> [] \<and> hd t = CHR ''-'');
          u = (if t \<noteq> [] \<and> (hd t = CHR ''-'' \<or> hd t = CHR ''+'') then tl t else t);
          ds = takeWhile is_digit u
      in (if neg then - int (decimal ds) else int (decimal ds), ds, dropWhile is_digit u))"

definition atoi :: "string \<Rightarrow> int" where
  "atoi s = fst (signed_numeral s)"

end
