(* ===== verification/Frame_Protocol.thy ===== *)
theory Frame_Protocol
  imports Spaces_Prelude
begin

text \<open>
  The framing of the authentication sockets, \<open>src/native/protocol.h\<close>: a packed ten-byte
  header (magic, version, type, payload size in network order) and at most 16 KiB of payload.

  A connected stream socket is a record: what \<open>read\<close> will deliver is a list of arrivals (data,
  an interruption by a signal, an error, the end of the stream), what \<open>write\<close> will do is a list
  of write outcomes (so many bytes taken, an interruption, an error), and \<open>sent\<close> is what the
  kernel has taken so far. A call that finds its list empty blocks. Every loop of the source is
  the recursive function of the same name; the loops end because each round consumes an entry.
\<close>

unbundle bit_operations_syntax

type_synonym byte = "8 word"

datatype arrival = Data byte "byte list" | Intr | RdErr | Eof

datatype acceptance = Takes nat | WrIntr | WrErr

record sock =
  arrivals :: "arrival list"
  acceptances :: "acceptance list"
  sent :: "byte list"

datatype 'a outcome = Done 'a | Failed | Blocks

definition SPACES_MAGIC :: "32 word" where "SPACES_MAGIC = 0x53504155"
definition SPACES_VERSION :: byte where "SPACES_VERSION = 2"
definition SPACES_MAX_PAYLOAD :: nat where "SPACES_MAX_PAYLOAD = 16 * 1024"

text \<open>The message types of \<open>enum spaces_message_type\<close>, at their wire values.\<close>

definition SPACES_AUTHENTICATE :: byte where "SPACES_AUTHENTICATE = 2"
definition SPACES_READY :: byte where "SPACES_READY = 4"
definition SPACES_ERROR :: byte where "SPACES_ERROR = 5"
definition SPACES_RESULT :: byte where "SPACES_RESULT = 6"
definition SPACES_PAM_MESSAGE :: byte where "SPACES_PAM_MESSAGE = 7"
definition SPACES_PAM_RESPONSE :: byte where "SPACES_PAM_RESPONSE = 8"
definition SPACES_CANCEL :: byte where "SPACES_CANCEL = 9"

lemmas message_types = SPACES_AUTHENTICATE_def SPACES_READY_def SPACES_ERROR_def SPACES_RESULT_def
  SPACES_PAM_MESSAGE_def SPACES_PAM_RESPONSE_def SPACES_CANCEL_def

section \<open>Network byte order\<close>

definition htonl_bytes :: "32 word \<Rightarrow> byte list" where
  "htonl_bytes w = [ucast (drop_bit 24 w), ucast (drop_bit 16 w), ucast (drop_bit 8 w), ucast w]"

fun ntohl_bytes :: "byte list \<Rightarrow> 32 word" where
  "ntohl_bytes [a, b, c, d] =
     push_bit 24 (ucast a) OR push_bit 16 (ucast b) OR push_bit 8 (ucast c) OR ucast d"
| "ntohl_bytes _ = 0"

section \<open>The byte loops\<close>

fun spaces_write_all :: "byte list \<Rightarrow> acceptance list \<Rightarrow> byte list \<Rightarrow> unit outcome \<times> acceptance list \<times> byte list" where
  "spaces_write_all [] as out = (Done (), as, out)"
| "spaces_write_all (b # bs) [] out = (Blocks, [], out)"
| "spaces_write_all (b # bs) (WrIntr # as) out = spaces_write_all (b # bs) as out"
| "spaces_write_all (b # bs) (WrErr # as) out = (Failed, as, out)"
| "spaces_write_all (b # bs) (Takes k # as) out =
     spaces_write_all (drop k (b # bs)) as (out @ take k (b # bs))"

function spaces_read_all :: "nat \<Rightarrow> byte list \<Rightarrow> arrival list \<Rightarrow> byte list outcome \<times> arrival list" where
  "spaces_read_all 0 acc es = (Done acc, es)"
| "spaces_read_all (Suc n) acc [] = (Blocks, [])"
| "spaces_read_all (Suc n) acc (Eof # es) = (Failed, Eof # es)"
| "spaces_read_all (Suc n) acc (Intr # es) = spaces_read_all (Suc n) acc es"
| "spaces_read_all (Suc n) acc (RdErr # es) = (Failed, es)"
| "spaces_read_all (Suc n) acc (Data b bs # es) =
     spaces_read_all (n - length bs) (acc @ b # take n bs)
       (case drop n bs of [] \<Rightarrow> es | c # cs \<Rightarrow> Data c cs # es)"
  by pat_completeness auto
termination by (relation "measures [\<lambda>(n, _, _). n, \<lambda>(_, _, es). length es]") auto

section \<open>Frames\<close>

definition frame_bytes :: "byte \<Rightarrow> byte list \<Rightarrow> byte list" where
  "frame_bytes type payload =
     htonl_bytes SPACES_MAGIC @ [SPACES_VERSION, type] @ htonl_bytes (of_nat (length payload)) @ payload"

definition write_sock :: "byte list \<Rightarrow> sock \<Rightarrow> unit outcome \<times> sock" where
  "write_sock bs s =
     (case spaces_write_all bs (acceptances s) (sent s) of
        (r, as, out) \<Rightarrow> (r, s\<lparr>acceptances := as, sent := out\<rparr>))"

definition read_sock :: "nat \<Rightarrow> sock \<Rightarrow> byte list outcome \<times> sock" where
  "read_sock n s = (case spaces_read_all n [] (arrivals s) of (r, es) \<Rightarrow> (r, s\<lparr>arrivals := es\<rparr>))"

definition spaces_send_frame :: "byte \<Rightarrow> byte list \<Rightarrow> sock \<Rightarrow> unit outcome \<times> sock" where
  "spaces_send_frame type payload s =
     (if length payload > SPACES_MAX_PAYLOAD then (Failed, s)
      else
        let header = htonl_bytes SPACES_MAGIC @ [SPACES_VERSION, type]
                       @ htonl_bytes (of_nat (length payload))
        in case write_sock header s of
             (Done _, s') \<Rightarrow> if payload \<noteq> [] then write_sock payload s' else (Done (), s')
           | (r, s') \<Rightarrow> (r, s'))"

text \<open>
  \<open>alloc\<close> tells whether \<open>calloc\<close> yields a buffer of the given size. The received buffer is one
  byte longer than the payload and zeroed, so that it can be read as a C string; its contents
  are the payload.
\<close>

definition spaces_recv_frame :: "(nat \<Rightarrow> bool) \<Rightarrow> sock \<Rightarrow> (byte \<times> byte list) outcome \<times> sock" where
  "spaces_recv_frame alloc s =
     (case read_sock 10 s of
        (Done h, s1) \<Rightarrow>
          (let magic = ntohl_bytes (take 4 h); version = h ! 4; type = h ! 5;
               decoded_size = ntohl_bytes (drop 6 h)
           in if magic \<noteq> SPACES_MAGIC \<or> version \<noteq> SPACES_VERSION
                 \<or> unat decoded_size > SPACES_MAX_PAYLOAD
              then (Failed, s1)
              else if decoded_size = 0 then (Done (type, []), s1)
              else if \<not> alloc (unat decoded_size + 1) then (Failed, s1)
              else (case read_sock (unat decoded_size) s1 of
                      (Done value, s2) \<Rightarrow> (Done (type, value), s2)
                    | (Failed, s2) \<Rightarrow> (Failed, s2)
                    | (Blocks, s2) \<Rightarrow> (Blocks, s2)))
      | (Failed, s1) \<Rightarrow> (Failed, s1)
      | (Blocks, s1) \<Rightarrow> (Blocks, s1))"

text \<open>\<open>spaces_erase\<close> zeroes the first \<open>size\<close> bytes of a buffer.\<close>

fun spaces_erase :: "byte list \<Rightarrow> nat \<Rightarrow> byte list" where
  "spaces_erase bs 0 = bs"
| "spaces_erase [] (Suc n) = []"
| "spaces_erase (b # bs) (Suc n) = 0 # spaces_erase bs n"

section \<open>What a socket carries\<close>

primrec arrival_bytes :: "arrival \<Rightarrow> byte list" where
  "arrival_bytes (Data b bs) = b # bs"
| "arrival_bytes Intr = []"
| "arrival_bytes RdErr = []"
| "arrival_bytes Eof = []"

definition in_bytes :: "arrival list \<Rightarrow> byte list" where
  "in_bytes es = concat (map arrival_bytes es)"

text \<open>A healthy stream: data in pieces of any size, interrupted any number of times.\<close>

definition healthy :: "arrival list \<Rightarrow> bool" where
  "healthy es = (RdErr \<notin> set es \<and> Eof \<notin> set es)"

lemma in_bytes_simps [simp]:
  "in_bytes [] = []"
  "in_bytes (Data b bs # es) = b # bs @ in_bytes es"
  "in_bytes (Intr # es) = in_bytes es"
  "in_bytes (RdErr # es) = in_bytes es"
  "in_bytes (Eof # es) = in_bytes es"
  by (simp_all add: in_bytes_def)

lemma healthy_simps [simp]:
  "healthy []"
  "healthy (Data b bs # es) = healthy es"
  "healthy (Intr # es) = healthy es"
  "\<not> healthy (RdErr # es)"
  "\<not> healthy (Eof # es)"
  by (auto simp: healthy_def)

lemma ntohl_htonl [simp]: "ntohl_bytes (htonl_bytes w) = w"
proof (rule bit_word_eqI)
  fix n
  assume "n < LENGTH(32)"
  then consider "n < 8" | "8 \<le> n" "n < 16" | "16 \<le> n" "n < 24" | "24 \<le> n" "n < 32"
    by (simp, linarith)
  then show "bit (ntohl_bytes (htonl_bytes w)) n = bit w n"
    unfolding htonl_bytes_def ntohl_bytes.simps by cases (auto simp: bit_simps)
qed

lemma length_htonl [simp]: "length (htonl_bytes w) = 4"
  by (simp add: htonl_bytes_def)

section \<open>Reading and writing\<close>

lemma read_all_Done:
  "spaces_read_all n acc es = (Done r, es') \<Longrightarrow>
     \<exists>d. r = acc @ d \<and> length d = n \<and> in_bytes es = d @ in_bytes es'"
proof (induction n acc es rule: spaces_read_all.induct)
  case (6 n acc b bs es)
  obtain d where d: "r = (acc @ b # take n bs) @ d" "length d = n - length bs"
    "in_bytes (case drop n bs of [] \<Rightarrow> es | c # cs \<Rightarrow> Data c cs # es) = d @ in_bytes es'"
    using 6 by auto
  have "drop n bs @ in_bytes es = d @ in_bytes es'"
    using d(3) by (simp split: list.splits)
  then have "bs @ in_bytes es = take n bs @ d @ in_bytes es'"
    by (metis append_assoc append_take_drop_id)
  then show ?case using d(1,2) by (auto intro!: exI [of _ "b # take n bs @ d"])
qed auto

lemma read_all_healthy:
  "healthy es \<Longrightarrow> n \<le> length (in_bytes es) \<Longrightarrow>
     \<exists>es'. spaces_read_all n acc es = (Done (acc @ take n (in_bytes es)), es')
       \<and> in_bytes es' = drop n (in_bytes es) \<and> healthy es'"
proof (induction n acc es rule: spaces_read_all.induct)
  case (6 n acc b bs es)
  show ?case
  proof (cases "drop n bs")
    case Nil
    then have "length bs \<le> n" by simp
    with 6 Nil show ?thesis by fastforce
  next
    case (Cons c cs)
    then have "n < length bs" by (metis drop_all list.distinct(1) not_less)
    with Cons 6(2) show ?thesis by simp
  qed
qed auto

lemma read_all_short:
  "healthy es \<Longrightarrow> length (in_bytes es) < n \<Longrightarrow> spaces_read_all n acc es = (Blocks, [])"
proof (induction n acc es rule: spaces_read_all.induct)
  case (6 n acc b bs es)
  then show ?case by (auto split: list.splits)
qed auto

text \<open>What a read leaves is smaller whenever it asked for anything and did not block.\<close>

definition pending :: "arrival list \<Rightarrow> nat" where
  "pending es = length es + length (in_bytes es)"

lemma read_all_pending:
  "spaces_read_all n acc es = (Done r, es') \<Longrightarrow> pending es' + n \<le> pending es"
proof (induction n acc es rule: spaces_read_all.induct)
  case (6 n acc b bs es)
  show ?case
  proof (cases "drop n bs")
    case Nil
    with 6 show ?thesis by (auto simp: pending_def)
  next
    case (Cons c cs)
    then have "n < length bs" by (metis drop_all list.distinct(1) not_less)
    moreover have "Suc (length cs) = length bs - n"
      using arg_cong [OF Cons, of length] by simp
    ultimately show ?thesis using 6(2) Cons by (auto simp: pending_def)
  qed
qed (auto simp: pending_def)

text \<open>
  A peer that keeps taking data: \<open>progress\<close> counts the writes that take at least one byte.
\<close>

fun progress :: "acceptance list \<Rightarrow> nat" where
  "progress [] = 0"
| "progress (Takes k # as) = (if k = 0 then 0 else 1) + progress as"
| "progress (WrIntr # as) = progress as"
| "progress (WrErr # as) = progress as"

lemma write_all_ok:
  "WrErr \<notin> set as \<Longrightarrow> length bs \<le> progress as \<Longrightarrow>
     \<exists>as'. spaces_write_all bs as out = (Done (), as', out @ bs) \<and> set as' \<subseteq> set as
       \<and> progress as \<le> progress as' + length bs"
proof (induction bs as out rule: spaces_write_all.induct)
  case (5 b bs k as out)
  then have "length (drop k (b # bs)) \<le> progress as" by (auto split: if_splits)
  with 5 obtain as' where "spaces_write_all (drop k (b # bs)) as (out @ take k (b # bs))
      = (Done (), as', (out @ take k (b # bs)) @ drop k (b # bs))" "set as' \<subseteq> set as"
      "progress as \<le> progress as' + length (drop k (b # bs))"
    by fastforce
  then show ?case by (auto split: if_splits)
qed auto

lemma write_all_prefix:
  "spaces_write_all bs as out = (r, as', out') \<Longrightarrow>
     \<exists>n. out' = out @ take n bs \<and> (r = Done () \<longrightarrow> out' = out @ bs)"
proof (induction bs as out rule: spaces_write_all.induct)
  case (5 b bs k as out)
  then obtain n where n: "out' = (out @ take k (b # bs)) @ take n (drop k (b # bs))"
    "r = Done () \<longrightarrow> out' = (out @ take k (b # bs)) @ drop k (b # bs)"
    by fastforce
  have "out' = out @ take (k + n) (b # bs)"
    using n(1) by (simp add: take_add)
  with n(2) show ?case by (metis append_assoc append_take_drop_id)
qed auto

section \<open>Frames on the wire\<close>

lemma length_frame_bytes: "length (frame_bytes t p) = 10 + length p"
  by (simp add: frame_bytes_def)

lemma payload_size_word:
  "length p \<le> SPACES_MAX_PAYLOAD \<Longrightarrow> unat (of_nat (length p) :: 32 word) = length p"
  by (simp add: SPACES_MAX_PAYLOAD_def unat_of_nat)

text \<open>The fields of a header, read back from its ten bytes.\<close>

lemma header_fields:
  fixes w :: "32 word" and t :: byte
  defines "h \<equiv> htonl_bytes SPACES_MAGIC @ [SPACES_VERSION, t] @ htonl_bytes w"
  shows "ntohl_bytes (take 4 h) = SPACES_MAGIC" "h ! 4 = SPACES_VERSION" "h ! 5 = t"
    "ntohl_bytes (drop 6 h) = w" "length h = 10"
  by (simp_all add: h_def nth_append)

lemma bytes4: "length bs = 4 \<Longrightarrow> \<exists>a b c d. bs = [a, b, c, d]"
  by (auto simp: length_Suc_conv eval_nat_numeral)

lemma htonl_ntohl: "length bs = 4 \<Longrightarrow> htonl_bytes (ntohl_bytes bs) = bs"
proof -
  assume "length bs = 4"
  then obtain a b c d where "bs = [a, b, c, d]" using bytes4 by blast
  then show ?thesis
    by (simp add: htonl_bytes_def) (intro conjI; rule bit_word_eqI; auto simp: bit_simps dest: bit_imp_le_length)
qed

lemma header_inv:
  assumes "length h = 10" "ntohl_bytes (take 4 h) = SPACES_MAGIC" "h ! 4 = SPACES_VERSION"
  shows "h = htonl_bytes SPACES_MAGIC @ [SPACES_VERSION, h ! 5] @ htonl_bytes (ntohl_bytes (drop 6 h))"
proof -
  have "take 4 h = htonl_bytes SPACES_MAGIC"
    using htonl_ntohl [of "take 4 h"] assms(1,2) by simp
  moreover have "drop 4 h = [h ! 4, h ! 5] @ drop 6 h"
    using assms(1) by (simp add: Cons_nth_drop_Suc numeral_eq_Suc)
  moreover have "htonl_bytes (ntohl_bytes (drop 6 h)) = drop 6 h"
    using htonl_ntohl [of "drop 6 h"] assms(1) by simp
  ultimately show ?thesis
    using assms(3) by (metis append_take_drop_id append.assoc)
qed

lemma read_sock_Done:
  "read_sock n s = (Done d, s') \<Longrightarrow>
     length d = n \<and> in_bytes (arrivals s) = d @ in_bytes (arrivals s')
       \<and> acceptances s' = acceptances s \<and> sent s' = sent s
       \<and> pending (arrivals s') + n \<le> pending (arrivals s)"
  by (auto simp: read_sock_def dest: read_all_Done read_all_pending split: prod.splits)

lemma read_sock_healthy:
  assumes "healthy (arrivals s)" "n \<le> length (in_bytes (arrivals s))"
  shows "\<exists>s'. read_sock n s = (Done (take n (in_bytes (arrivals s))), s')
           \<and> in_bytes (arrivals s') = drop n (in_bytes (arrivals s)) \<and> healthy (arrivals s')
           \<and> acceptances s' = acceptances s \<and> sent s' = sent s"
  using read_all_healthy [OF assms, of "[]"] by (auto simp: read_sock_def)

lemma recv_frame_layout:
  assumes "spaces_recv_frame alloc s = (Done (t, p), s')"
  shows "in_bytes (arrivals s) = frame_bytes t p @ in_bytes (arrivals s')
    \<and> length p \<le> SPACES_MAX_PAYLOAD \<and> acceptances s' = acceptances s \<and> sent s' = sent s"
proof -
  obtain h s1 where h: "read_sock 10 s = (Done h, s1)"
    using assms by (auto simp: spaces_recv_frame_def split: prod.splits outcome.splits)
  let ?n = "ntohl_bytes (drop 6 h)"
  note a = assms [unfolded spaces_recv_frame_def h, simplified, unfolded Let_def]
  from a have m: "ntohl_bytes (take 4 h) = SPACES_MAGIC" "h ! 4 = SPACES_VERSION"
    and le: "unat ?n \<le> SPACES_MAX_PAYLOAD"
    by (auto split: if_splits)
  from h have l: "length h = 10" and b: "in_bytes (arrivals s) = h @ in_bytes (arrivals s1)"
    and f1: "acceptances s1 = acceptances s" "sent s1 = sent s"
    by (auto dest: read_sock_Done)
  have hd: "h = htonl_bytes SPACES_MAGIC @ [SPACES_VERSION, h ! 5] @ htonl_bytes ?n"
    using header_inv [OF l m] .
  have p: "t = h ! 5" "length p = unat ?n" "in_bytes (arrivals s1) = p @ in_bytes (arrivals s')"
    "acceptances s' = acceptances s1" "sent s' = sent s1"
    using a m le by (auto split: if_splits prod.splits outcome.splits dest: read_sock_Done)
  then have "(of_nat (length p) :: 32 word) = ?n" by simp
  with p b hd f1 le show ?thesis
    unfolding frame_bytes_def by (metis append.assoc)
qed

text \<open>C32. \<open>spaces_recv_frame\<close> returns a frame only if the bytes it consumed are exactly that
  frame as \<open>spaces_send_frame\<close> lays it out (magic, version, type, size in network order, payload),
  with a payload of at most 16 KiB, and it leaves the rest of the stream and the sending side
  untouched.\<close>

theorem recv_frame_sound:
  assumes "spaces_recv_frame alloc s = (Done (t, p), s')"
  shows "in_bytes (arrivals s) = frame_bytes t p @ in_bytes (arrivals s')
    \<and> length p \<le> SPACES_MAX_PAYLOAD \<and> acceptances s' = acceptances s \<and> sent s' = sent s"
  by (rule recv_frame_layout [OF assms])

theorem recv_frame_sound_witness:
  "\<exists>s'. spaces_recv_frame (\<lambda>_. True)
      \<lparr>arrivals = [Data 0x53 [0x50, 0x41], Intr, Data 0x55 [2, 6, 0, 0, 0, 4], Intr, Data 0 [0, 0, 0, 9] ],
       acceptances = [], sent = []\<rparr> = (Done (6, [0, 0, 0, 0]), s')
    \<and> in_bytes (arrivals s') = [9]"
proof -
  let ?s = "\<lparr>arrivals = [Data 0x53 [0x50, 0x41], Intr, Data 0x55 [2, 6, 0, 0, 0, 4], Intr, Data 0 [0, 0, 0, 9] ],
       acceptances = [], sent = []\<rparr> :: sock"
  have r: "spaces_recv_frame (\<lambda>_. True) ?s
      = (Done (6, [0, 0, 0, 0]), \<lparr>arrivals = [Data 9 [] ], acceptances = [], sent = []\<rparr>)"
    by code_simp
  from recv_frame_sound [OF r] r show ?thesis by (simp add: frame_bytes_def)
qed

lemma recv_frame_pending:
  assumes "spaces_recv_frame alloc s = (Done f, s')"
  shows "pending (arrivals s') < pending (arrivals s)"
proof -
  obtain h s1 where h: "read_sock 10 s = (Done h, s1)"
    using assms by (auto simp: spaces_recv_frame_def split: prod.splits outcome.splits)
  then have "pending (arrivals s1) < pending (arrivals s)"
    by (auto dest: read_sock_Done)
  moreover have "pending (arrivals s') \<le> pending (arrivals s1)"
    using assms [unfolded spaces_recv_frame_def h, simplified, unfolded Let_def]
    by (auto split: if_splits prod.splits outcome.splits dest: read_sock_Done)
  ultimately show ?thesis by simp
qed

lemma recv_frame_complete:
  assumes hl: "healthy (arrivals s)" and b: "in_bytes (arrivals s) = frame_bytes t p @ rest"
    and len: "length p \<le> SPACES_MAX_PAYLOAD" and mem: "alloc (length p + 1)"
  shows "\<exists>s'. spaces_recv_frame alloc s = (Done (t, p), s') \<and> in_bytes (arrivals s') = rest
      \<and> healthy (arrivals s') \<and> acceptances s' = acceptances s \<and> sent s' = sent s"
proof -
  let ?h = "htonl_bytes SPACES_MAGIC @ [SPACES_VERSION, t] @ htonl_bytes (of_nat (length p))"
  note hf = header_fields [of t "of_nat (length p)"]
  have bs: "in_bytes (arrivals s) = ?h @ p @ rest" using b by (simp add: frame_bytes_def)
  obtain s1 where s1: "read_sock 10 s = (Done ?h, s1)" "in_bytes (arrivals s1) = p @ rest"
    "healthy (arrivals s1)" "acceptances s1 = acceptances s" "sent s1 = sent s"
    using read_sock_healthy [OF hl, of 10] by (auto simp: bs)
  have n: "unat (of_nat (length p) :: 32 word) = length p"
    using len by (rule payload_size_word)
  have z: "(of_nat (length p) :: 32 word) = 0 \<longleftrightarrow> p = []"
    using n by (metis length_0_conv unat_eq_zero)
  show ?thesis
  proof (cases "p = []")
    case True
    with s1 hf len show ?thesis
      by (auto simp: spaces_recv_frame_def Let_def)
  next
    case False
    obtain s2 where "read_sock (length p) s1 = (Done p, s2)" "in_bytes (arrivals s2) = rest"
      "healthy (arrivals s2)" "acceptances s2 = acceptances s" "sent s2 = sent s"
      using read_sock_healthy [OF s1(3), of "length p"] s1 by auto
    with False s1 hf len mem n z show ?thesis
      by (auto simp: spaces_recv_frame_def Let_def)
  qed
qed

lemma send_frame_Done:
  assumes "spaces_send_frame t p s = (Done u, s')"
  shows "sent s' = sent s @ frame_bytes t p \<and> length p \<le> SPACES_MAX_PAYLOAD \<and> arrivals s' = arrivals s"
  using assms
  by (auto simp: spaces_send_frame_def write_sock_def frame_bytes_def Let_def
      split: if_splits prod.splits outcome.splits dest!: write_all_prefix)

lemma send_frame_prefix:
  assumes "spaces_send_frame t p s = (x, s')"
  shows "\<exists>n. sent s' = sent s @ take n (frame_bytes t p)"
proof -
  define h where "h = htonl_bytes SPACES_MAGIC @ [SPACES_VERSION, t] @ htonl_bytes (of_nat (length p))"
  have fb: "frame_bytes t p = h @ p" "length h = 10" by (simp_all add: frame_bytes_def h_def)
  note send = assms [unfolded spaces_send_frame_def Let_def, folded h_def]
  have w: "\<exists>n. sent s2 = sent s1 @ take n bs \<and> (y = Done () \<longrightarrow> sent s2 = sent s1 @ bs)"
    if ws: "write_sock bs s1 = (y, s2)" for bs s1 y s2
  proof -
    obtain as out where e: "spaces_write_all bs (acceptances s1) (sent s1) = (y, as, out)"
      using ws by (auto simp: write_sock_def split: prod.splits)
    then have "sent s2 = out" using ws by (auto simp: write_sock_def)
    with write_all_prefix [OF e] show ?thesis by simp
  qed
  obtain y s1 where h: "write_sock h s = (y, s1)" by fastforce
  show ?thesis
  proof (cases "length p > SPACES_MAX_PAYLOAD \<or> y \<noteq> Done () \<or> p = []")
    case True
    then have "s' = s \<or> s' = s1"
      using send h by (auto split: if_splits outcome.splits)
    then show ?thesis
    proof
      assume "s' = s"
      then show ?thesis by (auto intro: exI [of _ 0])
    next
      assume "s' = s1"
      with w [OF h] obtain n where "sent s' = sent s @ take n h" by blast
      then have "sent s' = sent s @ take (min n 10) (frame_bytes t p)"
        using fb by (cases "n \<le> 10") auto
      then show ?thesis ..
    qed
  next
    case False
    then have p: "write_sock p s1 = (x, s')"
      using send h by (auto split: if_splits)
    obtain n where "sent s' = sent s1 @ take n p" using w [OF p] by blast
    moreover have "sent s1 = sent s @ h" using w [OF h] False by blast
    ultimately have "sent s' = sent s @ take (10 + n) (frame_bytes t p)"
      using fb by simp
    then show ?thesis ..
  qed
qed

lemma send_frame_ok:
  assumes "length p \<le> SPACES_MAX_PAYLOAD" "WrErr \<notin> set (acceptances s)"
    and "10 + length p \<le> progress (acceptances s)"
  shows "\<exists>s'. spaces_send_frame t p s = (Done (), s')"
proof -
  let ?h = "htonl_bytes SPACES_MAGIC @ [SPACES_VERSION, t] @ htonl_bytes (of_nat (length p))"
  obtain as where as: "spaces_write_all ?h (acceptances s) (sent s) = (Done (), as, sent s @ ?h)"
    "set as \<subseteq> set (acceptances s)" "progress (acceptances s) \<le> progress as + 10"
    using write_all_ok [OF assms(2), of ?h "sent s"] assms(3) by auto
  then have "WrErr \<notin> set as" "length p \<le> progress as" using assms(2,3) by auto
  from write_all_ok [OF this, of "sent s @ ?h"] as(1) assms(1) show ?thesis
    by (auto simp: spaces_send_frame_def write_sock_def Let_def)
qed

text \<open>C31. Framing round trip. Whatever \<open>spaces_send_frame\<close> reports as sent, a receiver whose stream
  delivers those bytes (in pieces of any size, with any number of interrupted reads, and followed
  by anything) gets back from \<open>spaces_recv_frame\<close> with the same type and payload, and the
  following bytes stay on its stream; and a frame that fits is reported as sent by any peer that
  takes enough bytes.\<close>

theorem frame_round_trip:
  assumes "length p \<le> SPACES_MAX_PAYLOAD"
    and "WrErr \<notin> set (acceptances s)" "10 + length p \<le> progress (acceptances s)"
    and "healthy (arrivals r)" and "alloc (length p + 1)"
    and "in_bytes (arrivals r) = drop (length (sent s)) (sent (snd (spaces_send_frame t p s))) @ rest"
  shows "fst (spaces_send_frame t p s) = Done ()
    \<and> (\<exists>r'. spaces_recv_frame alloc r = (Done (t, p), r') \<and> in_bytes (arrivals r') = rest)"
proof -
  obtain s' where s': "spaces_send_frame t p s = (Done (), s')"
    using send_frame_ok [OF assms(1-3)] by blast
  then have "in_bytes (arrivals r) = frame_bytes t p @ rest"
    using assms(6) send_frame_Done [OF s'] by simp
  from recv_frame_complete [of r t p rest alloc, OF assms(4) this assms(1) assms(5)] s' show ?thesis by auto
qed

theorem frame_round_trip_witness:
  "\<exists>r'. spaces_recv_frame (\<lambda>n. n \<le> 3)
      \<lparr>arrivals = [Intr, Data 0x53 [0x50, 0x41, 0x55, 2, 7], Data 0 [0, 0, 2, 65, 66, 5] ],
       acceptances = [], sent = []\<rparr> = (Done (7, [65, 66]), r') \<and> in_bytes (arrivals r') = [5]"
proof -
  let ?s = "\<lparr>arrivals = [], acceptances = replicate 12 (Takes 10), sent = [1]\<rparr> :: sock"
  let ?r = "\<lparr>arrivals = [Intr, Data 0x53 [0x50, 0x41, 0x55, 2, 7], Data 0 [0, 0, 2, 65, 66, 5] ],
       acceptances = [], sent = []\<rparr> :: sock"
  have "fst (spaces_send_frame 7 [65, 66] ?s) = Done ()
    \<and> (\<exists>r'. spaces_recv_frame (\<lambda>n. n \<le> 3) ?r = (Done (7, [65, 66]), r') \<and> in_bytes (arrivals r') = [5])"
  proof (rule frame_round_trip)
    show "10 + length [65 :: byte, 66] \<le> progress (acceptances ?s)" by code_simp
    show "in_bytes (arrivals ?r) =
      drop (length (sent ?s)) (sent (snd (spaces_send_frame 7 [65, 66] ?s))) @ [5]" by code_simp
  qed (auto simp: SPACES_MAX_PAYLOAD_def)
  then show ?thesis by simp
qed

text \<open>Every frame whose header does not carry the protocol's magic and version, or announces
  more than 16 KiB, is refused, whatever else the peer sends, and no payload byte of it is read.\<close>

theorem recv_frame_rejects:
  assumes "healthy (arrivals s)" "in_bytes (arrivals s) = h @ rest" "length h = 10"
    and "ntohl_bytes (take 4 h) \<noteq> SPACES_MAGIC \<or> h ! 4 \<noteq> SPACES_VERSION
      \<or> unat (ntohl_bytes (drop 6 h)) > SPACES_MAX_PAYLOAD"
  shows "fst (spaces_recv_frame alloc s) = Failed
    \<and> in_bytes (arrivals (snd (spaces_recv_frame alloc s))) = rest"
proof -
  obtain s1 where "read_sock 10 s = (Done h, s1)" "in_bytes (arrivals s1) = rest"
    using read_sock_healthy [OF assms(1), of 10] assms(2,3) by auto
  with assms(4) show ?thesis by (auto simp: spaces_recv_frame_def Let_def)
qed

theorem recv_frame_rejects_witness:
  "fst (spaces_recv_frame (\<lambda>_. True)
      \<lparr>arrivals = [Data 0x53 [0x50, 0x41, 0x55, 2, 6, 0, 0, 0x40, 1, 7] ], acceptances = [], sent = []\<rparr>) = Failed"
  using recv_frame_rejects [of "\<lparr>arrivals = [Data 0x53 [0x50, 0x41, 0x55, 2, 6, 0, 0, 0x40, 1, 7] ],
      acceptances = [], sent = []\<rparr>" "[0x53, 0x50, 0x41, 0x55, 2, 6, 0, 0, 0x40, 1]" "[7]" "\<lambda>_. True"]
  by (simp add: SPACES_MAX_PAYLOAD_def)

lemma erase_spec: "spaces_erase bs n = replicate (min n (length bs)) 0 @ drop n bs"
  by (induction bs n rule: spaces_erase.induct) auto

section \<open>The interface the relays use\<close>

text \<open>
  A framed stream: receiving a frame takes its layout off the incoming bytes, sending one appends
  its layout to the outgoing bytes and does not touch the incoming ones. What a client of such a
  stream has consumed is then a sequence of whole frames.
\<close>

locale framed_stream =
  fixes recv :: "'s \<Rightarrow> (byte \<times> byte list) outcome \<times> 's"
    and send :: "byte \<Rightarrow> byte list \<Rightarrow> 's \<Rightarrow> unit outcome \<times> 's"
    and incoming :: "'s \<Rightarrow> byte list"
    and outgoing :: "'s \<Rightarrow> byte list"
    and layout :: "byte \<Rightarrow> byte list \<Rightarrow> byte list"
  assumes recv_layout: "recv s = (Done (t, p), s') \<Longrightarrow>
      incoming s = layout t p @ incoming s' \<and> outgoing s' = outgoing s"
    and send_layout: "send t p s = (Done u, s') \<Longrightarrow> outgoing s' = outgoing s @ layout t p"
    and send_incoming: "send t p s = (r, s') \<Longrightarrow> incoming s' = incoming s"
begin

definition consumed :: "'s \<Rightarrow> (byte \<times> byte list) list \<Rightarrow> 's \<Rightarrow> bool" where
  "consumed s fs s' = (incoming s = concat (map (\<lambda>(t, p). layout t p) fs) @ incoming s')"

lemma consumed_refl [simp]: "consumed s [] s"
  by (simp add: consumed_def)

lemma consumed_recv:
  "recv s = (Done (t, p), s1) \<Longrightarrow> consumed s1 fs s' \<Longrightarrow> consumed s ((t, p) # fs) s'"
  by (auto simp: consumed_def dest: recv_layout)

lemma consumed_send: "send t p s = (r, s1) \<Longrightarrow> consumed s1 fs s' \<Longrightarrow> consumed s fs s'"
  by (auto simp: consumed_def dest: send_incoming)

lemma consumed_sent: "send t p s' = (r, s1) \<Longrightarrow> consumed s fs s' \<Longrightarrow> consumed s fs s1"
  by (auto simp: consumed_def dest: send_incoming)

end

lemma send_frame_arrivals: "spaces_send_frame t p s = (r, s') \<Longrightarrow> arrivals s' = arrivals s"
  by (auto simp: spaces_send_frame_def write_sock_def Let_def
      split: if_splits prod.splits outcome.splits)

interpretation frames: framed_stream "spaces_recv_frame alloc" spaces_send_frame
    "\<lambda>s. in_bytes (arrivals s)" sent frame_bytes for alloc
  by unfold_locales
    (auto dest: recv_frame_layout send_frame_Done send_frame_arrivals)

end
