(* ===== verification/Pam_Relay.thy ===== *)
theory Pam_Relay
  imports Frame_Protocol
begin

text \<open>
  The two ends of the authentication relay: the guest's PAM module
  \<open>src/native/pam_spaces.c\<close> (\<open>pam_sm_authenticate\<close> and its entry points) and the host's worker
  \<open>src/native/spaces_pam.c\<close> (\<open>worker_conversation\<close>, \<open>harden\<close>, \<open>main\<close>).

  The PAM library, the account database and the sockets they connect are parameters: \<open>pam_env\<close>
  and \<open>worker_env\<close>. A conversation function is called with everything it was asked before, so
  it may answer in any way. The contents of every secret buffer at the moment it is freed are
  recorded in \<open>freed\<close>.
\<close>

section \<open>Constants of Linux-PAM\<close>

definition PAM_SUCCESS :: int where "PAM_SUCCESS = 0"
definition PAM_SYSTEM_ERR :: int where "PAM_SYSTEM_ERR = 4"
definition PAM_BUF_ERR :: int where "PAM_BUF_ERR = 5"
definition PAM_PERM_DENIED :: int where "PAM_PERM_DENIED = 6"
definition PAM_AUTHINFO_UNAVAIL :: int where "PAM_AUTHINFO_UNAVAIL = 9"
definition PAM_USER_UNKNOWN :: int where "PAM_USER_UNKNOWN = 10"
definition PAM_MAXTRIES :: int where "PAM_MAXTRIES = 11"
definition PAM_CONV_ERR :: int where "PAM_CONV_ERR = 19"

lemmas pam_codes = PAM_SUCCESS_def PAM_SYSTEM_ERR_def PAM_BUF_ERR_def PAM_PERM_DENIED_def
  PAM_AUTHINFO_UNAVAIL_def PAM_USER_UNKNOWN_def PAM_MAXTRIES_def PAM_CONV_ERR_def

section \<open>The guest's PAM module\<close>

text \<open>What the application's conversation leaves in its response pointer.\<close>

datatype response = NullResponse | NullText | Text "byte list"

text \<open>A C string in a buffer ends before its first zero byte.\<close>

definition cstr :: "byte list \<Rightarrow> byte list" where
  "cstr bs = takeWhile (\<lambda>b. b \<noteq> 0) bs"

record pam_env =
  pam_get_user :: "string option"
  getpwnam_uid :: "string \<Rightarrow> 32 word option"
  connect_broker :: "sock option"
  calloc_ok :: "nat \<Rightarrow> bool"
  pam_conv_item :: bool
  conversation :: "(int \<times> byte list) list \<Rightarrow> int \<Rightarrow> byte list \<Rightarrow> int \<times> response"

record relay =
  rsock :: sock
  asked :: "(int \<times> byte list) list"
  freed :: "byte list list"

definition relay_send :: "byte \<Rightarrow> byte list \<Rightarrow> relay \<Rightarrow> unit outcome \<times> relay" where
  "relay_send t p r = (case spaces_send_frame t p (rsock r) of (x, s) \<Rightarrow> (x, r\<lparr>rsock := s\<rparr>))"

definition answer_of :: "response \<Rightarrow> byte list" where
  "answer_of x = (case x of Text bs \<Rightarrow> cstr bs | _ \<Rightarrow> [])"

definition free_response :: "response \<Rightarrow> relay \<Rightarrow> relay" where
  "free_response x r =
     (case x of Text bs \<Rightarrow> r\<lparr>freed := freed r @ [spaces_erase bs (length (cstr bs))]\<rparr> | _ \<Rightarrow> r)"

definition relay_message :: "pam_env \<Rightarrow> byte list \<Rightarrow> relay \<Rightarrow> int outcome \<times> relay" where
  "relay_message E payload r =
     (if length payload < 4 then (Done PAM_CONV_ERR, r)
      else
        let style = sint (ntohl_bytes (take 4 payload));
            text = drop 4 payload
        in if \<not> calloc_ok E (length text + 1) then (Done PAM_BUF_ERR, r)
           else if \<not> pam_conv_item E then (Done PAM_CONV_ERR, r)
           else (case conversation E (asked r) style (cstr text) of
             (result, response) \<Rightarrow>
               let r1 = r\<lparr>asked := asked r @ [(style, cstr text)]\<rparr>
               in if result \<noteq> PAM_SUCCESS then (Done result, r1)
                  else if length (answer_of response) > SPACES_MAX_PAYLOAD
                  then (Done PAM_MAXTRIES, free_response response r1)
                  else (case relay_send SPACES_PAM_RESPONSE (answer_of response) r1 of
                          (Done _, r2) \<Rightarrow> (Done PAM_SUCCESS, free_response response r2)
                        | (Failed, r2) \<Rightarrow> (Done PAM_SYSTEM_ERR, free_response response r2)
                        | (Blocks, r2) \<Rightarrow> (Blocks, r2))))"

lemma relay_send_arrivals:
  "relay_send t p r = (x, r') \<Longrightarrow> arrivals (rsock r') = arrivals (rsock r)"
  by (auto simp: relay_send_def dest: send_frame_arrivals split: prod.splits)

lemma free_response_sock [simp]: "rsock (free_response x r) = rsock r"
  by (simp add: free_response_def split: response.split)

lemma relay_message_arrivals:
  "relay_message E payload r = (x, r') \<Longrightarrow> arrivals (rsock r') = arrivals (rsock r)"
  by (auto simp: relay_message_def Let_def dest!: relay_send_arrivals
      split: if_splits prod.splits outcome.splits)

text \<open>
  The loop of \<open>pam_sm_authenticate\<close>. It ends because every frame it receives takes bytes off
  the socket and nothing puts any back.
\<close>

function auth_loop :: "pam_env \<Rightarrow> relay \<Rightarrow> int outcome \<times> relay" where
  "auth_loop E r =
     (case spaces_recv_frame (calloc_ok E) (rsock r) of
        (Blocks, s) \<Rightarrow> (Blocks, r\<lparr>rsock := s\<rparr>)
      | (Failed, s) \<Rightarrow> (Done PAM_AUTHINFO_UNAVAIL, r\<lparr>rsock := s\<rparr>)
      | (Done (type, payload), s) \<Rightarrow>
          let r1 = r\<lparr>rsock := s\<rparr>
          in if type = SPACES_READY then auth_loop E r1
             else if type = SPACES_PAM_MESSAGE
             then (case relay_message E payload r1 of
                     (Done result, r2) \<Rightarrow>
                       if result \<noteq> PAM_SUCCESS
                       then (case relay_send SPACES_CANCEL [] r2 of
                               (Blocks, r3) \<Rightarrow> (Blocks, r3)
                             | (_, r3) \<Rightarrow> (Done result, r3))
                       else auth_loop E r2
                   | (_, r2) \<Rightarrow> (Blocks, r2))
             else if type = SPACES_RESULT \<and> length payload = 4
             then (Done (sint (ntohl_bytes payload)), r1)
             else (Done (if type = SPACES_ERROR then PAM_AUTHINFO_UNAVAIL else PAM_SYSTEM_ERR), r1))"
  by pat_completeness auto
termination
  by (relation "measure (\<lambda>(E, r). pending (arrivals (rsock r)))")
    (auto dest!: recv_frame_pending [OF sym] relay_message_arrivals [OF sym])

declare auth_loop.simps [simp del]

definition string_bytes :: "string \<Rightarrow> byte list" where
  "string_bytes s = map (\<lambda>c. of_nat (of_char c)) s"

definition auth_request :: "32 word \<Rightarrow> string" where
  "auth_request uid = ''{'' @ [CHR 0x22] @ ''uid'' @ [CHR 0x22] @ '':'' @ show_nat (unat uid) @ ''}''"

definition pam_sm_authenticate :: "pam_env \<Rightarrow> int outcome \<times> relay option" where
  "pam_sm_authenticate E =
     (case pam_get_user E of
        None \<Rightarrow> (Done PAM_AUTHINFO_UNAVAIL, None)
      | Some user \<Rightarrow>
          (case getpwnam_uid E user of
             None \<Rightarrow> (Done PAM_USER_UNKNOWN, None)
           | Some uid \<Rightarrow>
               let request = auth_request uid
               in if length request \<ge> 64 then (Done PAM_SYSTEM_ERR, None)
                  else (case connect_broker E of
                     None \<Rightarrow> (Done PAM_AUTHINFO_UNAVAIL, None)
                   | Some s \<Rightarrow>
                       (case relay_send SPACES_AUTHENTICATE (string_bytes request)
                               \<lparr>rsock = s, asked = [], freed = []\<rparr> of
                          (Done _, r) \<Rightarrow> (case auth_loop E r of (x, r') \<Rightarrow> (x, Some r'))
                        | (Failed, r) \<Rightarrow> (Done PAM_AUTHINFO_UNAVAIL, Some r)
                        | (Blocks, r) \<Rightarrow> (Blocks, Some r)))))"

definition pam_sm_setcred :: int where "pam_sm_setcred = PAM_SUCCESS"
definition pam_sm_acct_mgmt :: int where "pam_sm_acct_mgmt = PAM_SUCCESS"
definition pam_sm_open_session :: int where "pam_sm_open_session = PAM_SUCCESS"
definition pam_sm_close_session :: int where "pam_sm_close_session = PAM_SUCCESS"
definition pam_sm_chauthtok :: int where "pam_sm_chauthtok = PAM_PERM_DENIED"

section \<open>The host's worker\<close>

record worker =
  wsock :: sock
  wfreed :: "byte list list"

type_synonym pam_conv = "(int \<times> byte list) list \<Rightarrow> worker \<Rightarrow> (int \<times> byte list option list) outcome \<times> worker"

text \<open>
  The PAM library calls back the conversation it was given, as often as its modules want:
  \<open>pam_authenticate\<close> and \<open>pam_acct_mgmt\<close> take it as an argument.
\<close>

record worker_env =
  fd_sock :: "int \<Rightarrow> sock"
  malloc_ok :: "nat \<Rightarrow> bool"
  f_getfd :: "int \<Rightarrow> int"
  f_getfl :: "int \<Rightarrow> int"
  f_setfd :: "int \<Rightarrow> int"
  f_setfl :: "int \<Rightarrow> int"
  setrlimit_core :: int
  prctl_dumpable :: int
  clearenv_result :: int
  setenv_lang :: int
  setenv_path :: int
  pam_start :: "string \<Rightarrow> int"
  pam_authenticate :: "pam_conv \<Rightarrow> worker \<Rightarrow> int outcome \<times> worker"
  pam_acct_mgmt :: "pam_conv \<Rightarrow> worker \<Rightarrow> int outcome \<times> worker"

definition worker_send :: "byte \<Rightarrow> byte list \<Rightarrow> worker \<Rightarrow> unit outcome \<times> worker" where
  "worker_send t p w = (case spaces_send_frame t p (wsock w) of (x, s) \<Rightarrow> (x, w\<lparr>wsock := s\<rparr>))"

definition worker_recv :: "worker_env \<Rightarrow> worker \<Rightarrow> (byte \<times> byte list) outcome \<times> worker" where
  "worker_recv E w = (case spaces_recv_frame (malloc_ok E) (wsock w) of (x, s) \<Rightarrow> (x, w\<lparr>wsock := s\<rparr>))"

definition message_payload :: "int \<times> byte list \<Rightarrow> byte list" where
  "message_payload m = htonl_bytes (word_of_int (fst m)) @ cstr (snd m)"

text \<open>The loop over the messages; \<open>None\<close> is the jump to \<open>fail\<close>, with the values read so far.\<close>

fun conversation_loop :: "worker_env \<Rightarrow> (int \<times> byte list) list \<Rightarrow> byte list option list \<Rightarrow> worker
    \<Rightarrow> (bool \<times> byte list option list) outcome \<times> worker" where
  "conversation_loop E [] values w = (Done (True, values), w)"
| "conversation_loop E (m # ms) values w =
     (let text_size = length (cstr (snd m))
      in if text_size + 4 > SPACES_MAX_PAYLOAD \<or> \<not> malloc_ok E (text_size + 4)
         then (Done (False, values), w)
         else (case worker_send SPACES_PAM_MESSAGE (message_payload m) w of
           (Blocks, w1) \<Rightarrow> (Blocks, w1)
         | (Failed, w1) \<Rightarrow> (Done (False, values), w1)
         | (Done _, w1) \<Rightarrow>
             (case worker_recv E w1 of
                (Blocks, w2) \<Rightarrow> (Blocks, w2)
              | (Failed, w2) \<Rightarrow> (Done (False, values), w2)
              | (Done (type, response), w2) \<Rightarrow>
                  if type \<noteq> SPACES_PAM_RESPONSE
                  then (Done (False, values), w2\<lparr>wfreed := wfreed w2 @ (if response = [] then [] else [response @ [0] ])\<rparr>)
                  else conversation_loop E ms
                         (values @ [if response = [] then None else Some response]) w2)))"

definition erase_values :: "byte list option list \<Rightarrow> byte list list" where
  "erase_values values =
     concat (map (\<lambda>v. case v of None \<Rightarrow> [] | Some b \<Rightarrow> [spaces_erase (b @ [0]) (length (cstr b))]) values)"

definition worker_conversation :: "worker_env \<Rightarrow> pam_conv" where
  "worker_conversation E messages w =
     (if length messages = 0 \<or> length messages > 32 then (Done (PAM_CONV_ERR, []), w)
      else if \<not> malloc_ok E (length messages) then (Done (PAM_BUF_ERR, []), w)
      else (case conversation_loop E messages [] w of
              (Done (True, values), w') \<Rightarrow> (Done (PAM_SUCCESS, values), w')
            | (Done (False, values), w') \<Rightarrow>
                (Done (PAM_CONV_ERR, []), w'\<lparr>wfreed := wfreed w' @ erase_values values\<rparr>)
            | (_, w') \<Rightarrow> (Blocks, w')))"

definition harden :: "worker_env \<Rightarrow> int" where
  "harden E =
     (if setrlimit_core E \<noteq> 0 then -1
      else if prctl_dumpable E \<noteq> 0 then -1
      else if clearenv_result E \<noteq> 0 then -1
      else if setenv_lang E \<noteq> 0 then -1
      else if setenv_path E \<noteq> 0 then -1
      else 0)"

fun worker_arguments :: "string list \<Rightarrow> int \<Rightarrow> string option \<Rightarrow> (int \<times> string option) option" where
  "worker_arguments [] fd user = Some (fd, user)"
| "worker_arguments [a] fd user = None"
| "worker_arguments (a # b # rest) fd user =
     (if a = ''--fd'' then worker_arguments rest (atoi b) user
      else if a = ''--user'' then worker_arguments rest fd (Some b)
      else None)"

definition worker_session :: "worker_env \<Rightarrow> string \<Rightarrow> worker \<Rightarrow> int outcome \<times> worker" where
  "worker_session E user w =
     (if pam_start E user \<noteq> PAM_SUCCESS then (Done (pam_start E user), w)
      else (case worker_send SPACES_READY [] w of
        (Blocks, w1) \<Rightarrow> (Blocks, w1)
      | (_, w1) \<Rightarrow>
          (case pam_authenticate E (worker_conversation E) w1 of
             (Done result, w2) \<Rightarrow>
               if result = PAM_SUCCESS then pam_acct_mgmt E (worker_conversation E) w2
               else (Done result, w2)
           | x \<Rightarrow> x)))"

definition worker_main :: "worker_env \<Rightarrow> string list \<Rightarrow> int outcome \<times> worker option" where
  "worker_main E args =
     (case worker_arguments args (-1) None of
        None \<Rightarrow> (Done 2, None)
      | Some (fd, user) \<Rightarrow>
          if fd < 0 \<or> user = None \<or> user = Some [] then (Done 2, None)
          else if f_getfd E fd < 0 \<or> f_getfl E fd < 0 \<or> f_setfd E fd \<noteq> 0 \<or> f_setfl E fd \<noteq> 0
          then (Done 1, None)
          else if harden E \<noteq> 0 then (Done 1, None)
          else (case worker_session E (the user) \<lparr>wsock = fd_sock E fd, wfreed = []\<rparr> of
             (Done result, w) \<Rightarrow>
               (case worker_send SPACES_RESULT (htonl_bytes (word_of_int result)) w of
                  (Blocks, w') \<Rightarrow> (Blocks, Some w')
                | (_, w') \<Rightarrow> (Done (if result = PAM_SUCCESS then 0 else 1), Some w'))
           | (_, w) \<Rightarrow> (Blocks, Some w)))"

section \<open>What the module sends and asks\<close>

text \<open>The conversation message a \<open>SPACES_PAM_MESSAGE\<close> payload carries.\<close>

definition pam_message_of :: "byte list \<Rightarrow> int \<times> byte list" where
  "pam_message_of p = (sint (ntohl_bytes (take 4 p)), cstr (drop 4 p))"

abbreviation stream_of :: "relay \<Rightarrow> byte list" where
  "stream_of r \<equiv> in_bytes (arrivals (rsock r))"

lemma relay_send_Done:
  "relay_send t p r = (Done u, r') \<Longrightarrow>
     sent (rsock r') = sent (rsock r) @ frame_bytes t p \<and> asked r' = asked r \<and> freed r' = freed r"
  by (auto simp: relay_send_def dest: send_frame_Done split: prod.splits)

lemma free_response_simps [simp]:
  "asked (free_response x r) = asked r"
  by (simp add: free_response_def split: response.split)

text \<open>What the application answers to messages it is asked in turn, all of which it has to take.\<close>

fun replies :: "pam_env \<Rightarrow> (int \<times> byte list) list \<Rightarrow> (int \<times> byte list) list \<Rightarrow> byte list list" where
  "replies E h [] = []"
| "replies E h ((style, text) # ms) = answer_of (snd (conversation E h style text)) # replies E (h @ [(style, text)]) ms"

fun all_taken :: "pam_env \<Rightarrow> (int \<times> byte list) list \<Rightarrow> (int \<times> byte list) list \<Rightarrow> bool" where
  "all_taken E h [] = True"
| "all_taken E h ((style, text) # ms) = (fst (conversation E h style text) = PAM_SUCCESS \<and> all_taken E (h @ [(style, text)]) ms)"

lemma relay_message_success:
  assumes "relay_message E p r = (Done PAM_SUCCESS, r')"
  shows "sent (rsock r') = sent (rsock r) @ concat (map (frame_bytes SPACES_PAM_RESPONSE) (replies E (asked r) [pam_message_of p]))
    \<and> all_taken E (asked r) [pam_message_of p] \<and> asked r' = asked r @ [pam_message_of p]"
  using assms
  by (auto simp: relay_message_def pam_message_of_def Let_def pam_codes dest!: relay_send_Done
      split: if_splits prod.splits outcome.splits)

definition messages_in :: "(byte \<times> byte list) list \<Rightarrow> byte list list" where
  "messages_in fs = map snd (filter (\<lambda>(t, p). t = SPACES_PAM_MESSAGE) fs)"

abbreviation layouts :: "(byte \<times> byte list) list \<Rightarrow> byte list" where
  "layouts fs \<equiv> concat (map (\<lambda>(t, p). frame_bytes t p) fs)"

lemma result_zero:
  assumes "length p = 4" "sint (ntohl_bytes p) = 0"
  shows "p = [0, 0, 0, 0]"
proof -
  have "ntohl_bytes p = 0" using assms(2) by (metis sint_0 signed_word_eqI)
  then show ?thesis using htonl_ntohl [OF assms(1)] by (simp add: htonl_bytes_def)
qed

text \<open>Invariant of the loop, for a run that ends in success.\<close>

definition relayed :: "pam_env \<Rightarrow> relay \<Rightarrow> (byte \<times> byte list) list \<Rightarrow> relay \<Rightarrow> bool" where
  "relayed E r fs r' \<longleftrightarrow>
     stream_of r = layouts fs @ frame_bytes SPACES_RESULT [0, 0, 0, 0] @ stream_of r'
   \<and> (\<forall>(t, p) \<in> set fs. t = SPACES_READY \<or> t = SPACES_PAM_MESSAGE)
   \<and> (let ms = map pam_message_of (messages_in fs) in
        asked r' = asked r @ ms \<and> all_taken E (asked r) ms
      \<and> sent (rsock r') = sent (rsock r) @ concat (map (frame_bytes SPACES_PAM_RESPONSE) (replies E (asked r) ms)))"

lemma relayed_ready:
  assumes "spaces_recv_frame alloc (rsock r) = (Done (SPACES_READY, p), s)"
    and "relayed E (r\<lparr>rsock := s\<rparr>) fs r'"
  shows "relayed E r ((SPACES_READY, p) # fs) r'"
  using assms recv_frame_layout [OF assms(1)]
  by (auto simp: relayed_def messages_in_def message_types Let_def)

lemma relayed_message:
  assumes "spaces_recv_frame alloc (rsock r) = (Done (SPACES_PAM_MESSAGE, p), s)"
    and "relay_message E p (r\<lparr>rsock := s\<rparr>) = (Done PAM_SUCCESS, r2)"
    and "relayed E r2 fs r'"
  shows "relayed E r ((SPACES_PAM_MESSAGE, p) # fs) r'"
  using assms(3) relay_message_success [OF assms(2)] relay_message_arrivals [OF assms(2)] recv_frame_layout [OF assms(1)]
  by (cases "pam_message_of p") (auto simp: relayed_def messages_in_def Let_def)

lemma auth_loop_success:
  "auth_loop E r = (Done PAM_SUCCESS, r') \<Longrightarrow> \<exists>fs. relayed E r fs r'"
proof (induction E r rule: auth_loop.induct)
  case (1 E r)
  note eq = "1.prems" [unfolded auth_loop.simps [of E r]]
  from eq obtain t p s where f: "spaces_recv_frame (calloc_ok E) (rsock r) = (Done (t, p), s)"
    by (auto simp: pam_codes split: prod.splits outcome.splits)
  consider "t = SPACES_READY" | "t = SPACES_PAM_MESSAGE" | "t \<noteq> SPACES_READY" "t \<noteq> SPACES_PAM_MESSAGE"
    by blast
  then show ?case
  proof cases
    case 1
    with eq f have "\<exists>fs. relayed E (r\<lparr>rsock := s\<rparr>) fs r'"
      using "1.IH" (1) by auto
    with 1 f show ?thesis by (auto dest: relayed_ready)
  next
    case 2
    with eq f obtain r2 where r2: "relay_message E p (r\<lparr>rsock := s\<rparr>) = (Done PAM_SUCCESS, r2)"
      "auth_loop E r2 = (Done PAM_SUCCESS, r')"
      by (auto simp: Let_def message_types split: prod.splits outcome.splits if_splits)
    have "\<exists>fs. relayed E r2 fs r'"
      using "1.IH" (2) f r2 2 by (simp add: message_types)
    with f 2 r2(1) show ?thesis by (auto dest: relayed_message)
  next
    case 3
    with eq f have "p = [0, 0, 0, 0]" "t = SPACES_RESULT" "r' = r\<lparr>rsock := s\<rparr>"
      by (auto simp: pam_codes Let_def dest: result_zero split: if_splits)
    with recv_frame_layout [OF f] show ?thesis
      by (intro exI [of _ "[]"]) (auto simp: relayed_def messages_in_def)
  qed
qed

text \<open>C28. The guest's \<open>pam_sm_authenticate\<close> grants access only on the broker's word: on whatever path it returns
  \<open>PAM_SUCCESS\<close>, it has resolved the user, connected to the broker and told it that user's uid, and the bytes it
  consumed from the broker are a sequence of READY and PAM_MESSAGE frames followed by a RESULT
  frame that carries four zero bytes. The application was asked exactly the messages of those
  PAM_MESSAGE frames, in order, and took each of them, and what was sent after the request is one PAM_RESPONSE frame
  with its answer to each of them and nothing else.\<close>

theorem authenticate_success:
  assumes "pam_sm_authenticate E = (Done PAM_SUCCESS, end_state)"
  shows "\<exists>r' user uid s fs.
    end_state = Some r' \<and> pam_get_user E = Some user \<and> getpwnam_uid E user = Some uid \<and> connect_broker E = Some s
    \<and> in_bytes (arrivals s) = layouts fs @ frame_bytes SPACES_RESULT [0, 0, 0, 0] @ stream_of r'
    \<and> (\<forall>(t, p) \<in> set fs. t = SPACES_READY \<or> t = SPACES_PAM_MESSAGE)
    \<and> asked r' = map pam_message_of (messages_in fs) \<and> all_taken E [] (asked r')
    \<and> sent (rsock r') = sent s @ frame_bytes SPACES_AUTHENTICATE (string_bytes (auth_request uid))
        @ concat (map (frame_bytes SPACES_PAM_RESPONSE) (replies E [] (asked r')))"
proof -
  from assms obtain r' user uid s r where e: "end_state = Some r'" "pam_get_user E = Some user" "getpwnam_uid E user = Some uid"
    "connect_broker E = Some s"
    and r: "relay_send SPACES_AUTHENTICATE (string_bytes (auth_request uid))
        \<lparr>rsock = s, asked = [], freed = []\<rparr> = (Done (), r)"
    and l: "auth_loop E r = (Done PAM_SUCCESS, r')"
    by (auto simp: pam_sm_authenticate_def pam_codes Let_def
        split: option.splits if_splits prod.splits outcome.splits)
  from auth_loop_success [OF l] obtain fs where "relayed E r fs r'" by blast
  with e relay_send_Done [OF r] relay_send_arrivals [OF r] show ?thesis
    unfolding relayed_def by (auto simp: case_prod_beta Let_def)
qed

definition granting_env :: pam_env where
  "granting_env = \<lparr>pam_get_user = Some ''ada'', getpwnam_uid = (\<lambda>u. if u = ''ada'' then Some 1000 else None),
     connect_broker = Some \<lparr>arrivals = [Data 0x53 [0x50, 0x41, 0x55, 2, 4, 0, 0, 0, 0], Intr,
        Data 0x53 [0x50, 0x41, 0x55, 2, 7, 0, 0, 0, 6, 0, 0, 0, 1, 80, 58],
        Data 0x53 [0x50, 0x41, 0x55, 2, 6, 0, 0, 0, 4, 0, 0, 0, 0] ],
        acceptances = replicate 6 (Takes 100), sent = []\<rparr>,
     calloc_ok = (\<lambda>_. True), pam_conv_item = True,
     conversation = (\<lambda>h style text. (PAM_SUCCESS, Text [112, 119]))\<rparr>"

lemma granting_env_run:
  "pam_sm_authenticate granting_env = (Done PAM_SUCCESS, Some \<lparr>
     rsock = \<lparr>arrivals = [], acceptances = replicate 2 (Takes 100),
       sent = frame_bytes SPACES_AUTHENTICATE (string_bytes (auth_request 1000))
         @ frame_bytes SPACES_PAM_RESPONSE [112, 119]\<rparr>,
     asked = [(1, [80, 58])], freed = [ [0, 0] ]\<rparr>)"
  by code_simp

theorem authenticate_success_witness:
  "\<exists>user uid. pam_get_user granting_env = Some user \<and> getpwnam_uid granting_env user = Some uid
     \<and> uid = 1000"
  using authenticate_success [OF granting_env_run] by (auto simp: granting_env_def)

section \<open>Secrets do not survive in freed memory\<close>

lemma cstr_all: "0 \<notin> set bs \<Longrightarrow> cstr bs = bs"
  by (auto simp: cstr_def takeWhile_eq_all_conv)

lemma erase_all: "0 \<notin> set bs \<Longrightarrow> spaces_erase bs (length (cstr bs)) = replicate (length bs) 0"
  by (simp add: erase_spec cstr_all)

lemma relay_send_freed: "relay_send t q r = (u, r') \<Longrightarrow> freed r' = freed r"
  by (auto simp: relay_send_def split: prod.splits)

definition all_zero :: "byte list \<Rightarrow> bool" where
  "all_zero bs = (\<forall>b \<in> set bs. b = 0)"

lemma relay_message_freed:
  assumes "relay_message E p r = (x, r')"
    and "\<And>h st tx c bs. conversation E h st tx = (c, Text bs) \<Longrightarrow> 0 \<notin> set bs"
    and "list_all all_zero (freed r)"
  shows "list_all all_zero (freed r')"
proof -
  have f: "list_all all_zero (freed (free_response y r1))"
    if "conversation E h st tx = (c, y)" "list_all all_zero (freed r1)" for h st tx c y r1
    using that assms(2) [of h st tx c]
    by (auto simp: free_response_def erase_all all_zero_def split: response.split)
  show ?thesis
    using assms(1,3) by (auto simp: relay_message_def Let_def intro: f dest!: relay_send_freed
        split: if_splits prod.splits outcome.splits)
qed

lemma auth_loop_freed:
  assumes "\<And>h st tx c bs. conversation E h st tx = (c, Text bs) \<Longrightarrow> 0 \<notin> set bs"
  shows "auth_loop E r = (x, r') \<Longrightarrow> list_all all_zero (freed r) \<Longrightarrow> list_all all_zero (freed r')"
  using assms
proof (induction E r rule: auth_loop.induct)
  case (1 E r)
  have m: "list_all all_zero (freed r2)" if "relay_message E p (r\<lparr>rsock := s\<rparr>) = (y, r2)" for p s y r2
    using relay_message_freed [OF that "1.prems" (3)] "1.prems" (2) by simp
  show ?case
    using "1.prems" (1,2) "1.IH" "1.prems" (3) unfolding auth_loop.simps [of E r]
    by (auto simp: Let_def dest: m dest!: relay_send_freed
        split: prod.splits outcome.splits if_splits)
qed

text \<open>C33. Every answer of the application's conversation (a C string) that the guest module frees
  has been overwritten with zero bytes first, on every path through \<open>pam_sm_authenticate\<close>,
  errors included.\<close>

theorem answers_erased:
  assumes "\<And>h st tx c bs. conversation E h st tx = (c, Text bs) \<Longrightarrow> 0 \<notin> set bs"
    and "pam_sm_authenticate E = (x, Some r')"
  shows "list_all all_zero (freed r')"
proof -
  have l: "list_all all_zero (freed r2)" if "auth_loop E r1 = (y, r2)" "freed r1 = []" for r1 y r2
    by (rule auth_loop_freed [OF assms(1) that(1)]) (simp_all add: that(2))
  show ?thesis
    using assms(2)
    by (auto simp: pam_sm_authenticate_def Let_def dest: l dest!: relay_send_freed
        split: option.splits if_splits prod.splits outcome.splits)
qed

theorem answers_erased_witness:
  "\<exists>x r'. pam_sm_authenticate granting_env = (x, Some r') \<and> freed r' = [ [0, 0] ] \<and> list_all all_zero (freed r')"
proof -
  have "list_all all_zero (freed r')" if "pam_sm_authenticate granting_env = (x, Some r')" for x r'
    by (rule answers_erased [OF _ that]) (auto simp: granting_env_def)
  then show ?thesis using granting_env_run by auto
qed

section \<open>The worker\<close>

lemma worker_send_Done:
  "worker_send t p w = (Done u, w') \<Longrightarrow>
     sent (wsock w') = sent (wsock w) @ frame_bytes t p \<and> arrivals (wsock w') = arrivals (wsock w)"
  by (auto simp: worker_send_def dest: send_frame_Done send_frame_arrivals split: prod.splits)

lemma worker_recv_Done:
  "worker_recv E w = (Done (t, p), w') \<Longrightarrow>
     in_bytes (arrivals (wsock w)) = frame_bytes t p @ in_bytes (arrivals (wsock w'))
     \<and> sent (wsock w') = sent (wsock w)"
  by (auto simp: worker_recv_def dest: recv_frame_layout split: prod.splits)

definition value_of :: "byte list \<Rightarrow> byte list option" where
  "value_of p = (if p = [] then None else Some p)"

lemma conversation_loop_ok:
  "conversation_loop E ms vs w = (Done (True, values), w') \<Longrightarrow>
     \<exists>ps. values = vs @ map value_of ps \<and> length ps = length ms
       \<and> sent (wsock w') = sent (wsock w) @ concat (map (\<lambda>m. frame_bytes SPACES_PAM_MESSAGE (message_payload m)) ms)
       \<and> in_bytes (arrivals (wsock w)) =
           concat (map (frame_bytes SPACES_PAM_RESPONSE) ps) @ in_bytes (arrivals (wsock w'))"
proof (induction ms arbitrary: vs w)
  case (Cons m ms)
  obtain w1 p w2 where w1: "worker_send SPACES_PAM_MESSAGE (message_payload m) w = (Done (), w1)"
    and w2: "worker_recv E w1 = (Done (SPACES_PAM_RESPONSE, p), w2)"
    and rest: "conversation_loop E ms (vs @ [value_of p]) w2 = (Done (True, values), w')"
    using Cons.prems by (auto simp: Let_def value_of_def split: if_splits prod.splits outcome.splits)
  obtain ps where "values = (vs @ [value_of p]) @ map value_of ps" "length ps = length ms"
    "sent (wsock w') = sent (wsock w2)
       @ concat (map (\<lambda>m. frame_bytes SPACES_PAM_MESSAGE (message_payload m)) ms)"
    "in_bytes (arrivals (wsock w2)) =
       concat (map (frame_bytes SPACES_PAM_RESPONSE) ps) @ in_bytes (arrivals (wsock w'))"
    using Cons.IH [OF rest] by blast
  then show ?case
    using worker_send_Done [OF w1] worker_recv_Done [OF w2]
    by (intro exI [of _ "p # ps"]) auto
qed auto

text \<open>The worker's conversation is lock-step and faithful: when it reports success it has sent one
  PAM_MESSAGE frame per message, in order, consumed exactly one PAM_RESPONSE frame for each, and
  hands those payloads back in order (an empty payload as a null response); and the guest module,
  receiving those message payloads, asks its application exactly the styles and texts that the
  host's PAM modules asked.\<close>

theorem worker_conversation_faithful:
  assumes "worker_conversation E ms w = (Done (PAM_SUCCESS, values), w')"
    and "\<forall>(style, text) \<in> set ms. - (2 ^ 31) \<le> style \<and> style < 2 ^ 31 \<and> 0 \<notin> set text"
  shows "\<exists>ps. values = map value_of ps \<and> length ps = length ms
      \<and> sent (wsock w') = sent (wsock w)
          @ concat (map (\<lambda>m. frame_bytes SPACES_PAM_MESSAGE (message_payload m)) ms)
      \<and> in_bytes (arrivals (wsock w)) =
          concat (map (frame_bytes SPACES_PAM_RESPONSE) ps) @ in_bytes (arrivals (wsock w'))
      \<and> map pam_message_of (map message_payload ms) = ms"
proof -
  have "sint (word_of_int st :: 32 word) = st" if "- (2 ^ 31) \<le> st" "st < 2 ^ 31" for st :: int
    using that by (simp add: sint_sbintrunc' signed_take_bit_int_eq_self)
  then have "pam_message_of (message_payload m) = m" if "m \<in> set ms" for m
    using assms(2) that by (auto simp: pam_message_of_def message_payload_def cstr_all)
  then have "map pam_message_of (map message_payload ms) = ms"
    by (simp add: map_idI)
  with conversation_loop_ok [of E ms "[]" w "values" w'] assms(1) show ?thesis
    by (auto simp: worker_conversation_def pam_codes split: if_splits prod.splits outcome.splits bool.splits)
qed

definition granting_worker :: worker_env where
  "granting_worker = \<lparr>fd_sock = (\<lambda>_. \<lparr>arrivals = [Data 0x53 [0x50, 0x41, 0x55, 2, 8, 0, 0, 0, 2, 112, 119] ],
       acceptances = replicate 8 (Takes 100), sent = []\<rparr>),
     malloc_ok = (\<lambda>_. True), f_getfd = (\<lambda>_. 0), f_getfl = (\<lambda>_. 2), f_setfd = (\<lambda>_. 0), f_setfl = (\<lambda>_. 0),
     setrlimit_core = 0, prctl_dumpable = 0, clearenv_result = 0, setenv_lang = 0, setenv_path = 0,
     pam_start = (\<lambda>_. PAM_SUCCESS),
     pam_authenticate = (\<lambda>conv w. case conv [(1, [80, 58])] w of
        (Done (c, [Some v]), w') \<Rightarrow> (Done (if v = [112, 119] then c else 7), w') | (_, w') \<Rightarrow> (Done 7, w')),
     pam_acct_mgmt = (\<lambda>conv w. (Done PAM_SUCCESS, w))\<rparr>"

definition granting_start :: worker where
  "granting_start = \<lparr>wsock = fd_sock granting_worker 5, wfreed = []\<rparr>"

lemma granting_conversation:
  "worker_conversation granting_worker [(1, [80, 58])] granting_start =
     (Done (PAM_SUCCESS, [Some [112, 119] ]),
      \<lparr>wsock = \<lparr>arrivals = [], acceptances = replicate 6 (Takes 100),
         sent = frame_bytes SPACES_PAM_MESSAGE [0, 0, 0, 1, 80, 58]\<rparr>, wfreed = []\<rparr>)"
  by code_simp

theorem worker_conversation_faithful_witness:
  "\<exists>ps. [Some [112, 119] ] = map value_of ps \<and> length ps = 1
     \<and> map pam_message_of (map message_payload [(1, [80, 58])]) = [(1, [80, 58])]"
  using worker_conversation_faithful [OF granting_conversation] by force

text \<open>The worker exits with status 0 only if the PAM stack started, authenticated the user and
  accepted the account, each reporting \<open>PAM_SUCCESS\<close> in that order; and what it sends last is (a
  prefix of, if the socket fails) the RESULT frame of the PAM result, which carries four zero bytes
  exactly when it exits with status 0.\<close>

theorem worker_main_result:
  assumes "worker_main E args = (Done c, Some w')"
  shows "\<exists>fd user w result n.
      worker_arguments args (-1) None = Some (fd, Some user)
    \<and> worker_session E user \<lparr>wsock = fd_sock E fd, wfreed = []\<rparr> = (Done result, w)
    \<and> sent (wsock w') = sent (wsock w) @ take n (frame_bytes SPACES_RESULT (htonl_bytes (word_of_int result)))
    \<and> c = (if result = PAM_SUCCESS then 0 else 1)
    \<and> (c = 0 \<longrightarrow> pam_start E user = PAM_SUCCESS
         \<and> (\<exists>w0 w1. pam_authenticate E (worker_conversation E) w0 = (Done PAM_SUCCESS, w1)
              \<and> pam_acct_mgmt E (worker_conversation E) w1 = (Done PAM_SUCCESS, w)))"
proof -
  obtain fd user result w x where a: "worker_arguments args (-1) None = Some (fd, Some user)"
    and s: "worker_session E user \<lparr>wsock = fd_sock E fd, wfreed = []\<rparr> = (Done result, w)"
    and f: "worker_send SPACES_RESULT (htonl_bytes (word_of_int result)) w = (x, w')"
    and c: "c = (if result = PAM_SUCCESS then 0 else 1)"
    using assms by (auto simp: worker_main_def split: option.splits if_splits prod.splits outcome.splits)
  have "pam_start E user = PAM_SUCCESS
      \<and> (\<exists>w0 w1. pam_authenticate E (worker_conversation E) w0 = (Done PAM_SUCCESS, w1)
            \<and> pam_acct_mgmt E (worker_conversation E) w1 = (Done PAM_SUCCESS, w))" if "c = 0"
    using s c that by (auto simp: worker_session_def pam_codes split: if_splits prod.splits outcome.splits)
  moreover have "\<exists>n. sent (wsock w') = sent (wsock w)
      @ take n (frame_bytes SPACES_RESULT (htonl_bytes (word_of_int result)))"
    using f by (auto simp: worker_send_def dest: send_frame_prefix split: prod.splits)
  ultimately show ?thesis using a s c by blast
qed

lemma granting_worker_run:
  "worker_main granting_worker [''--fd'', ''5'', ''--user'', ''ada''] =
     (Done 0, Some \<lparr>wsock = \<lparr>arrivals = [], acceptances = replicate 3 (Takes 100),
        sent = frame_bytes SPACES_READY [] @ frame_bytes SPACES_PAM_MESSAGE [0, 0, 0, 1, 80, 58]
          @ frame_bytes SPACES_RESULT [0, 0, 0, 0]\<rparr>, wfreed = []\<rparr>)"
  by code_simp

theorem worker_main_result_witness:
  "\<exists>user. worker_arguments [''--fd'', ''5'', ''--user'', ''ada''] (-1) None = Some (5, Some user)
     \<and> pam_start granting_worker user = PAM_SUCCESS
     \<and> (\<exists>w0 w1. pam_authenticate granting_worker (worker_conversation granting_worker) w0 = (Done PAM_SUCCESS, w1))"
proof -
  have "worker_arguments [''--fd'', ''5'', ''--user'', ''ada''] (-1) None = Some (5, Some ''ada'')"
    by code_simp
  then show ?thesis using worker_main_result [OF granting_worker_run] by fastforce
qed

end
