(* ===== verification/Bus_Policy.thy ===== *)
theory Bus_Policy
  imports Spaces_Prelude
begin

text \<open>
  D-Bus messages as the system bridge sees them (\<open>src/native/dbus_message.h\<close>) and the service
  policy that its unprivileged relay and its privileged broker share
  (\<open>src/native/system_bus_policy.h\<close>).

  A message is a record of its headers and its body. A body is a tuple of values of GLib's
  variant type, of which the sources distinguish strings, unsigned 32-bit integers, booleans and
  string dictionaries; the serialized size of a body is a function given by the environment.
\<close>

datatype gvariant =
    VString string
  | VUint32 "32 word"
  | VBool bool
  | VDictSS "(string \<times> string) list"
  | VOther nat

datatype message_type = MethodCall | MethodReturn | ErrorReply | Signal

record message =
  m_type :: message_type
  m_sender :: "string option"
  m_destination :: "string option"
  m_path :: "string option"
  m_interface :: "string option"
  m_member :: "string option"
  m_serial :: "32 word"
  m_reply_serial :: "32 word"
  m_no_reply_expected :: bool
  m_error :: "(string \<times> string) option"
  m_body :: "gvariant list option"
  m_fds :: "nat option"

definition spaces_message_copy :: "message \<Rightarrow> string option \<Rightarrow> message" where
  "spaces_message_copy m destination = m\<lparr>m_sender := None, m_destination := destination\<rparr>"

definition spaces_message_bounded :: "(gvariant list \<Rightarrow> nat) \<Rightarrow> message \<Rightarrow> bool" where
  "spaces_message_bounded size_of m =
     ((case m_body m of None \<Rightarrow> True | Some body \<Rightarrow> size_of body \<le> 8 * 1024 * 1024)
      \<and> (case m_fds m of None \<Rightarrow> True | Some n \<Rightarrow> n \<le> 64))"

section \<open>The policy\<close>

definition PROPERTIES :: string where "PROPERTIES = ''org.freedesktop.DBus.Properties''"
definition NM :: string where "NM = ''org.freedesktop.NetworkManager''"
definition RESOLVE :: string where "RESOLVE = ''org.freedesktop.resolve1''"
definition UPOWER :: string where "UPOWER = ''org.freedesktop.UPower''"

definition services :: "string list" where "services = [RESOLVE, NM, UPOWER]"

definition roots :: "string list" where
  "roots = [''/org/freedesktop/resolve1'', ''/org/freedesktop/NetworkManager'', ''/org/freedesktop/UPower'']"

lemmas policy_names = PROPERTIES_def NM_def RESOLVE_def UPOWER_def services_def roots_def

text \<open>The index of a service, \<open>None\<close> for the source's \<open>-1\<close>.\<close>

definition service_index :: "string option \<Rightarrow> nat option" where
  "service_index name =
     (if name = Some (services ! 0) then Some 0
      else if name = Some (services ! 1) then Some 1
      else if name = Some (services ! 2) then Some 2
      else None)"

definition path_has_prefix :: "string option \<Rightarrow> string \<Rightarrow> char \<Rightarrow> bool" where
  "path_has_prefix v p sep =
     (case v of None \<Rightarrow> False
      | Some s \<Rightarrow> g_str_has_prefix s p \<and> (length s = length p \<or> s ! length p = sep))"

definition service_path :: "nat \<Rightarrow> string option \<Rightarrow> bool" where
  "service_path service path =
     (path_has_prefix path (roots ! service) (CHR ''/'')
      \<or> (service = 1 \<and> path = Some ''/org/freedesktop''))"

definition method_is_listed :: "string option \<Rightarrow> string \<Rightarrow> bool" where
  "method_is_listed v words =
     (case v of None \<Rightarrow> False | Some s \<Rightarrow> s \<in> set (g_strsplit words (CHR '' '')))"

definition service_interface :: "nat \<Rightarrow> string option \<Rightarrow> bool" where
  "service_interface service interface = path_has_prefix interface (services ! service) (CHR ''.'')"

definition read_method :: "nat \<Rightarrow> string \<Rightarrow> string \<Rightarrow> bool" where
  "read_method service interface method_name =
     (if service = 0 then
        if interface = RESOLVE @ ''.Manager'' then
          method_is_listed (Some method_name)
            ''GetLink ResolveHostname ResolveAddress ResolveRecord ResolveService''
        else False
      else if service = 1 then
        if interface = NM then
          method_is_listed (Some method_name)
            ''GetDevices GetAllDevices GetDeviceByIpIface GetPermissions GetLogging state''
        else if interface = NM @ ''.Settings'' then
          method_is_listed (Some method_name) ''ListConnections GetConnectionByUuid''
        else if interface = NM @ ''.Settings.Connection'' then method_name = ''GetSettings''
        else if interface = NM @ ''.Device.Wireless'' then
          method_is_listed (Some method_name) ''GetAccessPoints GetAllAccessPoints''
        else if interface = NM @ ''.Device.WifiP2P'' then method_name = ''GetPeers''
        else if interface = NM @ ''.Device'' then method_name = ''GetAppliedConnection''
        else False
      else if interface = UPOWER then
        method_is_listed (Some method_name)
          ''EnumerateDevices EnumerateKbdBacklights GetDisplayDevice GetCriticalAction''
      else if interface = UPOWER @ ''.Device'' then
        method_is_listed (Some method_name) ''GetHistory GetStatistics Refresh''
      else if interface = UPOWER @ ''.KbdBacklight'' then
        method_is_listed (Some method_name) ''GetBrightness GetMaxBrightness''
      else False)"

definition properties_call_allowed :: "nat \<Rightarrow> string \<Rightarrow> gvariant list option \<Rightarrow> bool \<Rightarrow> bool" where
  "properties_call_allowed service method_name body admin =
     (case body of
        Some (first # _) \<Rightarrow>
          let target = (case first of VString s \<Rightarrow> Some s | _ \<Rightarrow> None)
          in target \<noteq> None
             \<and> (service_interface service target \<or> (target = Some [] \<and> method_name = ''GetAll''))
             \<and> (method_is_listed (Some method_name) ''Get GetAll''
                \<or> (admin \<and> service \<noteq> 2 \<and> method_name = ''Set''))
      | _ \<Rightarrow> False)"

definition system_call_allowed :: "message \<Rightarrow> bool \<Rightarrow> bool" where
  "system_call_allowed m admin =
     (case (service_index (m_destination m), m_interface m, m_member m) of
        (Some service, Some interface, Some method_name) \<Rightarrow>
          if \<not> service_path service (m_path m) then False
          else if interface = ''org.freedesktop.DBus.Introspectable'' then method_name = ''Introspect''
          else if interface = ''org.freedesktop.DBus.Peer'' then
            method_is_listed (Some method_name) ''Ping GetMachineId''
          else if interface = ''org.freedesktop.DBus.ObjectManager'' then method_name = ''GetManagedObjects''
          else if interface = PROPERTIES then
            properties_call_allowed service method_name (m_body m) admin
          else service_interface service (Some interface)
               \<and> (read_method service interface method_name \<or> (service \<noteq> 2 \<and> admin))
      | _ \<Rightarrow> False)"

section \<open>What the policy admits\<close>

text \<open>The policy as tables: the standard methods every service offers, and the read-only methods
  of each service's own interfaces.\<close>

definition standard_table :: "(string \<times> string) list" where
  "standard_table =
    [(''org.freedesktop.DBus.Introspectable'', ''Introspect''),
     (''org.freedesktop.DBus.Peer'', ''Ping''),
     (''org.freedesktop.DBus.Peer'', ''GetMachineId''),
     (''org.freedesktop.DBus.ObjectManager'', ''GetManagedObjects'')]"

definition read_table :: "(nat \<times> string \<times> string) list" where
  "read_table =
    [(0, ''org.freedesktop.resolve1.Manager'', ''GetLink''),
     (0, ''org.freedesktop.resolve1.Manager'', ''ResolveHostname''),
     (0, ''org.freedesktop.resolve1.Manager'', ''ResolveAddress''),
     (0, ''org.freedesktop.resolve1.Manager'', ''ResolveRecord''),
     (0, ''org.freedesktop.resolve1.Manager'', ''ResolveService''),
     (1, ''org.freedesktop.NetworkManager'', ''GetDevices''),
     (1, ''org.freedesktop.NetworkManager'', ''GetAllDevices''),
     (1, ''org.freedesktop.NetworkManager'', ''GetDeviceByIpIface''),
     (1, ''org.freedesktop.NetworkManager'', ''GetPermissions''),
     (1, ''org.freedesktop.NetworkManager'', ''GetLogging''),
     (1, ''org.freedesktop.NetworkManager'', ''state''),
     (1, ''org.freedesktop.NetworkManager.Settings'', ''ListConnections''),
     (1, ''org.freedesktop.NetworkManager.Settings'', ''GetConnectionByUuid''),
     (1, ''org.freedesktop.NetworkManager.Settings.Connection'', ''GetSettings''),
     (1, ''org.freedesktop.NetworkManager.Device.Wireless'', ''GetAccessPoints''),
     (1, ''org.freedesktop.NetworkManager.Device.Wireless'', ''GetAllAccessPoints''),
     (1, ''org.freedesktop.NetworkManager.Device.WifiP2P'', ''GetPeers''),
     (1, ''org.freedesktop.NetworkManager.Device'', ''GetAppliedConnection''),
     (2, ''org.freedesktop.UPower'', ''EnumerateDevices''),
     (2, ''org.freedesktop.UPower'', ''EnumerateKbdBacklights''),
     (2, ''org.freedesktop.UPower'', ''GetDisplayDevice''),
     (2, ''org.freedesktop.UPower'', ''GetCriticalAction''),
     (2, ''org.freedesktop.UPower.Device'', ''GetHistory''),
     (2, ''org.freedesktop.UPower.Device'', ''GetStatistics''),
     (2, ''org.freedesktop.UPower.Device'', ''Refresh''),
     (2, ''org.freedesktop.UPower.KbdBacklight'', ''GetBrightness''),
     (2, ''org.freedesktop.UPower.KbdBacklight'', ''GetMaxBrightness'')]"

definition is_service :: "nat \<Rightarrow> bool" where
  "is_service k = (k = 0 \<or> k = 1 \<or> k = 2)"

lemma path_has_prefix_iff:
  "path_has_prefix (Some s) p c \<longleftrightarrow> s = p \<or> (\<exists>r. s = p @ c # r)"
proof
  assume a: "path_has_prefix (Some s) p c"
  then obtain t where t: "s = p @ t" by (auto simp: path_has_prefix_def g_str_has_prefix_iff)
  show "s = p \<or> (\<exists>r. s = p @ c # r)"
    using a t by (cases t) (auto simp: path_has_prefix_def nth_append)
qed (auto simp: path_has_prefix_def nth_append)

lemma read_method_table:
  assumes "is_service k"
  shows "read_method k i m \<longleftrightarrow> (k, i, m) \<in> set read_table"
proof -
  consider "k = 0" | "k = 1" | "k = 2" using assms by (auto simp: is_service_def)
  then show ?thesis
    by cases (auto simp: read_method_def read_table_def method_is_listed_def g_strsplit_def policy_names)
qed

lemma read_method_interface:
  assumes "read_method k i m" "is_service k"
  shows "service_interface k (Some i)"
proof -
  have "\<forall>(k, i, m) \<in> set read_table. service_interface k (Some i)"
    by code_simp
  then show ?thesis using assms by (auto simp: read_method_table)
qed

lemma service_index_is_service: "service_index d = Some k \<Longrightarrow> is_service k \<and> d = Some (services ! k)"
  by (auto simp: service_index_def is_service_def split: if_splits)

lemma own_interface_standard:
  assumes "is_service k" "service_interface k (Some i)"
  shows "i \<notin> {''org.freedesktop.DBus.Introspectable'', ''org.freedesktop.DBus.Peer'',
      ''org.freedesktop.DBus.ObjectManager'', PROPERTIES}"
  using assms unfolding is_service_def service_interface_def path_has_prefix_iff
  by (elim disjE exE) (simp_all add: policy_names)

lemma properties_call_iff:
  "properties_call_allowed k m body admin \<longleftrightarrow>
     (\<exists>t rest. body = Some (VString t # rest)
       \<and> ((service_interface k (Some t) \<and> (m = ''Get'' \<or> m = ''GetAll'' \<or> (admin \<and> k \<noteq> 2 \<and> m = ''Set'')))
          \<or> (t = [] \<and> m = ''GetAll'')))"
  by (auto simp: properties_call_allowed_def method_is_listed_def g_strsplit_def
      split: option.splits list.splits gvariant.splits)

lemma allowed_cases:
  "system_call_allowed m admin \<longleftrightarrow>
     (\<exists>k i f. service_index (m_destination m) = Some k \<and> m_interface m = Some i \<and> m_member m = Some f
       \<and> service_path k (m_path m)
       \<and> ((i, f) \<in> set standard_table
          \<or> (i = PROPERTIES \<and> properties_call_allowed k f (m_body m) admin)
          \<or> (service_interface k (Some i) \<and> (read_method k i f \<or> (k \<noteq> 2 \<and> admin)))))"
  (is "?lhs \<longleftrightarrow> ?rhs")
proof
  assume ?lhs
  then show ?rhs
    by (auto simp: system_call_allowed_def standard_table_def method_is_listed_def g_strsplit_def
        split: option.splits if_splits)
next
  assume ?rhs
  then obtain k i f where e: "service_index (m_destination m) = Some k" "m_interface m = Some i"
    "m_member m = Some f" "service_path k (m_path m)"
    and c: "(i, f) \<in> set standard_table \<or> (i = PROPERTIES \<and> properties_call_allowed k f (m_body m) admin)
      \<or> (service_interface k (Some i) \<and> (read_method k i f \<or> (k \<noteq> 2 \<and> admin)))" by blast
  from c show ?lhs
  proof (elim disjE conjE)
    assume "(i, f) \<in> set standard_table"
    then show ?thesis using e
      by (auto simp: system_call_allowed_def standard_table_def method_is_listed_def g_strsplit_def policy_names)
  next
    assume "i = PROPERTIES" "properties_call_allowed k f (m_body m) admin"
    then show ?thesis using e by (simp add: system_call_allowed_def policy_names)
  next
    assume si: "service_interface k (Some i)"
    with own_interface_standard [OF _ si] service_index_is_service [OF e(1)]
    have n: "i \<notin> {''org.freedesktop.DBus.Introspectable'', ''org.freedesktop.DBus.Peer'',
      ''org.freedesktop.DBus.ObjectManager'', PROPERTIES}" by blast
    assume "read_method k i f"
    with si n show ?thesis using e by (simp add: system_call_allowed_def)
  next
    assume si: "service_interface k (Some i)"
    with own_interface_standard [OF _ si] service_index_is_service [OF e(1)]
    have n: "i \<notin> {''org.freedesktop.DBus.Introspectable'', ''org.freedesktop.DBus.Peer'',
      ''org.freedesktop.DBus.ObjectManager'', PROPERTIES}" by blast
    assume "k \<noteq> 2" "admin"
    with si n show ?thesis using e by (simp add: system_call_allowed_def)
  qed
qed

text \<open>C29. The policy confines every admitted call to its three services: whatever the caller's rights,
  an admitted call is addressed to resolve1, NetworkManager or UPower, its object path is that
  service's root or strictly below it (component-wise, so a sibling with the same prefix is not
  enough) or, for NetworkManager only, its object manager's path, and its interface is one of the
  four standard ones or lies in that service's own namespace.\<close>

theorem policy_scope:
  assumes "system_call_allowed m admin"
  shows "\<exists>k path interface. is_service k \<and> m_destination m = Some (services ! k)
    \<and> m_path m = Some path
    \<and> (path = roots ! k \<or> (\<exists>r. path = roots ! k @ ''/'' @ r) \<or> (k = 1 \<and> path = ''/org/freedesktop''))
    \<and> m_interface m = Some interface
    \<and> (interface \<in> {''org.freedesktop.DBus.Introspectable'', ''org.freedesktop.DBus.Peer'',
          ''org.freedesktop.DBus.ObjectManager'', ''org.freedesktop.DBus.Properties''}
       \<or> interface = services ! k \<or> (\<exists>r. interface = services ! k @ ''.'' @ r))"
proof -
  obtain k i f where e: "service_index (m_destination m) = Some k" "m_interface m = Some i"
    "service_path k (m_path m)"
    and c: "(i, f) \<in> set standard_table \<or> i = PROPERTIES \<or> service_interface k (Some i)"
    using assms by (auto simp: allowed_cases)
  obtain path where p: "m_path m = Some path"
    using e(3) by (auto simp: service_path_def path_has_prefix_def split: option.splits)
  have "path = roots ! k \<or> (\<exists>r. path = roots ! k @ ''/'' @ r) \<or> (k = 1 \<and> path = ''/org/freedesktop'')"
    using e(3) by (auto simp: service_path_def path_has_prefix_iff p)
  moreover have "i \<in> {''org.freedesktop.DBus.Introspectable'', ''org.freedesktop.DBus.Peer'',
        ''org.freedesktop.DBus.ObjectManager'', ''org.freedesktop.DBus.Properties''}
      \<or> i = services ! k \<or> (\<exists>r. i = services ! k @ ''.'' @ r)"
    using c by (auto simp: standard_table_def service_interface_def path_has_prefix_iff PROPERTIES_def)
  ultimately show ?thesis
    using service_index_is_service [OF e(1)] e(2) p by blast
qed

definition scan_request :: message where
  "scan_request = \<lparr>m_type = MethodCall, m_sender = Some '':1.7'',
     m_destination = Some ''org.freedesktop.NetworkManager'',
     m_path = Some ''/org/freedesktop/NetworkManager/Devices/2'',
     m_interface = Some ''org.freedesktop.NetworkManager.Device.Wireless'', m_member = Some ''GetAccessPoints'',
     m_serial = 5, m_reply_serial = 0, m_no_reply_expected = False, m_error = None,
     m_body = Some [], m_fds = None\<rparr>"

theorem policy_scope_witness:
  "system_call_allowed scan_request False \<and>
   (\<exists>k. is_service k \<and> m_destination scan_request = Some (services ! k))"
proof -
  have "system_call_allowed scan_request False" by code_simp
  with policy_scope [OF this] show ?thesis by blast
qed

text \<open>C30. Without Network Admin the policy is exactly its read-only tables: a call is admitted iff it
  is addressed to a service on a path of that service and is a standard method, a listed read-only
  method of that service, or \<open>Get\<close>/\<open>GetAll\<close> of properties of an interface of that service
  (\<open>GetAll\<close> also with the empty interface name). In particular no property can be set.\<close>

theorem policy_read_only:
  "system_call_allowed m False \<longleftrightarrow>
     (\<exists>k i f. service_index (m_destination m) = Some k \<and> m_interface m = Some i \<and> m_member m = Some f
       \<and> service_path k (m_path m)
       \<and> ((i, f) \<in> set standard_table \<or> (k, i, f) \<in> set read_table
          \<or> (i = PROPERTIES \<and> (\<exists>t rest. m_body m = Some (VString t # rest)
               \<and> ((service_interface k (Some t) \<and> (f = ''Get'' \<or> f = ''GetAll''))
                  \<or> (t = [] \<and> f = ''GetAll''))))))"
  using read_method_table read_method_interface service_index_is_service
  unfolding allowed_cases properties_call_iff by blast

text \<open>Network Admin widens the policy in one way only: an admitted call stays admitted, nothing
  changes for UPower, and what is gained on resolve1 and NetworkManager is setting properties of,
  and calling any method on, interfaces in the service's own namespace.\<close>

theorem policy_admin:
  "system_call_allowed m True \<longleftrightarrow>
     system_call_allowed m False
     \<or> (\<exists>k i f. service_index (m_destination m) = Some k \<and> k \<noteq> 2 \<and> service_path k (m_path m)
          \<and> m_interface m = Some i \<and> m_member m = Some f
          \<and> (service_interface k (Some i)
             \<or> (i = PROPERTIES \<and> f = ''Set''
                \<and> (\<exists>t rest. m_body m = Some (VString t # rest) \<and> service_interface k (Some t)))))"
  unfolding allowed_cases properties_call_iff by blast

end
