(* ===== verification/System_Broker.thy ===== *)
theory System_Broker
  imports Bus_Policy
begin

text \<open>
  The system-bus bridge (\<open>src/native/spaces_system_broker.c\<close>): the relay inside a space owns the
  names of the three host services and forwards calls over a private connection per caller; the
  broker on the host checks every call again and places it on the host bus.

  The state is the \<open>App\<close> structure with the objects it points to: the heap of reference-counted
  \<open>Client\<close> structures, the main loop's queue of events, and what GDBus keeps on the program's
  behalf (message filters, name watches, \<open>closed\<close> handlers). Each callback is a function on that
  state; \<open>bridge_step\<close> is one callback. What the outside decides in a callback (whether a
  connection succeeds, the serial a message gets) is an argument of type \<open>answers\<close>. Reading a
  client that has been freed sets \<open>a_fault\<close>, so that memory safety is the invariant that no
  reachable state has it set. Identities (pointers, registration ids) come from a counter.
\<close>

section \<open>State\<close>

datatype conn = AppBus | Peer nat | Host nat

record call =
  k_id :: nat
  k_origin :: conn
  k_request :: message
  k_permissions :: bool
  k_register_agent :: bool
  k_unregister_agent :: bool
  k_delivered :: bool
  k_target :: conn
  k_serial :: "32 word"

record client =
  c_refs :: int
  c_name :: string
  c_peer :: conn
  c_host :: "conn option"
  c_opened :: bool
  c_admin :: bool
  c_observer :: bool
  c_closed :: bool
  c_agent :: bool
  c_filter0 :: nat
  c_filter1 :: nat
  c_watches :: "nat list"
  c_subscriptions :: "nat list"
  c_owners :: "string option list"
  c_outstanding :: int
  c_pending_calls :: "call list"

record event =
  e_client :: "nat option"
  e_bus :: conn
  e_message :: message

datatype action =
    Send conn message
  | SendWithReply conn message nat
  | Reply conn message nat
  | CloseConnection conn
  | Unsubscribe conn nat
  | RemoveFilter conn nat
  | OpenPeer conn "32 word" bool
  | OwnName nat
  | UnownName nat

record app =
  a_broker :: bool
  a_admin :: bool
  a_unique_name :: string
  a_clients :: "(string \<times> nat) list"
  a_guest_names :: "string list"
  a_names :: "nat list"
  a_queued :: int
  a_heap :: "nat \<Rightarrow> client option"
  a_fresh :: nat
  a_filters :: "(nat \<times> conn \<times> nat) list"
  a_watches :: "(nat \<times> nat \<times> nat) list"
  a_handlers :: "(conn \<times> nat) list"
  a_queue :: "event list"
  a_trace :: "action list"
  a_fault :: bool

record answers =
  ans_user :: "32 word option"
  ans_peer :: bool
  ans_open :: "bool option"
  ans_host :: bool
  ans_serial :: "32 word"

definition CONTROL :: string where "CONTROL = ''org.anatase.Spaces.SystemBridge1''"
definition CONTROL_PATH :: string where "CONTROL_PATH = ''/org/anatase/Spaces/SystemBridge''"
definition access_denied :: string where "access_denied = ''org.freedesktop.DBus.Error.AccessDenied''"
definition limits_exceeded :: string where "limits_exceeded = ''org.freedesktop.DBus.Error.LimitsExceeded''"

definition act :: "action \<Rightarrow> app \<Rightarrow> app" where
  "act a s = s\<lparr>a_trace := a_trace s @ [a]\<rparr>"

definition with_client :: "nat \<Rightarrow> (client \<Rightarrow> app \<Rightarrow> app) \<Rightarrow> app \<Rightarrow> app" where
  "with_client c f s = (case a_heap s c of None \<Rightarrow> s\<lparr>a_fault := True\<rparr> | Some cl \<Rightarrow> f cl s)"

definition set_client :: "nat \<Rightarrow> client \<Rightarrow> app \<Rightarrow> app" where
  "set_client c cl s = s\<lparr>a_heap := (a_heap s)(c := Some cl)\<rparr>"

section \<open>Client lifetime\<close>

definition client_ref :: "nat \<Rightarrow> app \<Rightarrow> app" where
  "client_ref c = with_client c (\<lambda>cl. set_client c (cl\<lparr>c_refs := c_refs cl + 1\<rparr>))"

definition client_unref :: "nat \<Rightarrow> app \<Rightarrow> app" where
  "client_unref c = with_client c (\<lambda>cl s.
     if c_refs cl - 1 \<noteq> 0 then set_client c (cl\<lparr>c_refs := c_refs cl - 1\<rparr>) s
     else s\<lparr>a_heap := (a_heap s)(c := None)\<rparr>)"

text \<open>GDBus drops a filter's reference some time after the filter is removed
  (\<open>step_filter_destroyed\<close> below) and may still run it until then, on its worker thread: the request
  to remove it goes into the trace and leaves \<open>a_filters\<close> alone.\<close>

definition unwatch_name :: "nat \<Rightarrow> app \<Rightarrow> app" where
  "unwatch_name w s = s\<lparr>a_watches := filter (\<lambda>(i, _, _). i \<noteq> w) (a_watches s)\<rparr>"

definition disconnect_by_data :: "conn \<Rightarrow> nat \<Rightarrow> app \<Rightarrow> app" where
  "disconnect_by_data k c s = s\<lparr>a_handlers := filter (\<lambda>h. h \<noteq> (k, c)) (a_handlers s)\<rparr>"

definition close_watch :: "client \<Rightarrow> nat \<Rightarrow> app \<Rightarrow> app" where
  "close_watch cl i s =
     (let s = (if c_watches cl ! i \<noteq> 0 then unwatch_name (c_watches cl ! i) s else s)
      in if c_subscriptions cl ! i \<noteq> 0
         then (case c_host cl of None \<Rightarrow> s | Some h \<Rightarrow> act (Unsubscribe h (c_subscriptions cl ! i)) s)
         else s)"

definition close_connection :: "conn \<Rightarrow> nat \<Rightarrow> app \<Rightarrow> app" where
  "close_connection k c s = act (CloseConnection k) (disconnect_by_data k c s)"

definition client_close :: "nat \<Rightarrow> app \<Rightarrow> app" where
  "client_close c = with_client c (\<lambda>cl s.
     if c_closed cl then s
     else let s = set_client c (cl\<lparr>c_closed := True\<rparr>) s;
              s = close_watch cl 2 (close_watch cl 1 (close_watch cl 0 s));
              s = (if c_filter0 cl \<noteq> 0 then act (RemoveFilter (c_peer cl) (c_filter0 cl)) s else s);
              s = (case c_host cl of
                     Some h \<Rightarrow> if c_filter1 cl \<noteq> 0 then act (RemoveFilter h (c_filter1 cl)) s else s
                   | None \<Rightarrow> s);
              s = close_connection (c_peer cl) c s
          in (case c_host cl of None \<Rightarrow> s | Some h \<Rightarrow> close_connection h c s))"

definition remove_client :: "nat \<Rightarrow> app \<Rightarrow> app" where
  "remove_client c s = client_unref c (client_close c s)"

text \<open>The table of clients: \<open>g_hash_table_remove\<close> and \<open>g_hash_table_insert\<close> unlink the entry and
  then call the table's destroy function on the old value.\<close>

definition table_remove :: "string \<Rightarrow> app \<Rightarrow> app" where
  "table_remove n s =
     (case map_of (a_clients s) n of
        None \<Rightarrow> s
      | Some c \<Rightarrow> remove_client c (s\<lparr>a_clients := filter (\<lambda>(m, _). m \<noteq> n) (a_clients s)\<rparr>))"

definition table_insert :: "string \<Rightarrow> nat \<Rightarrow> app \<Rightarrow> app" where
  "table_insert n c s =
     (let s = table_remove n s in s\<lparr>a_clients := (n, c) # a_clients s\<rparr>)"

definition connection_closed :: "nat \<Rightarrow> app \<Rightarrow> app" where
  "connection_closed c s =
     with_client c (\<lambda>cl s. client_unref c (table_remove (c_name cl) s)) (client_ref c s)"

section \<open>Message forwarding\<close>

text \<open>GDBus refuses to build a reply to anything but a method call: it logs a critical message and
  returns no message, and sending no message does nothing.\<close>

definition send_message :: "conn \<Rightarrow> message option \<Rightarrow> app \<Rightarrow> app" where
  "send_message k m s = (case m of None \<Rightarrow> s | Some m \<Rightarrow> act (Send k m) s)"

definition method_reply :: "message \<Rightarrow> message option" where
  "method_reply request =
     (if m_type request \<noteq> MethodCall then None
      else Some \<lparr>m_type = MethodReturn, m_sender = None, m_destination = m_sender request,
        m_path = None, m_interface = None, m_member = None, m_serial = 0,
        m_reply_serial = m_serial request, m_no_reply_expected = True, m_error = None,
        m_body = None, m_fds = None\<rparr>)"

definition method_error :: "message \<Rightarrow> string \<Rightarrow> string \<Rightarrow> message option" where
  "method_error request name words =
     map_option (\<lambda>r. r\<lparr>m_type := ErrorReply, m_error := Some (name, words),
       m_body := Some [VString words]\<rparr>) (method_reply request)"

definition reply_error :: "conn \<Rightarrow> message \<Rightarrow> string \<Rightarrow> string \<Rightarrow> app \<Rightarrow> app" where
  "reply_error k request name words = send_message k (method_error request name words)"

definition reply_success :: "conn \<Rightarrow> message \<Rightarrow> gvariant list \<Rightarrow> app \<Rightarrow> app" where
  "reply_success k request body =
     send_message k (map_option (\<lambda>r. r\<lparr>m_body := Some body\<rparr>) (method_reply request))"

definition mask_permissions :: "gvariant list option \<Rightarrow> gvariant list option" where
  "mask_permissions body =
     (case body of
        Some [VDictSS entries] \<Rightarrow> Some [VDictSS (map (\<lambda>(key, v). (key, ''no'')) entries)]
      | _ \<Rightarrow> body)"

definition mark_delivered :: "nat \<Rightarrow> call list \<Rightarrow> call list" where
  "mark_delivered i = map (\<lambda>k. if k_id k = i then k\<lparr>k_delivered := True\<rparr> else k)"

definition reply_copy :: "call \<Rightarrow> bool \<Rightarrow> message \<Rightarrow> message" where
  "reply_copy k admin reply =
     (let copy = (spaces_message_copy reply (m_sender (k_request k)))
                   \<lparr>m_reply_serial := m_serial (k_request k)\<rparr>
      in if m_type reply = MethodReturn \<and> k_permissions k \<and> \<not> admin
         then copy\<lparr>m_body := mask_permissions (m_body reply)\<rparr> else copy)"

text \<open>The answer to a forwarded call: \<open>send_message\<close>, with the number of the call that is answered kept beside the
  message in the trace.\<close>

definition send_answer :: "nat \<Rightarrow> conn \<Rightarrow> message option \<Rightarrow> app \<Rightarrow> app" where
  "send_answer i k m s = (case m of None \<Rightarrow> s | Some m \<Rightarrow> act (Reply k m i) s)"

definition deliver_reply ::
    "(gvariant list \<Rightarrow> nat) \<Rightarrow> nat \<Rightarrow> call \<Rightarrow> message option \<Rightarrow> app \<Rightarrow> app" where
  "deliver_reply size_of c k reply = with_client c (\<lambda>cl s.
     let cl = cl\<lparr>c_pending_calls := mark_delivered (k_id k) (c_pending_calls cl)\<rparr>;
         no_reply = method_error (k_request k) ''org.freedesktop.DBus.Error.NoReply''
           ''System service unavailable or reply limit exceeded''
     in case reply of
          Some r \<Rightarrow>
            if \<not> spaces_message_bounded size_of r
            then send_answer (k_id k) (k_origin k) no_reply (set_client c cl s)
            else let cl = (if m_type r = MethodReturn \<and> k_register_agent k
                           then cl\<lparr>c_agent := True\<rparr> else cl);
                     cl = (if m_type r = MethodReturn \<and> k_unregister_agent k
                           then cl\<lparr>c_agent := False\<rparr> else cl)
                 in send_answer (k_id k) (k_origin k) (Some (reply_copy k (c_admin cl) r)) (set_client c cl s)
        | None \<Rightarrow> send_answer (k_id k) (k_origin k) no_reply (set_client c cl s))"

definition forward_finished ::
    "(gvariant list \<Rightarrow> nat) \<Rightarrow> nat \<Rightarrow> call \<Rightarrow> message option \<Rightarrow> app \<Rightarrow> app" where
  "forward_finished size_of c k reply s =
     (let s = (if \<not> k_delivered k then deliver_reply size_of c k reply s else s);
          s = with_client c (\<lambda>cl. set_client c (cl\<lparr>
                c_pending_calls := filter (\<lambda>j. k_id j \<noteq> k_id k) (c_pending_calls cl),
                c_outstanding := c_outstanding cl - 1\<rparr>)) s
      in client_unref c s)"

definition new_call :: "app \<Rightarrow> client \<Rightarrow> conn \<Rightarrow> conn \<Rightarrow> message \<Rightarrow> 32 word \<Rightarrow> call" where
  "new_call s cl origin target request serial =
     (let agent = (a_broker s \<and> origin = c_peer cl \<and> m_interface request = Some (NM @ ''.AgentManager''))
      in \<lparr>k_id = a_fresh s, k_origin = origin, k_request = request,
          k_permissions = (m_interface request = Some NM \<and> m_member request = Some ''GetPermissions''),
          k_register_agent = (agent \<and> method_is_listed (m_member request) ''Register RegisterWithCapabilities''),
          k_unregister_agent = (agent \<and> m_member request = Some ''Unregister''),
          k_delivered = False, k_target = target, k_serial = serial\<rparr>)"

definition forward ::
    "answers \<Rightarrow> nat \<Rightarrow> conn \<Rightarrow> conn \<Rightarrow> message \<Rightarrow> string option \<Rightarrow> app \<Rightarrow> app" where
  "forward ans c origin target request destination = with_client c (\<lambda>cl s.
     if c_outstanding cl \<ge> 64
     then reply_error origin request limits_exceeded ''Too many outstanding calls'' s
     else let k = new_call s cl origin target request (ans_serial ans);
              copy = (spaces_message_copy request destination)\<lparr>m_no_reply_expected := False\<rparr>;
              s = client_ref c s;
              s = with_client c (\<lambda>cl. set_client c (cl\<lparr>
                    c_pending_calls := k # c_pending_calls cl,
                    c_outstanding := c_outstanding cl + 1\<rparr>)) s
          in act (SendWithReply target copy (k_id k)) (s\<lparr>a_fresh := a_fresh s + 1\<rparr>))"

section \<open>Host service discovery\<close>

definition changed_signal :: "string \<Rightarrow> message" where
  "changed_signal name = \<lparr>m_type = Signal, m_sender = None, m_destination = None,
     m_path = Some CONTROL_PATH, m_interface = Some CONTROL, m_member = Some ''Changed'',
     m_serial = 0, m_reply_serial = 0, m_no_reply_expected = False, m_error = None,
     m_body = Some [VString name], m_fds = None\<rparr>"

definition appeared :: "string \<Rightarrow> string \<Rightarrow> nat \<Rightarrow> app \<Rightarrow> app" where
  "appeared name owner c = with_client c (\<lambda>cl s.
     case service_index (Some name) of
       None \<Rightarrow> s\<lparr>a_fault := True\<rparr>
     | Some i \<Rightarrow>
         let s = set_client c (cl\<lparr>c_owners := (c_owners cl)[i := Some owner]\<rparr>) s
         in if c_observer cl then act (Send (c_peer cl) (changed_signal name)) s else s)"

definition vanished :: "string \<Rightarrow> nat \<Rightarrow> app \<Rightarrow> app" where
  "vanished name c = with_client c (\<lambda>cl s.
     case service_index (Some name) of
       None \<Rightarrow> s\<lparr>a_fault := True\<rparr>
     | Some i \<Rightarrow>
         let s = set_client c (cl\<lparr>c_owners := (c_owners cl)[i := None],
                                  c_agent := (if i = 1 then False else c_agent cl)\<rparr>) s
         in if c_observer cl then act (Send (c_peer cl) (changed_signal name)) s else s)"

text \<open>Registering a filter takes a reference for it; watches and handlers hold the bare pointer.\<close>

definition add_filter :: "conn \<Rightarrow> nat \<Rightarrow> app \<Rightarrow> app" where
  "add_filter k c s =
     (let s = client_ref c s
      in s\<lparr>a_filters := (a_fresh s, k, c) # a_filters s, a_fresh := a_fresh s + 1\<rparr>)"

definition initialize_host :: "nat \<Rightarrow> conn \<Rightarrow> app \<Rightarrow> app" where
  "initialize_host c h s =
     (let f = a_fresh s;
          s = add_filter h c s;
          s = s\<lparr>a_handlers := (h, c) # a_handlers s\<rparr>;
          w = a_fresh s;
          s = s\<lparr>a_watches := [(w, 0, c), (w + 1, 1, c), (w + 2, 2, c)] @ a_watches s,
                a_fresh := w + 6\<rparr>
      in with_client c (\<lambda>cl. set_client c (cl\<lparr>c_filter1 := f, c_watches := [w, w + 1, w + 2],
           c_subscriptions := [w + 3, w + 4, w + 5]\<rparr>)) s)"

definition open_client :: "answers \<Rightarrow> nat \<Rightarrow> message \<Rightarrow> app \<Rightarrow> app" where
  "open_client ans c request = with_client c (\<lambda>cl s.
     case (c_opened cl, m_body request) of
       (False, Some [VUint32 uid, VBool observer]) \<Rightarrow>
         let cl = cl\<lparr>c_observer := observer\<rparr>
         in if \<not> ans_host ans
            then reply_error (c_peer cl) request ''org.freedesktop.DBus.Error.NoServer''
                   ''Host system bus unavailable'' (set_client c cl s)
            else let h = Host (a_fresh s);
                     admin = (a_admin s \<and> \<not> observer);
                     s = set_client c (cl\<lparr>c_host := Some h, c_admin := admin, c_opened := True\<rparr>)
                           (s\<lparr>a_fresh := a_fresh s + 1\<rparr>)
                 in reply_success (c_peer cl) request [VBool admin] (initialize_host c h s)
     | _ \<Rightarrow> reply_error (c_peer cl) request ''org.freedesktop.DBus.Error.InvalidArgs''
              ''Invalid client handshake'' s)"

section \<open>Guest callers and broker connections\<close>

definition new_client :: "string \<Rightarrow> conn \<Rightarrow> client" where
  "new_client name peer = \<lparr>c_refs = 1, c_name = name, c_peer = peer, c_host = None,
     c_opened = False, c_admin = False, c_observer = False, c_closed = False, c_agent = False,
     c_filter0 = 0, c_filter1 = 0, c_watches = [0, 0, 0], c_subscriptions = [0, 0, 0],
     c_owners = [None, None, None], c_outstanding = 0, c_pending_calls = []\<rparr>"

text \<open>The common tail of \<open>relay_client\<close> and \<open>new_peer\<close>: the filter, the handler, the table entry.\<close>

definition add_client :: "nat \<Rightarrow> client \<Rightarrow> app \<Rightarrow> app" where
  "add_client c cl s =
     (let s = set_client c cl s;
          f = a_fresh s;
          s = add_filter (c_peer cl) c s;
          s = with_client c (\<lambda>cl. set_client c (cl\<lparr>c_filter0 := f\<rparr>)) s;
          s = s\<lparr>a_handlers := (c_peer cl, c) # a_handlers s\<rparr>
      in table_insert (c_name cl) c s)"

definition relay_client :: "answers \<Rightarrow> string \<Rightarrow> bool \<Rightarrow> app \<Rightarrow> nat option \<times> app" where
  "relay_client ans sender observer s =
     (case map_of (a_clients s) sender of
        Some c \<Rightarrow> (Some c, s)
      | None \<Rightarrow>
          if length (a_clients s) \<ge> 128 then (None, s)
          else case (if observer then Some 0 else ans_user ans) of
            None \<Rightarrow> (None, s)
          | Some uid \<Rightarrow>
              if \<not> ans_peer ans then (None, s)
              else let peer = Peer (a_fresh s);
                       c = a_fresh s + 1;
                       s = act (OpenPeer peer uid observer) (s\<lparr>a_fresh := a_fresh s + 2\<rparr>)
                   in case ans_open ans of
                        None \<Rightarrow> (None, act (CloseConnection peer) s)
                      | Some admin \<Rightarrow>
                          (Some c, add_client c ((new_client sender peer)\<lparr>c_opened := True,
                             c_observer := observer, c_admin := admin\<rparr>) s))"

section \<open>Routing across the system bus boundary\<close>

definition resolve_destination :: "string \<Rightarrow> message \<Rightarrow> message" where
  "resolve_destination unique m =
     (if m_destination m = Some unique then
        if service_path 0 (m_path m) then m\<lparr>m_destination := Some (services ! 0)\<rparr>
        else if service_path 1 (m_path m) then m\<lparr>m_destination := Some (services ! 1)\<rparr>
        else if service_path 2 (m_path m) then m\<lparr>m_destination := Some (services ! 2)\<rparr>
        else m
      else m)"

definition denied :: "conn \<Rightarrow> message \<Rightarrow> app \<Rightarrow> app" where
  "denied k m = reply_error k m access_denied ''Spaces system service permission denied''"

definition handle_guest_call :: "answers \<Rightarrow> conn \<Rightarrow> message \<Rightarrow> app \<Rightarrow> app" where
  "handle_guest_call ans bus m s =
     (case m_sender m of
        None \<Rightarrow> s\<lparr>a_fault := True\<rparr>
      | Some sender \<Rightarrow>
          (case relay_client ans sender False s of
             (None, s) \<Rightarrow> reply_error bus m ''org.freedesktop.DBus.Error.NoServer'' ''System bridge unavailable'' s
           | (Some c, s) \<Rightarrow>
               let m = resolve_destination (a_unique_name s) m
               in with_client c (\<lambda>cl s.
                    if \<not> system_call_allowed m (c_admin cl) then denied bus m s
                    else forward ans c bus (c_peer cl) m (m_destination m) s) s))"

definition handle_broker_call :: "answers \<Rightarrow> nat \<Rightarrow> conn \<Rightarrow> message \<Rightarrow> app \<Rightarrow> app" where
  "handle_broker_call ans c bus m =
     (if m_interface m = Some CONTROL \<and> m_member m = Some ''Open'' \<and> m_path m = Some CONTROL_PATH
      then open_client ans c m
      else with_client c (\<lambda>cl s.
        if \<not> c_opened cl \<or> c_observer cl \<or> \<not> system_call_allowed m (c_admin cl) then denied bus m s
        else case c_host cl of
               None \<Rightarrow> s\<lparr>a_fault := True\<rparr>
             | Some h \<Rightarrow> forward ans c (c_peer cl) h m (m_destination m) s))"

definition signal_from :: "client \<Rightarrow> message \<Rightarrow> nat \<Rightarrow> bool" where
  "signal_from cl m i =
     (c_owners cl ! i \<noteq> None \<and> m_sender m = c_owners cl ! i \<and> service_path i (m_path m))"

definition forward_host_signal :: "nat \<Rightarrow> message \<Rightarrow> app \<Rightarrow> app" where
  "forward_host_signal c m = with_client c (\<lambda>cl s.
     case find (signal_from cl m) [0, 1, 2] of
       None \<Rightarrow> s
     | Some i \<Rightarrow>
         if m_destination m \<noteq> None \<and> c_observer cl then s
         else send_message (c_peer cl)
                (Some ((spaces_message_copy m None)\<lparr>m_sender := Some (services ! i)\<rparr>)) s)"

definition reown_name :: "nat \<Rightarrow> app \<Rightarrow> app" where
  "reown_name i s =
     (let s = (if a_names s ! i \<noteq> 0 then act (UnownName i) s else s)
      in act (OwnName i) (s\<lparr>a_names := (a_names s)[i := a_fresh s], a_fresh := a_fresh s + 1\<rparr>))"

definition broadcast_signal :: "message \<Rightarrow> app \<Rightarrow> app" where
  "broadcast_signal m s =
     fold (\<lambda>n s. send_message AppBus (Some (spaces_message_copy m (Some n))) s)
       (filter (\<lambda>n. map_of (a_clients s) n = None) (a_guest_names s)) s"

definition forward_peer_signal :: "nat \<Rightarrow> message \<Rightarrow> app \<Rightarrow> app" where
  "forward_peer_signal c m = with_client c (\<lambda>cl s.
     if m_interface m = Some CONTROL \<and> m_member m = Some ''Changed'' then
       (case (c_observer cl, m_body m) of
          (True, Some [VString name]) \<Rightarrow>
            (case service_index (Some name) of None \<Rightarrow> s | Some i \<Rightarrow> reown_name i s)
        | _ \<Rightarrow> s)
     else case service_index (m_sender m) of
            None \<Rightarrow> s
          | Some i \<Rightarrow>
              if \<not> service_path i (m_path m) then s
              else if c_observer cl then broadcast_signal m s
              else send_message AppBus (Some (spaces_message_copy m (Some (c_name cl)))) s)"

definition agent_method :: "message \<Rightarrow> bool" where
  "agent_method m =
     (m_interface m = Some (NM @ ''.SecretAgent'')
      \<and> m_path m = Some ''/org/freedesktop/NetworkManager/SecretAgent''
      \<and> method_is_listed (m_member m) ''GetSecrets CancelGetSecrets SaveSecrets DeleteSecrets'')"

definition callback_permitted :: "bool \<Rightarrow> client \<Rightarrow> message \<Rightarrow> bool" where
  "callback_permitted broker cl m =
     (agent_method m
      \<and> (if broker then c_agent cl \<and> c_owners cl ! 1 \<noteq> None \<and> m_sender m = c_owners cl ! 1
         else c_admin cl \<and> \<not> c_observer cl))"

definition handle_agent_callback :: "answers \<Rightarrow> nat \<Rightarrow> conn \<Rightarrow> message \<Rightarrow> app \<Rightarrow> app" where
  "handle_agent_callback ans c bus m = with_client c (\<lambda>cl s.
     if \<not> callback_permitted (a_broker s) cl m
     then reply_error bus m access_denied ''Callback not permitted'' s
     else forward ans c bus (if a_broker s then c_peer cl else AppBus) m
            (if a_broker s then None else Some (c_name cl)) s)"

definition pending_for :: "conn \<Rightarrow> message \<Rightarrow> call \<Rightarrow> bool" where
  "pending_for bus m k = (\<not> k_delivered k \<and> k_target k = bus \<and> k_serial k = m_reply_serial m)"

definition dispatch :: "answers \<Rightarrow> (gvariant list \<Rightarrow> nat) \<Rightarrow> event \<Rightarrow> app \<Rightarrow> app" where
  "dispatch ans size_of e s =
     (let m = e_message e in
      if \<not> spaces_message_bounded size_of m then
        (if m_type m = MethodCall
         then reply_error (e_bus e) m limits_exceeded ''Message limit exceeded'' s else s)
      else case e_client e of
        None \<Rightarrow>
          if \<not> a_broker s then handle_guest_call ans (e_bus e) m s else s\<lparr>a_fault := True\<rparr>
      | Some c \<Rightarrow> with_client c (\<lambda>cl s.
          if a_broker s \<and> e_bus e = c_peer cl then handle_broker_call ans c (e_bus e) m s
          else if m_type m = Signal then
            (if a_broker s then forward_host_signal c m s else forward_peer_signal c m s)
          else if m_type m = MethodCall then handle_agent_callback ans c (e_bus e) m s
          else s) s)"

definition process_reply :: "(gvariant list \<Rightarrow> nat) \<Rightarrow> nat \<Rightarrow> conn \<Rightarrow> message \<Rightarrow> app \<Rightarrow> app" where
  "process_reply size_of c bus m = with_client c (\<lambda>cl s.
     case find (pending_for bus m) (c_pending_calls cl) of
       None \<Rightarrow> s
     | Some k \<Rightarrow> deliver_reply size_of c k (Some m) s)"

definition handle_event :: "answers \<Rightarrow> (gvariant list \<Rightarrow> nat) \<Rightarrow> event \<Rightarrow> app \<Rightarrow> app" where
  "handle_event ans size_of e s =
     (case e_client e of
        None \<Rightarrow> dispatch ans size_of e s
      | Some c \<Rightarrow> with_client c (\<lambda>cl s.
          if c_closed cl then s
          else if m_type (e_message e) = MethodReturn \<or> m_type (e_message e) = ErrorReply
            then process_reply size_of c (e_bus e) (e_message e) s
          else dispatch ans size_of e s) s)"

definition process_event :: "answers \<Rightarrow> (gvariant list \<Rightarrow> nat) \<Rightarrow> event \<Rightarrow> app \<Rightarrow> app" where
  "process_event ans size_of e s =
     (let s = handle_event ans size_of e s;
          s = s\<lparr>a_queued := a_queued s - 1\<rparr>
      in case e_client e of None \<Rightarrow> s | Some c \<Rightarrow> client_unref c s)"

definition queue_message :: "nat option \<Rightarrow> conn \<Rightarrow> message \<Rightarrow> app \<Rightarrow> app" where
  "queue_message c bus m s =
     (if a_queued s \<ge> 1024 then
        (if m_type m = MethodCall
         then reply_error bus m limits_exceeded ''System bridge queue full'' s else s)
      else let s = s\<lparr>a_queued := a_queued s + 1\<rparr>;
               s = (case c of None \<Rightarrow> s | Some c \<Rightarrow> client_ref c s)
           in s\<lparr>a_queue := a_queue s @ [\<lparr>e_client = c, e_bus = bus, e_message = m\<rparr>]\<rparr>)"

text \<open>The filters: the state, and whether the message stays with GDBus.\<close>

definition client_filter :: "nat \<Rightarrow> conn \<Rightarrow> message \<Rightarrow> bool \<Rightarrow> app \<Rightarrow> bool \<times> app" where
  "client_filter c bus m incoming s =
     (if incoming \<and> m_type m = MethodCall then (False, queue_message (Some c) bus m s)
      else if incoming then (True, queue_message (Some c) bus m s)
      else (True, s))"

definition guest_filter :: "conn \<Rightarrow> message \<Rightarrow> bool \<Rightarrow> app \<Rightarrow> bool \<times> app" where
  "guest_filter bus m incoming s =
     (if incoming \<and> m_type m = MethodCall then (False, queue_message None bus m s) else (True, s))"

definition guest_names :: "string \<Rightarrow> string \<Rightarrow> string \<Rightarrow> app \<Rightarrow> app" where
  "guest_names name old now s =
     (if name \<noteq> [] \<and> hd name = CHR '':'' then
        if now = [] then
          table_remove name (s\<lparr>a_guest_names := filter (\<lambda>n. n \<noteq> name) (a_guest_names s)\<rparr>)
        else if name \<noteq> a_unique_name s then
          s\<lparr>a_guest_names := (if name \<in> set (a_guest_names s) then a_guest_names s
                               else name # a_guest_names s)\<rparr>
        else s
      else s)"

section \<open>Broker authentication and startup\<close>

definition auth_peer :: "32 word option \<Rightarrow> bool" where
  "auth_peer credentials = (case credentials of None \<Rightarrow> False | Some uid \<Rightarrow> uid = 0)"

definition auth_mechanism :: "string \<Rightarrow> bool" where
  "auth_mechanism mechanism = (mechanism = ''EXTERNAL'')"

fun show_hex :: "nat \<Rightarrow> string" where
  "show_hex n = (let d = char_of (if n mod 16 < 10 then 48 + n mod 16 else 87 + n mod 16)
     in if n < 16 then [d] else show_hex (n div 16) @ [d])"

declare show_hex.simps [simp del]

definition pointer_name :: "nat \<Rightarrow> string" where
  "pointer_name p = ''0x'' @ show_hex p"

definition new_peer :: "app \<Rightarrow> bool \<times> app" where
  "new_peer s =
     (if length (a_clients s) \<ge> 129 then (False, s)
      else let peer = a_fresh s
           in (True, add_client (peer + 1) (new_client (pointer_name peer) (Peer peer))
                       (s\<lparr>a_fresh := a_fresh s + 2\<rparr>)))"

definition observer_tick :: "answers \<Rightarrow> app \<Rightarrow> app" where
  "observer_tick ans s = snd (relay_client ans ''observer'' True s)"

text \<open>
  \<open>main\<close>: the arguments, and the state when the main loop starts. \<open>Inl\<close> is the exit status of a
  failed start; the environment says whether the bus address is known, whether the server (broker)
  or the bus connection with its list of names (relay) could be set up.
\<close>

record startup =
  st_argv :: "string list"
  st_euid :: "32 word"
  st_bus_address :: bool
  st_server :: bool
  st_bus :: "string option"
  st_list_names :: "string list option"
  st_tick :: answers

definition usage_ok :: "string list \<Rightarrow> 32 word \<Rightarrow> bool" where
  "usage_ok argv euid =
     (length argv \<ge> 3 \<and> length argv \<le> 4
      \<and> (argv ! 1 = ''--broker'' \<or> argv ! 1 = ''--relay'')
      \<and> \<not> (length argv = 4 \<and> (argv ! 1 \<noteq> ''--broker'' \<or> argv ! 3 \<noteq> ''--admin''))
      \<and> euid = 0)"

definition initial_app :: "bool \<Rightarrow> bool \<Rightarrow> string \<Rightarrow> app" where
  "initial_app broker admin unique =
     \<lparr>a_broker = broker, a_admin = admin, a_unique_name = unique, a_clients = [],
      a_guest_names = [], a_names = [0, 0, 0], a_queued = 0, a_heap = (\<lambda>_. None), a_fresh = 1,
      a_filters = [], a_watches = [], a_handlers = [], a_queue = [], a_trace = [], a_fault = False\<rparr>"

definition guest_name_ok :: "string \<Rightarrow> string \<Rightarrow> bool" where
  "guest_name_ok unique n = (n \<noteq> [] \<and> hd n = CHR '':'' \<and> n \<noteq> unique)"

definition main_start :: "startup \<Rightarrow> int + app" where
  "main_start st =
     (if \<not> usage_ok (st_argv st) (st_euid st) then Inl 2
      else let broker = (st_argv st ! 1 = ''--broker''); admin = (length (st_argv st) = 4)
      in if \<not> st_bus_address st then Inl 1
      else if broker then (if \<not> st_server st then Inl 1 else Inr (initial_app True admin []))
      else case st_bus st of
             None \<Rightarrow> Inl 1
           | Some unique \<Rightarrow>
               case st_list_names st of
                 None \<Rightarrow> Inl 1
               | Some ns \<Rightarrow>
                   let s = (initial_app False admin unique)
                             \<lparr>a_guest_names := remdups (filter (guest_name_ok unique) ns)\<rparr>;
                       s = observer_tick (st_tick st) s
                   in Inr (reown_name 2 (reown_name 1 (reown_name 0 s))))"

section \<open>The event loop\<close>

text \<open>
  What the main loop and the GDBus worker may do next. A filter runs while GDBus still has it, a
  watch or a handler until it is removed; every forwarded call completes at most once, while it is
  listed; messages from a bus carry their sender; the bus names what it watches.
\<close>

inductive bridge_step :: "(gvariant list \<Rightarrow> nat) \<Rightarrow> app \<Rightarrow> app \<Rightarrow> bool" for size_of where
  step_filter: "(f, k, c) \<in> set (a_filters s) \<Longrightarrow>
     bridge_step size_of s (snd (client_filter c k m incoming s))"
| step_filter_destroyed: "a_filters s = before @ (f, k, c) # after \<Longrightarrow>
     bridge_step size_of s (client_unref c (s\<lparr>a_filters := before @ after\<rparr>))"
| step_guest: "\<not> a_broker s \<Longrightarrow> m_sender m \<noteq> None \<Longrightarrow>
     bridge_step size_of s (snd (guest_filter AppBus m incoming s))"
| step_event: "a_queue s = e # es \<Longrightarrow>
     bridge_step size_of s (process_event ans size_of e (s\<lparr>a_queue := es\<rparr>))"
| step_finished: "a_heap s c = Some cl \<Longrightarrow> k \<in> set (c_pending_calls cl) \<Longrightarrow>
     (\<forall>r. reply = Some r \<longrightarrow> m_type r \<in> {MethodReturn, ErrorReply}) \<Longrightarrow>
     bridge_step size_of s (forward_finished size_of c k reply s)"
| step_appeared: "(w, i, c) \<in> set (a_watches s) \<Longrightarrow>
     bridge_step size_of s (appeared (services ! i) owner c s)"
| step_vanished: "(w, i, c) \<in> set (a_watches s) \<Longrightarrow>
     bridge_step size_of s (vanished (services ! i) c s)"
| step_closed: "(k, c) \<in> set (a_handlers s) \<Longrightarrow> bridge_step size_of s (connection_closed c s)"
| step_names: "\<not> a_broker s \<Longrightarrow> bridge_step size_of s (guest_names name old now s)"
| step_new_peer: "a_broker s \<Longrightarrow> bridge_step size_of s (snd (new_peer s))"
| step_tick: "\<not> a_broker s \<Longrightarrow> bridge_step size_of s (observer_tick ans s)"

definition bridge_init :: "app \<Rightarrow> bool" where
  "bridge_init s = (\<exists>st. main_start st = Inr s)"

end
