(* ===== verification/Bridge_Safety.thy ===== *)
theory Bridge_Safety
  imports System_Broker
begin

text \<open>
  The safety of the system-bus bridge: an invariant of every reachable state of
  \<open>System_Broker.bridge_step\<close>, shown for each primitive, then for each callback, and the
  properties that follow from it.
\<close>

section \<open>The invariant\<close>

text \<open>
  \<open>bridge_ok d q\<close>: no fault; every client's count of references is exactly the number of table
  entries, filters, queued events and pending calls that point to it, plus \<open>d\<close> references on the
  stack; bare pointers (watches, handlers) point to open clients only; an open client is in the table;
  the queue counter is the queue's length plus \<open>q\<close>; every action so far was permitted; every
  forwarded call is answered once, or still pending.
\<close>

definition counted :: "app \<Rightarrow> nat \<Rightarrow> int" where
  "counted s c = int (length (filter (\<lambda>(_, x). x = c) (a_clients s))
      + length (filter (\<lambda>(_, _, x). x = c) (a_filters s))
      + length (filter (\<lambda>e. e_client e = Some c) (a_queue s)))"

definition client_ok :: "(nat \<Rightarrow> int) \<Rightarrow> app \<Rightarrow> nat \<Rightarrow> client \<Rightarrow> bool" where
  "client_ok d s c cl \<longleftrightarrow>
     c < a_fresh s
     \<and> c_refs cl = counted s c + int (length (c_pending_calls cl)) + d c \<and> 0 < c_refs cl
     \<and> c_outstanding cl = int (length (c_pending_calls cl)) \<and> length (c_pending_calls cl) \<le> 64
     \<and> length (c_watches cl) = 3
     \<and> (a_broker s \<longrightarrow> c_opened cl \<longrightarrow> (\<exists>h. c_host cl = Some (Host h)))
     \<and> (a_broker s \<longrightarrow> c_admin cl \<longrightarrow> a_admin s)
     \<and> (\<exists>p. c_peer cl = Peer p \<and> (a_broker s \<longrightarrow> p < a_fresh s \<and> c_name cl = pointer_name p))
     \<and> (\<not> c_opened cl \<longrightarrow> c_watches cl = [0, 0, 0] \<and> c_host cl = None)
     \<and> (\<forall>h. c_host cl = Some h \<longrightarrow> a_broker s \<and> (\<exists>p. h = Host p))
     \<and> (\<not> c_closed cl \<longrightarrow> (c_name cl, c) \<in> set (a_clients s))"

definition heap_ok :: "(nat \<Rightarrow> int) \<Rightarrow> app \<Rightarrow> bool" where
  "heap_ok d s \<longleftrightarrow> (\<forall>c. case a_heap s c of
     None \<Rightarrow> counted s c + d c = 0 | Some cl \<Rightarrow> client_ok d s c cl)"

definition open_client_at :: "app \<Rightarrow> nat \<Rightarrow> (client \<Rightarrow> bool) \<Rightarrow> bool" where
  "open_client_at s c P \<longleftrightarrow> (\<exists>cl. a_heap s c = Some cl \<and> \<not> c_closed cl \<and> P cl)"

definition links_ok :: "app \<Rightarrow> bool" where
  "links_ok s \<longleftrightarrow>
     distinct (map fst (a_clients s))
     \<and> (\<forall>(n, c) \<in> set (a_clients s). open_client_at s c (\<lambda>cl. c_name cl = n))
     \<and> (\<forall>(w, i, c) \<in> set (a_watches s).
          is_service i \<and> w \<noteq> 0 \<and> open_client_at s c (\<lambda>cl. w \<in> set (c_watches cl)))
     \<and> (\<forall>(k, c) \<in> set (a_handlers s).
          open_client_at s c (\<lambda>cl. k = c_peer cl \<or> c_host cl = Some k))"

definition queue_ok :: "int \<Rightarrow> app \<Rightarrow> bool" where
  "queue_ok q s \<longleftrightarrow> a_queued s = int (length (a_queue s)) + q \<and> a_queued s \<le> 1024
     \<and> (\<forall>e \<in> set (a_queue s). e_client e = None \<longrightarrow> \<not> a_broker s \<and> m_sender (e_message e) \<noteq> None)"

definition size_ok :: "app \<Rightarrow> bool" where
  "size_ok s \<longleftrightarrow> length (a_clients s) \<le> (if a_broker s then 129 else 128)"

definition action_ok :: "bool \<Rightarrow> bool \<Rightarrow> action \<Rightarrow> bool" where
  "action_ok broker admin a \<longleftrightarrow> (case a of
     SendWithReply k m _ \<Rightarrow>
       (case k of
          Host _ \<Rightarrow> broker \<and> system_call_allowed m admin
        | Peer _ \<Rightarrow> if broker then agent_method m else system_call_allowed m True
        | AppBus \<Rightarrow> \<not> broker \<and> agent_method m)
   | Send k m \<Rightarrow> (case k of Host _ \<Rightarrow> m_type m = MethodReturn \<or> m_type m = ErrorReply | _ \<Rightarrow> True)
   | Reply k m _ \<Rightarrow> m_type m = MethodReturn \<or> m_type m = ErrorReply
   | _ \<Rightarrow> True)"

definition trace_ok :: "app \<Rightarrow> bool" where
  "trace_ok s \<longleftrightarrow> (\<forall>a \<in> set (a_trace s). action_ok (a_broker s) (a_admin s) a)"

text \<open>The answers that were sent to a forwarded call. A call gets one; a message that is no method call but was forwarded
  like one may get none, since GDBus builds no error for it.\<close>

fun answers_call :: "nat \<Rightarrow> action \<Rightarrow> bool" where
  "answers_call i (Reply k m j) = (j = i)"
| "answers_call i _ = False"

definition deliveries :: "app \<Rightarrow> nat \<Rightarrow> nat" where
  "deliveries s i = length (filter (answers_call i) (a_trace s))"

definition settled :: "message_type \<Rightarrow> nat \<Rightarrow> bool" where
  "settled t n \<longleftrightarrow> n \<le> 1 \<and> (t = MethodCall \<longrightarrow> n = 1)"

definition owed :: "call \<Rightarrow> nat \<Rightarrow> bool" where
  "owed k n \<longleftrightarrow> (if k_delivered k then settled (m_type (k_request k)) n else n = 0)"

definition pending :: "app \<Rightarrow> nat \<Rightarrow> call \<Rightarrow> bool" where
  "pending s c k \<longleftrightarrow> (\<exists>cl. a_heap s c = Some cl \<and> k \<in> set (c_pending_calls cl))"

definition calls_ok :: "app \<Rightarrow> bool" where
  "calls_ok s \<longleftrightarrow>
     (\<forall>c k. pending s c k \<longrightarrow> k_id k < a_fresh s \<and> owed k (deliveries s (k_id k)))
     \<and> (\<forall>c k c' k'. pending s c k \<longrightarrow> pending s c' k' \<longrightarrow> k_id k = k_id k' \<longrightarrow> c = c' \<and> k = k')
     \<and> (\<forall>c cl. a_heap s c = Some cl \<longrightarrow> distinct (map k_id (c_pending_calls cl)))
     \<and> (\<forall>t m i. SendWithReply t m i \<in> set (a_trace s) \<longrightarrow>
          i < a_fresh s \<and> (settled (m_type m) (deliveries s i) \<or> (\<exists>c k. pending s c k \<and> k_id k = i)))
     \<and> (\<forall>t m c k. SendWithReply t m (k_id k) \<in> set (a_trace s) \<longrightarrow> pending s c k \<longrightarrow>
          m_type m = m_type (k_request k) \<and> m_serial m = m_serial (k_request k))
     \<and> (\<forall>k a i t m. Reply k a i \<in> set (a_trace s) \<longrightarrow> SendWithReply t m i \<in> set (a_trace s) \<longrightarrow> m_reply_serial a = m_serial m)
     \<and> (\<forall>i \<ge> a_fresh s. deliveries s i = 0)"

lemma calls_okD:
  assumes "calls_ok s"
  shows "pending s c k \<Longrightarrow> k_id k < a_fresh s \<and> owed k (deliveries s (k_id k))"
    and "pending s c k \<Longrightarrow> pending s c' k' \<Longrightarrow> k_id k = k_id k' \<Longrightarrow> c = c' \<and> k = k'"
    and "a_heap s c = Some cl \<Longrightarrow> distinct (map k_id (c_pending_calls cl))"
    and "SendWithReply t m i \<in> set (a_trace s) \<Longrightarrow>
          i < a_fresh s \<and> (settled (m_type m) (deliveries s i) \<or> (\<exists>c k. pending s c k \<and> k_id k = i))"
    and "SendWithReply t m (k_id k) \<in> set (a_trace s) \<Longrightarrow> pending s c k \<Longrightarrow>
          m_type m = m_type (k_request k) \<and> m_serial m = m_serial (k_request k)"
    and "Reply d a i \<in> set (a_trace s) \<Longrightarrow> SendWithReply t m i \<in> set (a_trace s) \<Longrightarrow> m_reply_serial a = m_serial m"
    and "i \<ge> a_fresh s \<Longrightarrow> deliveries s i = 0"
proof -
  note all = assms [unfolded calls_ok_def]
  show "pending s c k \<Longrightarrow> k_id k < a_fresh s \<and> owed k (deliveries s (k_id k))" using all [THEN conjunct1] by blast
  note all = all [THEN conjunct2]
  show "pending s c k \<Longrightarrow> pending s c' k' \<Longrightarrow> k_id k = k_id k' \<Longrightarrow> c = c' \<and> k = k'" using all [THEN conjunct1] by blast
  note all = all [THEN conjunct2]
  show "a_heap s c = Some cl \<Longrightarrow> distinct (map k_id (c_pending_calls cl))" using all [THEN conjunct1] by blast
  note all = all [THEN conjunct2]
  show "SendWithReply t m i \<in> set (a_trace s) \<Longrightarrow>
          i < a_fresh s \<and> (settled (m_type m) (deliveries s i) \<or> (\<exists>c k. pending s c k \<and> k_id k = i))" using all [THEN conjunct1] by blast
  note all = all [THEN conjunct2]
  show "SendWithReply t m (k_id k) \<in> set (a_trace s) \<Longrightarrow> pending s c k \<Longrightarrow>
          m_type m = m_type (k_request k) \<and> m_serial m = m_serial (k_request k)" using all [THEN conjunct1] by blast
  note all = all [THEN conjunct2]
  show "Reply d a i \<in> set (a_trace s) \<Longrightarrow> SendWithReply t m i \<in> set (a_trace s) \<Longrightarrow> m_reply_serial a = m_serial m"
    using all [THEN conjunct1] by blast
  show "i \<ge> a_fresh s \<Longrightarrow> deliveries s i = 0" using all [THEN conjunct2] by blast
qed

definition bridge_ok :: "(nat \<Rightarrow> int) \<Rightarrow> int \<Rightarrow> app \<Rightarrow> bool" where
  "bridge_ok d q s \<longleftrightarrow> \<not> a_fault s \<and> a_fresh s > 0 \<and> heap_ok d s \<and> links_ok s \<and> queue_ok q s \<and> size_ok s
     \<and> trace_ok s \<and> calls_ok s"

section \<open>Preservation: the primitives\<close>

lemma act_simps [simp]:
  "a_heap (act a s) = a_heap s" "a_fresh (act a s) = a_fresh s" "a_clients (act a s) = a_clients s"
  "a_filters (act a s) = a_filters s" "a_queue (act a s) = a_queue s" "a_broker (act a s) = a_broker s"
  "a_admin (act a s) = a_admin s" "a_watches (act a s) = a_watches s"
  "a_handlers (act a s) = a_handlers s" "a_queued (act a s) = a_queued s"
  "a_fault (act a s) = a_fault s" "a_trace (act a s) = a_trace s @ [a]"
  "a_unique_name (act a s) = a_unique_name s" "a_guest_names (act a s) = a_guest_names s"
  "a_names (act a s) = a_names s"
  by (simp_all add: act_def)

lemma set_client_simps [simp]:
  "a_heap (set_client c cl s) = (a_heap s)(c := Some cl)" "a_fresh (set_client c cl s) = a_fresh s"
  "a_clients (set_client c cl s) = a_clients s" "a_filters (set_client c cl s) = a_filters s"
  "a_queue (set_client c cl s) = a_queue s" "a_broker (set_client c cl s) = a_broker s"
  "a_admin (set_client c cl s) = a_admin s" "a_watches (set_client c cl s) = a_watches s"
  "a_handlers (set_client c cl s) = a_handlers s" "a_queued (set_client c cl s) = a_queued s"
  "a_fault (set_client c cl s) = a_fault s" "a_trace (set_client c cl s) = a_trace s"
  "a_unique_name (set_client c cl s) = a_unique_name s"
  "a_guest_names (set_client c cl s) = a_guest_names s" "a_names (set_client c cl s) = a_names s"
  by (simp_all add: set_client_def)

lemma with_client_live [simp]: "a_heap s c = Some cl \<Longrightarrow> with_client c f s = f cl s"
  by (simp add: with_client_def)

lemma bridge_ok_client: "bridge_ok d q s \<Longrightarrow> a_heap s c = Some cl \<Longrightarrow> client_ok d s c cl"
  unfolding bridge_ok_def heap_ok_def by (elim conjE allE [of _ c]) simp

lemma bridge_ok_live:
  assumes "bridge_ok d q s" "0 < counted s c + d c"
  obtains cl where "a_heap s c = Some cl"
  using assms unfolding bridge_ok_def heap_ok_def by (elim conjE allE [of _ c]) (auto split: option.splits)

text \<open>An ordinary action: anything but the start or the delivery of a call.\<close>

definition ordinary :: "action \<Rightarrow> bool" where
  "ordinary a = (case a of SendWithReply _ _ _ \<Rightarrow> False | Reply _ _ _ \<Rightarrow> False | _ \<Rightarrow> True)"

lemma insensitive [simp]:
  "counted (act a s) = counted s" "heap_ok d (act a s) = heap_ok d s" "links_ok (act a s) = links_ok s"
  "queue_ok q (act a s) = queue_ok q s" "size_ok (act a s) = size_ok s" "pending (act a s) = pending s"
  "trace_ok (act a s) = (trace_ok s \<and> action_ok (a_broker s) (a_admin s) a)"
proof -
  show c: "counted (act a s) = counted s" by (rule ext) (simp add: counted_def)
  have "client_ok d (act a s) = client_ok d s" by (intro ext) (simp add: client_ok_def c)
  then show "heap_ok d (act a s) = heap_ok d s" by (simp add: heap_ok_def c cong: option.case_cong)
  show "links_ok (act a s) = links_ok s" by (simp add: links_ok_def open_client_at_def)
  show "queue_ok q (act a s) = queue_ok q s" by (simp add: queue_ok_def)
  show "size_ok (act a s) = size_ok s" by (simp add: size_ok_def)
  show "pending (act a s) = pending s" by (intro ext) (simp add: pending_def)
  show "trace_ok (act a s) = (trace_ok s \<and> action_ok (a_broker s) (a_admin s) a)"
    by (auto simp: trace_ok_def)
qed

lemma deliveries_act: "deliveries (act a s) i = deliveries s i + (if answers_call i a then 1 else 0)"
  by (simp add: deliveries_def)

lemma calls_ok_act: "ordinary a \<Longrightarrow> calls_ok (act a s) = calls_ok s"
  by (cases a) (simp_all add: ordinary_def calls_ok_def deliveries_act)

lemma no_answer: "deliveries s i = 0 \<Longrightarrow> Reply k a i \<notin> set (a_trace s)"
  by (force simp: deliveries_def filter_empty_conv)

lemma bridge_ok_act [simp]:
  "ordinary a \<Longrightarrow> bridge_ok d q (act a s) = (bridge_ok d q s \<and> action_ok (a_broker s) (a_admin s) a)"
  by (auto simp: bridge_ok_def calls_ok_act)

lemma bridge_ok_send: "bridge_ok d q s \<Longrightarrow> (\<And>m'. m = Some m' \<Longrightarrow> action_ok (a_broker s) (a_admin s) (Send k m')) \<Longrightarrow>
  bridge_ok d q (send_message k m s)"
  by (auto simp: send_message_def ordinary_def split: option.split)

lemma bridge_ok_reply_error: "bridge_ok d q s \<Longrightarrow> bridge_ok d q (reply_error k m n t s)"
  unfolding reply_error_def
  by (rule bridge_ok_send) (auto simp: method_error_def action_ok_def split: conn.split)

text \<open>Updating one client in place, its links unchanged.\<close>

lemma counted_set_client [simp]: "counted (set_client c cl s) = counted s"
  by (rule ext) (simp add: counted_def)

lemma client_ok_set_client [simp]: "client_ok d (set_client c cl s) = client_ok d s"
  by (intro ext) (simp add: client_ok_def)

lemma client_ok_cong: "d' x = d x \<Longrightarrow> client_ok d' s x cl = client_ok d s x cl"
  by (simp add: client_ok_def)

lemma heap_ok_set_client:
  assumes "heap_ok d s" "client_ok d' s c cl'" "\<And>x. x \<noteq> c \<Longrightarrow> d' x = d x"
  shows "heap_ok d' (set_client c cl' s)"
  unfolding heap_ok_def
proof
  fix x
  show "case a_heap (set_client c cl' s) x of None \<Rightarrow> counted (set_client c cl' s) x + d' x = 0
    | Some cl \<Rightarrow> client_ok d' (set_client c cl' s) x cl"
  proof (cases "x = c")
    case False
    have "case a_heap s x of None \<Rightarrow> counted s x + d x = 0 | Some cl \<Rightarrow> client_ok d s x cl"
      using assms(1) by (simp add: heap_ok_def)
    then show ?thesis using False assms(3) client_ok_cong [of d' x d s] by (simp split: option.splits)
  qed (simp add: assms(2))
qed

lemma links_ok_set_client:
  assumes "links_ok s" "a_heap s c = Some cl" "c_name cl' = c_name cl" "c_closed cl' = c_closed cl"
    "c_peer cl' = c_peer cl" "c_host cl' = c_host cl" "c_watches cl' = c_watches cl"
  shows "links_ok (set_client c cl' s)"
proof -
  have "\<forall>(n, x) \<in> set (a_clients s). open_client_at (set_client c cl' s) x (\<lambda>cl. c_name cl = n)"
    using assms unfolding links_ok_def open_client_at_def by fastforce
  moreover have "\<forall>(w, i, x) \<in> set (a_watches s). is_service i \<and> w \<noteq> 0
      \<and> open_client_at (set_client c cl' s) x (\<lambda>cl. w \<in> set (c_watches cl))"
    using assms unfolding links_ok_def open_client_at_def by fastforce
  moreover have "\<forall>(k, x) \<in> set (a_handlers s).
      open_client_at (set_client c cl' s) x (\<lambda>cl. k = c_peer cl \<or> c_host cl = Some k)"
    using assms unfolding links_ok_def open_client_at_def by fastforce
  ultimately show ?thesis using assms(1) by (simp add: links_ok_def)
qed

lemma calls_ok_set_client:
  assumes "calls_ok s" "a_heap s c = Some cl" "c_pending_calls cl' = c_pending_calls cl"
  shows "calls_ok (set_client c cl' s)"
proof -
  have p: "pending (set_client c cl' s) = pending s"
    using assms by (intro ext) (auto simp: pending_def)
  have q: "deliveries (set_client c cl' s) = deliveries s" by (rule ext) (simp add: deliveries_def)
  show ?thesis using assms unfolding calls_ok_def p q by auto
qed

lemma set_client_other [simp]:
  "queue_ok q (set_client c cl s) = queue_ok q s" "size_ok (set_client c cl s) = size_ok s"
  "trace_ok (set_client c cl s) = trace_ok s"
  by (simp_all add: queue_ok_def size_ok_def trace_ok_def)

lemma bridge_ok_set_client:
  assumes "bridge_ok d q s" "a_heap s c = Some cl" "client_ok d' s c cl'"
    "\<And>x. x \<noteq> c \<Longrightarrow> d' x = d x" "c_name cl' = c_name cl" "c_closed cl' = c_closed cl"
    "c_peer cl' = c_peer cl" "c_host cl' = c_host cl" "c_watches cl' = c_watches cl"
    "c_pending_calls cl' = c_pending_calls cl"
  shows "bridge_ok d' q (set_client c cl' s)"
  using assms unfolding bridge_ok_def
  by (auto intro: heap_ok_set_client links_ok_set_client calls_ok_set_client)

lemma bridge_ok_ref:
  assumes "bridge_ok d q s" "a_heap s c = Some cl"
  shows "bridge_ok (d(c := d c + 1)) q (client_ref c s)"
proof -
  have "client_ok (d(c := d c + 1)) s c (cl\<lparr>c_refs := c_refs cl + 1\<rparr>)"
    using bridge_ok_client [OF assms] by (auto simp: client_ok_def)
  then show ?thesis using assms unfolding client_ref_def
    by (auto intro: bridge_ok_set_client)
qed

lemma counted_nonneg: "0 \<le> counted s c"
  by (simp add: counted_def)

lemma counted_clients: "(n, c) \<in> set (a_clients s) \<Longrightarrow> 0 < counted s c"
  unfolding counted_def
  by (metis (mono_tags, lifting) add_gr_0 case_prodI filter_empty_conv length_greater_0_conv of_nat_0_less_iff)

lemma bridge_ok_free:
  assumes ok: "bridge_ok d q s" and h: "a_heap s c = Some cl" and d: "0 < d c" and one: "c_refs cl = 1"
  shows "bridge_ok (d(c := d c - 1)) q (s\<lparr>a_heap := (a_heap s)(c := None)\<rparr>)" (is "bridge_ok ?d q ?t")
proof -
  note cl = bridge_ok_client [OF ok h]
  have z: "counted s c = 0" "c_pending_calls cl = []" "d c = 1"
  proof -
    have "counted s c + int (length (c_pending_calls cl)) + d c = 1" using cl one by (simp add: client_ok_def)
    then have "counted s c = 0 \<and> length (c_pending_calls cl) = 0 \<and> d c = 1"
      using d counted_nonneg [of s c] by linarith
    then show "counted s c = 0" "c_pending_calls cl = []" "d c = 1" by simp_all
  qed
  then have closed: "c_closed cl" using cl counted_clients [of _ c s] by (force simp: client_ok_def)
  have c: "counted ?t = counted s" by (rule ext) (simp add: counted_def)
  have o: "open_client_at ?t x P = open_client_at s x P" for x P
    using closed h by (auto simp: open_client_at_def)
  have p: "pending ?t = pending s" using z h by (intro ext) (auto simp: pending_def)
  have "heap_ok ?d ?t" unfolding heap_ok_def
  proof
    fix x
    show "case a_heap ?t x of None \<Rightarrow> counted ?t x + ?d x = 0 | Some cl \<Rightarrow> client_ok ?d ?t x cl"
    proof (cases "x = c")
      case False
      have "client_ok ?d ?t x k = client_ok d s x k" for k using False by (simp add: client_ok_def c)
      then show ?thesis using ok False
        by (auto simp: bridge_ok_def heap_ok_def c split: option.splits dest: spec [of _ x])
    qed (simp add: z c)
  qed
  moreover have "links_ok ?t" using ok unfolding bridge_ok_def links_ok_def o by simp
  moreover have "calls_ok ?t" using ok unfolding bridge_ok_def calls_ok_def p by (auto simp: deliveries_def)
  ultimately show ?thesis using ok by (simp add: bridge_ok_def queue_ok_def size_ok_def trace_ok_def)
qed

lemma bridge_ok_unref:
  assumes ok: "bridge_ok d q s" and d: "0 < d c"
  shows "bridge_ok (d(c := d c - 1)) q (client_unref c s)"
proof -
  obtain cl where h: "a_heap s c = Some cl"
    using bridge_ok_live [OF ok, of c] d counted_nonneg [of s c] by fastforce
  note cl = bridge_ok_client [OF ok h]
  show ?thesis
  proof (cases "c_refs cl = 1")
    case True
    then show ?thesis using bridge_ok_free [OF ok h d] h by (simp add: client_unref_def)
  next
    case False
    then have "client_ok (d(c := d c - 1)) s c (cl\<lparr>c_refs := c_refs cl - 1\<rparr>)"
      using cl by (auto simp: client_ok_def)
    then show ?thesis using ok h False unfolding client_unref_def
      by (auto intro: bridge_ok_set_client)
  qed
qed

text \<open>Closing a client: what it changes, and the actions it adds.\<close>

definition closing :: "action \<Rightarrow> bool" where
  "closing a = (case a of CloseConnection _ \<Rightarrow> True | Unsubscribe _ _ \<Rightarrow> True | RemoveFilter _ _ \<Rightarrow> True | _ \<Rightarrow> False)"

lemma closing_simps [simp]: "closing (CloseConnection k)" "closing (Unsubscribe k i)" "closing (RemoveFilter k i)"
  by (simp_all add: closing_def)

lemma bridge_ok_closing:
  assumes "bridge_ok d q s" "list_all closing as"
  shows "bridge_ok d q (s\<lparr>a_trace := a_trace s @ as\<rparr>)"
  using assms(2,1)
proof (induction as arbitrary: s)
  case (Cons a as)
  have "ordinary a \<and> action_ok (a_broker s) (a_admin s) a"
    using Cons.prems(1) by (cases a) (simp_all add: closing_def ordinary_def action_ok_def)
  then have "bridge_ok d q (act a s)" using Cons.prems(2) by simp
  from Cons.IH [OF _ this] Cons.prems(1) show ?case by (simp add: act_def)
qed simp

lemma close_watch_eq:
  "\<exists>as. list_all closing as \<and> close_watch cl i s =
     s\<lparr>a_watches := filter (\<lambda>(w, _, _). w \<noteq> c_watches cl ! i \<or> w = 0) (a_watches s),
       a_trace := a_trace s @ as\<rparr>"
proof -
  let ?s = "s\<lparr>a_watches := filter (\<lambda>(w, _, _). w \<noteq> c_watches cl ! i \<or> w = 0) (a_watches s)\<rparr>"
  have "(if c_watches cl ! i \<noteq> 0 then unwatch_name (c_watches cl ! i) s else s) = ?s"
    by (auto simp: unwatch_name_def intro!: arg_cong [where f = "\<lambda>w. s\<lparr>a_watches := w\<rparr>"] filter_cong)
  then have "close_watch cl i s = ?s\<lparr>a_trace := a_trace ?s @
      (if c_subscriptions cl ! i \<noteq> 0 then
         (case c_host cl of None \<Rightarrow> [] | Some h \<Rightarrow> [Unsubscribe h (c_subscriptions cl ! i)]) else [])\<rparr>"
    by (auto simp: close_watch_def act_def Let_def split: option.split)
  then show ?thesis
    by (intro exI [of _ "if c_subscriptions cl ! i \<noteq> 0 then
         (case c_host cl of None \<Rightarrow> [] | Some h \<Rightarrow> [Unsubscribe h (c_subscriptions cl ! i)]) else []"])
      (simp split: option.split)
qed

definition closed_form :: "nat \<Rightarrow> client \<Rightarrow> app \<Rightarrow> app" where
  "closed_form c cl s = s\<lparr>a_heap := (a_heap s)(c := Some (cl\<lparr>c_closed := True\<rparr>)),
     a_watches := filter (\<lambda>(w, _, _). w \<notin> set (c_watches cl) \<or> w = 0) (a_watches s),
     a_handlers := filter (\<lambda>(k, x). \<not> (x = c \<and> (k = c_peer cl \<or> c_host cl = Some k))) (a_handlers s)\<rparr>"

lemma close_watches_eq:
  assumes l: "length (c_watches cl) = 3"
  shows "\<exists>as. list_all closing as \<and> close_watch cl 2 (close_watch cl 1 (close_watch cl 0 s)) =
     s\<lparr>a_watches := filter (\<lambda>(w, _, _). w \<notin> set (c_watches cl) \<or> w = 0) (a_watches s),
       a_trace := a_trace s @ as\<rparr>"
proof -
  obtain w0 w1 w2 where w: "c_watches cl = [w0, w1, w2]"
    using l by (auto simp: numeral_3_eq_3 length_Suc_conv)
  let ?P = "\<lambda>i (w :: nat, _ :: nat, _ :: nat). w \<noteq> c_watches cl ! i \<or> w = 0"
  have f: "filter (?P 2) (filter (?P 1) (filter (?P 0) ws)) =
      filter (\<lambda>(w, _, _). w \<notin> set (c_watches cl) \<or> w = 0) ws" for ws
    by (induction ws) (auto simp: w)
  obtain a0 where a0: "list_all closing a0" "close_watch cl 0 s =
      s\<lparr>a_watches := filter (?P 0) (a_watches s), a_trace := a_trace s @ a0\<rparr>"
    (is "_ = ?s0") using close_watch_eq by blast
  obtain a1 where a1: "list_all closing a1" "close_watch cl 1 ?s0 =
      ?s0\<lparr>a_watches := filter (?P 1) (a_watches ?s0), a_trace := a_trace ?s0 @ a1\<rparr>"
    (is "_ = ?s1") using close_watch_eq by blast
  obtain a2 where a2: "list_all closing a2" "close_watch cl 2 ?s1 =
      ?s1\<lparr>a_watches := filter (?P 2) (a_watches ?s1), a_trace := a_trace ?s1 @ a2\<rparr>"
    using close_watch_eq by blast
  have "close_watch cl 2 (close_watch cl 1 (close_watch cl 0 s)) =
     s\<lparr>a_watches := filter (?P 2) (filter (?P 1) (filter (?P 0) (a_watches s))),
       a_trace := a_trace s @ (a0 @ a1 @ a2)\<rparr>"
    unfolding a0(2) a1(2) a2(2) by (simp del: filter_filter)
  then show ?thesis unfolding f using a0(1) a1(1) a2(1)
    by (intro exI [of _ "a0 @ a1 @ a2"]) simp
qed

lemma client_close_eq:
  assumes h: "a_heap s c = Some cl" and o: "\<not> c_closed cl" and l: "length (c_watches cl) = 3"
  shows "\<exists>as. list_all closing as \<and>
    client_close c s = (closed_form c cl s)\<lparr>a_trace := a_trace s @ as\<rparr>"
proof -
  let ?s = "set_client c (cl\<lparr>c_closed := True\<rparr>) s"
  let ?ws = "filter (\<lambda>(w, _, _). w \<notin> set (c_watches cl) \<or> w = 0) (a_watches s)"
  obtain as where as: "list_all closing as" "close_watch cl 2 (close_watch cl 1 (close_watch cl 0 ?s)) =
      ?s\<lparr>a_watches := ?ws, a_trace := a_trace s @ as\<rparr>" (is "_ = ?u")
    using close_watches_eq [OF l, of ?s] by auto
  let ?f = "as @ (if c_filter0 cl \<noteq> 0 then [RemoveFilter (c_peer cl) (c_filter0 cl)] else []) @
    (case c_host cl of Some h \<Rightarrow> if c_filter1 cl \<noteq> 0 then [RemoveFilter h (c_filter1 cl)] else [] | None \<Rightarrow> []) @
    [CloseConnection (c_peer cl)] @ (case c_host cl of None \<Rightarrow> [] | Some h \<Rightarrow> [CloseConnection h])"
  have hs: "filter (\<lambda>h. h \<noteq> (p, c)) xs = filter (\<lambda>(k, x). \<not> (x = c \<and> k = p)) xs"
    "filter (\<lambda>(k, x). x = c \<longrightarrow> k \<noteq> p') (filter (\<lambda>(k, x). x = c \<longrightarrow> k \<noteq> p) xs) =
       filter (\<lambda>(k, x). x = c \<longrightarrow> k \<noteq> p \<and> p' \<noteq> k) xs" for p p' and xs :: "(conn \<times> nat) list"
    by (induction xs) auto
  have "client_close c s = (closed_form c cl s)\<lparr>a_trace := a_trace s @ ?f\<rparr>"
  proof (cases "c_host cl")
    case None
    then show ?thesis
      unfolding client_close_def with_client_live [OF h] Let_def as(2)
      by (simp add: o closed_form_def close_connection_def disconnect_by_data_def act_def
          set_client_def hs del: filter_filter)
  next
    case (Some h')
    then show ?thesis
      unfolding client_close_def with_client_live [OF h] Let_def as(2)
      by (simp add: o closed_form_def close_connection_def disconnect_by_data_def act_def
          set_client_def hs del: filter_filter)
  qed
  moreover have "list_all closing ?f" using as(1) by (simp split: option.split)
  ultimately show ?thesis by blast
qed

lemma count_without_key:
  "distinct (map fst xs) \<Longrightarrow> (n, c) \<in> set xs \<Longrightarrow>
   length (filter (\<lambda>(_, x). x = y) (filter (\<lambda>(m, _). m \<noteq> n) xs)) + (if y = c then 1 else 0)
     = length (filter (\<lambda>(_, x). x = y) xs)"
proof (induction xs)
  case (Cons a xs)
  show ?case
  proof (cases "fst a = n")
    case True
    then have "n \<notin> fst ` set xs" using Cons.prems by auto
    then have "filter (\<lambda>(m, _). m \<noteq> n) xs = xs" by (force simp: filter_id_conv)
    moreover have "a = (n, c)" using True Cons.prems by (auto simp: image_iff)
    ultimately show ?thesis by simp
  next
    case False
    with Cons show ?thesis by (cases a) auto
  qed
qed simp

lemma links_ok_key:
  assumes "links_ok s" "(n, c) \<in> set (a_clients s)"
  obtains cl where "a_heap s c = Some cl" "\<not> c_closed cl" "c_name cl = n"
    "\<And>m x. (m, x) \<in> set (a_clients s) \<Longrightarrow> x = c \<longleftrightarrow> m = n"
proof -
  obtain cl where cl: "a_heap s c = Some cl" "\<not> c_closed cl" "c_name cl = n"
    using assms by (auto simp: links_ok_def open_client_at_def)
  moreover have "x = c \<longleftrightarrow> m = n" if "(m, x) \<in> set (a_clients s)" for m x
    using assms that cl by (auto simp: links_ok_def open_client_at_def dest: eq_key_imp_eq_value)
  ultimately show ?thesis using that by blast
qed

lemma bridge_ok_unlink:
  assumes ok: "bridge_ok d q s" and e: "(n, c) \<in> set (a_clients s)" and h: "a_heap s c = Some cl"
  shows "bridge_ok (d(c := d c + 1)) q
    (closed_form c cl (s\<lparr>a_clients := filter (\<lambda>(m, _). m \<noteq> n) (a_clients s)\<rparr>))"
    (is "bridge_ok ?d q ?t")
proof -
  have links: "links_ok s" using ok by (simp add: bridge_ok_def)
  have key: "x = c \<longleftrightarrow> m = n" if "(m, x) \<in> set (a_clients s)" for m x
    by (rule links_ok_key [OF links e]) (use that in blast)
  have cnt: "counted s x = counted ?t x + (if x = c then 1 else 0)" for x
    using count_without_key [of "a_clients s" n c x] links e
    by (auto simp: counted_def closed_form_def links_ok_def split: if_splits)
  have "heap_ok ?d ?t" unfolding heap_ok_def
  proof
    fix x
    have hx: "case a_heap s x of None \<Rightarrow> counted s x + d x = 0 | Some cl \<Rightarrow> client_ok d s x cl"
      using ok by (simp add: bridge_ok_def heap_ok_def)
    show "case a_heap ?t x of None \<Rightarrow> counted ?t x + ?d x = 0 | Some cl \<Rightarrow> client_ok ?d ?t x cl"
    proof (cases "x = c")
      case True
      then show ?thesis using hx h cnt [of c] by (simp add: closed_form_def client_ok_def)
    next
      case False
      then show ?thesis using hx key cnt [of x]
        by (auto simp: closed_form_def client_ok_def split: option.splits)
    qed
  qed
  moreover have "links_ok ?t"
  proof -
    have o: "open_client_at ?t x P = open_client_at s x P" if "x \<noteq> c" for x P
      using that by (simp add: open_client_at_def closed_form_def)
    have "distinct (map fst (a_clients ?t))"
      using links by (simp add: links_ok_def closed_form_def distinct_map_filter)
    moreover have "\<forall>(m, x) \<in> set (a_clients ?t). open_client_at ?t x (\<lambda>cl. c_name cl = m)"
    proof (intro ballI, clarify)
      fix m x assume "(m, x) \<in> set (a_clients ?t)"
      then have "(m, x) \<in> set (a_clients s)" "m \<noteq> n" by (auto simp: closed_form_def)
      then show "open_client_at ?t x (\<lambda>cl. c_name cl = m)"
        using links key o by (auto simp: links_ok_def)
    qed
    moreover have "is_service i \<and> w \<noteq> 0 \<and> open_client_at ?t x (\<lambda>cl. w \<in> set (c_watches cl))"
      if w: "(w, i, x) \<in> set (a_watches ?t)" for w i x
    proof -
      have a: "is_service i" "w \<noteq> 0" "open_client_at s x (\<lambda>cl. w \<in> set (c_watches cl))"
        using w links by (auto simp: closed_form_def links_ok_def)
      then have "x \<noteq> c" using w h by (auto simp: closed_form_def open_client_at_def)
      then show ?thesis using a o by simp
    qed
    moreover have "\<forall>(k, x) \<in> set (a_handlers ?t).
        open_client_at ?t x (\<lambda>cl. k = c_peer cl \<or> c_host cl = Some k)"
    proof (intro ballI, clarify)
      fix k x assume w: "(k, x) \<in> set (a_handlers ?t)"
      then have a: "open_client_at s x (\<lambda>cl. k = c_peer cl \<or> c_host cl = Some k)"
        using links by (auto simp: closed_form_def links_ok_def)
      then have "x \<noteq> c" using w h by (auto simp: closed_form_def open_client_at_def)
      then show "open_client_at ?t x (\<lambda>cl. k = c_peer cl \<or> c_host cl = Some k)" using a o by simp
    qed
    ultimately show ?thesis unfolding links_ok_def by blast
  qed
  moreover have "calls_ok ?t"
  proof -
    have "pending ?t = pending s" using h by (intro ext) (auto simp: pending_def closed_form_def)
    moreover have "deliveries ?t = deliveries s" by (rule ext) (simp add: deliveries_def closed_form_def)
    ultimately show ?thesis using ok h
      unfolding bridge_ok_def calls_ok_def by (auto simp: closed_form_def)
  qed
  moreover have "size_ok ?t" using ok
    by (auto simp: bridge_ok_def size_ok_def closed_form_def intro: le_trans [OF length_filter_le])
  moreover have "queue_ok q ?t \<and> trace_ok ?t" using ok
    by (simp add: bridge_ok_def queue_ok_def trace_ok_def closed_form_def)
  ultimately show ?thesis using ok by (simp add: bridge_ok_def closed_form_def)
qed

lemma bridge_ok_table_remove:
  assumes ok: "bridge_ok d q s" and d: "\<And>x. 0 \<le> d x"
  shows "bridge_ok d q (table_remove n s)"
proof (cases "map_of (a_clients s) n")
  case (Some c)
  then have e: "(n, c) \<in> set (a_clients s)" by (rule map_of_SomeD)
  let ?u = "s\<lparr>a_clients := filter (\<lambda>(m, _). m \<noteq> n) (a_clients s)\<rparr>"
  obtain cl where cl: "a_heap s c = Some cl" "\<not> c_closed cl"
    using links_ok_key [OF _ e] ok unfolding bridge_ok_def by metis
  have "length (c_watches cl) = 3" using bridge_ok_client [OF ok cl(1)] by (simp add: client_ok_def)
  then obtain as where as: "list_all closing as"
    "client_close c ?u = (closed_form c cl ?u)\<lparr>a_trace := a_trace ?u @ as\<rparr>"
    using client_close_eq [of ?u c cl] cl by auto
  have "bridge_ok (d(c := d c + 1)) q (client_close c ?u)"
    using bridge_ok_closing [OF bridge_ok_unlink [OF ok e cl(1)] as(1)] by (simp add: as(2) closed_form_def)
  then show ?thesis
    using bridge_ok_unref [of "d(c := d c + 1)" q "client_close c ?u" c] Some d [of c]
    by (simp add: table_remove_def remove_client_def)
qed (use ok in \<open>simp add: table_remove_def\<close>)

text \<open>The life of a forwarded call: sent, delivered once, finished.\<close>

lemma calls_ok_mark:
  assumes ok: "calls_ok s" and h: "a_heap s c = Some cl" and k: "k \<in> set (c_pending_calls cl)"
    and n: "\<not> k_delivered k" and cl': "c_pending_calls cl' = mark_delivered (k_id k) (c_pending_calls cl)"
    and r: "case answer of None \<Rightarrow> m_type (k_request k) \<noteq> MethodCall | Some a \<Rightarrow> m_reply_serial a = m_serial (k_request k)"
  shows "calls_ok (set_client c cl' (send_answer (k_id k) conn answer s))" (is "calls_ok ?t")
proof -
  have pk: "pending s c k" using h k by (auto simp: pending_def)
  have dk: "deliveries s (k_id k) = 0" using ok pk n by (simp add: calls_ok_def owed_def)
  have uniq: "\<And>c' j. pending s c' j \<Longrightarrow> k_id j = k_id k \<Longrightarrow> c' = c \<and> j = k"
    using ok pk unfolding calls_ok_def by metis
  let ?n = "(case answer of None \<Rightarrow> 0 | Some a \<Rightarrow> 1) :: nat"
  have del: "deliveries ?t i = (if i = k_id k then ?n else deliveries s i)" for i
    using dk by (cases answer) (auto simp: deliveries_def send_answer_def)
  have settled: "settled (m_type (k_request k)) ?n" using r by (cases answer) (simp_all add: settled_def)
  have heap: "a_heap ?t = (a_heap s)(c := Some cl')" "a_fresh ?t = a_fresh s"
    "a_fresh (send_answer (k_id k) conn answer s) = a_fresh s"
    by (simp_all add: send_answer_def split: option.split)
  have same: "a_heap (send_answer (k_id k) conn answer s) = a_heap s" by (simp add: send_answer_def split: option.split)
  have pend: "pending ?t c' j \<longleftrightarrow> (\<exists>j0. pending s c' j0 \<and> j = (if j0 = k then k\<lparr>k_delivered := True\<rparr> else j0))" for c' j
  proof (cases "c' = c")
    case True
    have "mark_delivered (k_id k) (c_pending_calls cl) =
        map (\<lambda>j. if j = k then k\<lparr>k_delivered := True\<rparr> else j) (c_pending_calls cl)"
      using uniq h by (auto simp: mark_delivered_def pending_def)
    then show ?thesis using True h by (auto simp: pending_def heap cl')
  next
    case False
    then have "pending ?t c' j \<longleftrightarrow> pending s c' j" by (simp add: pending_def same)
    moreover have "\<not> pending s c' k" using uniq [of c' k] False by blast
    ultimately show ?thesis by auto
  qed
  have ids: "map k_id (mark_delivered i ks) = map k_id ks" for i ks
    by (simp add: mark_delivered_def)
  have sent: "SendWithReply t m i \<in> set (a_trace ?t) \<longleftrightarrow> SendWithReply t m i \<in> set (a_trace s)" for t m i
    by (simp add: send_answer_def split: option.split)
  have replies: "Reply x a i \<in> set (a_trace ?t) \<Longrightarrow> Reply x a i \<in> set (a_trace s) \<or> answer = Some a \<and> i = k_id k" for x a i
    by (auto simp: send_answer_def split: option.splits)
  note a = calls_okD(1) [OF ok] and b = calls_okD(2) [OF ok] and e = calls_okD(3) [OF ok] and f = calls_okD(4) [OF ok]
    and l = calls_okD(5) [OF ok] and o = calls_okD(6) [OF ok] and g = calls_okD(7) [OF ok]
  show ?thesis unfolding calls_ok_def
  proof (intro conjI allI impI)
    fix c' j assume "pending ?t c' j"
    then obtain j0 where j0: "pending s c' j0" "j = (if j0 = k then k\<lparr>k_delivered := True\<rparr> else j0)"
      by (auto simp: pend)
    show "k_id j < a_fresh ?t" using a [OF j0(1)] a [OF pk] j0(2) by (simp add: heap)
    show "owed j (deliveries ?t (k_id j))"
      using a [OF j0(1)] j0 uniq [OF j0(1)] settled by (auto simp: del owed_def)
  next
    fix c1 k1 c2 k2 assume p: "pending ?t c1 k1" "pending ?t c2 k2" "k_id k1 = k_id k2"
    obtain j1 j2 where j: "pending s c1 j1" "k1 = (if j1 = k then k\<lparr>k_delivered := True\<rparr> else j1)"
      "pending s c2 j2" "k2 = (if j2 = k then k\<lparr>k_delivered := True\<rparr> else j2)"
      using p by (auto simp: pend)
    have "k_id k1 = k_id j1" "k_id k2 = k_id j2" by (simp_all add: j(2,4))
    then have e: "c1 = c2 \<and> j1 = j2" using b [OF j(1,3)] p(3) by metis
    show "c1 = c2" using e by blast
    show "k1 = k2" unfolding j(2,4) using e by simp
  next
    fix x y assume "a_heap ?t x = Some y"
    then show "distinct (map k_id (c_pending_calls y))"
      using e [of x y] e [OF h] cl' by (cases "x = c") (auto simp: ids same)
  next
    fix t m i assume "SendWithReply t m i \<in> set (a_trace ?t)"
    then have old: "SendWithReply t m i \<in> set (a_trace s)" by (simp only: sent)
    show "i < a_fresh ?t" using f [OF old] by (simp add: heap)
    show "settled (m_type m) (deliveries ?t i) \<or> (\<exists>c k. pending ?t c k \<and> k_id k = i)"
    proof (cases "i = k_id k")
      case True
      have "pending ?t c (k\<lparr>k_delivered := True\<rparr>)" unfolding pend using pk by (intro exI [of _ k]) simp
      moreover have "k_id (k\<lparr>k_delivered := True\<rparr>) = i" using True by simp
      ultimately show ?thesis by blast
    next
      case False
      have "\<exists>c j. pending ?t c j \<and> k_id j = i" if "pending s c' j" "k_id j = i" for c' j
      proof -
        have "j \<noteq> k" using that(2) False by auto
        then have "pending ?t c' j" unfolding pend using that(1) by (intro exI [of _ j]) simp
        with that(2) show ?thesis by blast
      qed
      then show ?thesis using f [OF old] False unfolding del by auto
    qed
  next
    fix t m c' j assume "SendWithReply t m (k_id j) \<in> set (a_trace ?t)" "pending ?t c' j"
    then have old: "SendWithReply t m (k_id j) \<in> set (a_trace s)"
      and "\<exists>j0. pending s c' j0 \<and> j = (if j0 = k then k\<lparr>k_delivered := True\<rparr> else j0)"
      unfolding sent pend by blast+
    then obtain j0 where j0: "pending s c' j0" "j = (if j0 = k then k\<lparr>k_delivered := True\<rparr> else j0)" by blast
    then have "k_id j0 = k_id j" "k_request j0 = k_request j" by simp_all
    with l [of t m j0 c'] j0(1) old show "m_type m = m_type (k_request j)" "m_serial m = m_serial (k_request j)" by simp_all
  next
    fix x a' i t m assume p: "Reply x a' i \<in> set (a_trace ?t)" "SendWithReply t m i \<in> set (a_trace ?t)"
    show "m_reply_serial a' = m_serial m"
    proof (cases "Reply x a' i \<in> set (a_trace s)")
      case True
      then show ?thesis using o p(2) sent by blast
    next
      case False
      with replies [OF p(1)] have "answer = Some a'" "i = k_id k" by blast+
      with r l [of t m k c] pk p(2) sent show ?thesis by simp
    qed
  next
    fix i assume "a_fresh ?t \<le> i"
    then show "deliveries ?t i = 0" using g [of i] a [OF pk] by (simp add: del heap)
  qed
qed

lemma bridge_ok_mark:
  assumes ok: "bridge_ok d q s" and h: "a_heap s c = Some cl" and k: "k \<in> set (c_pending_calls cl)"
    and n: "\<not> k_delivered k"
    and r: "case answer of None \<Rightarrow> m_type (k_request k) \<noteq> MethodCall
      | Some a \<Rightarrow> m_reply_serial a = m_serial (k_request k) \<and> (m_type a = MethodReturn \<or> m_type a = ErrorReply)"
  shows "bridge_ok d q (send_answer (k_id k) conn answer
    (set_client c (cl\<lparr>c_pending_calls := mark_delivered (k_id k) (c_pending_calls cl), c_agent := b\<rparr>) s))"
proof -
  let ?cl = "cl\<lparr>c_pending_calls := mark_delivered (k_id k) (c_pending_calls cl), c_agent := b\<rparr>"
  let ?s = "send_answer (k_id k) conn answer s"
  have swap: "send_answer (k_id k) conn answer (set_client c ?cl s) = set_client c ?cl ?s"
    by (simp add: send_answer_def act_def set_client_def split: option.split)
  have "client_ok d ?s c ?cl" using bridge_ok_client [OF ok h]
    by (cases answer) (auto simp: client_ok_def mark_delivered_def send_answer_def)
  moreover have "calls_ok (set_client c ?cl ?s)"
    using ok by (intro calls_ok_mark [OF _ h k n]) (use r in \<open>auto simp: bridge_ok_def split: option.splits\<close>)
  moreover have "\<not> a_fault ?s" "a_fresh ?s > 0" "heap_ok d ?s" "links_ok ?s" "queue_ok q ?s" "size_ok ?s" "trace_ok ?s"
    "a_heap ?s = a_heap s"
    using ok r by (simp_all add: bridge_ok_def send_answer_def action_ok_def split: option.splits)
  ultimately show ?thesis unfolding swap using h unfolding bridge_ok_def
    by (auto intro!: heap_ok_set_client [where d = d] links_ok_set_client)
qed

lemma method_error_iff: "(case method_error m name words of None \<Rightarrow> m_type m \<noteq> MethodCall
    | Some a \<Rightarrow> m_reply_serial a = m_serial m \<and> (m_type a = MethodReturn \<or> m_type a = ErrorReply))"
  by (simp add: method_error_def method_reply_def)

lemma bridge_ok_deliver:
  assumes ok: "bridge_ok d q s" and h: "a_heap s c = Some cl" and k: "k \<in> set (c_pending_calls cl)"
    and n: "\<not> k_delivered k" and r: "\<And>m. reply = Some m \<Longrightarrow> m_type m = MethodReturn \<or> m_type m = ErrorReply"
  shows "bridge_ok d q (deliver_reply size_of c k reply s)"
proof -
  let ?cl = "\<lambda>b. cl\<lparr>c_pending_calls := mark_delivered (k_id k) (c_pending_calls cl), c_agent := b\<rparr>"
  let ?plain = "cl\<lparr>c_pending_calls := mark_delivered (k_id k) (c_pending_calls cl)\<rparr>"
  have same: "?cl (c_agent cl) = ?plain" by simp
  note mark = bridge_ok_mark [OF ok h k n]
  show ?thesis
  proof (cases "\<exists>m. reply = Some m \<and> spaces_message_bounded size_of m")
    case True
    then obtain m where m: "reply = Some m" "spaces_message_bounded size_of m" by blast
    have "m_type (reply_copy k a m) = m_type m \<and> m_reply_serial (reply_copy k a m) = m_serial (k_request k)" for a
      by (simp add: reply_copy_def spaces_message_copy_def Let_def)
    then have sent: "bridge_ok d q (send_answer (k_id k) (k_origin k) (Some (reply_copy k a m)) (set_client c (?cl b) s))" for a b
      using r [OF m(1)] by (intro mark) simp
    show ?thesis using m sent [of _ True] sent [of _ False] sent [of _ "c_agent cl", unfolded same]
      by (simp add: deliver_reply_def h Let_def)
  next
    case False
    then have "deliver_reply size_of c k reply s = send_answer (k_id k) (k_origin k) (method_error (k_request k)
       ''org.freedesktop.DBus.Error.NoReply'' ''System service unavailable or reply limit exceeded'') (set_client c ?plain s)"
      by (auto simp: deliver_reply_def h Let_def split: option.split)
    then show ?thesis using mark [OF method_error_iff, of _ _ _ "c_agent cl", unfolded same] by simp
  qed
qed

lemma calls_ok_finish:
  assumes ok: "calls_ok s" and h: "a_heap s c = Some cl" and k: "k \<in> set (c_pending_calls cl)"
    and n: "k_delivered k" and cl': "c_pending_calls cl' = filter (\<lambda>j. k_id j \<noteq> k_id k) (c_pending_calls cl)"
  shows "calls_ok (set_client c cl' s)" (is "calls_ok ?t")
proof -
  have pk: "pending s c k" using h k by (auto simp: pending_def)
  have dk: "settled (m_type (k_request k)) (deliveries s (k_id k))" using ok pk n by (simp add: calls_ok_def owed_def)
  have uniq: "\<And>c' j. pending s c' j \<Longrightarrow> k_id j = k_id k \<Longrightarrow> c' = c \<and> j = k"
    using ok pk unfolding calls_ok_def by metis
  have del: "deliveries ?t = deliveries s" by (rule ext) (simp add: deliveries_def)
  have pend: "pending ?t c' j \<longleftrightarrow> pending s c' j \<and> k_id j \<noteq> k_id k" for c' j
    using uniq [of c' j] h by (cases "c' = c") (auto simp: pending_def cl')
  have f: "i < a_fresh s \<and> (settled (m_type m) (deliveries s i) \<or> (\<exists>c j. (pending s c j \<and> k_id j \<noteq> k_id k) \<and> k_id j = i))"
    if sent: "SendWithReply t m i \<in> set (a_trace s)" for t m i
  proof (cases "i = k_id k")
    case True
    with sent pk ok have "m_type m = m_type (k_request k)" "i < a_fresh s" unfolding calls_ok_def by blast+
    with dk True show ?thesis by simp
  next
    case False
    with sent ok show ?thesis unfolding calls_ok_def by metis
  qed
  have "distinct (map k_id (c_pending_calls cl'))"
    using ok h by (simp add: calls_ok_def cl' distinct_map_filter)
  then show ?thesis using ok f unfolding calls_ok_def pend del by auto
qed

lemma bridge_ok_forward_finished:
  assumes ok: "bridge_ok d q s" and h: "a_heap s c = Some cl" and k: "k \<in> set (c_pending_calls cl)"
    and r: "\<And>m. reply = Some m \<Longrightarrow> m_type m = MethodReturn \<or> m_type m = ErrorReply"
    and d: "\<And>x. 0 \<le> d x"
  shows "bridge_ok d q (forward_finished size_of c k reply s)"
proof -
  let ?u = "if \<not> k_delivered k then deliver_reply size_of c k reply s else s"
  let ?k = "k\<lparr>k_delivered := True\<rparr>"
  have u: "bridge_ok d q ?u" using bridge_ok_deliver [OF ok h k _ r] ok by simp
  obtain cl1 where cl1: "a_heap ?u c = Some cl1" "?k \<in> set (c_pending_calls cl1)"
  proof (cases "k_delivered k")
    case True
    then have "?k = k" by simp
    then show ?thesis using that h k True by metis
  next
    case False
    have "\<exists>cl1. a_heap (deliver_reply size_of c k reply s) c = Some cl1
        \<and> c_pending_calls cl1 = mark_delivered (k_id k) (c_pending_calls cl)"
      by (auto simp: deliver_reply_def h Let_def send_answer_def split: option.split)
    then show ?thesis using that False k by (force simp: mark_delivered_def)
  qed
  let ?cl = "cl1\<lparr>c_pending_calls := filter (\<lambda>j. k_id j \<noteq> k_id k) (c_pending_calls cl1),
      c_outstanding := c_outstanding cl1 - 1\<rparr>"
  note ok1 = bridge_ok_client [OF u cl1(1)]
  have calls: "calls_ok ?u" using u by (simp add: bridge_ok_def)
  have "distinct (map k_id (c_pending_calls cl1))" using calls cl1(1) unfolding calls_ok_def by blast
  then have len: "length (filter (\<lambda>j. k_id j \<noteq> k_id k) (c_pending_calls cl1)) + 1 = length (c_pending_calls cl1)"
    using cl1(2) count_without_key [of "map (\<lambda>j. (k_id j, 0 :: nat)) (c_pending_calls cl1)" "k_id k" 0 0]
    by (force simp: filter_map o_def image_iff)
  have "client_ok (d(c := d c + 1)) ?u c ?cl" using ok1 len by (auto simp: client_ok_def)
  then have "bridge_ok (d(c := d c + 1)) q (set_client c ?cl ?u)"
    using u calls_ok_finish [OF calls cl1, of ?cl] cl1(1) unfolding bridge_ok_def
    by (auto intro!: heap_ok_set_client [where d = d] links_ok_set_client)
  then have "bridge_ok d q (client_unref c (set_client c ?cl ?u))"
    using bridge_ok_unref [of "d(c := d c + 1)" q _ c] d [of c] by fastforce
  then show ?thesis unfolding forward_finished_def Let_def with_client_live [OF cl1(1)] .
qed

lemma calls_ok_start:
  assumes ok: "calls_ok s" and h: "a_heap s c = Some cl" and i: "k_id k = a_fresh s" "\<not> k_delivered k"
    and cl': "c_pending_calls cl' = k # c_pending_calls cl"
    and m: "m_type m = m_type (k_request k)" "m_serial m = m_serial (k_request k)"
  shows "calls_ok (act (SendWithReply t m (a_fresh s)) ((set_client c cl' s)\<lparr>a_fresh := a_fresh s + 1\<rparr>))"
    (is "calls_ok ?t")
proof -
  note a = calls_okD(1) [OF ok] and f = calls_okD(4) [OF ok] and l = calls_okD(5) [OF ok] and o = calls_okD(6) [OF ok]
    and g = calls_okD(7) [OF ok]
  have del: "deliveries ?t = deliveries s" by (rule ext) (simp add: deliveries_def act_def)
  have pend: "pending ?t c' j \<longleftrightarrow> pending s c' j \<or> (c' = c \<and> j = k)" for c' j
    using h by (auto simp: pending_def cl')
  have sent: "SendWithReply t' m' i' \<in> set (a_trace ?t) \<longleftrightarrow>
      SendWithReply t' m' i' \<in> set (a_trace s) \<or> (t' = t \<and> m' = m \<and> i' = a_fresh s)" for t' m' i'
    by auto
  have new: "j \<noteq> k" "k_id j \<noteq> k_id k" if "pending s c' j" for c' j using a [OF that] i by auto
  have "k_id j < a_fresh ?t \<and> owed j (deliveries s (k_id j))"
    if "pending ?t c' j" for c' j
    using that [unfolded pend] a [of c' j] g [of "a_fresh s"] i by (auto simp: less_Suc_eq owed_def)
  moreover have "c1 = c2 \<and> k1 = k2"
    if "pending ?t c1 k1" "pending ?t c2 k2" "k_id k1 = k_id k2" for c1 k1 c2 k2
    using that ok new unfolding pend calls_ok_def by metis
  moreover have "distinct (map k_id (c_pending_calls y))" if "a_heap ?t x = Some y" for x y
  proof (cases "x = c")
    case True
    have "distinct (map k_id (c_pending_calls cl))" using ok h unfolding calls_ok_def by blast
    moreover have "k_id k \<notin> k_id ` set (c_pending_calls cl)"
    proof
      assume "k_id k \<in> k_id ` set (c_pending_calls cl)"
      then obtain j where "j \<in> set (c_pending_calls cl)" "k_id j = k_id k" by force
      then show False using new(2) [of c j] h by (simp add: pending_def)
    qed
    ultimately show ?thesis using True that cl' by auto
  next
    case False
    then show ?thesis using that ok unfolding calls_ok_def by auto
  qed
  moreover have "i' < a_fresh ?t \<and> (settled (m_type m') (deliveries s i') \<or> (\<exists>c k. pending ?t c k \<and> k_id k = i'))"
    if "SendWithReply t' m' i' \<in> set (a_trace ?t)" for t' m' i'
  proof (cases "i' = a_fresh s")
    case True
    then show ?thesis using i pend by (metis act_simps(2) app.select_convs(9) app.surjective app.update_convs(9) less_add_one)
  next
    case False
    then have "SendWithReply t' m' i' \<in> set (a_trace s)" using that by simp
    from f [OF this] show ?thesis unfolding pend by (auto intro: less_SucI)
  qed
  moreover have "m_type m' = m_type (k_request j) \<and> m_serial m' = m_serial (k_request j)"
    if p: "SendWithReply t' m' (k_id j) \<in> set (a_trace ?t)" "pending ?t c' j" for t' m' c' j
  proof (cases "pending s c' j")
    case True
    then have "SendWithReply t' m' (k_id j) \<in> set (a_trace s)" using p(1) a [OF True] unfolding sent by simp
    from l [OF this True] show ?thesis .
  next
    case False
    then have "j = k" using p(2) unfolding pend by blast
    with p(1) f [of t' m' "k_id k"] i m show ?thesis unfolding sent by auto
  qed
  moreover have "m_reply_serial a' = m_serial m'"
    if p: "Reply x a' i' \<in> set (a_trace ?t)" "SendWithReply t' m' i' \<in> set (a_trace ?t)" for x a' i' t' m'
  proof -
    have old: "Reply x a' i' \<in> set (a_trace s)" using p(1) by simp
    then have "i' \<noteq> a_fresh s" using no_answer g [of "a_fresh s"] by blast
    with old p(2) o show ?thesis unfolding sent by blast
  qed
  ultimately show ?thesis using g unfolding calls_ok_def del by auto
qed

lemma heap_ok_fresh:
  assumes "heap_ok d s" "a_fresh s \<le> f"
  shows "heap_ok d (s\<lparr>a_fresh := f\<rparr>)"
proof -
  have c: "counted (s\<lparr>a_fresh := f\<rparr>) = counted s" by (rule ext) (simp add: counted_def)
  have "client_ok d s x cl \<Longrightarrow> client_ok d (s\<lparr>a_fresh := f\<rparr>) x cl" for x cl
    using assms(2) by (auto simp: client_ok_def c intro: less_le_trans)
  then show ?thesis using assms(1) unfolding heap_ok_def c by (fastforce split: option.splits)
qed

lemma calls_ok_fresh:
  assumes c: "calls_ok s" and f: "a_fresh s \<le> f"
  shows "calls_ok (s\<lparr>a_fresh := f\<rparr>)"
proof -
  let ?t = "s\<lparr>a_fresh := f\<rparr>"
  have p: "pending ?t = pending s" by (intro ext) (simp add: pending_def)
  have q: "deliveries ?t = deliveries s" by (rule ext) (simp add: deliveries_def)
  show ?thesis unfolding calls_ok_def p q
  proof (intro conjI allI impI)
    fix c k assume "pending s c k"
    then show "k_id k < a_fresh ?t" using c f by (auto simp: calls_ok_def intro: less_le_trans)
  next
    fix u m i assume "SendWithReply u m i \<in> set (a_trace ?t)"
    then have "SendWithReply u m i \<in> set (a_trace s)" by simp
    then show "i < a_fresh ?t" using c f unfolding calls_ok_def by (metis app.select_convs(9) app.surjective app.update_convs(9) less_le_trans)
  next
    fix i assume "a_fresh ?t \<le> i"
    then show "deliveries s i = 0" using c f by (simp add: calls_ok_def)
  qed (use c in \<open>unfold calls_ok_def, auto\<close>)
qed

lemma bridge_ok_fresh:
  assumes "bridge_ok d q s" "a_fresh s \<le> f"
  shows "bridge_ok d q (s\<lparr>a_fresh := f\<rparr>)"
proof -
  have "links_ok (s\<lparr>a_fresh := f\<rparr>)" using assms by (simp add: bridge_ok_def links_ok_def open_client_at_def)
  then show ?thesis using assms heap_ok_fresh [of d s f] calls_ok_fresh [of s f]
    by (simp add: bridge_ok_def queue_ok_def size_ok_def trace_ok_def)
qed

lemma bridge_ok_forward:
  assumes ok: "bridge_ok d q s" and h: "a_heap s c = Some cl"
    and a: "\<And>i. action_ok (a_broker s) (a_admin s)
      (SendWithReply target ((spaces_message_copy request destination)\<lparr>m_no_reply_expected := False\<rparr>) i)"
  shows "bridge_ok d q (forward ans c origin target request destination s)"
proof (cases "c_outstanding cl \<ge> 64")
  case True
  then show ?thesis using ok h by (simp add: forward_def bridge_ok_reply_error)
next
  case False
  let ?k = "new_call s cl origin target request (ans_serial ans)"
  let ?cl = "cl\<lparr>c_refs := c_refs cl + 1, c_pending_calls := ?k # c_pending_calls cl,
      c_outstanding := c_outstanding cl + 1\<rparr>"
  let ?t = "(set_client c ?cl s)\<lparr>a_fresh := a_fresh s + 1\<rparr>"
  have id: "k_id ?k = a_fresh s" "\<not> k_delivered ?k" by (simp_all add: new_call_def Let_def)
  have copied: "m_type (spaces_message_copy request destination) = m_type (k_request ?k)"
    "m_serial (spaces_message_copy request destination) = m_serial (k_request ?k)"
    by (simp_all add: new_call_def Let_def spaces_message_copy_def)
  have "forward ans c origin target request destination s =
      act (SendWithReply target ((spaces_message_copy request destination)\<lparr>m_no_reply_expected := False\<rparr>) (a_fresh s)) ?t"
    using False h by (simp add: forward_def client_ref_def Let_def id set_client_def)
  moreover have "heap_ok d ?t"
  proof -
    have "client_ok d s c ?cl" using bridge_ok_client [OF ok h] False by (auto simp: client_ok_def)
    then have "heap_ok d (set_client c ?cl s)" using ok by (auto simp: bridge_ok_def intro: heap_ok_set_client)
    then show ?thesis by (rule heap_ok_fresh) simp
  qed
  moreover have "links_ok ?t"
    using links_ok_set_client [of s c cl ?cl] ok h by (simp add: bridge_ok_def links_ok_def open_client_at_def)
  ultimately show ?thesis
    using ok a calls_ok_start [OF _ h id, of ?cl "(spaces_message_copy request destination)\<lparr>m_no_reply_expected := False\<rparr>" target]
    by (simp add: bridge_ok_def queue_ok_def size_ok_def trace_ok_def copied)
qed

section \<open>Preservation: the callbacks\<close>

text \<open>Moving a reference from the stack into a table, a filter or the queue, or back.\<close>

lemma heap_ok_shift:
  assumes ok: "heap_ok d s" and s: "\<And>x. counted t x + d' x = counted s x + d x"
    "a_heap t = a_heap s" "a_fresh t = a_fresh s" "a_broker t = a_broker s" "a_admin t = a_admin s"
    "a_clients t = a_clients s"
  shows "heap_ok d' t"
  unfolding heap_ok_def
proof
  fix x
  have "c_refs cl = counted s x + n + d x \<longleftrightarrow> c_refs cl = counted t x + n + d' x" for cl :: client and n
    using s(1) [of x] by linarith
  then have "client_ok d s x cl = client_ok d' t x cl" for cl
    by (simp add: client_ok_def s(2-6))
  then show "case a_heap t x of None \<Rightarrow> counted t x + d' x = 0 | Some cl \<Rightarrow> client_ok d' t x cl"
    using ok [unfolded heap_ok_def, rule_format, of x] s(1) [of x] by (simp add: s(2) split: option.splits)
qed

lemma links_ok_cong:
  "a_heap t = a_heap s \<Longrightarrow> a_clients t = a_clients s \<Longrightarrow> a_watches t = a_watches s \<Longrightarrow>
   a_handlers t = a_handlers s \<Longrightarrow> links_ok t = links_ok s"
  by (simp add: links_ok_def open_client_at_def)

lemma calls_ok_cong:
  assumes "a_heap t = a_heap s" "a_trace t = a_trace s" "a_fresh t = a_fresh s"
  shows "calls_ok t = calls_ok s"
proof -
  have "pending t = pending s" "deliveries t = deliveries s"
    by (intro ext; simp add: assms pending_def deliveries_def)+
  then show ?thesis by (simp add: calls_ok_def assms)
qed

lemma bridge_ok_shift:
  assumes ok: "bridge_ok d q s" and c: "\<And>x. counted t x + d' x = counted s x + d x"
    and k: "queue_ok q' t"
    and s: "a_heap t = a_heap s" "a_fresh t = a_fresh s" "a_broker t = a_broker s" "a_admin t = a_admin s"
      "a_clients t = a_clients s" "a_watches t = a_watches s" "a_handlers t = a_handlers s"
      "a_trace t = a_trace s" "a_fault t = a_fault s"
  shows "bridge_ok d' q' t"
  using ok heap_ok_shift [of d s t d'] c k links_ok_cong [of t s] calls_ok_cong [of t s]
  by (simp add: bridge_ok_def s size_ok_def trace_ok_def)

lemma queue_ok_cong: "a_queue t = a_queue s \<Longrightarrow> a_queued t = a_queued s \<Longrightarrow> a_broker t = a_broker s \<Longrightarrow>
  queue_ok q t = queue_ok q s"
  by (simp add: queue_ok_def)

lemma bridge_ok_queue_message:
  assumes ok: "bridge_ok d 0 s" and c: "\<And>x. c = Some x \<Longrightarrow> a_heap s x \<noteq> None"
    and n: "c = None \<Longrightarrow> \<not> a_broker s \<and> m_sender m \<noteq> None"
  shows "bridge_ok d 0 (queue_message c bus m s)"
proof (cases "a_queued s \<ge> 1024")
  case True
  then show ?thesis using ok by (simp add: queue_message_def bridge_ok_reply_error)
next
  case False
  let ?e = "\<lparr>e_client = c, e_bus = bus, e_message = m\<rparr>"
  have q: "queue_ok 0 (s\<lparr>a_queued := a_queued s + 1, a_queue := a_queue s @ [?e]\<rparr>)"
    using ok n False by (auto simp: bridge_ok_def queue_ok_def)
  show ?thesis
  proof (cases c)
    case None
    have "queue_message c bus m s = s\<lparr>a_queued := a_queued s + 1, a_queue := a_queue s @ [?e]\<rparr>"
      using False None by (simp add: queue_message_def Let_def)
    then show ?thesis using q None
      by (auto intro!: bridge_ok_shift [OF ok] simp: counted_def)
  next
    case (Some x)
    then obtain cl where h: "a_heap s x = Some cl" using c by blast
    let ?r = "client_ref x s"
    have r: "bridge_ok (d(x := d x + 1)) 0 ?r" by (rule bridge_ok_ref [OF ok h])
    have sel: "a_queued ?r = a_queued s" "a_queue ?r = a_queue s" "a_broker ?r = a_broker s"
      "\<And>z. client_ref x (s\<lparr>a_queued := z\<rparr>) = ?r\<lparr>a_queued := z\<rparr>"
      using h by (simp_all add: client_ref_def set_client_def)
    have "queue_message c bus m s = ?r\<lparr>a_queued := a_queued s + 1, a_queue := a_queue s @ [?e]\<rparr>"
      using False Some by (simp add: queue_message_def Let_def sel)
    moreover have "queue_ok 0 (?r\<lparr>a_queued := a_queued s + 1, a_queue := a_queue s @ [?e]\<rparr>)"
      using q by (simp add: queue_ok_def sel)
    ultimately show ?thesis using Some
      by (auto intro!: bridge_ok_shift [OF r] simp: counted_def sel)
  qed
qed

lemma bridge_ok_appeared:
  assumes ok: "bridge_ok d q s" and h: "a_heap s c = Some cl" and i: "is_service i"
  shows "bridge_ok d q (appeared (services ! i) owner c s)" "bridge_ok d q (vanished (services ! i) c s)"
proof -
  have i': "service_index (Some (services ! i)) = Some i"
    using i by (auto simp: is_service_def service_index_def policy_names)
  obtain p where p: "c_peer cl = Peer p" using bridge_ok_client [OF ok h] by (auto simp: client_ok_def)
  have set: "bridge_ok d q (set_client c (cl\<lparr>c_owners := os, c_agent := b\<rparr>) s)" for os b
    using ok h bridge_ok_client [OF ok h]
    by (intro bridge_ok_set_client [where d = d and cl = cl]) (simp_all add: client_ok_def)
  have same: "cl\<lparr>c_owners := os, c_agent := c_agent cl\<rparr> = cl\<lparr>c_owners := os\<rparr>" for os by simp
  note set' = set [where b = "c_agent cl", unfolded same]
  show "bridge_ok d q (appeared (services ! i) owner c s)"
    using set' by (simp add: appeared_def h i' Let_def ordinary_def action_ok_def p)
  show "bridge_ok d q (vanished (services ! i) c s)"
    using set set' by (simp add: vanished_def h i' Let_def ordinary_def action_ok_def p)
qed

lemma bridge_ok_connection_closed:
  assumes ok: "bridge_ok (\<lambda>_. 0) q s" and h: "a_heap s c = Some cl"
  shows "bridge_ok (\<lambda>_. 0) q (connection_closed c s)"
proof -
  let ?d = "(\<lambda>_. 0)(c := 1)"
  have r: "bridge_ok ?d q (client_ref c s)" using bridge_ok_ref [OF ok h] by simp
  have "a_heap (client_ref c s) c = Some (cl\<lparr>c_refs := c_refs cl + 1\<rparr>)" using h by (simp add: client_ref_def)
  then have "connection_closed c s = client_unref c (table_remove (c_name cl) (client_ref c s))"
    by (simp add: connection_closed_def)
  moreover have "(\<lambda>_. 0)(c := 0) = (\<lambda>_. 0 :: int)" by auto
  ultimately show ?thesis using bridge_ok_unref [OF bridge_ok_table_remove [OF r], of c] by simp
qed

text \<open>Pointers print injectively, so two peers never share a name.\<close>

definition hex_digit :: "nat \<Rightarrow> char" where
  "hex_digit d = char_of (if d < 10 then 48 + d else 87 + d)"

lemma hex_digit_inj: "d < 16 \<Longrightarrow> e < 16 \<Longrightarrow> hex_digit d = hex_digit e \<Longrightarrow> d = e"
proof -
  assume a: "d < 16" "e < 16" "hex_digit d = hex_digit e"
  have v: "(of_char (hex_digit x) :: nat) = (if x < 10 then 48 + x else 87 + x)" if "x < 16" for x
    using that by (simp add: hex_digit_def of_char_of)
  have "(if d < 10 then 48 + d else 87 + d) = (if e < 10 then 48 + e else 87 + e)"
    using v [OF a(1)] v [OF a(2)] a(3) by metis
  then show "d = e" by (cases "d < 10"; cases "e < 10"; simp)
qed

lemma show_hex_step: "show_hex n = (if n < 16 then [] else show_hex (n div 16)) @ [hex_digit (n mod 16)]"
  by (subst show_hex.simps) (simp add: hex_digit_def Let_def)

lemma show_hex_not_Nil [simp]: "show_hex n \<noteq> []"
  by (subst show_hex_step) simp

lemma show_hex_inj: "show_hex n = show_hex m \<Longrightarrow> n = m"
proof (induction n arbitrary: m rule: less_induct)
  case (less n)
  have "(if n < 16 then [] else show_hex (n div 16)) @ [hex_digit (n mod 16)]
      = (if m < 16 then [] else show_hex (m div 16)) @ [hex_digit (m mod 16)]"
    using less.prems show_hex_step [of n] show_hex_step [of m] by metis
  then have e: "(if n < 16 then [] else show_hex (n div 16)) = (if m < 16 then [] else show_hex (m div 16))"
    "hex_digit (n mod 16) = hex_digit (m mod 16)" by simp_all
  have r: "n mod 16 = m mod 16" using e(2) by (intro hex_digit_inj) simp_all
  show ?case
  proof (cases "n < 16")
    case True
    then have "m < 16" using e(1) show_hex_not_Nil [of "m div 16"] by (metis (no_types))
    then show ?thesis using True r by simp
  next
    case False
    then have "show_hex (n div 16) = show_hex (m div 16)" using e(1) by (auto split: if_splits)
    then have "n div 16 = m div 16" using less.IH [of "n div 16"] False by simp
    then show ?thesis using r by (metis div_mult_mod_eq)
  qed
qed

lemma links_okI:
  assumes "distinct (map fst (a_clients s))"
    and "\<And>n x. (n, x) \<in> set (a_clients s) \<Longrightarrow> open_client_at s x (\<lambda>cl. c_name cl = n)"
    and "\<And>w i x. (w, i, x) \<in> set (a_watches s) \<Longrightarrow>
      is_service i \<and> w \<noteq> 0 \<and> open_client_at s x (\<lambda>cl. w \<in> set (c_watches cl))"
    and "\<And>k x. (k, x) \<in> set (a_handlers s) \<Longrightarrow> open_client_at s x (\<lambda>cl. k = c_peer cl \<or> c_host cl = Some k)"
  shows "links_ok s"
  using assms unfolding links_ok_def by blast

lemma bridge_ok_open_client:
  assumes ok: "bridge_ok d q s" and h: "a_heap s c = Some cl" and b: "a_broker s" and o: "\<not> c_closed cl"
  shows "bridge_ok d q (open_client ans c m s)"
proof -
  note clok = bridge_ok_client [OF ok h]
  show ?thesis
  proof (cases "\<exists>uid obs. \<not> c_opened cl \<and> m_body m = Some [VUint32 uid, VBool obs]")
    case False
    then have "open_client ans c m s = reply_error (c_peer cl) m ''org.freedesktop.DBus.Error.InvalidArgs''
        ''Invalid client handshake'' s"
      by (auto simp: open_client_def h split: bool.split option.split list.split gvariant.split)
    then show ?thesis using ok by (simp add: bridge_ok_reply_error)
  next
    case True
    then obtain uid obs where new: "\<not> c_opened cl" and body: "m_body m = Some [VUint32 uid, VBool obs]" by blast
    have fresh: "c_watches cl = [0, 0, 0]" "c_host cl = None" using clok new by (auto simp: client_ok_def)
    show ?thesis
    proof (cases "ans_host ans")
      case False
      have "bridge_ok d q (set_client c (cl\<lparr>c_observer := obs\<rparr>) s)"
        using ok h clok by (intro bridge_ok_set_client [where d = d and cl = cl]) (simp_all add: client_ok_def)
      then show ?thesis using False new body by (simp add: open_client_def h Let_def bridge_ok_reply_error)
    next
      case True
      let ?h = "Host (a_fresh s)" and ?f = "a_fresh s + 1" and ?w = "a_fresh s + 2"
      let ?admin = "a_admin s \<and> \<not> obs"
      let ?cl = "cl\<lparr>c_observer := obs, c_host := Some ?h, c_admin := ?admin, c_opened := True,
        c_refs := c_refs cl + 1, c_filter1 := ?f, c_watches := [?w, ?w + 1, ?w + 2],
        c_subscriptions := [?w + 3, ?w + 4, ?w + 5]\<rparr>"
      let ?s = "set_client c ?cl s"
      let ?u = "?s\<lparr>a_fresh := ?w + 6\<rparr>"
      let ?t = "s\<lparr>a_filters := (?f, ?h, c) # a_filters s, a_handlers := (?h, c) # a_handlers s,
        a_watches := [(?w, 0, c), (?w + 1, 1, c), (?w + 2, 2, c)] @ a_watches s,
        a_fresh := ?w + 6, a_heap := (a_heap s)(c \<mapsto> ?cl)\<rparr>"
      have eq: "open_client ans c m s = reply_success (c_peer cl) m [VBool ?admin] ?t"
        using True new body
        by (simp add: open_client_def h Let_def initialize_host_def add_filter_def client_ref_def set_client_def)
      have "heap_ok (d(c := d c + 1)) ?s"
        using ok clok by (intro heap_ok_set_client [where d = d]) (auto simp: bridge_ok_def client_ok_def b)
      then have u: "heap_ok (d(c := d c + 1)) ?u" by (rule heap_ok_fresh) simp
      have "heap_ok d ?t" by (rule heap_ok_shift [OF u]) (auto simp: counted_def)
      moreover have "links_ok ?t"
      proof -
        have old: "links_ok s" using ok by (simp add: bridge_ok_def)
        have e: "open_client_at ?t x P" if "open_client_at s x P" "x \<noteq> c \<or> P ?cl" for x P
          using that h o by (auto simp: open_client_at_def)
        have cls: "open_client_at ?t x (\<lambda>cl. c_name cl = n)" if "(n, x) \<in> set (a_clients s)" for n x
        proof (rule e)
          show o': "open_client_at s x (\<lambda>cl. c_name cl = n)" using that old by (auto simp: links_ok_def)
          show "x \<noteq> c \<or> c_name ?cl = n" using o' h by (auto simp: open_client_at_def)
        qed
        have wts: "is_service i \<and> w \<noteq> 0 \<and> open_client_at ?t x (\<lambda>cl. w \<in> set (c_watches cl))"
          if "(w, i, x) \<in> set (a_watches ?t)" for w i x
        proof -
          consider "(w, i, x) \<in> set (a_watches s)" | "x = c" "(w, i) \<in> {(?w, 0), (?w + 1, 1), (?w + 2, 2)}"
            using \<open>(w, i, x) \<in> set (a_watches ?t)\<close> by auto
          then show ?thesis
          proof cases
            case 1
            then have a: "is_service i" "w \<noteq> 0" "open_client_at s x (\<lambda>cl. w \<in> set (c_watches cl))"
              using old by (auto simp: links_ok_def)
            moreover have "x \<noteq> c" using a h fresh by (auto simp: open_client_at_def)
            ultimately show ?thesis using e by blast
          next
            case 2
            then show ?thesis using o by (auto simp: open_client_at_def is_service_def)
          qed
        qed
        have hds: "open_client_at ?t x (\<lambda>cl. k = c_peer cl \<or> c_host cl = Some k)"
          if k: "(k, x) \<in> set (a_handlers s)" for k x
        proof (rule e)
          show o': "open_client_at s x (\<lambda>cl. k = c_peer cl \<or> c_host cl = Some k)"
            using k old by (auto simp: links_ok_def)
          show "x \<noteq> c \<or> k = c_peer ?cl \<or> c_host ?cl = Some k"
            using o' h fresh by (auto simp: open_client_at_def)
        qed
        have hnew: "open_client_at ?t c (\<lambda>cl. ?h = c_peer cl \<or> c_host cl = Some ?h)"
          using o by (simp add: open_client_at_def)
        show ?thesis
        proof (rule links_okI)
          show "distinct (map fst (a_clients ?t))" using old by (simp add: links_ok_def)
          show "open_client_at ?t x (\<lambda>cl. c_name cl = n)" if "(n, x) \<in> set (a_clients ?t)" for n x
            using that cls by simp
          show "open_client_at ?t x (\<lambda>cl. k = c_peer cl \<or> c_host cl = Some k)"
            if "(k, x) \<in> set (a_handlers ?t)" for k x
            using that hds hnew by (cases "(k, x) \<in> set (a_handlers s)") simp_all
        qed (rule wts)
      qed
      moreover have "calls_ok ?t"
      proof -
        have "calls_ok ?s" using ok h by (intro calls_ok_set_client) (auto simp: bridge_ok_def)
        then have "calls_ok ?u" by (rule calls_ok_fresh) simp
        moreover have "calls_ok ?t = calls_ok ?u" by (rule calls_ok_cong) simp_all
        ultimately show ?thesis by blast
      qed
      ultimately have "bridge_ok d q ?t"
        using ok by (simp add: bridge_ok_def queue_ok_def size_ok_def trace_ok_def)
      then show ?thesis unfolding eq reply_success_def using clok
        by (intro bridge_ok_send) (auto simp: action_ok_def client_ok_def)
    qed
  qed
qed

lemma bridge_ok_add_client:
  assumes ok: "bridge_ok (\<lambda>_. 0) q s" and n: "map_of (a_clients s) (c_name cl) = None"
    and l: "length (a_clients s) < (if a_broker s then 129 else 128)" and c: "c < a_fresh s" "a_heap s c = None"
    and cl: "c_refs cl = 1" "c_pending_calls cl = []" "c_outstanding cl = 0" "c_watches cl = [0, 0, 0]"
      "c_host cl = None" "\<not> c_closed cl" "c_peer cl = Peer p" "a_broker s \<longrightarrow> \<not> c_opened cl \<and> \<not> c_admin cl"
      "a_broker s \<longrightarrow> c_name cl = pointer_name p \<and> p < a_fresh s"
  shows "bridge_ok (\<lambda>_. 0) q (add_client c cl s)"
proof -
  let ?cl = "cl\<lparr>c_refs := 2, c_filter0 := a_fresh s\<rparr>"
  let ?t = "(set_client c ?cl s)\<lparr>a_filters := (a_fresh s, Peer p, c) # a_filters s, a_fresh := a_fresh s + 1,
      a_handlers := (Peer p, c) # a_handlers s, a_clients := (c_name cl, c) # a_clients s\<rparr>"
  have eq: "add_client c cl s = ?t"
    using cl n by (simp add: add_client_def Let_def add_filter_def client_ref_def set_client_def
        table_insert_def table_remove_def)
  have z: "counted s c = 0" using ok c by (auto simp: bridge_ok_def heap_ok_def split: option.splits dest: spec [of _ c])
  have cnt: "counted ?t x = counted s x + (if x = c then 2 else 0)" for x by (simp add: counted_def)
  have "heap_ok (\<lambda>_. 0) ?t" unfolding heap_ok_def
  proof
    fix x
    have h: "case a_heap s x of None \<Rightarrow> counted s x + 0 = 0 | Some cl \<Rightarrow> client_ok (\<lambda>_. 0) s x cl"
      using ok by (simp add: bridge_ok_def heap_ok_def)
    show "case a_heap ?t x of None \<Rightarrow> counted ?t x + 0 = 0 | Some cl \<Rightarrow> client_ok (\<lambda>_. 0) ?t x cl"
    proof (cases "x = c")
      case True
      then show ?thesis using cnt [of c] z cl c by (auto simp: client_ok_def)
    next
      case False
      have "client_ok (\<lambda>_. 0) s x k \<Longrightarrow> client_ok (\<lambda>_. 0) ?t x k" for k
        using cnt [of x] False unfolding client_ok_def by (auto intro: less_SucI)
      with h False cnt [of x] show ?thesis by (simp split: option.splits)
    qed
  qed
  moreover have "links_ok ?t"
  proof -
    have old: "links_ok s" using ok by (simp add: bridge_ok_def)
    have e: "open_client_at ?t x P" if "open_client_at s x P" for x P
      using that c by (auto simp: open_client_at_def)
    have dist: "distinct (map fst (a_clients ?t))"
      using old n by (simp add: links_ok_def map_of_eq_None_iff)
    have new: "open_client_at ?t c (\<lambda>k. c_name k = c_name cl)" "open_client_at ?t c (\<lambda>k. Peer p = c_peer k \<or> c_host k = Some (Peer p))"
      using cl by (auto simp: open_client_at_def)
    have cls: "open_client_at ?t x (\<lambda>k. c_name k = m)" if "(m, x) \<in> set (a_clients s)" for m x
      by (rule e) (use that old in \<open>auto simp: links_ok_def\<close>)
    have wts: "is_service i \<and> w \<noteq> 0 \<and> open_client_at ?t x (\<lambda>k. w \<in> set (c_watches k))"
      if "(w, i, x) \<in> set (a_watches s)" for w i x
    proof -
      have "is_service i \<and> w \<noteq> 0 \<and> open_client_at s x (\<lambda>k. w \<in> set (c_watches k))"
        using that old by (auto simp: links_ok_def)
      then show ?thesis using e by blast
    qed
    have hds: "open_client_at ?t x (\<lambda>cl. k = c_peer cl \<or> c_host cl = Some k)"
      if "(k, x) \<in> set (a_handlers s)" for k x
      by (rule e) (use that old in \<open>auto simp: links_ok_def\<close>)
    show ?thesis
    proof (rule links_okI)
      show "open_client_at ?t x (\<lambda>k. c_name k = m)" if "(m, x) \<in> set (a_clients ?t)" for m x
        using that cls new by (cases "(m, x) \<in> set (a_clients s)") simp_all
      show "is_service i \<and> w \<noteq> 0 \<and> open_client_at ?t x (\<lambda>k. w \<in> set (c_watches k))"
        if "(w, i, x) \<in> set (a_watches ?t)" for w i x using that wts by simp
      show "open_client_at ?t x (\<lambda>cl. k = c_peer cl \<or> c_host cl = Some k)"
        if "(k, x) \<in> set (a_handlers ?t)" for k x
        using that hds new by (cases "(k, x) \<in> set (a_handlers s)") simp_all
    qed (rule dist)
  qed
  moreover have "calls_ok ?t"
  proof -
    let ?u = "s\<lparr>a_fresh := a_fresh s + 1\<rparr>"
    have u: "calls_ok ?u" using ok by (intro calls_ok_fresh) (auto simp: bridge_ok_def)
    have p: "pending ?t = pending ?u" using c cl by (intro ext) (auto simp: pending_def)
    have d: "deliveries ?t = deliveries ?u" by (rule ext) (simp add: deliveries_def)
    show ?thesis using u cl unfolding calls_ok_def p d by auto
  qed
  moreover have "size_ok ?t" using l by (auto simp: size_ok_def split: if_splits)
  ultimately show ?thesis unfolding eq
    using ok by (simp add: bridge_ok_def queue_ok_def trace_ok_def)
qed

lemma bridge_ok_peer: "bridge_ok d q s \<Longrightarrow> a_heap s c = Some cl \<Longrightarrow> \<exists>p. c_peer cl = Peer p"
  using bridge_ok_client [of d q s c cl] by (auto simp: client_ok_def)

lemma allowed_any: "system_call_allowed m b \<Longrightarrow> system_call_allowed m True"
  unfolding allowed_cases properties_call_iff by blast

lemma allowed_copy [simp]:
  "system_call_allowed ((spaces_message_copy m (m_destination m))\<lparr>m_no_reply_expected := b\<rparr>) a =
     system_call_allowed m a"
  unfolding allowed_cases by (simp add: spaces_message_copy_def)

lemma agent_method_copy [simp]:
  "agent_method ((spaces_message_copy m d)\<lparr>m_no_reply_expected := b\<rparr>) = agent_method m"
  by (simp add: agent_method_def spaces_message_copy_def)

lemma bridge_ok_relay_client:
  assumes ok: "bridge_ok (\<lambda>_. 0) q s" and b: "\<not> a_broker s" and r: "relay_client ans n obs s = (co, t)"
  shows "bridge_ok (\<lambda>_. 0) q t \<and> a_broker t = a_broker s \<and> a_admin t = a_admin s
    \<and> (\<forall>c. co = Some c \<longrightarrow> (\<exists>cl. a_heap t c = Some cl))"
proof (cases "map_of (a_clients s) n")
  case (Some c)
  have "\<exists>cl. a_heap s c = Some cl"
    by (rule links_ok_key [OF _ map_of_SomeD [OF Some]]) (use ok in \<open>auto simp: bridge_ok_def\<close>)
  then show ?thesis using r Some ok by (auto simp: relay_client_def)
next
  case None
  show ?thesis
  proof (cases "co")
    case None
    have "co = None \<Longrightarrow> t = s \<or> (\<exists>u obs. t = act (CloseConnection (Peer (a_fresh s)))
        (act (OpenPeer (Peer (a_fresh s)) u obs) (s\<lparr>a_fresh := a_fresh s + 2\<rparr>)))"
      using r \<open>map_of (a_clients s) n = None\<close>
      by (auto simp: relay_client_def Let_def split: if_splits option.splits)
    then show ?thesis using None ok bridge_ok_fresh [OF ok, of "a_fresh s + 2"]
      by (auto simp: ordinary_def action_ok_def)
  next
    case (Some c)
    let ?u = "s\<lparr>a_fresh := a_fresh s + 2\<rparr>"
    obtain uid admin where l: "length (a_clients s) < 128" and c: "c = a_fresh s + 1" and
      t: "t = add_client c ((new_client n (Peer (a_fresh s)))\<lparr>c_opened := True, c_observer := obs, c_admin := admin\<rparr>)
        (act (OpenPeer (Peer (a_fresh s)) uid obs) ?u)" (is "_ = add_client c ?cl ?v")
      using r Some \<open>map_of (a_clients s) n = None\<close>
      by (auto simp: relay_client_def Let_def split: if_splits option.splits)
    have v: "bridge_ok (\<lambda>_. 0) q ?v" using bridge_ok_fresh [OF ok, of "a_fresh s + 2"]
      by (simp add: ordinary_def action_ok_def)
    have h: "a_heap s c = None"
    proof (rule ccontr)
      assume "a_heap s c \<noteq> None"
      then obtain cl where "a_heap s c = Some cl" by blast
      from bridge_ok_client [OF ok this] show False using c by (simp add: client_ok_def)
    qed
    have "bridge_ok (\<lambda>_. 0) q (add_client c ?cl ?v)"
      using \<open>map_of (a_clients s) n = None\<close> l b c h
      by (intro bridge_ok_add_client [OF v, where p = "a_fresh s"]) (simp_all add: new_client_def)
    moreover have "a_broker (add_client c ?cl ?v) = a_broker s \<and> a_admin (add_client c ?cl ?v) = a_admin s
        \<and> a_heap (add_client c ?cl ?v) c \<noteq> None"
      using \<open>map_of (a_clients s) n = None\<close>
      by (simp add: add_client_def Let_def add_filter_def client_ref_def set_client_def
        table_insert_def table_remove_def new_client_def)
    ultimately show ?thesis using t Some by auto
  qed
qed

lemma bridge_ok_guest_call:
  assumes ok: "bridge_ok (\<lambda>_. 0) q s" and b: "\<not> a_broker s" and m: "m_sender m \<noteq> None"
  shows "bridge_ok (\<lambda>_. 0) q (handle_guest_call ans bus m s)"
proof -
  obtain sender where sender: "m_sender m = Some sender" using m by blast
  obtain co t where r: "relay_client ans sender False s = (co, t)" by fastforce
  note rel = bridge_ok_relay_client [OF ok b r]
  show ?thesis
  proof (cases co)
    case None
    then show ?thesis using rel by (simp add: handle_guest_call_def sender r bridge_ok_reply_error)
  next
    case (Some c)
    then obtain cl where h: "a_heap t c = Some cl" using rel by blast
    obtain p where p: "c_peer cl = Peer p" using bridge_ok_peer [OF _ h] rel by blast
    let ?m = "resolve_destination (a_unique_name t) m"
    show ?thesis
    proof (cases "system_call_allowed ?m (c_admin cl)")
      case True
      then have "bridge_ok (\<lambda>_. 0) q (forward ans c bus (c_peer cl) ?m (m_destination ?m) t)"
        using rel b by (intro bridge_ok_forward [OF _ h]) (auto simp: action_ok_def p intro: allowed_any)
      then show ?thesis using True Some by (simp add: handle_guest_call_def sender r h Let_def)
    next
      case False
      then show ?thesis using Some rel
        by (simp add: handle_guest_call_def sender r h denied_def bridge_ok_reply_error Let_def)
    qed
  qed
qed

lemma bridge_ok_broker_call:
  assumes ok: "bridge_ok d q s" and h: "a_heap s c = Some cl" and b: "a_broker s" and o: "\<not> c_closed cl"
  shows "bridge_ok d q (handle_broker_call ans c bus m s)"
proof (cases "m_interface m = Some CONTROL \<and> m_member m = Some ''Open'' \<and> m_path m = Some CONTROL_PATH")
  case True
  then show ?thesis using bridge_ok_open_client [OF ok h b o] by (simp add: handle_broker_call_def)
next
  case False
  note clok = bridge_ok_client [OF ok h]
  show ?thesis
  proof (cases "\<not> c_opened cl \<or> c_observer cl \<or> \<not> system_call_allowed m (c_admin cl)")
    case True
    then show ?thesis using False h ok
      by (auto simp: handle_broker_call_def denied_def bridge_ok_reply_error)
  next
    case ok2: False
    then obtain p where p: "c_host cl = Some (Host p)" using clok b by (auto simp: client_ok_def)
    have "system_call_allowed m (a_admin s)"
      using ok2 clok b allowed_any by (cases "c_admin cl"; cases "a_admin s") (auto simp: client_ok_def)
    then have "bridge_ok d q (forward ans c (c_peer cl) (Host p) m (m_destination m) s)"
      by (intro bridge_ok_forward [OF ok h]) (simp add: action_ok_def b)
    then show ?thesis using False ok2 h p by (auto simp: handle_broker_call_def)
  qed
qed

lemma bridge_ok_reown:
  assumes ok: "bridge_ok d q s"
  shows "bridge_ok d q (reown_name i s)"
proof -
  have "bridge_ok d q (t\<lparr>a_names := ns, a_fresh := a_fresh t + 1\<rparr>)" if "bridge_ok d q t" for t ns
  proof -
    have "bridge_ok d q (t\<lparr>a_names := ns\<rparr>)"
      using that by (intro bridge_ok_shift [OF that]) (auto simp: counted_def queue_ok_def bridge_ok_def)
    from bridge_ok_fresh [OF this, of "a_fresh t + 1"] show ?thesis by simp
  qed
  then show ?thesis using ok by (simp add: reown_name_def Let_def ordinary_def action_ok_def)
qed

lemma bridge_ok_signals:
  assumes ok: "bridge_ok d q s" and h: "a_heap s c = Some cl"
  shows "bridge_ok d q (forward_host_signal c m s)" "bridge_ok d q (forward_peer_signal c m s)"
proof -
  obtain p where p: "c_peer cl = Peer p" using bridge_ok_client [OF ok h] by (auto simp: client_ok_def)
  show "bridge_ok d q (forward_host_signal c m s)"
    using ok by (auto simp: forward_host_signal_def h send_message_def ordinary_def action_ok_def p
        split: option.split)
  note names = bridge_ok_reown [OF ok]
  have "bridge_ok d q (fold (\<lambda>n. send_message AppBus (Some (spaces_message_copy m (Some n)))) ns t)"
    if "bridge_ok d q t" for ns t
    using that by (induction ns arbitrary: t) (simp_all add: send_message_def ordinary_def action_ok_def)
  then have casts: "bridge_ok d q (broadcast_signal m s)" using ok by (simp add: broadcast_signal_def)
  show "bridge_ok d q (forward_peer_signal c m s)"
    using ok names casts
    by (auto simp: forward_peer_signal_def h send_message_def ordinary_def
        action_ok_def split: option.split bool.split list.split gvariant.split)
qed

lemma bridge_ok_agent_callback:
  assumes ok: "bridge_ok d q s" and h: "a_heap s c = Some cl"
  shows "bridge_ok d q (handle_agent_callback ans c bus m s)"
proof (cases "callback_permitted (a_broker s) cl m")
  case True
  obtain p where p: "c_peer cl = Peer p" using bridge_ok_client [OF ok h] by (auto simp: client_ok_def)
  have "agent_method m" using True by (simp add: callback_permitted_def)
  then have "bridge_ok d q (forward ans c bus (if a_broker s then c_peer cl else AppBus) m
      (if a_broker s then None else Some (c_name cl)) s)"
    by (intro bridge_ok_forward [OF ok h]) (simp add: action_ok_def p)
  then show ?thesis using True h by (simp add: handle_agent_callback_def)
qed (use ok h in \<open>simp add: handle_agent_callback_def bridge_ok_reply_error\<close>)

lemma bridge_ok_dispatch:
  assumes ok: "bridge_ok d q s" and d: "\<And>c. e_client e = Some c \<Longrightarrow> 0 < d c"
    and n: "e_client e = None \<Longrightarrow> d = (\<lambda>_. 0) \<and> \<not> a_broker s \<and> m_sender (e_message e) \<noteq> None"
    and o: "\<And>c cl. e_client e = Some c \<Longrightarrow> a_heap s c = Some cl \<Longrightarrow> \<not> c_closed cl"
  shows "bridge_ok d q (dispatch ans size_of e s)"
proof (cases "spaces_message_bounded size_of (e_message e)")
  case False
  then show ?thesis using ok by (simp add: dispatch_def bridge_ok_reply_error Let_def)
next
  case bounded: True
  show ?thesis
  proof (cases "e_client e")
    case None
    then show ?thesis using bounded n ok bridge_ok_guest_call by (simp add: dispatch_def Let_def)
  next
    case (Some c)
    obtain cl where h: "a_heap s c = Some cl"
      using bridge_ok_live [OF ok, of c] d [OF Some] counted_nonneg [of s c] by fastforce
    then show ?thesis
      using bounded ok bridge_ok_broker_call [OF ok h _ o [OF Some h]] bridge_ok_signals [OF ok h]
        bridge_ok_agent_callback [OF ok h]
      by (simp add: dispatch_def Some Let_def)
  qed
qed

lemma bridge_ok_process_reply:
  assumes ok: "bridge_ok d q s" and h: "a_heap s c = Some cl"
    and m: "m_type m = MethodReturn \<or> m_type m = ErrorReply"
  shows "bridge_ok d q (process_reply size_of c bus m s)"
proof (cases "find (pending_for bus m) (c_pending_calls cl)")
  case (Some k)
  then have "k \<in> set (c_pending_calls cl)" "\<not> k_delivered k"
    by (auto simp: find_Some_iff pending_for_def in_set_conv_nth)
  then have "bridge_ok d q (deliver_reply size_of c k (Some m) s)"
    using bridge_ok_deliver [OF ok h, of k "Some m" size_of] m by auto
  then show ?thesis using Some h by (simp add: process_reply_def)
qed (use ok h in \<open>simp add: process_reply_def\<close>)

lemma bridge_ok_handle_event:
  assumes ok: "bridge_ok d q s" and d: "\<And>c. e_client e = Some c \<Longrightarrow> 0 < d c"
    and n: "e_client e = None \<Longrightarrow> d = (\<lambda>_. 0) \<and> \<not> a_broker s \<and> m_sender (e_message e) \<noteq> None"
  shows "bridge_ok d q (handle_event ans size_of e s)"
proof (cases "e_client e")
  case None
  then show ?thesis using bridge_ok_dispatch [OF ok d n] by (simp add: handle_event_def)
next
  case (Some c)
  obtain cl where h: "a_heap s c = Some cl"
    using bridge_ok_live [OF ok, of c] d [OF Some] counted_nonneg [of s c] by fastforce
  show ?thesis
  proof (cases "c_closed cl")
    case False
    have "bridge_ok d q (dispatch ans size_of e s)"
      by (rule bridge_ok_dispatch [OF ok d n]) (use False Some h in auto)
    then show ?thesis using False Some h bridge_ok_process_reply [OF ok h] by (simp add: handle_event_def)
  qed (use Some h ok in \<open>simp add: handle_event_def\<close>)
qed

lemma bridge_ok_process_event:
  assumes ok: "bridge_ok (\<lambda>_. 0) 0 s" and e: "a_queue s = e # es"
  shows "bridge_ok (\<lambda>_. 0) 0 (process_event ans size_of e (s\<lparr>a_queue := es\<rparr>))"
proof -
  let ?d = "case e_client e of None \<Rightarrow> (\<lambda>_. 0) | Some c \<Rightarrow> (\<lambda>_. 0)(c := 1)"
  let ?s = "s\<lparr>a_queue := es\<rparr>"
  have "counted ?s x + ?d x = counted s x + 0" for x
    by (auto simp: counted_def e split: option.split)
  moreover have "queue_ok 1 ?s" using ok e by (auto simp: bridge_ok_def queue_ok_def)
  ultimately have s: "bridge_ok ?d 1 ?s" by (intro bridge_ok_shift [OF ok]) auto
  have n: "e_client e = None \<Longrightarrow> \<not> a_broker s \<and> m_sender (e_message e) \<noteq> None"
    using ok e by (auto simp: bridge_ok_def queue_ok_def)
  let ?t = "handle_event ans size_of e ?s"
  have t: "bridge_ok ?d 1 ?t"
    by (rule bridge_ok_handle_event [OF s]) (use n in \<open>auto split: option.splits\<close>)
  have "queue_ok 0 (?t\<lparr>a_queued := a_queued ?t - 1\<rparr>)" using t by (auto simp: bridge_ok_def queue_ok_def)
  then have u: "bridge_ok ?d 0 (?t\<lparr>a_queued := a_queued ?t - 1\<rparr>)"
    by (intro bridge_ok_shift [OF t]) (auto simp: counted_def)
  show ?thesis
  proof (cases "e_client e")
    case None
    then show ?thesis using u by (simp add: process_event_def Let_def)
  next
    case (Some c)
    have "((\<lambda>_. 0)(c := 1))(c := ((\<lambda>_. 0)(c := 1)) c - 1) = (\<lambda>_. 0 :: int)" by auto
    then show ?thesis using bridge_ok_unref [OF u, of c] Some by (simp add: process_event_def Let_def)
  qed
qed

lemma bridge_ok_new_peer:
  assumes ok: "bridge_ok (\<lambda>_. 0) q s" and b: "a_broker s"
  shows "bridge_ok (\<lambda>_. 0) q (snd (new_peer s))"
proof (cases "length (a_clients s) \<ge> 129")
  case False
  let ?u = "s\<lparr>a_fresh := a_fresh s + 2\<rparr>"
  have u: "bridge_ok (\<lambda>_. 0) q ?u" using bridge_ok_fresh [OF ok, of "a_fresh s + 2"] by simp
  have below: "c < a_fresh s \<and> (\<exists>p < a_fresh s. c_name cl = pointer_name p)" if "a_heap s c = Some cl" for c cl
    using bridge_ok_client [OF ok that] b by (auto simp: client_ok_def)
  have "map_of (a_clients s) (pointer_name (a_fresh s)) = None"
  proof (rule ccontr)
    assume "map_of (a_clients s) (pointer_name (a_fresh s)) \<noteq> None"
    then obtain c where c: "(pointer_name (a_fresh s), c) \<in> set (a_clients s)" by (auto dest: map_of_SomeD)
    obtain cl where "a_heap s c = Some cl" "c_name cl = pointer_name (a_fresh s)"
      using links_ok_key [OF _ c] ok unfolding bridge_ok_def by metis
    with below obtain p where "p < a_fresh s" "show_hex p = show_hex (a_fresh s)" by (force simp: pointer_name_def)
    then show False using show_hex_inj by blast
  qed
  moreover have "a_heap s (a_fresh s + 1) = None" using below [of "a_fresh s + 1"] by fastforce
  ultimately show ?thesis using False b
    by (simp add: new_peer_def Let_def)
      (intro bridge_ok_add_client [OF u, where p = "a_fresh s", simplified], simp_all add: new_client_def)
qed (use ok in \<open>simp add: new_peer_def\<close>)

lemma bridge_ok_guest_names:
  assumes ok: "bridge_ok (\<lambda>_. 0) q s"
  shows "bridge_ok (\<lambda>_. 0) q (guest_names name old now s)"
proof -
  have "bridge_ok (\<lambda>_. 0) q (s\<lparr>a_guest_names := ns\<rparr>)" for ns
    using ok by (intro bridge_ok_shift [OF ok]) (auto simp: counted_def bridge_ok_def queue_ok_def)
  then show ?thesis using ok by (auto simp: guest_names_def intro: bridge_ok_table_remove)
qed

lemma bridge_ok_filter_destroyed:
  assumes ok: "bridge_ok (\<lambda>_. 0) q s" and f: "a_filters s = before @ (f, k, c) # after"
  shows "bridge_ok (\<lambda>_. 0) q (client_unref c (s\<lparr>a_filters := before @ after\<rparr>))"
proof -
  let ?s = "s\<lparr>a_filters := before @ after\<rparr>"
  have "counted ?s x + ((\<lambda>_. 0)(c := 1)) x = counted s x + 0" for x by (auto simp: counted_def f)
  moreover have "queue_ok q ?s" using ok by (simp add: bridge_ok_def queue_ok_def)
  ultimately have "bridge_ok ((\<lambda>_. 0)(c := 1)) q ?s" by (intro bridge_ok_shift [OF ok]) auto
  from bridge_ok_unref [OF this, of c] show ?thesis by (simp add: fun_upd_idem)
qed

section \<open>The properties\<close>

lemma bridge_ok_step:
  assumes ok: "bridge_ok (\<lambda>_. 0) 0 s" and st: "bridge_step size_of s t"
  shows "bridge_ok (\<lambda>_. 0) 0 t"
proof -
  have links: "links_ok s" using ok by (simp add: bridge_ok_def)
  have watch: "is_service i \<and> (\<exists>cl. a_heap s c = Some cl)" if "(w, i, c) \<in> set (a_watches s)" for w i c
    using links that by (auto simp: links_ok_def open_client_at_def)
  have filt: "\<exists>cl. a_heap s c = Some cl" if "(f, k, c) \<in> set (a_filters s)" for f k c
  proof -
    have "(f, k, c) \<in> set (filter (\<lambda>(_, _, x). x = c) (a_filters s))" using that by simp
    then have "0 < counted s c" unfolding counted_def by (metis add_gr_0 length_pos_if_in_set of_nat_0_less_iff)
    then show ?thesis using bridge_ok_live [OF ok, of c] by fastforce
  qed
  from st show ?thesis
  proof cases
    case (step_filter f k c m incoming)
    then show ?thesis using filt ok by (auto simp: client_filter_def intro!: bridge_ok_queue_message)
  next
    case (step_guest m incoming)
    then show ?thesis using ok by (auto simp: guest_filter_def intro!: bridge_ok_queue_message)
  next
    case (step_finished c cl k reply)
    then show ?thesis using bridge_ok_forward_finished [OF ok, of c cl k reply] by auto
  next
    case (step_appeared w i c owner)
    then show ?thesis using bridge_ok_appeared [OF ok] watch by blast
  next
    case (step_vanished w i c)
    then show ?thesis using bridge_ok_appeared [OF ok] watch by blast
  next
    case (step_closed k c)
    then have "open_client_at s c (\<lambda>cl. k = c_peer cl \<or> c_host cl = Some k)" using links by (auto simp: links_ok_def)
    then show ?thesis using step_closed bridge_ok_connection_closed [OF ok] by (auto simp: open_client_at_def)
  next
    case (step_tick ans)
    then show ?thesis using bridge_ok_relay_client [OF ok] unfolding observer_tick_def by (metis prod.collapse)
  qed (use ok bridge_ok_filter_destroyed bridge_ok_process_event bridge_ok_guest_names bridge_ok_new_peer in blast)+
qed

lemma bridge_ok_start:
  assumes "bridge_init s"
  shows "bridge_ok (\<lambda>_. 0) 0 s"
proof -
  have init: "bridge_ok (\<lambda>_. 0) 0 ((initial_app b a u)\<lparr>a_guest_names := ns\<rparr>)" for b a u ns
    by (simp add: bridge_ok_def heap_ok_def links_ok_def queue_ok_def size_ok_def trace_ok_def calls_ok_def
        pending_def deliveries_def initial_app_def counted_def)
  have init': "bridge_ok (\<lambda>_. 0) 0 (initial_app b a u)" for b a u
    using init [where ns = "[]"] by (simp add: initial_app_def)
  have names: "bridge_ok (\<lambda>_. 0) 0 (reown_name i t)" if "bridge_ok (\<lambda>_. 0) 0 t" for i t
    by (rule bridge_ok_reown [OF that])
  have tick: "bridge_ok (\<lambda>_. 0) 0 (observer_tick ans t)" if "bridge_ok (\<lambda>_. 0) 0 t" "\<not> a_broker t" for ans t
    using bridge_ok_relay_client [OF that] unfolding observer_tick_def by (metis prod.collapse)
  from assms obtain st where "main_start st = Inr s" by (auto simp: bridge_init_def)
  then show ?thesis
    by (auto simp: main_start_def Let_def init' split: if_splits option.splits
        intro!: names tick init) (simp add: initial_app_def)
qed

interpretation bridge: inductive_invariant bridge_init "bridge_step size_of" "bridge_ok (\<lambda>_. 0) 0" for size_of
  by unfold_locales (use bridge_ok_start bridge_ok_step in blast)+

text \<open>
  A run of the broker, for the witnesses: a peer connects, opens its client with the host bus
  reachable, calls \<open>GetDevices\<close> on NetworkManager, and the host answers.
\<close>

definition no_answers :: answers where
  "no_answers = \<lparr>ans_user = None, ans_peer = True, ans_open = None, ans_host = True, ans_serial = 7\<rparr>"

definition open_request :: message where
  "open_request = \<lparr>m_type = MethodCall, m_sender = None, m_destination = None, m_path = Some CONTROL_PATH,
     m_interface = Some CONTROL, m_member = Some ''Open'', m_serial = 1, m_reply_serial = 0,
     m_no_reply_expected = False, m_error = None, m_body = Some [VUint32 1000, VBool False], m_fds = None\<rparr>"

definition devices_request :: message where
  "devices_request = open_request\<lparr>m_path := Some ''/org/freedesktop/NetworkManager'',
     m_interface := Some NM, m_member := Some ''GetDevices'', m_serial := 2,
     m_destination := Some NM, m_body := Some []\<rparr>"

definition devices_reply :: message where
  "devices_reply = devices_request\<lparr>m_type := MethodReturn, m_reply_serial := 7, m_sender := Some '':1.5''\<rparr>"

definition run0 :: app where "run0 = initial_app True False []"
definition run1 :: app where "run1 = snd (new_peer run0)"
definition run2 :: app where "run2 = snd (client_filter 2 (Peer 1) open_request True run1)"
definition run3 :: app where
  "run3 = process_event no_answers length (hd (a_queue run2)) (run2\<lparr>a_queue := []\<rparr>)"
definition run4 :: app where "run4 = snd (client_filter 2 (Peer 1) devices_request True run3)"
definition run5 :: app where
  "run5 = process_event no_answers length (hd (a_queue run4)) (run4\<lparr>a_queue := []\<rparr>)"
definition run6 :: app where "run6 = snd (client_filter 2 (Host 4) devices_reply True run5)"
definition run7 :: app where
  "run7 = process_event no_answers length (hd (a_queue run6)) (run6\<lparr>a_queue := []\<rparr>)"

lemmas bridge_ops = client_ref_def client_unref_def with_client_def set_client_def act_def add_filter_def add_client_def table_insert_def table_remove_def
  new_client_def new_peer_def client_filter_def queue_message_def process_event_def handle_event_def dispatch_def handle_broker_call_def
  open_client_def initialize_host_def reply_success_def reply_error_def send_message_def method_reply_def forward_def new_call_def process_reply_def deliver_reply_def send_answer_def pending_for_def reply_copy_def mark_delivered_def spaces_message_copy_def
  numeral_2_eq_2 initial_app_def no_answers_def run0_def open_request_def devices_request_def spaces_message_bounded_def Let_def


definition peer_client :: "bool \<Rightarrow> int \<Rightarrow> call list \<Rightarrow> client" where
  "peer_client opened n calls = \<lparr>c_refs = n, c_name = ''0x1'', c_peer = Peer 1,
     c_host = (if opened then Some (Host 4) else None), c_opened = opened, c_admin = False, c_observer = False,
     c_closed = False, c_agent = False, c_filter0 = 3, c_filter1 = (if opened then 5 else 0),
     c_watches = (if opened then [6, 7, 8] else [0, 0, 0]),
     c_subscriptions = (if opened then [9, 10, 11] else [0, 0, 0]), c_owners = [None, None, None],
     c_outstanding = int (length calls), c_pending_calls = calls\<rparr>"

definition opened_app :: "client \<Rightarrow> nat \<Rightarrow> action list \<Rightarrow> app" where
  "opened_app cl next as = (initial_app True False [])
     \<lparr>a_clients := [(''0x1'', 2)], a_heap := [2 \<mapsto> cl], a_fresh := next,
      a_filters := [(5, Host 4, 2), (3, Peer 1, 2)], a_watches := [(6, 0, 2), (7, 1, 2), (8, 2, 2)],
      a_handlers := [(Host 4, 2), (Peer 1, 2)], a_trace := as\<rparr>"

definition opened_reply :: action where
  "opened_reply = Send (Peer 1) \<lparr>m_type = MethodReturn, m_sender = None, m_destination = None,
     m_path = None, m_interface = None, m_member = None, m_serial = 0, m_reply_serial = 1,
     m_no_reply_expected = True, m_error = None, m_body = Some [VBool False], m_fds = None\<rparr>"

definition devices_call :: "bool \<Rightarrow> call" where
  "devices_call delivered = \<lparr>k_id = 12, k_origin = Peer 1, k_request = devices_request, k_permissions = False,
     k_register_agent = False, k_unregister_agent = False, k_delivered = delivered, k_target = Host 4, k_serial = 7\<rparr>"

lemmas run_simps = peer_client_def opened_app_def opened_reply_def devices_call_def

lemma pointer_name_1: "pointer_name (Suc 0) = ''0x1''"
  by code_simp

lemma run3_eq: "run3 = opened_app (peer_client True 3 []) 12 [opened_reply]"
  by (simp add: run3_def run2_def run1_def bridge_ops CONTROL_def CONTROL_PATH_def run_simps pointer_name_1)
    (simp add: eval_nat_numeral) 

lemma devices_allowed: "system_call_allowed devices_request False"
  by code_simp

lemmas devices_allowed' = devices_allowed [unfolded devices_request_def open_request_def, simplified]

lemma run5_eq: "run5 = opened_app (peer_client True 4 [devices_call False]) 13
    [opened_reply, SendWithReply (Host 4) devices_request 12]"
  by (simp add: run5_def run4_def run3_eq bridge_ops run_simps devices_allowed' CONTROL_def CONTROL_PATH_def)

lemma run7_eq: "run7 = opened_app (peer_client True 4 [devices_call True]) 13
    [opened_reply, SendWithReply (Host 4) devices_request 12,
     Reply (Peer 1) (devices_reply\<lparr>m_sender := None, m_destination := None, m_reply_serial := 2\<rparr>) 12]"
  by (simp add: run7_def run6_def run5_eq bridge_ops run_simps devices_reply_def)

lemma queue_single: "length q = 1 \<Longrightarrow> q = [hd q]"
  by (cases q) auto

lemma reach_run7: "reach bridge_init (bridge_step length) run7"
proof -
  let ?st = "\<lparr>st_argv = [''b'', ''--broker'', ''s''], st_euid = 0, st_bus_address = True, st_server = True,
    st_bus = None, st_list_names = None, st_tick = no_answers\<rparr>"
  have "main_start ?st = Inr run0"
    by (simp add: main_start_def usage_ok_def run0_def)
  then have 0: "reach bridge_init (bridge_step length) run0"
    by (intro reach_init) (auto simp: bridge_init_def)
  have "a_broker run0" by (simp add: run0_def initial_app_def)
  from reach_step [OF 0 step_new_peer [OF this]] have 1: "reach bridge_init (bridge_step length) run1"
    by (simp add: run1_def)
  have "(3, Peer 1, 2) \<in> set (a_filters run1)"
    by (simp add: run1_def bridge_ops pointer_name_1)
  from reach_step [OF 1 step_filter [OF this]] have 2: "reach bridge_init (bridge_step length) run2"
    by (simp add: run2_def)
  have "length (a_queue run2) = 1" by (simp add: run2_def run1_def bridge_ops pointer_name_1)
  from reach_step [OF 2 step_event [OF queue_single [OF this]]] have 3: "reach bridge_init (bridge_step length) run3"
    by (simp add: run3_def)
  have "(3, Peer 1, 2) \<in> set (a_filters run3)" by (simp add: run3_eq opened_app_def)
  from reach_step [OF 3 step_filter [OF this]] have 4: "reach bridge_init (bridge_step length) run4"
    by (simp add: run4_def)
  have "length (a_queue run4) = 1"
    by (simp add: run4_def run3_eq opened_app_def peer_client_def bridge_ops)
  from reach_step [OF 4 step_event [OF queue_single [OF this]]] have 5: "reach bridge_init (bridge_step length) run5"
    by (simp add: run5_def)
  have "(5, Host 4, 2) \<in> set (a_filters run5)" by (simp add: run5_eq opened_app_def)
  from reach_step [OF 5 step_filter [OF this]] have 6: "reach bridge_init (bridge_step length) run6"
    by (simp add: run6_def)
  have "length (a_queue run6) = 1"
    by (simp add: run6_def run5_eq opened_app_def peer_client_def devices_reply_def bridge_ops)
  from reach_step [OF 6 step_event [OF queue_single [OF this]]] show ?thesis
    by (simp add: run7_def)
qed

text \<open>C2. No reachable state of the relay or the broker has touched a freed client: in every reachable
  state each client's reference count equals the number of table entries, live filters, queued
  events and pending calls that refer to it, and whatever refers to a client, counted or by bare
  pointer (name watches, \<open>closed\<close> handlers), refers to a live one; the bare pointers moreover only
  to a client that is still open and listed in the table under its name.\<close>

theorem bridge_memory_safe:
  assumes "reach bridge_init (bridge_step size_of) s"
  shows "\<not> a_fault s
    \<and> (\<forall>c cl. a_heap s c = Some cl \<longrightarrow>
         c_refs cl = counted s c + int (length (c_pending_calls cl)) \<and> 0 < c_refs cl)
    \<and> (\<forall>c. 0 < counted s c \<longrightarrow> (\<exists>cl. a_heap s c = Some cl))
    \<and> (\<forall>w i k c. (w, i, c) \<in> set (a_watches s) \<or> (k, c) \<in> set (a_handlers s) \<longrightarrow>
         (\<exists>cl. a_heap s c = Some cl \<and> \<not> c_closed cl \<and> map_of (a_clients s) (c_name cl) = Some c))"
proof (intro conjI allI impI)
  have ok: "bridge_ok (\<lambda>_. 0) 0 s" by (rule bridge.always [OF assms])
  then show "\<not> a_fault s" by (simp add: bridge_ok_def)
  show "c_refs cl = counted s c + int (length (c_pending_calls cl))" "0 < c_refs cl" if "a_heap s c = Some cl" for c cl
    using bridge_ok_client [OF ok that] by (simp_all add: client_ok_def)
  show "\<exists>cl. a_heap s c = Some cl" if "0 < counted s c" for c
    using bridge_ok_live [OF ok, of c] that by fastforce
  fix w i k c assume "(w, i, c) \<in> set (a_watches s) \<or> (k, c) \<in> set (a_handlers s)"
  then obtain cl where "a_heap s c = Some cl" "\<not> c_closed cl"
    using ok by (auto simp: bridge_ok_def links_ok_def open_client_at_def)
  then show "\<exists>cl. a_heap s c = Some cl \<and> \<not> c_closed cl \<and> map_of (a_clients s) (c_name cl) = Some c"
    using ok bridge_ok_client [OF ok, of c cl] by (auto simp: bridge_ok_def links_ok_def client_ok_def)
qed

theorem bridge_memory_safe_witness:
  "\<not> a_fault run7 \<and> (\<exists>cl. a_heap run7 2 = Some cl) \<and> c_refs (the (a_heap run7 2)) = 4"
proof -
  have "0 < counted run7 2" by (simp add: run7_eq run5_eq opened_app_def peer_client_def opened_reply_def devices_call_def counted_def deliveries_def initial_app_def)
  with bridge_memory_safe [OF reach_run7] have "\<not> a_fault run7 \<and> (\<exists>cl. a_heap run7 2 = Some cl)" by blast
  moreover have "c_refs (the (a_heap run7 2)) = 4" by (simp add: run7_eq run5_eq opened_app_def peer_client_def opened_reply_def devices_call_def counted_def deliveries_def initial_app_def)
  ultimately show ?thesis by blast
qed

text \<open>C11. The bridge's resources are bounded in every reachable state: at most 1024 queued events, and
  the counter is exactly the queue's length; at most 128 clients in a relay and 129 in the broker;
  per client at most 64 outstanding calls, and the counter is exactly the number of pending ones.\<close>

theorem bridge_bounds:
  assumes "reach bridge_init (bridge_step size_of) s"
  shows "a_queued s = int (length (a_queue s)) \<and> length (a_queue s) \<le> 1024
    \<and> length (a_clients s) \<le> (if a_broker s then 129 else 128)
    \<and> (\<forall>c cl. a_heap s c = Some cl \<longrightarrow>
         c_outstanding cl = int (length (c_pending_calls cl)) \<and> length (c_pending_calls cl) \<le> 64)"
proof -
  have ok: "bridge_ok (\<lambda>_. 0) 0 s" by (rule bridge.always [OF assms])
  then have "queue_ok 0 s" "size_ok s" by (simp_all add: bridge_ok_def)
  then show ?thesis using bridge_ok_client [OF ok] by (simp add: queue_ok_def size_ok_def client_ok_def)
qed

theorem bridge_bounds_witness:
  "length (a_queue run7) \<le> 1024 \<and> map (\<lambda>k. k_serial k) (c_pending_calls (the (a_heap run7 2))) = [7]"
proof -
  have "length (a_queue run7) \<le> 1024" using bridge_bounds [OF reach_run7] by blast
  moreover have "map (\<lambda>k. k_serial k) (c_pending_calls (the (a_heap run7 2))) = [7]" by (simp add: run7_eq run5_eq opened_app_def peer_client_def opened_reply_def devices_call_def counted_def deliveries_def initial_app_def)
  ultimately show ?thesis by blast
qed

text \<open>C1. What crosses the boundary: in every reachable state, each call the bridge has placed on the
  host bus was placed by a broker and is admitted by the service policy with no more rights than
  the space was granted; each call a relay has passed to a broker is admitted by the policy; each
  call passed towards a guest is one of the four methods of NetworkManager's secret agent; and
  everything else that was sent to the host bus is an answer to a call that came from it.\<close>

theorem bridge_confinement:
  assumes "reach bridge_init (bridge_step size_of) s"
  shows "(\<forall>h m i. SendWithReply (Host h) m i \<in> set (a_trace s) \<longrightarrow>
            a_broker s \<and> system_call_allowed m (a_admin s))
    \<and> (\<forall>p m i. SendWithReply (Peer p) m i \<in> set (a_trace s) \<longrightarrow>
            (if a_broker s then agent_method m else system_call_allowed m True))
    \<and> (\<forall>m i. SendWithReply AppBus m i \<in> set (a_trace s) \<longrightarrow> \<not> a_broker s \<and> agent_method m)
    \<and> (\<forall>h m. Send (Host h) m \<in> set (a_trace s) \<or> (\<exists>i. Reply (Host h) m i \<in> set (a_trace s)) \<longrightarrow>
            m_type m = MethodReturn \<or> m_type m = ErrorReply)"
proof -
  have "trace_ok s" using bridge.always [OF assms] by (simp add: bridge_ok_def)
  then have t: "a \<in> set (a_trace s) \<Longrightarrow> action_ok (a_broker s) (a_admin s) a" for a by (simp add: trace_ok_def)
  show ?thesis
    by (intro conjI allI impI; (elim disjE exE)?; drule t; simp add: action_ok_def split: if_splits)
qed

theorem bridge_confinement_witness:
  "\<exists>m i. SendWithReply (Host 4) m i \<in> set (a_trace run7) \<and> system_call_allowed m False"
proof -
  have "SendWithReply (Host 4) devices_request 12 \<in> set (a_trace run7)" by (simp add: run7_eq run5_eq opened_app_def peer_client_def opened_reply_def devices_call_def counted_def deliveries_def initial_app_def)
  moreover have "a_admin run7 = False" by (simp add: run7_eq run5_eq opened_app_def peer_client_def opened_reply_def devices_call_def counted_def deliveries_def initial_app_def)
  ultimately show ?thesis using bridge_confinement [OF reach_run7] by metis
qed

text \<open>C10. Every forwarded call is answered exactly once. In every reachable state, of a call that was passed on: as long as it
  waits for its reply no answer was sent to the caller; once the reply was delivered, or the call has failed or timed out and
  is finished, exactly one message was sent to the caller for it, the host's reply or an error, which has the type of an answer and the serial of the
  caller's own message as its reply serial. (What is passed on but is not a method call gets at most one answer, since GDBus builds
  no error for it.)\<close>

theorem bridge_answers_once:
  assumes "reach bridge_init (bridge_step size_of) s" and "SendWithReply target m i \<in> set (a_trace s)"
  shows "(if \<exists>c k. pending s c k \<and> k_id k = i \<and> \<not> k_delivered k then deliveries s i = 0
          else deliveries s i \<le> 1 \<and> (m_type m = MethodCall \<longrightarrow> deliveries s i = 1))
    \<and> (\<forall>k a. Reply k a i \<in> set (a_trace s) \<longrightarrow> (m_type a = MethodReturn \<or> m_type a = ErrorReply) \<and> m_reply_serial a = m_serial m)"
proof -
  have ok: "calls_ok s" "trace_ok s" using bridge.always [OF assms(1)] by (simp_all add: bridge_ok_def)
  note d = calls_okD(1) [OF ok(1), THEN conjunct2] and t = calls_okD(4) [OF ok(1) assms(2), THEN conjunct2]
    and o = calls_okD(6) [OF ok(1) _ assms(2)]
  have u: "k = k'" if "pending s c k" "pending s c' k'" "k_id k = k_id k'" for c k c' k'
    using calls_okD(2) [OF ok(1) that] by blast
  have l: "m_type m = m_type (k_request k)" if "pending s c k" "k_id k = i" for c k
    using calls_okD(5) [OF ok(1), of target m k c] assms(2) that by blast
  have count: "if \<exists>c k. pending s c k \<and> k_id k = i \<and> \<not> k_delivered k then deliveries s i = 0
      else settled (m_type m) (deliveries s i)"
    using d t u l unfolding owed_def by metis
  have "Reply k a i \<in> set (a_trace s) \<Longrightarrow> m_type a = MethodReturn \<or> m_type a = ErrorReply" for k a
    using ok(2) by (auto simp: trace_ok_def action_ok_def)
  with count o show ?thesis unfolding settled_def by simp
qed

theorem bridge_answers_once_witness:
  "deliveries run5 12 = 0 \<and> deliveries run7 12 = 1 \<and> (\<exists>k a. Reply k a 12 \<in> set (a_trace run7) \<and> m_reply_serial a = 2)"
proof -
  note run7 = run7_eq opened_app_def peer_client_def opened_reply_def devices_call_def initial_app_def
  have sent: "SendWithReply (Host 4) devices_request 12 \<in> set (a_trace run7)" by (simp add: run7)
  have "Reply (Peer 1) (devices_reply\<lparr>m_sender := None, m_destination := None, m_reply_serial := 2\<rparr>) 12 \<in> set (a_trace run7)"
    by (simp add: run7)
  with bridge_answers_once [OF reach_run7 sent] have "\<exists>k a. Reply k a 12 \<in> set (a_trace run7) \<and> m_reply_serial a = 2"
    by (metis (no_types, lifting) message.select_convs(8) message.surjective message.update_convs(8))
  moreover have "deliveries run5 12 = 0" "deliveries run7 12 = 1"
    by (simp_all add: run7 run5_eq deliveries_def)
  ultimately show ?thesis by simp
qed


text \<open>A caller without Network Admin never learns NetworkManager's permissions: the reply to its
  \<open>GetPermissions\<close> call is passed on, addressed to the caller and under the call's serial, with
  every permission of the host's answer present and replaced by \<open>no\<close>.\<close>

theorem permissions_masked:
  assumes "a_heap s c = Some cl" "\<not> c_admin cl" "k_permissions k"
    and "m_type r = MethodReturn" "m_body r = Some [VDictSS entries]" "spaces_message_bounded size_of r"
  shows "\<exists>m. a_trace (deliver_reply size_of c k (Some r) s) = a_trace s @ [Reply (k_origin k) m (k_id k)]
    \<and> m_body m = Some [VDictSS (map (\<lambda>(key, v). (key, ''no'')) entries)]
    \<and> m_destination m = m_sender (k_request k) \<and> m_reply_serial m = m_serial (k_request k) \<and> m_sender m = None"
  using assms by (simp add: deliver_reply_def Let_def send_answer_def reply_copy_def mask_permissions_def
      spaces_message_copy_def)

theorem permissions_masked_witness:
  "\<exists>m i. Reply (Peer 1) m i \<in> set (a_trace (deliver_reply length 2 ((devices_call False)\<lparr>k_permissions := True\<rparr>)
        (Some (devices_reply\<lparr>m_body := Some [VDictSS [(''enable-network'', ''yes'')]]\<rparr>)) run5))
     \<and> m_body m = Some [VDictSS [(''enable-network'', ''no'')]]"
proof -
  let ?k = "(devices_call False)\<lparr>k_permissions := True\<rparr>"
    and ?r = "devices_reply\<lparr>m_body := Some [VDictSS [(''enable-network'', ''yes'')]]\<rparr>"
  have "a_heap run5 2 = Some (peer_client True 4 [devices_call False])" by (simp add: run5_eq opened_app_def)
  moreover have "\<not> c_admin (peer_client True 4 [devices_call False])" by (simp add: peer_client_def)
  moreover have "m_type ?r = MethodReturn" "m_body ?r = Some [VDictSS [(''enable-network'', ''yes'')]]"
    "spaces_message_bounded length ?r"
    by (simp_all add: devices_reply_def devices_request_def open_request_def spaces_message_bounded_def)
  ultimately show ?thesis
    using permissions_masked [of run5 2 "peer_client True 4 [devices_call False]" ?k ?r _ length]
    by (force simp: devices_call_def)
qed

text \<open>Signals of the host reach a space only under a service's name and only from that service:
  a signal is passed on exactly when its sender is the current owner of one of the three services,
  its path is one of that service's, and it is a broadcast or the client is not the shared
  observer; what is passed on carries the service's well-known name as its sender and no destination.\<close>

theorem host_signal_origin:
  assumes "a_heap s c = Some cl"
  shows "forward_host_signal c m s =
    (if \<exists>i. is_service i \<and> signal_from cl m i \<and> (m_destination m = None \<or> \<not> c_observer cl)
     then act (Send (c_peer cl) (m\<lparr>m_sender := Some (services ! (LEAST i. is_service i \<and> signal_from cl m i)),
                                   m_destination := None\<rparr>)) s
     else s)"
proof -
  have "find (signal_from cl m) [0, 1, 2] =
      (if \<exists>i. is_service i \<and> signal_from cl m i then Some (LEAST i. is_service i \<and> signal_from cl m i) else None)"
  proof -
    have l: "(LEAST i. is_service i \<and> signal_from cl m i) = j"
      if "is_service j" "signal_from cl m j" "\<And>i. i < j \<Longrightarrow> \<not> signal_from cl m i" for j
      using that by (intro Least_equality) (auto simp: not_less [symmetric])
    consider "signal_from cl m 0" | "\<not> signal_from cl m 0" "signal_from cl m 1"
      | "\<not> signal_from cl m 0" "\<not> signal_from cl m 1" "signal_from cl m 2"
      | "\<not> signal_from cl m 0" "\<not> signal_from cl m 1" "\<not> signal_from cl m 2" by blast
    then show ?thesis
    proof cases
      case 1
      then show ?thesis using l [of 0] by (auto simp: is_service_def)
    next
      case 2
      then show ?thesis using l [of 1] by (auto simp: is_service_def less_Suc_eq)
    next
      case 3
      then have "\<not> signal_from cl m i" if "i < 2" for i using that by (cases i) (auto simp: less_Suc_eq numeral_2_eq_2)
      then have "(LEAST i. is_service i \<and> signal_from cl m i) = 2" using 3 by (intro l) (auto simp: is_service_def)
      then show ?thesis using 3 by (auto simp: is_service_def)
    next
      case 4
      then have "\<not> (is_service i \<and> signal_from cl m i)" for i unfolding is_service_def by metis
      then show ?thesis using 4 by simp
    qed
  qed
  then show ?thesis
    unfolding forward_host_signal_def with_client_live [OF assms]
    by (auto simp: send_message_def spaces_message_copy_def)
qed

theorem host_signal_origin_witness:
  "a_heap run5 2 = Some (peer_client True 4 [devices_call False]) \<and> forward_host_signal 2 devices_reply run5 = run5"
proof
  show h: "a_heap run5 2 = Some (peer_client True 4 [devices_call False])" by (simp add: run5_eq opened_app_def)
  have "\<not> signal_from (peer_client True 4 [devices_call False]) devices_reply i" if "is_service i" for i
    using that by (auto simp: signal_from_def peer_client_def is_service_def numeral_2_eq_2)
  then show "forward_host_signal 2 devices_reply run5 = run5" unfolding host_signal_origin [OF h] by auto
qed

end
