(* ===== verification/Number_Parse.thy ===== *)
theory Number_Parse
  imports Spaces_Prelude
begin

text \<open>
  How the launcher (\<open>src/native/spaces.c\<close>) reads numbers out of kernel text files: the checked
  decimal parser on 64-bit values, the start time of a process in \<open>/proc/PID/stat\<close>, and the list of
  child processes whose groups are signalled when the session ends.
\<close>

section \<open>Checked decimals\<close>

definition ULLONG_MAX :: "64 word" where "ULLONG_MAX = - 1"
definition INT_MAX :: "64 word" where "INT_MAX = 2147483647"
definition UINT_MAX :: "64 word" where "UINT_MAX = 4294967295"

fun parse_digits :: "64 word \<Rightarrow> 64 word \<Rightarrow> string \<Rightarrow> 64 word option" where
  "parse_digits maximum v [] = Some v"
| "parse_digits maximum v (c # cs) =
     (if \<not> is_digit c then None
      else let digit = of_nat (digit_value c)
           in if v > (maximum - digit) div 10 then None
              else parse_digits maximum (v * 10 + digit) cs)"

definition parse_unsigned :: "string \<Rightarrow> 64 word \<Rightarrow> 64 word option" where
  "parse_unsigned s maximum = (if s = [] then None else parse_digits maximum 0 s)"

lemma digit_value_less: "is_digit c \<Longrightarrow> digit_value c \<le> 9"
  by (auto simp: is_digit_def digit_value_def)

lemma unat_of_nat64: "n < 2 ^ 64 \<Longrightarrow> unat (of_nat n :: 64 word) = n"
  by (simp add: unat_of_nat)

lemma unat_64: "unat (w :: 64 word) < 2 ^ 64"
  using unsigned_less [of w, where 'a = nat] by simp

lemma digits_grow: "v \<le> foldl (\<lambda>v c. v * 10 + digit_value c) v s"
proof (induction s arbitrary: v)
  case (Cons c s)
  have "v \<le> v * 10 + digit_value c" by simp
  also have "\<dots> \<le> foldl (\<lambda>v c. v * 10 + digit_value c) (v * 10 + digit_value c) s" by (rule Cons.IH)
  finally show ?case by simp
qed simp

lemma parse_digits_eq:
  assumes "9 \<le> unat maximum" "unat v \<le> unat maximum"
  shows "parse_digits maximum v s =
    (let n = foldl (\<lambda>v c. v * 10 + digit_value c) (unat v) s
     in if list_all is_digit s \<and> n \<le> unat maximum then Some (of_nat n) else None)"
  using assms(2)
proof (induction s arbitrary: v)
  case (Cons c s)
  show ?case
  proof (cases "is_digit c")
    case True
    let ?d = "digit_value c"
    have d: "unat (of_nat ?d :: 64 word) = ?d"
      using digit_value_less [OF True] by (intro unat_of_nat64) simp
    have m: "unat (maximum - of_nat ?d) = unat maximum - ?d"
      using d digit_value_less [OF True] assms(1) by (subst unat_sub) (simp_all add: word_le_nat_alt)
    have test: "v > (maximum - of_nat ?d) div 10 \<longleftrightarrow> unat v * 10 + ?d > unat maximum"
    proof -
      have "unat ((maximum - of_nat ?d) div 10) = (unat maximum - ?d) div 10"
        by (simp add: unat_div m)
      then show ?thesis using digit_value_less [OF True] assms(1) by (auto simp: word_less_nat_alt)
    qed
    show ?thesis
    proof (cases "unat v * 10 + ?d > unat maximum")
      case True
      then show ?thesis using test \<open>is_digit c\<close> digits_grow [of "unat v * 10 + ?d" s] by (simp add: Let_def)
    next
      case False
      have "unat maximum < 2 ^ 64" by (rule unat_64)
      then have u: "unat (v * 10 + of_nat ?d) = unat v * 10 + ?d"
        using False by (simp add: unat_word_ariths unat_of_nat d)
      then show ?thesis using Cons.IH [of "v * 10 + of_nat ?d"] False test \<open>is_digit c\<close> by (simp add: Let_def)
    qed
  qed (simp add: Let_def)
qed (simp add: Let_def)

lemma parse_unsigned_iff:
  assumes "9 \<le> unat maximum"
  shows "parse_unsigned s maximum =
    (if s \<noteq> [] \<and> list_all is_digit s \<and> decimal s \<le> unat maximum then Some (of_nat (decimal s)) else None)"
  using parse_digits_eq [of maximum 0 s] assms by (simp add: parse_unsigned_def decimal_def Let_def)

lemma parse_show_nat:
  assumes "9 \<le> unat maximum" "n \<le> unat maximum"
  shows "parse_unsigned (show_nat n) maximum = Some (of_nat n)"
  using assms show_nat_digits by (auto simp: parse_unsigned_iff list_all_iff)

lemma maximum_values [simp]:
  "unat ULLONG_MAX = 2 ^ 64 - 1" "unat INT_MAX = 2 ^ 31 - 1" "unat UINT_MAX = 2 ^ 32 - 1"
  by (simp_all add: ULLONG_MAX_def INT_MAX_def UINT_MAX_def unsigned_minus_1_eq_mask mask_eq_exp_minus_1)

section \<open>The start time of a process\<close>

abbreviation "blank \<equiv> CHR '' ''"

fun stat_field :: "nat \<Rightarrow> string \<Rightarrow> 64 word option" where
  "stat_field n cursor =
     (let cursor = dropWhile (\<lambda>c. c = blank) cursor
      in if cursor = [] then None
         else let word = takeWhile (\<lambda>c. c \<noteq> blank) cursor; end = dropWhile (\<lambda>c. c \<noteq> blank) cursor
              in case n of 0 \<Rightarrow> parse_unsigned word ULLONG_MAX | Suc m \<Rightarrow> stat_field m end)"

declare stat_field.simps [simp del]

definition after_last :: "char \<Rightarrow> string \<Rightarrow> string" where
  "after_last c s = rev (takeWhile (\<lambda>x. x \<noteq> c) (rev s))"

definition start_time_of :: "string \<Rightarrow> 64 word option" where
  "start_time_of buffer =
     (if CHR '')'' \<notin> set buffer then None else stat_field (22 - 3) (after_last (CHR '')'') buffer))"

text \<open>What one \<open>read\<close> into the buffer leaves as a C string; \<open>None\<close> when the file cannot be opened,
  or the read fails or gives nothing. The read repeats while it is interrupted.\<close>

definition process_start_time :: "(string \<Rightarrow> string option) \<Rightarrow> int \<Rightarrow> 64 word option" where
  "process_start_time read_file process =
     (if process \<le> 1 then None
      else let path = ''/proc/'' @ show_int process @ ''/stat''
           in if length path \<ge> 64 then None
              else case read_file path of
                     None \<Rightarrow> None
                   | Some content \<Rightarrow>
                       let content = take (2048 - 1) content
                       in if content = [] then None
                          else start_time_of (takeWhile (\<lambda>c. c \<noteq> CHR 0x00) content))"

lemma after_last_append: "c \<notin> set t \<Longrightarrow> after_last c (s @ c # t) = t"
proof -
  assume a: "c \<notin> set t"
  then have "takeWhile (\<lambda>x. x \<noteq> c) (rev t @ c # rev s) = rev t" by (subst takeWhile_append2) auto
  then show ?thesis by (simp add: after_last_def)
qed

definition field_ok :: "string \<Rightarrow> bool" where
  "field_ok f = (f \<noteq> [] \<and> blank \<notin> set f)"

lemma stat_field_step:
  assumes "field_ok f" "t = [] \<or> hd t = blank"
  shows "stat_field n (blank # f @ t) =
    (case n of 0 \<Rightarrow> parse_unsigned f ULLONG_MAX | Suc m \<Rightarrow> stat_field m t)"
proof -
  obtain x xs where f: "f = x # xs" and x: "x \<noteq> blank" using assms(1) by (cases f) (auto simp: field_ok_def)
  have tw: "takeWhile (\<lambda>c. c \<noteq> blank) (f @ t) = f" "dropWhile (\<lambda>c. c \<noteq> blank) (f @ t) = t"
  proof -
    have f': "\<And>c. c \<in> set f \<Longrightarrow> c \<noteq> blank" using assms(1) by (auto simp: field_ok_def)
    have t': "takeWhile (\<lambda>c. c \<noteq> blank) t = []" "dropWhile (\<lambda>c. c \<noteq> blank) t = t"
      using assms(2) by (cases t; simp)+
    show "takeWhile (\<lambda>c. c \<noteq> blank) (f @ t) = f" "dropWhile (\<lambda>c. c \<noteq> blank) (f @ t) = t"
      using f' t' by (simp_all add: takeWhile_append2 dropWhile_append2)
  qed
  have "dropWhile (\<lambda>c. c = blank) (blank # f @ t) = f @ t" using f x by simp
  moreover have "f @ t \<noteq> []" using f by simp
  ultimately show ?thesis by (subst stat_field.simps) (simp only: Let_def tw if_False)
qed

lemma stat_field_nth:
  assumes "list_all field_ok fs" "n < length fs"
  shows "stat_field n (concat (map (\<lambda>f. blank # f) fs)) = parse_unsigned (fs ! n) ULLONG_MAX"
  using assms
proof (induction fs arbitrary: n)
  case (Cons f fs)
  have "concat (map (\<lambda>f. blank # f) fs) = [] \<or> hd (concat (map (\<lambda>f. blank # f) fs)) = blank"
    by (cases fs) auto
  then show ?case using Cons by (cases n) (simp_all add: stat_field_step)
qed simp

text \<open>C34. The checked parser is exact: for any maximum of at least 9 it accepts precisely the
  non-empty digit strings whose value does not exceed the maximum, and returns that value; no
  input overflows the 64-bit accumulator.\<close>

theorem parse_unsigned_exact:
  assumes "9 \<le> unat maximum"
  shows "parse_unsigned s maximum = Some v \<longleftrightarrow>
    s \<noteq> [] \<and> list_all is_digit s \<and> decimal s \<le> unat maximum \<and> unat v = decimal s"
proof -
  have "unat (of_nat (decimal s) :: 64 word) = decimal s" if "decimal s \<le> unat maximum"
    using that unat_64 [of maximum] by (intro unat_of_nat64) linarith
  moreover have "unat v = unat (of_nat (decimal s) :: 64 word) \<longleftrightarrow> of_nat (decimal s) = v"
    by (auto simp: word_unat_eq_iff)
  ultimately show ?thesis using assms by (auto simp: parse_unsigned_iff)
qed

theorem parse_unsigned_exact_witness:
  "parse_unsigned ''18446744073709551615'' ULLONG_MAX = Some (- 1)
   \<and> (\<forall>v. parse_unsigned ''18446744073709551616'' ULLONG_MAX \<noteq> Some v)"
proof -
  have m: "9 \<le> unat ULLONG_MAX" by simp
  have "decimal ''18446744073709551615'' = unat (- 1 :: 64 word)"
    using maximum_values(1) by (simp add: decimal_def digit_value_def ULLONG_MAX_def)
  moreover have "\<not> decimal ''18446744073709551616'' \<le> unat ULLONG_MAX"
    by (simp add: decimal_def digit_value_def)
  moreover have "list_all is_digit ''18446744073709551615''" by (simp add: is_digit_def)
  moreover have "decimal ''18446744073709551615'' \<le> unat ULLONG_MAX" by (simp add: decimal_def digit_value_def)
  ultimately show ?thesis unfolding parse_unsigned_exact [OF m] by simp
qed

text \<open>The start time read from a \<open>stat\<close> file is the kernel's, whatever the process calls itself:
  for a line \<open>pid (command) f3 f4 \<dots>\<close> whose command is any string (parentheses and blanks included)
  and whose later fields hold no parenthesis, the value of the 22nd field is returned.\<close>

theorem start_time_robust:
  assumes "list_all field_ok fs" and "\<forall>f \<in> set fs. CHR '')'' \<notin> set f" and "20 \<le> length fs"
    and "fs ! 19 = show_nat t" and "t < 2 ^ 64"
  shows "start_time_of (pid @ '' ('' @ command @ '')'' @ concat (map (\<lambda>f. blank # f) fs)) = Some (of_nat t)"
proof -
  have "CHR '')'' \<notin> set (concat (map (\<lambda>f. blank # f) fs))" using assms(2) by auto
  from after_last_append [OF this, of "pid @ '' ('' @ command"]
  have "after_last (CHR '')'') (pid @ '' ('' @ command @ '')'' @ concat (map (\<lambda>f. blank # f) fs))
      = concat (map (\<lambda>f. blank # f) fs)" by simp
  moreover have "stat_field 19 (concat (map (\<lambda>f. blank # f) fs)) = Some (of_nat t)"
    using assms parse_show_nat [of ULLONG_MAX t] by (simp add: stat_field_nth)
  ultimately show ?thesis by (simp add: start_time_of_def)
qed

theorem start_time_robust_witness:
  "start_time_of (''42'' @ '' ('' @ ''a) R 1 2'' @ '')'' @ concat (map (\<lambda>f. blank # f)
     (replicate 19 ''0'' @ [show_nat 77]))) = Some 77"
proof -
  let ?fs = "replicate 19 ''0'' @ [show_nat 77]"
  have "list_all field_ok ?fs" "\<forall>f \<in> set ?fs. CHR '')'' \<notin> set f" "20 \<le> length ?fs" "?fs ! 19 = show_nat 77"
    by code_simp+
  from start_time_robust [OF this, of "''42''" "''a) R 1 2''"] show ?thesis by simp
qed

section \<open>The groups of adopted processes\<close>

function adopted_groups :: "(int \<Rightarrow> int) \<Rightarrow> int \<Rightarrow> string \<Rightarrow> int list \<Rightarrow> int list" where
  "adopted_groups getpgid own cursor groups =
     (if cursor = [] \<or> length groups \<ge> 32 then groups
      else let cursor = dropWhile (\<lambda>c. c = blank) cursor
           in if cursor = [] then groups
              else let word = takeWhile (\<lambda>c. c \<noteq> blank) cursor; end = dropWhile (\<lambda>c. c \<noteq> blank) cursor
                   in case parse_unsigned word INT_MAX of
                        None \<Rightarrow> groups
                      | Some process \<Rightarrow>
                          let group = getpgid (uint process)
                          in adopted_groups getpgid own end
                               (if group > 1 \<and> group \<noteq> own \<and> group \<notin> set groups
                                then groups @ [group] else groups))"
  by pat_completeness auto

lemma end_shorter:
  "cursor \<noteq> [] \<Longrightarrow> dropWhile (\<lambda>c. c = blank) cursor \<noteq> [] \<Longrightarrow>
   length (dropWhile (\<lambda>c. c \<noteq> blank) (dropWhile (\<lambda>c. c = blank) cursor)) < length cursor"
proof -
  assume a: "dropWhile (\<lambda>c. c = blank) cursor \<noteq> []"
  then obtain x xs where e: "dropWhile (\<lambda>c. c = blank) cursor = x # xs" by (cases "dropWhile (\<lambda>c. c = blank) cursor") auto
  have "x \<noteq> blank" using hd_dropWhile [OF a] e by simp
  then have "length (dropWhile (\<lambda>c. c \<noteq> blank) (x # xs)) < length (x # xs)"
    by (simp add: le_imp_less_Suc length_dropWhile_le)
  also have "\<dots> \<le> length cursor" unfolding e [symmetric] by (rule length_dropWhile_le)
  finally show ?thesis by (simp add: e)
qed

termination adopted_groups
  by (relation "measure (\<lambda>(_, _, c, _). length c)") (auto intro: end_shorter)

declare adopted_groups.simps [simp del]

text \<open>The groups that are signalled, in order; the program sends the signal to each as it finds it.\<close>

definition terminate_adopted_groups ::
    "(string \<Rightarrow> string option) \<Rightarrow> (int \<Rightarrow> int) \<Rightarrow> int \<Rightarrow> int \<Rightarrow> int list" where
  "terminate_adopted_groups read_file getpgid own pid =
     (let path = ''/proc/self/task/'' @ show_int pid @ ''/children''
      in if length path \<ge> 96 then []
         else case read_file path of
                None \<Rightarrow> []
              | Some content \<Rightarrow>
                  adopted_groups getpgid own (takeWhile (\<lambda>c. c \<noteq> CHR 0x00) (take (4096 - 1) content)) [])"

definition groups_ok :: "(int \<Rightarrow> int) \<Rightarrow> int \<Rightarrow> int list \<Rightarrow> bool" where
  "groups_ok getpgid own gs \<longleftrightarrow> distinct gs \<and> length gs \<le> 32
     \<and> (\<forall>g \<in> set gs. 1 < g \<and> g \<noteq> own \<and> (\<exists>p \<ge> 0. p < 2 ^ 31 \<and> getpgid p = g))"

lemma adopted_groups_ok:
  "groups_ok getpgid own gs \<Longrightarrow> groups_ok getpgid own (adopted_groups getpgid own cursor gs)"
proof (induction getpgid own cursor gs rule: adopted_groups.induct)
  case (1 getpgid own cursor gs)
  let ?c = "dropWhile (\<lambda>c. c = blank) cursor"
  let ?w = "takeWhile (\<lambda>c. c \<noteq> blank) ?c"
  show ?case
  proof (cases "cursor = [] \<or> length gs \<ge> 32 \<or> ?c = [] \<or> parse_unsigned ?w INT_MAX = None")
    case True
    then show ?thesis using 1 by (subst adopted_groups.simps) (auto simp: Let_def)
  next
    case False
    then obtain process where p: "parse_unsigned ?w INT_MAX = Some process" by auto
    let ?g = "getpgid (uint process)"
    let ?gs = "if ?g > 1 \<and> ?g \<noteq> own \<and> ?g \<notin> set gs then gs @ [?g] else gs"
    have "unat process \<le> unat INT_MAX"
      using p parse_unsigned_iff [of INT_MAX ?w] unat_of_nat64 [of "decimal ?w"]
      by (auto split: if_splits)
    then have "process \<le> INT_MAX" by (simp only: word_le_nat_alt)
    then have "uint process \<le> uint INT_MAX" by (simp only: word_le_def)
    then have "uint process < 2 ^ 31" by (simp add: INT_MAX_def)
    then have "\<exists>q \<ge> 0. q < 2 ^ 31 \<and> getpgid q = ?g" by (intro exI [of _ "uint process"]) simp
    then have "groups_ok getpgid own ?gs"
      using "1.prems" False unfolding groups_ok_def by (cases "?g > 1 \<and> ?g \<noteq> own \<and> ?g \<notin> set gs") simp_all
    moreover have "\<not> (cursor = [] \<or> 32 \<le> length gs)" "?c \<noteq> []" using False by simp_all
    ultimately have "groups_ok getpgid own (adopted_groups getpgid own (dropWhile (\<lambda>c. c \<noteq> blank) ?c) ?gs)"
      by (intro "1.IH" [OF _ refl _ refl refl p refl])
    moreover have "adopted_groups getpgid own cursor gs =
        adopted_groups getpgid own (dropWhile (\<lambda>c. c \<noteq> blank) ?c) ?gs"
      by (subst adopted_groups.simps) (use False in \<open>simp only: Let_def p option.case if_False simp_thms de_Morgan_disj\<close>)
    ultimately show ?thesis by simp
  qed
qed

text \<open>Ending a session signals only groups of its own children: every signalled group is the
  group of some child process id, none is the launcher's own group, none is 1 or less (which \<open>kill\<close>
  would take for every process), no group twice, and at most 32 of them.\<close>

theorem adopted_groups_safe:
  "groups_ok getpgid own (terminate_adopted_groups read_file getpgid own pid)"
proof -
  have "groups_ok getpgid own []" by (simp add: groups_ok_def)
  then show ?thesis
    by (auto simp: terminate_adopted_groups_def Let_def adopted_groups_ok split: option.split)
qed

end
