(* ===== verification/Agent_Reference.thy ===== *)
theory Agent_Reference
  imports Number_Parse
begin

text \<open>
  The polkit agent that the launchers of one session share (\<open>src/native/spaces.c\<close>): a state file,
  read and written under an exclusive lock, holds the agent's process id, its start time and the
  number of launchers using it. The functions below are the launcher's code, with the answers of
  the system calls as arguments; \<open>share_step\<close> interleaves any number of launchers at the
  granularity the lock enforces.
\<close>

section \<open>The state file\<close>

record agent_state =
  as_pid :: int
  as_start :: "64 word"
  as_references :: "32 word"

record reference =
  r_pid :: int
  r_start :: "64 word"
  r_held :: bool
  r_starting :: bool

definition session_char :: "char \<Rightarrow> bool" where
  "session_char c =
     (let n = (of_char c :: nat) in (97 \<le> n \<and> n \<le> 122) \<or> (65 \<le> n \<and> n \<le> 90) \<or> (48 \<le> n \<and> n \<le> 57)
        \<or> c = CHR ''_'' \<or> c = CHR ''-'')"

text \<open>The path of the state file: the session's id when it is a plain name, else the process session.\<close>

definition agent_state_path :: "string \<Rightarrow> int \<Rightarrow> 32 word \<Rightarrow> string option \<Rightarrow> string option" where
  "agent_state_path root sid uid session =
     (let session = (case session of None \<Rightarrow> [] | Some s \<Rightarrow> s);
          n = (if list_all session_char session then length session else 0);
          fallback = ''p'' @ show_int sid
      in if (n = 0 \<or> n > 64) \<and> length fallback \<ge> 32 then None
         else let session = (if n = 0 \<or> n > 64 then fallback else session);
                  path = root @ ''/'' @ show_nat (unat uid) @ ''/spaces-polkit-agent.'' @ session @ ''.state''
              in if length path \<ge> 256 then None else Some path)"

text \<open>\<open>lock_agent_state\<close>: the descriptor when the path is usable, the open succeeds and the lock is
  eventually granted; an interrupted \<open>flock\<close> is tried again.\<close>

datatype flock_answer = FlockDone | FlockIntr | FlockError

fun flock_loop :: "flock_answer list \<Rightarrow> bool" where
  "flock_loop [] = False"
| "flock_loop (FlockDone # _) = True"
| "flock_loop (FlockIntr # rest) = flock_loop rest"
| "flock_loop (FlockError # _) = False"

definition lock_agent_state :: "string option \<Rightarrow> (string \<Rightarrow> bool) \<Rightarrow> flock_answer list \<Rightarrow> bool" where
  "lock_agent_state path open_ok answers =
     (case path of None \<Rightarrow> False | Some p \<Rightarrow> open_ok p \<and> flock_loop answers)"

definition state_field :: "string \<Rightarrow> 64 word \<Rightarrow> 64 word option \<times> string" where
  "state_field cursor maximum =
     (let cursor = dropWhile (\<lambda>c. c = blank) cursor
      in (parse_unsigned (takeWhile (\<lambda>c. c \<noteq> blank \<and> c \<noteq> CHR 0x0A) cursor) maximum,
          dropWhile (\<lambda>c. c \<noteq> blank \<and> c \<noteq> CHR 0x0A) cursor))"

definition no_state :: agent_state where
  "no_state = \<lparr>as_pid = - 1, as_start = 0, as_references = 0\<rparr>"

definition read_agent_state :: "string \<Rightarrow> agent_state" where
  "read_agent_state content =
     (let text = takeWhile (\<lambda>c. c \<noteq> CHR 0x00) (take (128 - 1) content)
      in if take (128 - 1) content = [] then no_state
         else case state_field text INT_MAX of
                (None, _) \<Rightarrow> no_state
              | (Some process, cursor) \<Rightarrow>
                  (case state_field cursor ULLONG_MAX of
                     (None, _) \<Rightarrow> no_state
                   | (Some start, cursor) \<Rightarrow>
                       (case state_field cursor UINT_MAX of
                          (None, _) \<Rightarrow> no_state\<lparr>as_start := start\<rparr>
                        | (Some references, _) \<Rightarrow>
                            \<lparr>as_pid = uint process, as_start = start, as_references = ucast references\<rparr>)))"

definition agent_state_text :: "agent_state \<Rightarrow> string" where
  "agent_state_text st = show_int (as_pid st) @ '' '' @ show_nat (unat (as_start st)) @ '' ''
     @ show_nat (unat (as_references st)) @ [CHR 0x0A]"

datatype write_answer = WriteAll | TruncateFails | WriteFails | WriteShort nat

definition write_agent_state :: "write_answer \<Rightarrow> agent_state \<Rightarrow> string \<Rightarrow> bool \<times> string" where
  "write_agent_state answer st content =
     (let text = agent_state_text st
      in if length text \<ge> 128 then (False, content)
         else case answer of
                TruncateFails \<Rightarrow> (False, content)
              | WriteFails \<Rightarrow> (False, [])
              | WriteShort n \<Rightarrow> (length text \<le> n, take n text)
              | WriteAll \<Rightarrow> (True, text))"

record probe =
  p_getpgid :: "int \<Rightarrow> int"
  p_start :: "int \<Rightarrow> 64 word option"
  p_signal :: "int \<Rightarrow> bool"

definition agent_state_is_live :: "probe \<Rightarrow> agent_state \<Rightarrow> bool" where
  "agent_state_is_live p st =
     (as_pid st > 1 \<and> as_references st > 0 \<and> p_getpgid p (as_pid st) = as_pid st
      \<and> p_start p (as_pid st) = Some (as_start st) \<and> p_signal p (- as_pid st))"

section \<open>Acquiring, finishing and releasing a reference\<close>

definition no_reference :: reference where
  "no_reference = \<lparr>r_pid = - 1, r_start = 0, r_held = False, r_starting = False\<rparr>"

definition idle_state :: agent_state where
  "idle_state = \<lparr>as_pid = 0, as_start = 0, as_references = 0\<rparr>"

record acquire_answers =
  q_agent :: bool
  q_lock :: bool
  q_probe :: probe
  q_write :: write_answer
  q_started :: int

text \<open>The reference, the contents of the file, and whether the lock is still held.\<close>

definition acquire_agent_reference :: "acquire_answers \<Rightarrow> string \<Rightarrow> reference \<times> string \<times> bool" where
  "acquire_agent_reference q content =
     (if \<not> q_agent q \<or> \<not> q_lock q then (no_reference, content, False)
      else let st = read_agent_state content
           in if agent_state_is_live (q_probe q) st \<and> as_references st < - 1
              then let st = st\<lparr>as_references := as_references st + 1\<rparr>;
                       (ok, content) = write_agent_state (q_write q) st content
                   in (if ok then \<lparr>r_pid = as_pid st, r_start = as_start st, r_held = True, r_starting = False\<rparr>
                       else no_reference, content, False)
              else let content = snd (write_agent_state (q_write q) idle_state content)
                   in if q_started q \<le> 0 then (no_reference\<lparr>r_pid := q_started q\<rparr>, content, False)
                      else (\<lparr>r_pid = q_started q, r_start = 0, r_held = True, r_starting = True\<rparr>, content, True))"

record finish_answers =
  f_alive :: bool
  f_start :: "64 word option"
  f_write :: write_answer
  f_rewrite :: write_answer

text \<open>\<open>f_write\<close> answers the write that publishes the agent, \<open>f_rewrite\<close> the one that withdraws it.
  The reference, the contents, and the groups that are terminated. \<open>finish_agent_start\<close> gives
  the agent's process id unless it has already exited.\<close>

definition finish_agent_reference :: "finish_answers \<Rightarrow> reference \<Rightarrow> string \<Rightarrow> reference \<times> string \<times> int list" where
  "finish_agent_reference f r content =
     (if \<not> r_starting r then (r, content, [])
      else let started = (if r_pid r \<le> 0 \<or> f_alive f then r_pid r else - 1);
               (r, started, content) =
                 (case (started > 0, f_start f) of
                    (True, Some start) \<Rightarrow>
                      let r = r\<lparr>r_start := start\<rparr>;
                          (ok, content) = write_agent_state (f_write f)
                            \<lparr>as_pid = started, as_start = start, as_references = 1\<rparr> content
                      in if ok then (r\<lparr>r_starting := False\<rparr>, started, content) else (r, - 1, content)
                  | _ \<Rightarrow> (r, started, content))
           in if started \<le> 0
              then (no_reference, snd (write_agent_state (f_rewrite f) idle_state content),
                    if r_pid r > 0 then [r_pid r] else [])
              else (r, content, []))"

definition release_agent_reference ::
    "bool \<Rightarrow> write_answer \<Rightarrow> reference \<Rightarrow> string \<Rightarrow> reference \<times> string \<times> int list" where
  "release_agent_reference lock answer r content =
     (if \<not> r_held r \<or> r_pid r \<le> 0 then (r, content, [])
      else let st = read_agent_state content;
               (content, killed) =
                 (if lock \<and> as_pid st = r_pid r \<and> as_start st = r_start r \<and> as_references st > 0
                  then let st = st\<lparr>as_references := as_references st - 1\<rparr>
                       in if as_references st = 0
                          then (snd (write_agent_state answer (st\<lparr>as_pid := 0, as_start := 0\<rparr>) content), [r_pid r])
                          else (snd (write_agent_state answer st content), [])
                  else (content, []))
           in (r\<lparr>r_pid := - 1, r_start := 0, r_held := False\<rparr>, content, killed))"

section \<open>The state file is read as it was written\<close>

definition storable :: "agent_state \<Rightarrow> bool" where
  "storable st = (0 \<le> as_pid st \<and> as_pid st < 2 ^ 31)"

lemma state_field_step:
  assumes "n \<le> unat maximum" "9 \<le> unat maximum" "c = blank \<or> c = CHR 0x0A"
  shows "state_field (show_nat n @ c # rest) maximum = (Some (of_nat n), c # rest)"
proof -
  have d: "x \<noteq> blank \<and> x \<noteq> CHR 0x0A" if "x \<in> set (show_nat n)" for x
    using show_nat_digits [OF that] by (auto simp: is_digit_def)
  obtain y ys where y: "show_nat n = y # ys" by (cases "show_nat n") auto
  have "dropWhile (\<lambda>c. c = blank) (show_nat n @ c # rest) = show_nat n @ c # rest" using d y by auto
  moreover have "takeWhile (\<lambda>c. c \<noteq> blank \<and> c \<noteq> CHR 0x0A) (show_nat n @ c # rest) = show_nat n"
    "dropWhile (\<lambda>c. c \<noteq> blank \<and> c \<noteq> CHR 0x0A) (show_nat n @ c # rest) = c # rest"
    using d assms(3) by (auto simp: takeWhile_append2 dropWhile_append2)
  ultimately show ?thesis using assms by (simp add: state_field_def Let_def parse_show_nat)
qed

lemma state_field_blank: "state_field (blank # s) maximum = state_field s maximum"
  by (simp add: state_field_def)

lemma show_nat_length: "n < 10 ^ k \<Longrightarrow> 0 < k \<Longrightarrow> length (show_nat n) \<le> k"
proof (induction n arbitrary: k rule: show_nat.induct)
  case (1 n)
  show ?case
  proof (cases "n < 10")
    case True
    then show ?thesis using 1 by (subst show_nat.simps) simp
  next
    case False
    then obtain j where k: "k = Suc j" "0 < j" using 1 by (cases k; cases "k - 1") auto
    have "n div 10 < 10 ^ j" using 1 k by (simp add: less_mult_imp_div_less)
    then have "length (show_nat (n div 10)) \<le> j" using 1 False k by blast
    then show ?thesis using False k by (subst show_nat.simps) simp
  qed
qed

lemma agent_state_text_short: "storable st \<Longrightarrow> length (agent_state_text st) < 128"
proof -
  assume s: "storable st"
  have "length (show_nat (nat (as_pid st))) \<le> 10" using s by (intro show_nat_length) (auto simp: storable_def)
  moreover have "unat (as_start st) < 10 ^ 20"
    using unsigned_less [of "as_start st", where 'a = nat] by simp
  then have "length (show_nat (unat (as_start st))) \<le> 20" by (intro show_nat_length) auto
  moreover have "unat (as_references st) < 10 ^ 10"
    using unsigned_less [of "as_references st", where 'a = nat] by simp
  then have "length (show_nat (unat (as_references st))) \<le> 10" by (intro show_nat_length) auto
  ultimately show ?thesis using s by (simp add: agent_state_text_def show_int_def storable_def)
qed

lemma read_agent_state_text:
  assumes s: "storable st"
  shows "read_agent_state (agent_state_text st) = st"
proof -
  let ?t = "agent_state_text st"
  have digits: "c \<in> set (show_nat n) \<Longrightarrow> c \<noteq> CHR 0x00" for c n
    using show_nat_digits [of c n] by (auto simp: is_digit_def)
  have t: "?t = show_nat (nat (as_pid st)) @ blank # show_nat (unat (as_start st)) @ blank
      # show_nat (unat (as_references st)) @ [CHR 0x0A]"
    using s by (simp add: agent_state_text_def show_int_def storable_def)
  have "take (128 - 1) ?t = ?t" using agent_state_text_short [OF s] by simp
  moreover have "takeWhile (\<lambda>c. c \<noteq> CHR 0x00) ?t = ?t"
    unfolding takeWhile_eq_all_conv t using digits by auto
  moreover have "?t \<noteq> []" by (simp add: t)
  moreover have u: "unat (as_start st) \<le> unat ULLONG_MAX" "unat (as_references st) \<le> unat UINT_MAX"
    using unsigned_less [of "as_start st", where 'a = nat] unsigned_less [of "as_references st", where 'a = nat]
    by simp_all
  moreover have p: "nat (as_pid st) \<le> unat INT_MAX" using s by (auto simp: storable_def nat_le_iff)
  moreover have "state_field ?t INT_MAX = (Some (of_nat (nat (as_pid st))),
      blank # show_nat (unat (as_start st)) @ blank # show_nat (unat (as_references st)) @ [CHR 0x0A])"
    unfolding t using p by (intro state_field_step) auto
  moreover have "state_field (show_nat (unat (as_start st)) @ blank # show_nat (unat (as_references st)) @ [CHR 0x0A]) ULLONG_MAX =
      (Some (of_nat (unat (as_start st))), blank # show_nat (unat (as_references st)) @ [CHR 0x0A])"
    using u by (intro state_field_step) auto
  moreover have "state_field (show_nat (unat (as_references st)) @ [CHR 0x0A]) UINT_MAX =
      (Some (of_nat (unat (as_references st))), [CHR 0x0A])"
    using u by (intro state_field_step) auto
  moreover have "uint (of_nat (nat (as_pid st)) :: 64 word) = as_pid st"
  proof -
    have "unat (of_nat (nat (as_pid st)) :: 64 word) = nat (as_pid st)"
      using s by (intro unat_of_nat64) (simp add: storable_def nat_less_iff)
    then have "int (unat (of_nat (nat (as_pid st)) :: 64 word)) = int (nat (as_pid st))" by (rule arg_cong)
    then show ?thesis using s by (simp add: storable_def)
  qed
  moreover have "ucast (of_nat (unat (as_references st)) :: 64 word) = as_references st"
    by (simp add: ucast_up_ucast_id is_up)
  ultimately show ?thesis
    by (simp only: read_agent_state_def Let_def if_False prod.case option.case state_field_blank) simp
qed

section \<open>Launchers sharing one agent\<close>

text \<open>
  The launchers of a session: the file, the launcher that holds the lock while it starts an agent
  together with that agent's start time, the identities (process id, start time) of all agents
  started so far, one reference per launcher, and the terminations in order, each with the launcher
  that did it and the identity its own reference named.

  What the system promises: a process id and its start time identify a process (a newly started
  agent has an identity never used before, and its start time is not 0); reading the start time of
  an agent one has just started gives that time or fails; a write of the few bytes of the state
  file is not cut short. Launchers may die at any point, which drops the lock and the reference.
\<close>

record session =
  ss_file :: string
  ss_lock :: "(nat \<times> 64 word) option"
  ss_used :: "(int \<times> 64 word) list"
  ss_refs :: "reference list"
  ss_kills :: "(nat \<times> int) list"

definition holds :: "int \<Rightarrow> 64 word \<Rightarrow> reference \<Rightarrow> bool" where
  "holds p t r = (r_held r \<and> \<not> r_starting r \<and> r_pid r = p \<and> r_start r = t)"

definition holders :: "session \<Rightarrow> int \<Rightarrow> 64 word \<Rightarrow> nat" where
  "holders s p t = length (filter (holds p t) (ss_refs s))"

definition kill_log :: "nat \<Rightarrow> int list \<Rightarrow> (nat \<times> int) list" where
  "kill_log l ps = map (Pair l) ps"

inductive share_step :: "session \<Rightarrow> session \<Rightarrow> bool" where
  share_new: "share_step s (s\<lparr>ss_refs := ss_refs s @ [no_reference]\<rparr>)"
| share_join: "ss_lock s = None \<Longrightarrow> l < length (ss_refs s) \<Longrightarrow> ss_refs s ! l = no_reference \<Longrightarrow>
     (\<forall>n. q_write q \<noteq> WriteShort n) \<Longrightarrow>
     acquire_agent_reference q (ss_file s) = (r, file, False) \<Longrightarrow>
     share_step s (s\<lparr>ss_file := file, ss_refs := (ss_refs s)[l := r]\<rparr>)"
| share_start: "ss_lock s = None \<Longrightarrow> l < length (ss_refs s) \<Longrightarrow> ss_refs s ! l = no_reference \<Longrightarrow>
     (\<forall>n. q_write q \<noteq> WriteShort n) \<Longrightarrow>
     acquire_agent_reference q (ss_file s) = (r, file, True) \<Longrightarrow>
     r_pid r < 2 ^ 31 \<Longrightarrow> t \<noteq> 0 \<Longrightarrow> (r_pid r, t) \<notin> set (ss_used s) \<Longrightarrow>
     share_step s (s\<lparr>ss_file := file, ss_refs := (ss_refs s)[l := r], ss_lock := Some (l, t),
                     ss_used := (r_pid r, t) # ss_used s\<rparr>)"
| share_finish: "ss_lock s = Some (l, t) \<Longrightarrow> (\<forall>n. f_write f \<noteq> WriteShort n \<and> f_rewrite f \<noteq> WriteShort n) \<Longrightarrow>
     f_start f = None \<or> f_start f = Some t \<Longrightarrow>
     finish_agent_reference f (ss_refs s ! l) (ss_file s) = (r, file, killed) \<Longrightarrow>
     share_step s (s\<lparr>ss_file := file, ss_refs := (ss_refs s)[l := r], ss_lock := None,
                     ss_kills := ss_kills s @ kill_log l killed\<rparr>)"
| share_release: "ss_lock s = None \<Longrightarrow> l < length (ss_refs s) \<Longrightarrow> (\<forall>n. w \<noteq> WriteShort n) \<Longrightarrow>
     release_agent_reference lock w (ss_refs s ! l) (ss_file s) = (r, file, killed) \<Longrightarrow>
     share_step s (s\<lparr>ss_file := file, ss_refs := (ss_refs s)[l := r],
                     ss_kills := ss_kills s @ kill_log l killed\<rparr>)"
| share_die: "l < length (ss_refs s) \<Longrightarrow>
     share_step s (s\<lparr>ss_refs := (ss_refs s)[l := no_reference],
       ss_lock := (case ss_lock s of Some (m, t) \<Rightarrow> if m = l then None else Some (m, t) | None \<Rightarrow> None)\<rparr>)"

definition share_init :: "session \<Rightarrow> bool" where
  "share_init s = (\<exists>n. s = \<lparr>ss_file = [], ss_lock = None, ss_used = [], ss_refs = replicate n no_reference, ss_kills = []\<rparr>)"

definition file_ok :: "string \<Rightarrow> bool" where
  "file_ok file = (file = [] \<or> (\<exists>st. storable st \<and> file = agent_state_text st))"

definition counts_ok :: "session \<Rightarrow> bool" where
  "counts_ok s = (let st = read_agent_state (ss_file s) in
     as_references st > 0 \<longrightarrow> as_pid st > 0 \<longrightarrow>
       holders s (as_pid st) (as_start st) \<le> unat (as_references st) \<and> (as_pid st, as_start st) \<in> set (ss_used s))"

definition share_ok :: "session \<Rightarrow> bool" where
  "share_ok s \<longleftrightarrow> file_ok (ss_file s) \<and> counts_ok s
     \<and> (\<forall>r \<in> set (ss_refs s). r_held r \<longrightarrow> \<not> r_starting r \<longrightarrow> (r_pid r, r_start r) \<in> set (ss_used s))
     \<and> (\<forall>p. (p, 0) \<notin> set (ss_used s))
     \<and> (\<forall>l t. ss_lock s = Some (l, t) \<longrightarrow> l < length (ss_refs s) \<and> r_starting (ss_refs s ! l)
          \<and> r_held (ss_refs s ! l) \<and> 0 < r_pid (ss_refs s ! l) \<and> r_pid (ss_refs s ! l) < 2 ^ 31 \<and> t \<noteq> 0
          \<and> (r_pid (ss_refs s ! l), t) \<in> set (ss_used s)
          \<and> holders s (r_pid (ss_refs s ! l)) t = 0)
     \<and> (\<forall>r \<in> set (ss_refs s). r_starting r \<longrightarrow> r_start r = 0)"

lemma count_update:
  "l < length xs \<Longrightarrow> length (filter P (xs[l := y])) + (if P (xs ! l) then 1 else 0)
     = length (filter P xs) + (if P y then 1 else 0)"
proof (induction xs arbitrary: l)
  case (Cons x xs)
  then show ?case by (cases l) auto
qed simp

lemma holders_update:
  "l < length (ss_refs s) \<Longrightarrow>
   holders (s\<lparr>ss_refs := (ss_refs s)[l := r]\<rparr>) p t + (if holds p t (ss_refs s ! l) then 1 else 0)
     = holders s p t + (if holds p t r then 1 else 0)"
  unfolding holders_def using count_update [of l "ss_refs s" "holds p t" r] by simp

lemma write_storable:
  assumes "storable st" "\<forall>n. w \<noteq> WriteShort n" "write_agent_state w st content = (ok, file)"
  shows "(ok \<and> file = agent_state_text st) \<or> (\<not> ok \<and> (file = content \<or> file = []))"
  using assms agent_state_text_short [OF assms(1)]
  by (cases w) (auto simp: write_agent_state_def Let_def)

lemma read_empty [simp]: "read_agent_state [] = no_state"
  by (simp add: read_agent_state_def)

lemma storable_idle [simp]: "storable idle_state"
  by (simp add: storable_def idle_state_def)

lemma file_ok_text [simp]: "storable st \<Longrightarrow> file_ok (agent_state_text st)"
  and file_ok_empty [simp]: "file_ok []"
  by (auto simp: file_ok_def)

text \<open>What a joining or a starting launcher does to the file and to its reference.\<close>

lemma acquire_join:
  assumes f: "file_ok file" and w: "\<forall>n. q_write q \<noteq> WriteShort n"
    and a: "acquire_agent_reference q file = (r, file', False)"
  shows "file_ok file' \<and> \<not> r_starting r \<and>
    ((\<not> r_held r \<and> (read_agent_state file' = read_agent_state file \<or> read_agent_state file' = no_state
         \<or> read_agent_state file' = idle_state))
     \<or> (r_held r \<and> r_pid r = as_pid (read_agent_state file) \<and> r_start r = as_start (read_agent_state file)
         \<and> 0 < r_pid r \<and> 0 < as_references (read_agent_state file)
         \<and> unat (as_references (read_agent_state file')) = unat (as_references (read_agent_state file)) + 1
         \<and> as_pid (read_agent_state file') = r_pid r \<and> as_start (read_agent_state file') = r_start r))"
proof -
  let ?st = "read_agent_state file"
  consider "\<not> q_agent q \<or> \<not> q_lock q"
    | "q_agent q" "q_lock q" "agent_state_is_live (q_probe q) ?st" "as_references ?st < - 1"
    | "q_agent q" "q_lock q" "\<not> (agent_state_is_live (q_probe q) ?st \<and> as_references ?st < - 1)" by blast
  then show ?thesis
  proof cases
    case 1
    then show ?thesis using a f by (auto simp: acquire_agent_reference_def no_reference_def)
  next
    case 2
    have st: "storable ?st"
    proof (cases "file = []")
      case True
      then show ?thesis using 2 by (simp add: agent_state_is_live_def no_state_def)
    next
      case False
      then show ?thesis using f by (auto simp: file_ok_def read_agent_state_text)
    qed
    let ?new = "?st\<lparr>as_references := as_references ?st + 1\<rparr>"
    have new: "storable ?new" using st by (simp add: storable_def)
    obtain ok f' where wr: "write_agent_state (q_write q) ?new file = (ok, f')" by fastforce
    have u: "unat (as_references ?st + 1) = unat (as_references ?st) + 1"
    proof -
      have "1 + as_references ?st \<noteq> 0" using 2(4) by (metis add.commute add_eq_0_iff minus_unique order_less_irrefl)
      from unatSuc [OF this] show ?thesis by (simp add: add.commute)
    qed
    from write_storable [OF new w wr] show ?thesis
    proof (elim disjE conjE)
      assume o: "ok" "f' = agent_state_text ?new"
      then have "r = \<lparr>r_pid = as_pid ?st, r_start = as_start ?st, r_held = True, r_starting = False\<rparr>" "file' = f'"
        using a 2 wr by (auto simp: acquire_agent_reference_def Let_def)
      moreover have "read_agent_state f' = ?new" using o read_agent_state_text [OF new] by simp
      moreover have "file_ok f'" using new o by simp
      ultimately show ?thesis using 2 u by (auto simp: agent_state_is_live_def)
    next
      assume o: "\<not> ok" "f' = file"
      then show ?thesis using a 2 wr f by (auto simp: acquire_agent_reference_def Let_def no_reference_def)
    next
      assume o: "\<not> ok" "f' = []"
      then show ?thesis using a 2 wr f by (auto simp: acquire_agent_reference_def Let_def no_reference_def)
    qed
  next
    case 3
    obtain ok f' where wr: "write_agent_state (q_write q) idle_state file = (ok, f')" by fastforce
    have eq: "r = no_reference\<lparr>r_pid := q_started q\<rparr>" "file' = f'"
      using a 3 wr by (auto simp: acquire_agent_reference_def Let_def split: if_splits)
    from write_storable [OF storable_idle _ wr] w show ?thesis
      using eq f read_agent_state_text [OF storable_idle] by (auto simp: no_reference_def)
  qed
qed

lemma acquire_start:
  assumes f: "file_ok file" and w: "\<forall>n. q_write q \<noteq> WriteShort n"
    and a: "acquire_agent_reference q file = (r, file', True)"
  shows "file_ok file' \<and> r_held r \<and> r_starting r \<and> r_start r = 0 \<and> 0 < r_pid r
    \<and> (read_agent_state file' = read_agent_state file \<or> read_agent_state file' = no_state
       \<or> read_agent_state file' = idle_state)"
proof -
  obtain ok f' where wr: "write_agent_state (q_write q) idle_state file = (ok, f')" by fastforce
  have eq: "r = \<lparr>r_pid = q_started q, r_start = 0, r_held = True, r_starting = True\<rparr>" "file' = f'" "0 < q_started q"
    using a wr by (auto simp: acquire_agent_reference_def Let_def split: if_splits prod.splits)
  from write_storable [OF storable_idle _ wr] w show ?thesis
    using eq f read_agent_state_text [OF storable_idle] by auto
qed

text \<open>Finishing: the agent is published with one reference, or its group is terminated, or (its start
  time unreadable) the reference stays as it was.\<close>

lemma finish_cases:
  assumes f: "file_ok file" and w: "\<forall>n. f_write fa \<noteq> WriteShort n \<and> f_rewrite fa \<noteq> WriteShort n" and t: "f_start fa = None \<or> f_start fa = Some t"
    and r0: "r_starting r0" "r_held r0" "0 < r_pid r0" "r_pid r0 < 2 ^ 31"
    and a: "finish_agent_reference fa r0 file = (r, file', killed)"
  shows "file_ok file' \<and>
    ((r_held r \<and> \<not> r_starting r \<and> r_pid r = r_pid r0 \<and> r_start r = t \<and> killed = []
        \<and> read_agent_state file' = \<lparr>as_pid = r_pid r0, as_start = t, as_references = 1\<rparr>)
     \<or> (r = no_reference \<and> killed = [r_pid r0] \<and>
        (read_agent_state file' = read_agent_state file \<or> read_agent_state file' = no_state
         \<or> read_agent_state file' = idle_state))
     \<or> (r = r0 \<and> file' = file \<and> killed = []))"
proof -
  let ?new = "\<lparr>as_pid = r_pid r0, as_start = t, as_references = 1\<rparr>"
  have new: "storable ?new" using r0 by (simp add: storable_def)
  have drop: "file_ok (snd (write_agent_state (f_rewrite fa) idle_state c)) \<and>
      (read_agent_state (snd (write_agent_state (f_rewrite fa) idle_state c)) = read_agent_state c
       \<or> read_agent_state (snd (write_agent_state (f_rewrite fa) idle_state c)) = no_state
       \<or> read_agent_state (snd (write_agent_state (f_rewrite fa) idle_state c)) = idle_state)" if c: "file_ok c" for c
  proof -
    obtain ok f' where wr: "write_agent_state (f_rewrite fa) idle_state c = (ok, f')" by fastforce
    from write_storable [OF storable_idle _ wr] w show ?thesis
      using wr c read_agent_state_text [OF storable_idle] by auto
  qed
  show ?thesis
  proof (cases "f_alive fa \<and> f_start fa = Some t")
    case True
    obtain ok f' where wr: "write_agent_state (f_write fa) ?new file = (ok, f')" by fastforce
    have "\<forall>n. f_write fa \<noteq> WriteShort n" using w by blast
    from write_storable [OF new this wr] show ?thesis
    proof (elim disjE conjE)
      assume o: "ok" "f' = agent_state_text ?new"
      then have "r = r0\<lparr>r_start := t, r_starting := False\<rparr> \<and> file' = f' \<and> killed = []"
        using a r0 True wr by (auto simp: finish_agent_reference_def Let_def)
      then show ?thesis using o r0 new read_agent_state_text [OF new] by auto
    next
      assume o: "\<not> ok" "f' = file"
      then have "r = no_reference \<and> file' = snd (write_agent_state (f_rewrite fa) idle_state file) \<and> killed = [r_pid r0]"
        using a r0 True wr by (auto simp: finish_agent_reference_def Let_def)
      then show ?thesis using drop [OF f] by auto
    next
      assume o: "\<not> ok" "f' = []"
      then have e: "r = no_reference \<and> file' = snd (write_agent_state (f_rewrite fa) idle_state []) \<and> killed = [r_pid r0]"
        using a r0 True wr by (auto simp: finish_agent_reference_def Let_def)
      have "file_ok []" by (simp add: file_ok_def)
      from drop [OF this] e show ?thesis by auto
    qed
  next
    case False
    show ?thesis
    proof (cases "f_alive fa")
      case True
      then have "f_start fa = None" using False t by blast
      then have "r = r0 \<and> file' = file \<and> killed = []"
        using a r0 True by (auto simp: finish_agent_reference_def Let_def)
      then show ?thesis using f by blast
    next
      case dead: False
      then have "r = no_reference \<and> file' = snd (write_agent_state (f_rewrite fa) idle_state file) \<and> killed = [r_pid r0]"
        using a r0 by (auto simp: finish_agent_reference_def Let_def split: option.splits)
      then show ?thesis using drop [OF f] by auto
    qed
  qed
qed

text \<open>Releasing: a group is terminated only when the file names the reference's agent with one user.\<close>

lemma release_cases:
  assumes f: "file_ok file" and w: "\<forall>n. w \<noteq> WriteShort n"
    and a: "release_agent_reference lock w r0 file = (r, file', killed)"
  shows "file_ok file' \<and>
    ((r = r0 \<and> file' = file \<and> killed = [])
     \<or> (\<not> r_held r \<and> r_starting r = r_starting r0 \<and> r_start r = 0 \<and> r_held r0 \<and> 0 < r_pid r0 \<and>
        (killed = [] \<and> (read_agent_state file' = read_agent_state file \<or> read_agent_state file' = no_state)
         \<or> (as_pid (read_agent_state file) = r_pid r0 \<and> as_start (read_agent_state file) = r_start r0
             \<and> 0 < as_references (read_agent_state file) \<and>
             ((killed = [r_pid r0] \<and> unat (as_references (read_agent_state file)) = 1 \<and>
                (read_agent_state file' = read_agent_state file \<or> read_agent_state file' = no_state
                 \<or> read_agent_state file' = idle_state))
              \<or> (killed = [] \<and> as_pid (read_agent_state file') = r_pid r0 \<and> as_start (read_agent_state file') = r_start r0
                 \<and> unat (as_references (read_agent_state file')) = unat (as_references (read_agent_state file)) - 1))))))"
proof (cases "\<not> r_held r0 \<or> r_pid r0 \<le> 0")
  case True
  then show ?thesis using a f by (auto simp: release_agent_reference_def)
next
  case held: False
  let ?st = "read_agent_state file"
  show ?thesis
  proof (cases "lock \<and> as_pid ?st = r_pid r0 \<and> as_start ?st = r_start r0 \<and> 0 < as_references ?st")
    case False
    then show ?thesis using a f held by (auto simp: release_agent_reference_def Let_def)
  next
    case True
    have st: "storable ?st"
    proof (cases "file = []")
      case True
      then show ?thesis using \<open>lock \<and> as_pid ?st = _ \<and> _ \<and> _\<close> held by (simp add: no_state_def)
    next
      case False
      then show ?thesis using f by (auto simp: file_ok_def read_agent_state_text)
    qed
    have u: "unat (as_references ?st - 1) = unat (as_references ?st) - 1"
      using True by (metis unat_minus_one word_gt_0)
    show ?thesis
    proof (cases "as_references ?st - 1 = 0")
      case one: True
      have new: "storable (?st\<lparr>as_references := as_references ?st - 1, as_pid := 0, as_start := 0\<rparr>)"
        by (simp add: storable_def)
      have idle: "?st\<lparr>as_references := as_references ?st - 1, as_pid := 0, as_start := 0\<rparr> = idle_state"
        using one by (simp add: idle_state_def)
      obtain ok f' where wr: "write_agent_state w idle_state file = (ok, f')" by fastforce
      have eq: "r = r0\<lparr>r_pid := - 1, r_start := 0, r_held := False\<rparr> \<and> file' = f' \<and> killed = [r_pid r0]"
        using a held True one wr idle by (auto simp: release_agent_reference_def Let_def)
      have "unat (as_references ?st) = 1"
        using one True by simp
      with write_storable [OF storable_idle w wr] show ?thesis
        using eq f True held read_agent_state_text [OF storable_idle] by auto
    next
      case more: False
      let ?new = "?st\<lparr>as_references := as_references ?st - 1\<rparr>"
      have new: "storable ?new" using st by (simp add: storable_def)
      obtain ok f' where wr: "write_agent_state w ?new file = (ok, f')" by fastforce
      have eq: "r = r0\<lparr>r_pid := - 1, r_start := 0, r_held := False\<rparr> \<and> file' = f' \<and> killed = []"
        using a held True more wr by (auto simp: release_agent_reference_def Let_def)
      from write_storable [OF new w wr] show ?thesis
        using eq f True held new u read_agent_state_text [OF new] by auto
    qed
  qed
qed

lemma holds_no_reference [simp]: "\<not> holds p t no_reference"
  by (simp add: holds_def no_reference_def)

lemma holders_others:
  assumes "l < length (ss_refs s)" "holds p t (ss_refs s ! l)" "holders s p t \<le> 1"
    and "m < length (ss_refs s)" "m \<noteq> l"
  shows "\<not> holds p t (ss_refs s ! m)"
proof
  assume h: "holds p t (ss_refs s ! m)"
  have "length (filter (holds p t) ((ss_refs s)[l := no_reference])) + 1 = holders s p t"
    using count_update [of l "ss_refs s" "holds p t" no_reference] assms by (simp add: holders_def)
  then have "length (filter (holds p t) ((ss_refs s)[l := no_reference])) = 0" using assms(3) by linarith
  then have "filter (holds p t) ((ss_refs s)[l := no_reference]) = []" by (simp only: length_0_conv)
  moreover have "ss_refs s ! m \<in> set ((ss_refs s)[l := no_reference])"
    using assms by (metis length_list_update nth_list_update_neq nth_mem)
  ultimately show False using h by (auto simp: filter_empty_conv)
qed

text \<open>The counts after one reference is replaced, for the three ways the file can change.\<close>

lemma counts_ok_dropped:
  assumes c: "counts_ok s" and l: "l < length (ss_refs s)" and n: "\<And>p t. \<not> holds p t r"
    and u: "set (ss_used s) \<subseteq> set used"
    and f: "read_agent_state file = read_agent_state (ss_file s) \<or> read_agent_state file = no_state
      \<or> read_agent_state file = idle_state"
  shows "counts_ok (s\<lparr>ss_file := file, ss_refs := (ss_refs s)[l := r], ss_lock := k, ss_used := used, ss_kills := ks\<rparr>)"
proof -
  have "holders (s\<lparr>ss_refs := (ss_refs s)[l := r]\<rparr>) p t \<le> holders s p t" for p t
    using holders_update [OF l, of r p t] n [of p t] by (simp split: if_splits)
  then have "holders (s\<lparr>ss_file := file, ss_refs := (ss_refs s)[l := r], ss_lock := k, ss_used := used, ss_kills := ks\<rparr>) p t
      \<le> holders s p t" for p t by (simp add: holders_def)
  then show ?thesis using c f u unfolding counts_ok_def Let_def
    by (elim disjE) (auto simp: no_state_def idle_state_def intro: order_trans)
qed

lemma holders_other_fields:
  "holders (s\<lparr>ss_file := f, ss_refs := rs, ss_lock := k, ss_used := u, ss_kills := ks\<rparr>) = holders (s\<lparr>ss_refs := rs\<rparr>)"
  by (intro ext) (simp add: holders_def)

definition refs_ok :: "session \<Rightarrow> bool" where
  "refs_ok s \<longleftrightarrow>
     (\<forall>r \<in> set (ss_refs s). (r_held r \<longrightarrow> \<not> r_starting r \<longrightarrow> (r_pid r, r_start r) \<in> set (ss_used s))
        \<and> (r_starting r \<longrightarrow> r_start r = 0))
     \<and> (\<forall>p. (p, 0) \<notin> set (ss_used s))"

definition lock_ok :: "session \<Rightarrow> bool" where
  "lock_ok s \<longleftrightarrow> (\<forall>l t. ss_lock s = Some (l, t) \<longrightarrow> l < length (ss_refs s)
     \<and> r_starting (ss_refs s ! l) \<and> r_held (ss_refs s ! l)
     \<and> 0 < r_pid (ss_refs s ! l) \<and> r_pid (ss_refs s ! l) < 2 ^ 31 \<and> t \<noteq> 0
     \<and> (r_pid (ss_refs s ! l), t) \<in> set (ss_used s) \<and> holders s (r_pid (ss_refs s ! l)) t = 0)"

lemma share_ok_iff: "share_ok s \<longleftrightarrow> file_ok (ss_file s) \<and> counts_ok s \<and> refs_ok s \<and> lock_ok s"
  by (auto simp: share_ok_def refs_ok_def lock_ok_def)

lemma refs_ok_update:
  assumes "refs_ok s" "set (ss_used s) \<subseteq> set used" "\<And>p. (p, 0) \<notin> set used"
    and "r_held r \<Longrightarrow> \<not> r_starting r \<Longrightarrow> (r_pid r, r_start r) \<in> set used"
    and "r_starting r \<Longrightarrow> r_start r = 0"
  shows "refs_ok (s\<lparr>ss_file := file, ss_refs := (ss_refs s)[l := r], ss_lock := k, ss_used := used, ss_kills := ks\<rparr>)"
  using assms set_update_subset_insert [of "ss_refs s" l r] unfolding refs_ok_def by fastforce

lemma no_holder_unused: "refs_ok s \<Longrightarrow> (p, t) \<notin> set (ss_used s) \<Longrightarrow> holders s p t = 0"
  by (auto simp: refs_ok_def holders_def holds_def filter_empty_conv)

lemma share_ok_join:
  assumes ok: "share_ok s" and lock: "ss_lock s = None" and l: "l < length (ss_refs s)" "ss_refs s ! l = no_reference"
    and w: "\<forall>n. q_write q \<noteq> WriteShort n" and a: "acquire_agent_reference q (ss_file s) = (r, file, False)"
  shows "share_ok (s\<lparr>ss_file := file, ss_refs := (ss_refs s)[l := r]\<rparr>)" (is "share_ok ?t")
proof -
  let ?st = "read_agent_state (ss_file s)"
  have c: "counts_ok s" and f: "file_ok (ss_file s)" and rf: "refs_ok s" using ok by (simp_all add: share_ok_iff)
  note acq = acquire_join [OF f w a]
  have upd: "set (ss_used s) \<subseteq> set (ss_used s)" by simp
  let ?F = "s\<lparr>ss_file := file, ss_refs := (ss_refs s)[l := r], ss_lock := ss_lock s,
      ss_used := ss_used s, ss_kills := ss_kills s\<rparr>"
  have e: "?F = ?t" by simp
  show ?thesis
  proof (cases "r_held r")
    case False
    then have "\<And>p t. \<not> holds p t r" by (simp add: holds_def)
    then have "counts_ok ?F" using False acq by (intro counts_ok_dropped [OF c l(1) _ upd]) auto
    moreover have "refs_ok ?F" using False acq rf
      by (intro refs_ok_update [OF rf upd]) (auto simp: refs_ok_def)
    ultimately show ?thesis unfolding e using acq lock by (simp add: share_ok_iff lock_ok_def)
  next
    case True
    then have g: "r_pid r = as_pid ?st" "r_start r = as_start ?st" "0 < r_pid r" "0 < as_references ?st"
      "unat (as_references (read_agent_state file)) = unat (as_references ?st) + 1"
      "as_pid (read_agent_state file) = r_pid r" "as_start (read_agent_state file) = r_start r" "\<not> r_starting r"
      using acq by blast+
    have n: "holders s (as_pid ?st) (as_start ?st) \<le> unat (as_references ?st)"
      "(as_pid ?st, as_start ?st) \<in> set (ss_used s)"
      using c g by (simp_all add: counts_ok_def Let_def)
    have "holders ?t (r_pid r) (r_start r) \<le> holders s (r_pid r) (r_start r) + 1"
      using holders_update [OF l(1), of r "r_pid r" "r_start r"]
      by (simp add: holders_def split: if_splits)
    then have "counts_ok ?t" using n g by (simp add: counts_ok_def Let_def)
    moreover have "refs_ok ?F" using g n rf
      by (intro refs_ok_update [OF rf upd]) (auto simp: refs_ok_def)
    ultimately show ?thesis unfolding e using acq lock by (simp add: share_ok_iff lock_ok_def)
  qed
qed

lemma share_ok_start:
  assumes ok: "share_ok s" and lock: "ss_lock s = None" and l: "l < length (ss_refs s)" "ss_refs s ! l = no_reference"
    and w: "\<forall>n. q_write q \<noteq> WriteShort n" and a: "acquire_agent_reference q (ss_file s) = (r, file, True)"
    and n: "r_pid r < 2 ^ 31" "t \<noteq> 0" "(r_pid r, t) \<notin> set (ss_used s)"
  shows "share_ok (s\<lparr>ss_file := file, ss_refs := (ss_refs s)[l := r], ss_lock := Some (l, t),
                     ss_used := (r_pid r, t) # ss_used s\<rparr>)" (is "share_ok ?t")
proof -
  have c: "counts_ok s" and f: "file_ok (ss_file s)" and rf: "refs_ok s" using ok by (simp_all add: share_ok_iff)
  note acq = acquire_start [OF f w a]
  let ?F = "s\<lparr>ss_file := file, ss_refs := (ss_refs s)[l := r], ss_lock := Some (l, t),
      ss_used := (r_pid r, t) # ss_used s, ss_kills := ss_kills s\<rparr>"
  have e: "?F = ?t" by simp
  have h: "\<And>p t. \<not> holds p t r" using acq by (simp add: holds_def)
  have "counts_ok ?F" using acq h by (intro counts_ok_dropped [OF c l(1)]) auto
  moreover have "refs_ok ?F" using acq rf n
    by (intro refs_ok_update [OF rf]) (auto simp: refs_ok_def)
  moreover have "holders ?t (r_pid r) t = 0"
    using holders_update [OF l(1), of r "r_pid r" t] no_holder_unused [OF rf n(3)] h l
    by (simp add: holders_def)
  ultimately show ?thesis unfolding e using acq n l by (simp add: share_ok_iff lock_ok_def)
qed

lemma share_ok_finish:
  assumes ok: "share_ok s" and lock: "ss_lock s = Some (l, t)" and w: "\<forall>n. f_write f \<noteq> WriteShort n \<and> f_rewrite f \<noteq> WriteShort n"
    and st: "f_start f = None \<or> f_start f = Some t"
    and a: "finish_agent_reference f (ss_refs s ! l) (ss_file s) = (r, file, killed)"
  shows "share_ok (s\<lparr>ss_file := file, ss_refs := (ss_refs s)[l := r], ss_lock := None,
                     ss_kills := ss_kills s @ kill_log l killed\<rparr>)" (is "share_ok ?t")
proof -
  have c: "counts_ok s" and fo: "file_ok (ss_file s)" and rf: "refs_ok s" using ok by (simp_all add: share_ok_iff)
  have k: "l < length (ss_refs s)" "r_starting (ss_refs s ! l)" "r_held (ss_refs s ! l)"
    "0 < r_pid (ss_refs s ! l)" "r_pid (ss_refs s ! l) < 2 ^ 31" "t \<noteq> 0"
    "(r_pid (ss_refs s ! l), t) \<in> set (ss_used s)" "holders s (r_pid (ss_refs s ! l)) t = 0"
    using ok lock unfolding share_ok_iff lock_ok_def by blast+
  note fin = finish_cases [OF fo w st k(2-5) a]
  have e: "?t = s\<lparr>ss_file := file, ss_refs := (ss_refs s)[l := r], ss_lock := None,
      ss_used := ss_used s, ss_kills := ss_kills s @ kill_log l killed\<rparr>" by simp
  have start0: "r_start (ss_refs s ! l) = 0" using rf k by (simp add: refs_ok_def)
  consider (pub) "r_held r" "\<not> r_starting r" "r_pid r = r_pid (ss_refs s ! l)" "r_start r = t"
      "read_agent_state file = \<lparr>as_pid = r_pid (ss_refs s ! l), as_start = t, as_references = 1\<rparr>"
    | (other) "r_starting r \<or> r = no_reference" "r_starting r \<Longrightarrow> r = ss_refs s ! l"
      "read_agent_state file = read_agent_state (ss_file s) \<or> read_agent_state file = no_state
        \<or> read_agent_state file = idle_state"
    using fin k by (auto simp: no_reference_def)
  then show ?thesis
  proof cases
    case pub
    have "holders ?t (r_pid r) t \<le> 1"
      using holders_update [OF k(1), of r "r_pid r" t] k(8) pub unfolding e holders_other_fields
      by (simp split: if_splits)
    then have "counts_ok ?t" using pub k by (simp add: counts_ok_def Let_def)
    moreover have "refs_ok ?t" unfolding e using pub rf k by (intro refs_ok_update [OF rf]) (auto simp: refs_ok_def)
    ultimately show ?thesis using fin by (simp add: share_ok_iff lock_ok_def)
  next
    case other
    have "\<And>p t. \<not> holds p t r" using other by (auto simp: holds_def no_reference_def)
    then have "counts_ok ?t" unfolding e using other by (intro counts_ok_dropped [OF c k(1)]) auto
    moreover have "refs_ok ?t" unfolding e using other rf start0
      by (intro refs_ok_update [OF rf]) (auto simp: refs_ok_def no_reference_def)
    ultimately show ?thesis using fin by (simp add: share_ok_iff lock_ok_def)
  qed
qed

lemma share_ok_release:
  assumes ok: "share_ok s" and lock: "ss_lock s = None" and l: "l < length (ss_refs s)" and w: "\<forall>n. w \<noteq> WriteShort n"
    and a: "release_agent_reference lk w (ss_refs s ! l) (ss_file s) = (r, file, killed)"
  shows "share_ok (s\<lparr>ss_file := file, ss_refs := (ss_refs s)[l := r],
                     ss_kills := ss_kills s @ kill_log l killed\<rparr>)" (is "share_ok ?t")
proof -
  let ?r = "ss_refs s ! l" and ?st = "read_agent_state (ss_file s)"
  have c: "counts_ok s" and fo: "file_ok (ss_file s)" and rf: "refs_ok s" using ok by (simp_all add: share_ok_iff)
  note rel = release_cases [OF fo w a]
  have e: "?t = s\<lparr>ss_file := file, ss_refs := (ss_refs s)[l := r], ss_lock := ss_lock s,
      ss_used := ss_used s, ss_kills := ss_kills s @ kill_log l killed\<rparr>" by simp
  have r0: "?r \<in> set (ss_refs s)" using l by simp
  consider (same) "r = ?r" "file = ss_file s"
    | (drop) "\<not> r_held r" "r_starting r \<longrightarrow> r_start r = 0"
      "read_agent_state file = ?st \<or> read_agent_state file = no_state \<or> read_agent_state file = idle_state"
    | (less) "\<not> r_held r" "r_starting r \<longrightarrow> r_start r = 0" "r_held ?r" "0 < r_pid ?r" "as_pid ?st = r_pid ?r"
      "as_start ?st = r_start ?r" "0 < as_references ?st" "as_pid (read_agent_state file) = r_pid ?r"
      "as_start (read_agent_state file) = r_start ?r"
      "unat (as_references (read_agent_state file)) = unat (as_references ?st) - 1"
    using rel by blast
  then show ?thesis
  proof cases
    case same
    have "counts_ok ?t = counts_ok s" using same by (simp add: counts_ok_def holders_def)
    moreover have "refs_ok ?t = refs_ok s" using same by (simp add: refs_ok_def)
    ultimately show ?thesis using c rf fo lock same by (simp add: share_ok_iff lock_ok_def)
  next
    case drop
    have "counts_ok ?t" unfolding e using drop by (intro counts_ok_dropped [OF c l]) (auto simp: holds_def)
    moreover have "refs_ok ?t" unfolding e using drop rf by (intro refs_ok_update [OF rf]) (auto simp: refs_ok_def)
    ultimately show ?thesis using rel lock by (simp add: share_ok_iff lock_ok_def)
  next
    case less
    have n: "holders s (r_pid ?r) (r_start ?r) \<le> unat (as_references ?st)" "(r_pid ?r, r_start ?r) \<in> set (ss_used s)"
      using c less by (simp_all add: counts_ok_def Let_def)
    have ns: "\<not> r_starting ?r" using rf r0 n(2) unfolding refs_ok_def by metis
    then have "holds (r_pid ?r) (r_start ?r) ?r" using less by (simp add: holds_def)
    moreover have "\<not> holds (r_pid ?r) (r_start ?r) r" using less by (simp add: holds_def)
    ultimately have "holders ?t (r_pid ?r) (r_start ?r) + 1 = holders s (r_pid ?r) (r_start ?r)"
      using holders_update [OF l, of r "r_pid ?r" "r_start ?r"] unfolding e holders_other_fields by simp
    then have "holders ?t (r_pid ?r) (r_start ?r) \<le> unat (as_references (read_agent_state file))"
      using n less by linarith
    then have "counts_ok ?t" using n less by (simp add: counts_ok_def Let_def)
    moreover have "refs_ok ?t" unfolding e using less rf by (intro refs_ok_update [OF rf]) (auto simp: refs_ok_def)
    ultimately show ?thesis using rel lock by (simp add: share_ok_iff lock_ok_def)
  qed
qed

lemma share_ok_die:
  assumes ok: "share_ok s" and l: "l < length (ss_refs s)"
  shows "share_ok (s\<lparr>ss_refs := (ss_refs s)[l := no_reference],
       ss_lock := (case ss_lock s of Some (m, t) \<Rightarrow> if m = l then None else Some (m, t) | None \<Rightarrow> None)\<rparr>)"
    (is "share_ok ?t")
proof -
  have c: "counts_ok s" and fo: "file_ok (ss_file s)" and rf: "refs_ok s" and lk: "lock_ok s"
    using ok by (simp_all add: share_ok_iff)
  let ?k = "case ss_lock s of Some (m, t) \<Rightarrow> if m = l then None else Some (m, t) | None \<Rightarrow> None"
  have e: "?t = s\<lparr>ss_file := ss_file s, ss_refs := (ss_refs s)[l := no_reference], ss_lock := ?k,
      ss_used := ss_used s, ss_kills := ss_kills s\<rparr>" by simp
  have "counts_ok ?t" unfolding e by (intro counts_ok_dropped [OF c l]) auto
  moreover have "refs_ok ?t" unfolding e using rf
    by (intro refs_ok_update [OF rf]) (auto simp: refs_ok_def no_reference_def)
  moreover have "lock_ok ?t" unfolding lock_ok_def
  proof (intro allI impI)
    fix m t assume "ss_lock ?t = Some (m, t)"
    then have m: "ss_lock s = Some (m, t)" "m \<noteq> l" by (auto split: option.splits if_splits)
    have "holders ?t p u \<le> holders s p u" for p u
      using holders_update [OF l, of no_reference p u] unfolding e holders_other_fields by (simp split: if_splits)
    from this [of "r_pid (ss_refs s ! m)" t] have z: "holders s (r_pid (ss_refs s ! m)) t = 0 \<Longrightarrow>
        holders ?t (r_pid (ss_refs s ! m)) t = 0" by linarith
    have "ss_refs ?t ! m = ss_refs s ! m" using m by simp
    then show "m < length (ss_refs ?t) \<and> r_starting (ss_refs ?t ! m) \<and> r_held (ss_refs ?t ! m)
     \<and> 0 < r_pid (ss_refs ?t ! m) \<and> r_pid (ss_refs ?t ! m) < 2 ^ 31 \<and> t \<noteq> 0
     \<and> (r_pid (ss_refs ?t ! m), t) \<in> set (ss_used ?t) \<and> holders ?t (r_pid (ss_refs ?t ! m)) t = 0"
      using lk m z unfolding lock_ok_def by simp
  qed
  ultimately show ?thesis using fo by (simp add: share_ok_iff)
qed

lemma share_ok_step: "share_ok s \<Longrightarrow> share_step s t \<Longrightarrow> share_ok t"
proof (erule share_step.cases, goal_cases)
  case (1 s')
  have "share_ok (s'\<lparr>ss_refs := ss_refs s' @ [no_reference]\<rparr>)"
  proof -
    have "holders (s'\<lparr>ss_refs := ss_refs s' @ [no_reference]\<rparr>) = holders s'"
      by (intro ext) (simp add: holders_def)
    then show ?thesis using 1 unfolding share_ok_iff counts_ok_def refs_ok_def lock_ok_def
      by (auto simp: nth_append no_reference_def Let_def)
  qed
  then show ?case using 1 by simp
qed (simp_all add: share_ok_join share_ok_start share_ok_finish share_ok_release share_ok_die)

lemma share_ok_init: "share_init s \<Longrightarrow> share_ok s"
  by (auto simp: share_init_def share_ok_iff counts_ok_def refs_ok_def lock_ok_def no_state_def no_reference_def)

interpretation agent_session: inductive_invariant share_init share_step share_ok
  by unfold_locales (use share_ok_init share_ok_step in blast)+


section \<open>The properties\<close>

text \<open>C36. The state file survives a round trip: whatever process id (of 31 bits), 64-bit start time and
  32-bit count are written completely are read back unchanged, the text always fitting the buffers.\<close>

theorem agent_state_round_trip:
  assumes "0 \<le> as_pid st" "as_pid st < 2 ^ 31"
  shows "\<exists>file. write_agent_state WriteAll st content = (True, file) \<and> read_agent_state file = st"
proof -
  have s: "storable st" using assms by (simp add: storable_def)
  then show ?thesis using agent_state_text_short [OF s] read_agent_state_text [OF s]
    by (simp add: write_agent_state_def Let_def)
qed

theorem agent_state_round_trip_witness:
  "\<exists>file. write_agent_state WriteAll \<lparr>as_pid = 4211, as_start = - 1, as_references = - 1\<rparr> ''9 9 9'' = (True, file)
     \<and> read_agent_state file = \<lparr>as_pid = 4211, as_start = - 1, as_references = - 1\<rparr>"
  using agent_state_round_trip [of "\<lparr>as_pid = 4211, as_start = - 1, as_references = - 1\<rparr>"] by simp

text \<open>C37. No launcher terminates the agent another one is using: however launchers of a session start,
  join, release and die, and whichever of their writes fail, when a launcher terminates a group no
  other launcher holds a reference to that agent (same process id and start time).\<close>

theorem agent_not_killed_while_held:
  assumes "reach share_init share_step s" and "share_step s s'"
    and "ss_kills s' = ss_kills s @ [(l, p)]" and "m < length (ss_refs s)" and "m \<noteq> l"
  shows "\<not> holds p (case ss_lock s of Some (_, t) \<Rightarrow> t | None \<Rightarrow> r_start (ss_refs s ! l)) (ss_refs s ! m)"
proof -
  have ok: "share_ok s" by (rule agent_session.always [OF assms(1)])
  then have c: "counts_ok s" and fo: "file_ok (ss_file s)" and rf: "refs_ok s" and lk: "lock_ok s"
    by (simp_all add: share_ok_iff)
  from assms(2) show ?thesis
  proof cases
    case (share_release l' w lock r f' killed)
    then have k: "l' = l" "killed = [p]" using assms(3) by (auto simp: kill_log_def Cons_eq_map_conv)
    note rel = release_cases [OF fo share_release(4) share_release(5)]
    have h: "r_pid (ss_refs s ! l) = p" "r_held (ss_refs s ! l)" "0 < p"
      "as_pid (read_agent_state (ss_file s)) = p" "as_start (read_agent_state (ss_file s)) = r_start (ss_refs s ! l)"
      "0 < as_references (read_agent_state (ss_file s))" "unat (as_references (read_agent_state (ss_file s))) = 1"
      using rel k by auto
    have n: "holders s p (r_start (ss_refs s ! l)) \<le> 1" "(p, r_start (ss_refs s ! l)) \<in> set (ss_used s)"
      using c h unfolding counts_ok_def Let_def by simp_all
    have "\<not> r_starting (ss_refs s ! l)" using rf n(2) share_release(3) k unfolding refs_ok_def by (metis nth_mem)
    then have "holds p (r_start (ss_refs s ! l)) (ss_refs s ! l)" using h by (simp add: holds_def)
    then show ?thesis using holders_others [of l s p] share_release(2,3) k n(1) assms(4,5) by simp
  next
    case (share_finish l' t f r f' killed)
    then have k: "l' = l" "killed = [p]" using assms(3) by (auto simp: kill_log_def Cons_eq_map_conv)
    have b: "r_starting (ss_refs s ! l)" "r_held (ss_refs s ! l)" "0 < r_pid (ss_refs s ! l)"
      "r_pid (ss_refs s ! l) < 2 ^ 31" "holders s (r_pid (ss_refs s ! l)) t = 0"
      using lk share_finish(2) k unfolding lock_ok_def by blast+
    have "p = r_pid (ss_refs s ! l)"
      using finish_cases [OF fo share_finish(3,4) b(1-4)] share_finish(5) k by auto
    then show ?thesis using b(5) share_finish(2) assms(4) by (simp add: holders_def filter_empty_conv)
  qed (use assms(3) in auto)
qed

definition session_of :: "string \<Rightarrow> (nat \<times> 64 word) option \<Rightarrow> (int \<times> 64 word) list \<Rightarrow> reference \<Rightarrow> (nat \<times> int) list \<Rightarrow> session" where
  "session_of file lock used r kills =
     \<lparr>ss_file = file, ss_lock = lock, ss_used = used, ss_refs = [r, no_reference], ss_kills = kills\<rparr>"

definition joining :: acquire_answers where
  "joining = \<lparr>q_agent = True, q_lock = True,
     q_probe = \<lparr>p_getpgid = (\<lambda>p. p), p_start = (\<lambda>_. Some 77), p_signal = (\<lambda>_. True)\<rparr>,
     q_write = WriteAll, q_started = 55\<rparr>"

theorem agent_not_killed_while_held_witness:
  "\<exists>s s'. reach share_init share_step s \<and> share_step s s' \<and> ss_kills s' = [(0, 55)]
     \<and> \<not> holds 55 77 (ss_refs s ! 1)"
proof -
  let ?idle = "agent_state_text idle_state" and ?one = "\<lparr>as_pid = 55, as_start = 77, as_references = 1\<rparr> :: agent_state"
  let ?start = "\<lparr>r_pid = 55, r_start = 0, r_held = True, r_starting = True\<rparr>"
    and ?held = "\<lparr>r_pid = 55, r_start = 77, r_held = True, r_starting = False\<rparr>"
    and ?gone = "\<lparr>r_pid = - 1, r_start = 0, r_held = False, r_starting = False\<rparr>"
  let ?f = "\<lparr>f_alive = True, f_start = Some 77, f_write = WriteAll, f_rewrite = WriteAll\<rparr>"
  have st: "storable ?one" by (simp add: storable_def)
  note short = agent_state_text_short [OF storable_idle] agent_state_text_short [OF st]
  have "share_init (session_of [] None [] no_reference [])"
    unfolding share_init_def session_of_def by (rule exI [of _ 2]) (simp add: numeral_2_eq_2)
  then have 0: "reach share_init share_step (session_of [] None [] no_reference [])" by (rule reach_init)
  have a: "acquire_agent_reference joining [] = (?start, ?idle, True)"
    using short by (simp add: acquire_agent_reference_def joining_def agent_state_is_live_def no_state_def
        write_agent_state_def Let_def)
  have "share_step (session_of [] None [] no_reference [])
      (session_of ?idle (Some (0, 77)) [(55, 77)] ?start [])"
    using share_start [of "session_of [] None [] no_reference []" 0 joining ?start ?idle 77] a
    by (simp add: session_of_def joining_def)
  from reach_step [OF 0 this] have 1: "reach share_init share_step (session_of ?idle (Some (0, 77)) [(55, 77)] ?start [])" .
  have f: "finish_agent_reference ?f ?start ?idle = (?held, agent_state_text ?one, [])"
    using short by (simp add: finish_agent_reference_def write_agent_state_def Let_def)
  have "share_step (session_of ?idle (Some (0, 77)) [(55, 77)] ?start [])
      (session_of (agent_state_text ?one) None [(55, 77)] ?held [])"
    using share_finish [of "session_of ?idle (Some (0, 77)) [(55, 77)] ?start []" 0 77 ?f ?held "agent_state_text ?one" "[]"] f
    by (simp add: session_of_def kill_log_def)
  from reach_step [OF 1 this] have 2: "reach share_init share_step (session_of (agent_state_text ?one) None [(55, 77)] ?held [])" .
  have r: "release_agent_reference True WriteAll ?held (agent_state_text ?one) = (?gone, ?idle, [55])"
    using short by (simp add: release_agent_reference_def read_agent_state_text [OF st] write_agent_state_def
        Let_def idle_state_def)
  have 3: "share_step (session_of (agent_state_text ?one) None [(55, 77)] ?held [])
      (session_of ?idle None [(55, 77)] ?gone [(0, 55)])"
    using share_release [of "session_of (agent_state_text ?one) None [(55, 77)] ?held []" 0 WriteAll True ?gone ?idle "[55]"] r
    by (simp add: session_of_def kill_log_def)
  have "\<not> holds 55 77 (ss_refs (session_of (agent_state_text ?one) None [(55, 77)] ?held []) ! 1)"
    using agent_not_killed_while_held [OF 2 3, of 0 55 1] by (simp add: session_of_def)
  with 2 3 show ?thesis by (metis (no_types) session.select_convs(5) session_of_def)
qed

text \<open>A launcher joins a running agent only: a reference obtained without starting an agent names the
  process in the state file, which at that moment led its process group, had the recorded start
  time and could be signalled; and the file then counts one launcher more.\<close>

theorem joined_agent_is_live:
  assumes "acquire_agent_reference q content = (r, content', held)" and "r_held r" and "\<not> r_starting r"
  shows "1 < r_pid r \<and> p_getpgid (q_probe q) (r_pid r) = r_pid r
    \<and> p_start (q_probe q) (r_pid r) = Some (r_start r) \<and> p_signal (q_probe q) (- r_pid r) \<and> \<not> held
    \<and> as_pid (read_agent_state content) = r_pid r \<and> as_start (read_agent_state content) = r_start r
    \<and> (\<exists>w. write_agent_state w ((read_agent_state content)\<lparr>as_references :=
          as_references (read_agent_state content) + 1\<rparr>) content = (True, content'))"
  using assms
  by (auto simp: acquire_agent_reference_def Let_def agent_state_is_live_def no_reference_def
      split: if_splits prod.splits)

theorem joined_agent_is_live_witness:
  "p_start (q_probe joining) 42 = Some 77 \<and>
   acquire_agent_reference joining (agent_state_text \<lparr>as_pid = 42, as_start = 77, as_references = 1\<rparr>)
     = (\<lparr>r_pid = 42, r_start = 77, r_held = True, r_starting = False\<rparr>,
        agent_state_text \<lparr>as_pid = 42, as_start = 77, as_references = 2\<rparr>, False)"
proof -
  let ?st = "\<lparr>as_pid = 42, as_start = 77, as_references = 1\<rparr> :: agent_state"
  have st: "storable ?st" "storable (?st\<lparr>as_references := 2\<rparr>)" by (simp_all add: storable_def)
  have a: "acquire_agent_reference joining (agent_state_text ?st)
     = (\<lparr>r_pid = 42, r_start = 77, r_held = True, r_starting = False\<rparr>,
        agent_state_text \<lparr>as_pid = 42, as_start = 77, as_references = 2\<rparr>, False)"
    using agent_state_text_short [OF st(2)]
    by (simp add: acquire_agent_reference_def joining_def read_agent_state_text [OF st(1)]
        agent_state_is_live_def write_agent_state_def Let_def word_less_nat_alt unsigned_minus_1_eq_mask
        mask_eq_exp_minus_1)
  from joined_agent_is_live [OF a] a show ?thesis by simp
qed

text \<open>The gap in the error handling: when a freshly started agent is running but its start time
  cannot be read, the launcher keeps a reference that matches no state file, so nothing the
  launcher does later terminates that agent, whatever the file says about other agents and
  however the later calls turn out.\<close>

theorem unreadable_agent_leaks:
  assumes "acquire_agent_reference q content = (r, content1, True)"
    and "finish_agent_reference \<lparr>f_alive = True, f_start = None, f_write = w, f_rewrite = v\<rparr> r content1 = (r2, content2, killed2)"
    and "release_agent_reference lock w' r2 content3 = (r3, content4, killed3)"
    and "as_pid (read_agent_state content3) \<noteq> r_pid r \<or> as_start (read_agent_state content3) \<noteq> 0"
  shows "r_pid r = q_started q \<and> 0 < r_pid r \<and> killed2 = [] \<and> killed3 = [] \<and> \<not> r_held r3"
proof -
  have r: "r = \<lparr>r_pid = q_started q, r_start = 0, r_held = True, r_starting = True\<rparr>" "0 < q_started q"
    using assms(1) by (auto simp: acquire_agent_reference_def Let_def split: if_splits prod.splits)
  have r2: "r2 = r \<and> killed2 = []" using assms(2) r by (auto simp: finish_agent_reference_def Let_def)
  show ?thesis using assms(3,4) r r2 by (auto simp: release_agent_reference_def Let_def split: if_splits)
qed

theorem unreadable_agent_leaks_witness:
  "fst (acquire_agent_reference joining []) = \<lparr>r_pid = 55, r_start = 0, r_held = True, r_starting = True\<rparr>
   \<and> snd (snd (release_agent_reference True WriteAll (fst (acquire_agent_reference joining []))
        (agent_state_text idle_state))) = []"
proof -
  have short: "length (agent_state_text idle_state) < 128" by (rule agent_state_text_short) simp
  have a: "acquire_agent_reference joining [] =
      (\<lparr>r_pid = 55, r_start = 0, r_held = True, r_starting = True\<rparr>, agent_state_text idle_state, True)"
    using short by (simp add: acquire_agent_reference_def joining_def agent_state_is_live_def no_state_def
        write_agent_state_def Let_def)
  obtain r2 c2 k2 where f: "finish_agent_reference \<lparr>f_alive = True, f_start = None, f_write = WriteAll, f_rewrite = WriteAll\<rparr>
      \<lparr>r_pid = 55, r_start = 0, r_held = True, r_starting = True\<rparr> (agent_state_text idle_state) = (r2, c2, k2)"
    by (metis prod.collapse)
  then have r2: "r2 = \<lparr>r_pid = 55, r_start = 0, r_held = True, r_starting = True\<rparr>"
    by (simp add: finish_agent_reference_def Let_def)
  obtain r3 c4 k3 where rel: "release_agent_reference True WriteAll r2 (agent_state_text idle_state) = (r3, c4, k3)"
    by (metis prod.collapse)
  have "as_pid (read_agent_state (agent_state_text idle_state)) \<noteq> 55"
    by (simp add: read_agent_state_text) (simp add: idle_state_def)
  with unreadable_agent_leaks [OF a f rel] have "k3 = []" by simp
  then show ?thesis using a rel r2 by simp
qed

end
