(* ===== verification/Posix.thy ===== *)
theory Posix
  imports Agent_Reference
begin

text \<open>
  The operating system as the native programs see it. A system call is a value of \<open>syscall\<close>; what
  it does to the caller is an \<open>answer\<close>: a result (negative for failure), an error number, and for
  the calls that have them a wait status, data, or a second descriptor. The world is any function
  from a call and the history so far to its answer. A loop that repeats a call while it is
  interrupted is one call here, with its first answer that is not an interruption.

  \<open>ReportStatus\<close> stands for the four bytes of \<open>report_status\<close>, \<open>LockState\<close> and \<open>SaveState\<close> for locking and reading, and for writing, the agent state file.

  A computation that may end the process has a result of type \<open>ending + 'a\<close>.
\<close>

type_synonym byte8 = "8 word"

datatype errno = EINTR | EAGAIN | ECHILD | ESRCH | ENOENT | EOTHER nat

datatype syscall =
    Fork
  | Pipe2
  | OpenNull
  | Dup2 int int
  | Close int
  | Nonblock int
  | Poll int nat
  | Read int nat
  | Write int "byte8 list"
  | ReportStatus int "32 word"
  | Waitpid int bool
  | Kill int int
  | Setpgid int int
  | Usleep nat
  | Malloc nat
  | Exec string "string list"
  | Setenv string string
  | SetSignal int bool
  | Prctl string
  | Complain string
  | Getpwuid
  | LockState
  | SaveState string

record answer =
  a_result :: int
  a_errno :: errno
  a_fds :: "int \<times> int"
  a_status :: "32 word"
  a_data :: "byte8 list"
  a_text :: string
  a_write :: write_answer
  a_term :: int

type_synonym os_event = "syscall \<times> answer"
type_synonym world = "syscall \<Rightarrow> os_event list \<Rightarrow> answer"

abbreviation failed :: "answer \<Rightarrow> bool" where
  "failed a \<equiv> a_result a < 0"

definition os_call :: "world \<Rightarrow> syscall \<Rightarrow> ('s, os_event, answer) comp" where
  "os_call w c = sys (w c) (\<lambda>a. (c, a))"

definition os_do :: "world \<Rightarrow> syscall \<Rightarrow> ('s, os_event, unit) comp" where
  "os_do w c = do { _ \<leftarrow> os_call w c; ret () }"

datatype ending = ExitWith int | Replaced string "string list"

definition andthen :: "('s, 'e, ending + 'a) comp \<Rightarrow> ('a \<Rightarrow> ('s, 'e, ending + 'b) comp) \<Rightarrow> ('s, 'e, ending + 'b) comp" where
  "andthen m f = do { r \<leftarrow> m; case r of Inl e \<Rightarrow> ret (Inl e) | Inr x \<Rightarrow> f x }"

definition lift :: "('s, 'e, 'a) comp \<Rightarrow> ('s, 'e, ending + 'a) comp" where
  "lift m = do { x \<leftarrow> m; ret (Inr x) }"

abbreviation quit :: "int \<Rightarrow> ('s, 'e, ending + 'a) comp" where
  "quit n \<equiv> ret (Inl (ExitWith n))"

definition SIGKILL :: int where "SIGKILL = 9"
definition SIGTERM :: int where "SIGTERM = 15"
definition SIGPIPE :: int where "SIGPIPE = 13"
definition SIGHUP :: int where "SIGHUP = 1"
definition SIGINT :: int where "SIGINT = 2"
definition SIGQUIT :: int where "SIGQUIT = 3"

lemma wp_os_call [wp_simps]:
  "wp (os_call w c) Q s = Q (w c (hist s)) (s\<lparr>hist := hist s @ [(c, w c (hist s))]\<rparr>)"
  by (simp add: os_call_def wp_simps)

lemma wp_os_do [wp_simps]:
  "wp (os_do w c) Q s = Q () (s\<lparr>hist := hist s @ [(c, w c (hist s))]\<rparr>)"
  by (simp add: os_do_def wp_simps)

lemma wp_andthen [wp_simps]:
  "wp (andthen m f) Q s = wp m (\<lambda>r. case r of Inl e \<Rightarrow> Q (Inl e) | Inr x \<Rightarrow> wp (f x) Q) s"
proof -
  have "(\<lambda>a. wp (case a of Inl e \<Rightarrow> ret (Inl e) | Inr x \<Rightarrow> f x) Q) =
      (\<lambda>r. case r of Inl e \<Rightarrow> Q (Inl e) | Inr x \<Rightarrow> wp (f x) Q)"
    by (intro ext) (simp add: wp_return split: sum.split)
  then show ?thesis by (simp add: andthen_def wp_bind)
qed

lemma wp_lift [wp_simps]: "wp (lift m) Q s = wp m (\<lambda>x. Q (Inr x)) s"
proof -
  have "(\<lambda>a. wp (ret (Inr a)) Q) = (\<lambda>x. Q (Inr x))" by (intro ext) (simp add: wp_return)
  then show ?thesis by (simp add: lift_def wp_bind)
qed

text \<open>The calls a history holds, and those of one kind.\<close>

definition calls :: "os_event list \<Rightarrow> syscall list" where
  "calls es = map fst es"

lemma calls_simps [simp]: "calls [] = []" "calls (e # es) = fst e # calls es" "calls (es @ fs) = calls es @ calls fs"
  by (simp_all add: calls_def)

section \<open>Wait statuses\<close>

unbundle bit_operations_syntax

definition wifexited :: "32 word \<Rightarrow> bool" where
  "wifexited status = (status AND 0x7F = 0)"

definition wexitstatus :: "32 word \<Rightarrow> int" where
  "wexitstatus status = uint (drop_bit 8 (status AND 0xFF00))"

definition wifsignaled :: "32 word \<Rightarrow> bool" where
  "wifsignaled status = (status AND 0x7F \<noteq> 0 \<and> status AND 0x7F \<noteq> 0x7F)"

definition wtermsig :: "32 word \<Rightarrow> int" where
  "wtermsig status = uint (status AND 0x7F)"

end
