(* ===== verification/Agent_Process.thy ===== *)
theory Agent_Process
  imports Posix Frame_Protocol "HOL-Library.Multiset"
begin

text \<open>
  The agent process of a launcher (\<open>src/native/spaces.c\<close>): stopping and terminating it, the
  supervisor that runs it and watches its output for the registration message, starting it and
  waiting for it. Loops with a bounded number of attempts recurse on what is left of them; the
  loop over the agent's output recurses on what the pipe delivers.
\<close>

section \<open>Stopping an agent\<close>

fun stop_attempts :: "world \<Rightarrow> int \<Rightarrow> nat \<Rightarrow> ('s, os_event, bool) comp" where
  "stop_attempts w agent 0 = ret False"
| "stop_attempts w agent (Suc n) = do {
     a \<leftarrow> os_call w (Waitpid agent True);
     if a_result a = agent \<or> (failed a \<and> a_errno a = ECHILD) then ret True
     else do { os_do w (Usleep 100000); stop_attempts w agent n } }"

definition stop_agent :: "world \<Rightarrow> int \<Rightarrow> ('s, os_event, unit) comp" where
  "stop_agent w agent = cond (agent > 0) (do {
     os_do w (Kill (- agent) SIGTERM);
     gone \<leftarrow> stop_attempts w agent 20;
     cond (\<not> gone) (do {
       os_do w (Kill (- agent) SIGKILL);
       os_do w (Waitpid agent False) }) })"

fun terminate_attempts :: "world \<Rightarrow> int \<Rightarrow> nat \<Rightarrow> ('s, os_event, bool) comp" where
  "terminate_attempts w agent 0 = ret False"
| "terminate_attempts w agent (Suc n) = do {
     a \<leftarrow> os_call w (Kill (- agent) 0);
     if failed a \<and> a_errno a = ESRCH then ret True
     else do { os_do w (Usleep 100000); terminate_attempts w agent n } }"

definition terminate_agent :: "world \<Rightarrow> int \<Rightarrow> ('s, os_event, unit) comp" where
  "terminate_agent w agent = cond (agent > 0) (do {
     os_do w (Kill (- agent) SIGTERM);
     gone \<leftarrow> terminate_attempts w agent 20;
     cond (\<not> gone) (os_do w (Kill (- agent) SIGKILL)) })"

section \<open>Reporting and terminals\<close>

text \<open>\<open>status_code\<close> of a wait status; and what the errors are as numbers.\<close>

definition status_code :: "32 word \<Rightarrow> int" where
  "status_code status =
     (if wifexited status then wexitstatus status
      else if wifsignaled status then 128 + wtermsig status
      else 1)"

primrec errno_number :: "errno \<Rightarrow> 32 word" where
  "errno_number EINTR = 4"
| "errno_number EAGAIN = 11"
| "errno_number ECHILD = 10"
| "errno_number ESRCH = 3"
| "errno_number ENOENT = 2"
| "errno_number (EOTHER n) = of_nat n"

definition detach_terminal :: "world \<Rightarrow> ('s, os_event, unit) comp" where
  "detach_terminal w = do {
     a \<leftarrow> os_call w OpenNull;
     cond (\<not> failed a) (do {
       os_do w (Dup2 (a_result a) 0);
       os_do w (Dup2 (a_result a) 1);
       os_do w (Dup2 (a_result a) 2);
       cond (a_result a > 2) (os_do w (Close (a_result a))) }) }"

text \<open>The chains \<open>dup2(...) < 0 || dup2(...) < 0\<close>: stop at the first failure, with its error.\<close>

fun redirect :: "world \<Rightarrow> (int \<times> int) list \<Rightarrow> ('s, os_event, errno option) comp" where
  "redirect w [] = ret None"
| "redirect w ((from, onto) # rest) = do {
     a \<leftarrow> os_call w (Dup2 from onto);
     if failed a then ret (Some (a_errno a)) else redirect w rest }"

definition redirect_null :: "world \<Rightarrow> (int \<Rightarrow> (int \<times> int) list) \<Rightarrow> ('s, os_event, errno + int) comp" where
  "redirect_null w targets = do {
     a \<leftarrow> os_call w OpenNull;
     if failed a then ret (Inl (a_errno a))
     else do {
       e \<leftarrow> redirect w (targets (a_result a));
       ret (case e of None \<Rightarrow> Inr (a_result a) | Some e \<Rightarrow> Inl e) } }"

section \<open>The agent's output\<close>

definition ready_message :: "byte list" where
  "ready_message = map of_char ''Authentication agent result: true''"

definition write_ready_notification :: "world \<Rightarrow> int \<Rightarrow> ('s, os_event, unit) comp" where
  "write_ready_notification w descriptor = do {
     a \<leftarrow> os_call w (Write descriptor [1]);
     cond (a_result a \<noteq> 1) (os_do w (Complain ''could not report polkit agent readiness'')) }"

fun match_bytes :: "byte list \<Rightarrow> nat \<times> bool \<Rightarrow> nat \<times> bool" where
  "match_bytes [] (matched, reported) = (matched, reported)"
| "match_bytes (b # bs) (matched, reported) =
     (if reported then (matched, reported)
      else if b = ready_message ! matched
      then match_bytes bs (Suc matched, Suc matched = length ready_message)
      else match_bytes bs (if b = ready_message ! 0 then 1 else 0, False))"

text \<open>The result is \<open>None\<close> while the pipe neither delivers nor ends: the call has not returned.\<close>

fun relay_loop :: "world \<Rightarrow> int \<Rightarrow> arrival list \<Rightarrow> nat \<times> bool \<Rightarrow> ('s, os_event, bool option) comp" where
  "relay_loop w ready_descriptor [] st = ret None"
| "relay_loop w ready_descriptor (Eof # es) st = ret (Some (snd st))"
| "relay_loop w ready_descriptor (RdErr # es) st = ret (Some (snd st))"
| "relay_loop w ready_descriptor (Intr # es) st = relay_loop w ready_descriptor es st"
| "relay_loop w ready_descriptor (Data b bs # es) st = do {
     cond (snd (match_bytes (b # bs) st) \<and> \<not> snd st) (do {
       write_ready_notification w ready_descriptor;
       os_do w (Close ready_descriptor) });
     relay_loop w ready_descriptor es (match_bytes (b # bs) st) }"

definition relay_agent_output :: "world \<Rightarrow> int \<Rightarrow> int \<Rightarrow> arrival list \<Rightarrow> ('s, os_event, bool) comp" where
  "relay_agent_output w descriptor ready_descriptor es = do {
     r \<leftarrow> relay_loop w ready_descriptor es (0, False);
     case r of None \<Rightarrow> ret False
     | Some reported \<Rightarrow> do {
         os_do w (Close descriptor);
         cond (\<not> reported) (os_do w (Close ready_descriptor));
         ret True } }"

section \<open>Running, starting and awaiting the agent\<close>

definition execute_agent :: "world \<Rightarrow> string \<Rightarrow> int \<Rightarrow> int \<Rightarrow> ('s, os_event, ending + 'b) comp" where
  "execute_agent w agent error_descriptor output_descriptor = do {
     null \<leftarrow> redirect_null w (\<lambda>null. [(null, 0), (null, 1), (output_descriptor, 2)]);
     case null of
       Inl e \<Rightarrow> do { os_do w (ReportStatus error_descriptor (errno_number e)); quit 127 }
     | Inr null_fd \<Rightarrow> do {
         cond (null_fd > 2) (os_do w (Close null_fd));
         cond (output_descriptor > 2) (os_do w (Close output_descriptor));
         a \<leftarrow> os_call w (Setenv ''QT_LOGGING_RULES'' ''default.debug=true'');
         if failed a
         then do { os_do w (ReportStatus error_descriptor (errno_number (a_errno a))); quit 127 }
         else do {
           x \<leftarrow> os_call w (Exec agent [agent]);
           if \<not> failed x then ret (Inl (Replaced agent [agent]))
           else do { os_do w (ReportStatus error_descriptor (errno_number (a_errno x))); quit 127 } } } }"

definition supervise_agent :: "world \<Rightarrow> arrival list \<Rightarrow> string \<Rightarrow> int \<Rightarrow> int \<Rightarrow> ('s, os_event, (ending + 'b) option) comp" where
  "supervise_agent w output agent error_descriptor ready_descriptor = do {
     os_do w (SetSignal SIGPIPE True);
     p \<leftarrow> os_call w Pipe2;
     if failed p
     then do { os_do w (ReportStatus error_descriptor (errno_number (a_errno p))); ret (Some (Inl (ExitWith 127))) }
     else do {
       f \<leftarrow> os_call w Fork;
       if failed f
       then do {
         os_do w (Close (fst (a_fds p)));
         os_do w (Close (snd (a_fds p)));
         os_do w (ReportStatus error_descriptor (errno_number (a_errno f)));
         ret (Some (Inl (ExitWith 127))) }
       else if a_result f = 0
       then do {
         os_do w (Close (fst (a_fds p)));
         r \<leftarrow> execute_agent w agent error_descriptor (snd (a_fds p));
         ret (Some r) }
       else do {
         os_do w (Close error_descriptor);
         os_do w (Close (snd (a_fds p)));
         detach_terminal w;
         returned \<leftarrow> relay_agent_output w (fst (a_fds p)) ready_descriptor output;
         if \<not> returned then ret None
         else do {
           a \<leftarrow> os_call w (Waitpid (a_result f) False);
           ret (Some (Inl (ExitWith (if a_result a = a_result f then status_code (a_status a) else 1)))) } } } }"

text \<open>The first bit of an answer to \<open>Poll\<close> is \<open>POLLIN\<close>.\<close>

definition wait_for_agent :: "world \<Rightarrow> int \<Rightarrow> ('s, os_event, bool) comp" where
  "wait_for_agent w descriptor = do {
     a \<leftarrow> os_call w (Poll descriptor 2000);
     if a_result a \<le> 0 \<or> a_status a AND 1 = 0 then ret False
     else do {
       r \<leftarrow> os_call w (Read descriptor 1);
       ret (a_result r = 1 \<and> a_data r = [1]) } }"

definition start_agent :: "world \<Rightarrow> arrival list \<Rightarrow> string option \<Rightarrow> ('s, os_event, (ending + int \<times> int) option) comp" where
  "start_agent w output agent =
     (case agent of None \<Rightarrow> ret (Some (Inr (- 1, - 1)))
      | Some path \<Rightarrow> do {
          e \<leftarrow> os_call w Pipe2;
          if failed e then ret (Some (Inr (- 1, - 1)))
          else do {
            r \<leftarrow> os_call w Pipe2;
            if failed r
            then do {
              os_do w (Close (fst (a_fds e)));
              os_do w (Close (snd (a_fds e)));
              ret (Some (Inr (- 1, - 1))) }
            else do {
              f \<leftarrow> os_call w Fork;
              if failed f
              then do {
                os_do w (Close (fst (a_fds e)));
                os_do w (Close (snd (a_fds e)));
                os_do w (Close (fst (a_fds r)));
                os_do w (Close (snd (a_fds r)));
                ret (Some (Inr (- 1, - 1))) }
              else if a_result f = 0
              then do {
                os_do w (Close (fst (a_fds e)));
                os_do w (Close (fst (a_fds r)));
                os_do w (Setpgid 0 0);
                supervise_agent w output path (snd (a_fds e)) (snd (a_fds r)) }
              else do {
                os_do w (Setpgid (a_result f) (a_result f));
                os_do w (Close (snd (a_fds e)));
                os_do w (Close (snd (a_fds r)));
                size \<leftarrow> os_call w (Read (fst (a_fds e)) 4);
                os_do w (Close (fst (a_fds e)));
                if a_result size > 0
                then do {
                  os_do w (Complain ''could not start polkit agent'');
                  os_do w (Waitpid (a_result f) False);
                  os_do w (Close (fst (a_fds r)));
                  ret (Some (Inr (- 1, - 1))) }
                else ret (Some (Inr (a_result f, fst (a_fds r)))) } } } })"

definition finish_agent_start :: "world \<Rightarrow> int \<Rightarrow> int \<Rightarrow> ('s, os_event, int) comp" where
  "finish_agent_start w child ready_descriptor =
     (if child \<le> 0 then ret child
      else do {
        ok \<leftarrow> wait_for_agent w ready_descriptor;
        cond (\<not> ok) (os_do w (Complain ''polkit agent did not become ready''));
        os_do w (Close ready_descriptor);
        a \<leftarrow> os_call w (Waitpid child True);
        if a_result a = child
        then do { os_do w (Complain ''polkit agent exited during startup''); ret (- 1) }
        else ret child })"

section \<open>The registration message is found wherever it is\<close>

definition rest_of :: "byte list \<Rightarrow> nat \<times> bool" where
  "rest_of bs = match_bytes bs (0, False)"

lemma match_bytes_reported [simp]: "match_bytes bs (m, True) = (m, True)"
  by (cases bs) auto

lemma match_bytes_Nil [simp]: "match_bytes [] st = st"
  by (cases st) simp

lemma match_bytes_append: "match_bytes (xs @ ys) st = match_bytes ys (match_bytes xs st)"
  by (induction xs st rule: match_bytes.induct) auto

lemma ready_head:
  "ready_message \<noteq> []" "length ready_message = 33"
  "0 < i \<Longrightarrow> i < length ready_message \<Longrightarrow> ready_message ! i \<noteq> ready_message ! 0"
proof -
  have "list_all (\<lambda>b. b \<noteq> ready_message ! 0) (tl ready_message)" by code_simp
  then show "0 < i \<Longrightarrow> i < length ready_message \<Longrightarrow> ready_message ! i \<noteq> ready_message ! 0"
    unfolding list_all_length by (cases i) (simp_all add: nth_tl)
qed (simp_all add: ready_message_def)

lemma suffix_snoc_nth: "0 < k \<Longrightarrow> k \<le> length r \<Longrightarrow>
  suffix (take k r) (xs @ [b]) \<longleftrightarrow> suffix (take (k - 1) r) xs \<and> b = r ! (k - 1)"
  by (cases k) (auto simp: take_Suc_conv_app_nth)

lemma sublist_snoc_iff: "r \<noteq> [] \<Longrightarrow> sublist r (xs @ [b]) \<longleftrightarrow> sublist r xs \<or> suffix r (xs @ [b])"
proof
  assume r: "r \<noteq> []" and "sublist r (xs @ [b])"
  then obtain ps ss where e: "xs @ [b] = ps @ r @ ss" by (auto simp: sublist_def)
  show "sublist r xs \<or> suffix r (xs @ [b])"
  proof (cases ss rule: rev_cases)
    case Nil
    then show ?thesis using e by (auto simp: suffix_def)
  next
    case (snoc us u)
    then have "xs = ps @ r @ us" using e by simp
    then show ?thesis by (auto simp: sublist_def)
  qed
next
  assume "sublist r xs \<or> suffix r (xs @ [b])"
  then show "sublist r (xs @ [b])"
    by (meson prefixI prefix_imp_sublist sublist_order.order_trans suffix_imp_sublist)
qed

text \<open>While the message has not appeared, \<open>matched\<close> is the longest part of it the output ends with.\<close>

lemma rest_of_correct:
  "snd (rest_of xs) = sublist ready_message xs \<and>
   (\<not> snd (rest_of xs) \<longrightarrow>
      fst (rest_of xs) < length ready_message \<and> suffix (take (fst (rest_of xs)) ready_message) xs \<and>
      (\<forall>k \<le> length ready_message. suffix (take k ready_message) xs \<longrightarrow> k \<le> fst (rest_of xs)))"
proof (induction xs rule: rev_induct)
  case Nil
  then show ?case using ready_head(1,2) by (auto simp: rest_of_def)
next
  case (snoc b xs)
  let ?r = ready_message
  obtain m rep where s: "rest_of xs = (m, rep)" by (cases "rest_of xs")
  have n: "rest_of (xs @ [b]) = match_bytes [b] (m, rep)" using s by (simp add: rest_of_def match_bytes_append)
  note sub = sublist_snoc_iff [OF ready_head(1), of xs b]
  show ?case
  proof (cases rep)
    case True
    then show ?thesis using snoc.IH s n sub by simp
  next
    case False
    then have m: "m < length ?r" "suffix (take m ?r) xs" "\<And>k. k \<le> length ?r \<Longrightarrow> suffix (take k ?r) xs \<Longrightarrow> k \<le> m"
      "\<not> sublist ?r xs" using snoc.IH s by auto
    show ?thesis
    proof (cases "b = ?r ! m")
      case True
      have "suffix (take (Suc m) ?r) (xs @ [b])" using m True by (subst suffix_snoc_nth) auto
      moreover have "k \<le> Suc m" if "k \<le> length ?r" "suffix (take k ?r) (xs @ [b])" for k
      proof (cases "k = 0")
        case False
        then have "suffix (take (k - 1) ?r) xs" using that suffix_snoc_nth [of k ?r xs b] by simp
        then have "k - 1 \<le> m" using that m(3) [of "k - 1"] by simp
        then show ?thesis by simp
      qed simp
      moreover have "sublist ?r (xs @ [b]) \<longleftrightarrow> Suc m = length ?r"
      proof
        assume "sublist ?r (xs @ [b])"
        then have "suffix (take (length ?r) ?r) (xs @ [b])" using sub m(4) by simp
        then show "Suc m = length ?r" using calculation(2) [of "length ?r"] m(1) by simp
      next
        assume "Suc m = length ?r"
        then show "sublist ?r (xs @ [b])" using calculation(1) sub by simp
      qed
      ultimately show ?thesis using False True n m(1) by auto
    next
      case neq: False
      have short: "k \<le> 1 \<and> (k = 1 \<longrightarrow> b = ?r ! 0)" if "k \<le> length ?r" "suffix (take k ?r) (xs @ [b])" for k
      proof (cases "k = 0")
        case False
        then have k: "suffix (take (k - 1) ?r) xs" "b = ?r ! (k - 1)"
          using that suffix_snoc_nth [of k ?r xs b] by simp_all
        then have "k - 1 \<le> m" using that m(3) [of "k - 1"] by simp
        then have lt: "k - 1 < m" using k neq by (cases "k - 1 = m") auto
        have "k - 1 = 0"
        proof (rule ccontr)
          assume pos: "k - 1 \<noteq> 0"
          have "suffix (take (k - 1) ?r) (take m ?r)"
            by (rule suffix_length_suffix [OF k(1) m(2)]) (use lt m(1) in simp)
          then obtain zs where zs: "take m ?r = zs @ take (k - 1) ?r" by (auto simp: suffix_def)
          have "length (take m ?r) = length zs + length (take (k - 1) ?r)" by (simp only: zs length_append)
          then have "length zs = m - (k - 1)" using lt m(1) by simp
          moreover have "take m ?r ! length zs = take (k - 1) ?r ! 0"
            by (simp only: zs nth_append_length_plus [where n = 0, simplified])
          ultimately have "take m ?r ! (m - (k - 1)) = take (k - 1) ?r ! 0" by simp
          then have "?r ! (m - (k - 1)) = ?r ! 0" using lt pos m(1) by simp
          moreover have "0 < m - (k - 1)" "m - (k - 1) < length ?r" using lt m(1) by linarith+
          ultimately show False using ready_head(3) by blast
        qed
        then show ?thesis using False k by simp
      qed simp
      have one: "suffix (take 1 ?r) (xs @ [b])" if "b = ?r ! 0"
        using that by (subst suffix_snoc_nth) (auto simp: ready_head(2))
      have "\<not> suffix ?r (xs @ [b])" using short [of "length ?r"] by (auto simp: ready_head(2))
      then have "\<not> sublist ?r (xs @ [b])" using sub m(4) by simp
      moreover have "k \<le> (if b = ?r ! 0 then 1 else 0)" if "k \<le> length ?r" "suffix (take k ?r) (xs @ [b])" for k
        using short [OF that] by (cases "k = 0") auto
      ultimately show ?thesis using False neq n one by (auto simp: ready_head(2))
    qed
  qed
qed

text \<open>The part of the agent's output that is read: up to the end of the stream or an error.\<close>

fun output_read :: "arrival list \<Rightarrow> byte list" where
  "output_read [] = []"
| "output_read (Data b bs # es) = b # bs @ output_read es"
| "output_read (Intr # es) = output_read es"
| "output_read (RdErr # es) = []"
| "output_read (Eof # es) = []"

definition ended :: "arrival list \<Rightarrow> bool" where
  "ended es = (Eof \<in> set es \<or> RdErr \<in> set es)"

text \<open>The notifications written to the descriptor, and how often a descriptor is closed.\<close>

definition notifications :: "int \<Rightarrow> os_event list \<Rightarrow> nat" where
  "notifications d es = count_list (calls es) (Write d [1])"

definition closings :: "int \<Rightarrow> os_event list \<Rightarrow> nat" where
  "closings d es = count_list (calls es) (Close d)"

lemma count_calls [simp]:
  "notifications d [] = 0" "notifications d (e # es) = (if fst e = Write d [1] then 1 else 0) + notifications d es"
  "notifications d (es @ fs) = notifications d es + notifications d fs"
  "closings d [] = 0" "closings d (e # es) = (if fst e = Close d then 1 else 0) + closings d es"
  "closings d (es @ fs) = closings d es + closings d fs"
  by (simp_all add: notifications_def closings_def)

lemma notify_emits:
  "emits (cond c (do { write_ready_notification w d; os_do w (Close d) })) s (\<lambda>_ p h.
     notifications d h = (if c then 1 else 0) \<and> closings d h = (if c then 1 else 0) \<and>
     (\<forall>x. x \<noteq> d \<longrightarrow> closings x h = 0))"
  by (cases c) (simp_all add: emits_def write_ready_notification_def wp_simps)

lemma relay_loop_emits:
  fixes s :: "('s, os_event) mach"
  assumes "ended es"
  shows "emits (relay_loop w d es st) s (\<lambda>r p h. r = Some (snd (match_bytes (output_read es) st)) \<and>
     notifications d h = (if snd (match_bytes (output_read es) st) \<and> \<not> snd st then 1 else 0) \<and>
     closings d h = (if snd (match_bytes (output_read es) st) \<and> \<not> snd st then 1 else 0) \<and>
     (\<forall>x. x \<noteq> d \<longrightarrow> closings x h = 0))"
  using assms
proof (induction es arbitrary: st s)
  case (Cons e es)
  show ?case
  proof (cases e)
    case (Data b bs)
    have m: "match_bytes (b # bs @ output_read es) st = match_bytes (output_read es) (match_bytes (b # bs) st)"
      using match_bytes_append [of "b # bs" "output_read es" st] by simp
    have keep: "snd st \<Longrightarrow> snd (match_bytes (b # bs) st)" by (cases st) simp
    have keep2: "snd (match_bytes (b # bs) st) \<Longrightarrow> snd (match_bytes (output_read es) (match_bytes (b # bs) st))"
      by (metis match_bytes_reported prod.collapse)
    have e: "ended es" using Cons.prems Data by (simp add: ended_def)
    let ?st = "match_bytes (b # bs) st"
    define A where "A = (snd ?st \<and> \<not> snd st)"
    define B where "B = (snd (match_bytes (output_read es) ?st) \<and> \<not> snd ?st)"
    define C where "C = (snd (match_bytes (output_read es) ?st) \<and> \<not> snd st)"
    have AB: "(if C then 1 else 0) = (if A then 1 else 0) + (if B then 1 else (0::nat))"
      using keep keep2 unfolding A_def B_def C_def by (cases "snd st"; cases "snd ?st") simp_all
    show ?thesis unfolding Data relay_loop.simps output_read.simps m C_def [symmetric] A_def [symmetric]
    proof (rule emits_bind [OF notify_emits])
      fix a h and s' :: "('s, os_event) mach"
      assume h: "notifications d h = (if A then 1 else 0) \<and> closings d h = (if A then 1 else 0) \<and>
        (\<forall>x. x \<noteq> d \<longrightarrow> closings x h = 0)"
      show "emits (relay_loop w d es ?st) s' (\<lambda>r p h'. r = Some (snd (match_bytes (output_read es) ?st)) \<and>
          notifications d (h @ h') = (if C then 1 else 0) \<and> closings d (h @ h') = (if C then 1 else 0) \<and>
          (\<forall>x. x \<noteq> d \<longrightarrow> closings x (h @ h') = 0))"
        by (rule emits_mono [OF Cons.IH [OF e, of ?st s', folded B_def]]) (simp add: AB h)
    qed
  qed (use Cons in \<open>auto simp: ended_def intro!: emits_return\<close>)
qed (simp add: ended_def)

text \<open>C39. The agent's readiness is detected exactly and reported once: for any output of the agent, in
  pieces of any size and with any interruptions, the supervisor writes the ready byte if and only if
  the registration message occurs in the output (wherever it is cut), writes it at most once, and by
  the time it returns has closed the output pipe and the ready pipe exactly once each.\<close>

theorem relay_reports_readiness:
  assumes "ended es" "d \<noteq> r"
  shows "emits (relay_agent_output w d r es) s (\<lambda>result p h. result \<and>
     notifications r h = (if sublist ready_message (output_read es) then 1 else 0) \<and>
     closings d h = 1 \<and> closings r h = 1)"
proof -
  have rep: "snd (match_bytes (output_read es) (0, False)) = sublist ready_message (output_read es)"
    using rest_of_correct [of "output_read es"] by (simp add: rest_of_def)
  show ?thesis unfolding relay_agent_output_def
    by (rule emits_bind [OF relay_loop_emits [OF assms(1), where st = "(0, False)"]])
       (use rep assms(2) in \<open>auto simp: emits_def wp_simps\<close>)
qed

theorem relay_reports_readiness_witness:
  "emits (relay_agent_output (\<lambda>_ _. \<lparr>a_result = 1, a_errno = EINTR, a_fds = (0, 0), a_status = 0, a_data = [],
        a_text = [], a_write = WriteAll, a_term = 0\<rparr>) 5 6
      (let m = ready_message in [Data 0x41 (take 7 m), Intr, Data (m ! 7) (drop 8 m), Eof])) \<lparr>prog = (), hist = []\<rparr>
     (\<lambda>result p h. result \<and> notifications 6 h = 1 \<and> closings 5 h = 1 \<and> closings 6 h = 1)"
proof -
  let ?es = "let m = ready_message in [Data 0x41 (take 7 m), Intr, Data (m ! 7) (drop 8 m), Eof]"
  have "output_read ?es = [0x41] @ ready_message" by code_simp
  then have "sublist ready_message (output_read ?es)" using suffix_imp_sublist [OF suffixI [OF refl]] by metis
  moreover have "ended ?es" by (simp add: ended_def Let_def)
  ultimately show ?thesis using relay_reports_readiness [of ?es 5 6] by simp
qed

section \<open>The descriptors of the launcher\<close>

lemma execute_agent_ends: "wp (execute_agent w agent e d) (\<lambda>r _. \<exists>x. r = Inl x) s"
  unfolding execute_agent_def wp_bind
  by (rule wp_any) (auto simp: wp_simps split: sum.split)

lemma execute_agent_child:
  "always_returns (do { r \<leftarrow> execute_agent w a b c; ret (Some r) }) (\<lambda>r. r = None \<or> (\<exists>x. r = Some (Inl x)))"
  unfolding always_returns_def wp_bind wp_return
  by (intro allI wp_mono [OF execute_agent_ends]) auto

lemma supervise_agent_ends:
  "always_returns (supervise_agent w es agent e d) (\<lambda>r. r = None \<or> (\<exists>x. r = Some (Inl x)))"
  unfolding supervise_agent_def
  by (intro always_returns_intros execute_agent_child) auto

lemma supervise_agent_child:
  "wp (supervise_agent w es agent e d) (\<lambda>r s'. \<forall>pid ready. r = Some (Inr (pid, ready)) \<longrightarrow> Q r s' pid ready) t"
proof (rule wp_mono)
  show "wp (supervise_agent w es agent e d) (\<lambda>r _. r = None \<or> (\<exists>x. r = Some (Inl x))) t"
    using supervise_agent_ends unfolding always_returns_def by blast
qed auto

definition opened :: "os_event list \<Rightarrow> int multiset" where
  "opened es = mset (concat (map (\<lambda>(c, a). if c = Pipe2 \<and> \<not> failed a then [fst (a_fds a), snd (a_fds a)] else []) es))"

definition closed :: "os_event list \<Rightarrow> int multiset" where
  "closed es = mset (concat (map (\<lambda>c. case c of Close d \<Rightarrow> [d] | _ \<Rightarrow> []) (calls es)))"

lemma opened_closed_simps [simp]:
  "opened [] = {#}" "closed [] = {#}"
  "opened ((c, a) # es) = (if c = Pipe2 \<and> \<not> failed a then {# fst (a_fds a), snd (a_fds a) #} else {#}) + opened es"
  "closed ((c, a) # es) = (case c of Close d \<Rightarrow> {# d #} | _ \<Rightarrow> {#}) + closed es"
  by (simp_all add: opened_def closed_def split: syscall.split)

lemma start_agent_balance:
  "wp (start_agent w output agent) (\<lambda>r s'. \<forall>pid ready. r = Some (Inr (pid, ready)) \<longrightarrow>
     (\<exists>es. hist s' = hist s @ es \<and>
       opened es = closed es + (if pid > 0 then {# ready #} else {#}) \<and>
       (pid > 0 \<or> (pid = - 1 \<and> ready = - 1)))) s"
proof (cases agent)
  case None
  then show ?thesis by (simp add: start_agent_def wp_simps)
next
  case (Some path)
  show ?thesis unfolding start_agent_def Some option.case
    by (simp add: wp_simps supervise_agent_child)
qed

text \<open>Starting the agent leaks no descriptor: in the launcher, whichever of the pipes, the fork or the
  agent fails, every descriptor opened is closed exactly once when \<open>start_agent\<close> returns, but for
  the reading end of the ready pipe, which is handed to the caller exactly when an agent runs; and
  a failure is always reported as \<open>-1\<close> with no descriptor.\<close>

theorem start_agent_descriptors:
  "wp (start_agent w output agent) (\<lambda>r s'. case r of Some (Inr (pid, ready)) \<Rightarrow>
     (\<exists>es. hist s' = hist s @ es \<and>
       opened es = closed es + (if pid > 0 then {# ready #} else {#}) \<and>
       (pid > 0 \<or> (pid = - 1 \<and> ready = - 1))) | _ \<Rightarrow> True) s"
  by (rule wp_mono [OF start_agent_balance]) (auto split: option.splits sum.splits)

end
