(* ===== verification/Path_Merge.thy ===== *)
theory Path_Merge
  imports Spaces_Prelude
begin

text \<open>
  The launcher's merge of search paths (\<open>src/native/spaces.c\<close>): the value of a variable in the user
  manager's \<open>NAME=value\<close> lines, the membership test on a colon-separated path, the merge of two
  paths, and the update of the launcher's own environment. A memory allocation succeeds or not as a
  function of its size, given as an argument.
\<close>

section \<open>The loops\<close>

abbreviation "newline \<equiv> CHR 0x0A"

lemma after_mark_shorter: "dropWhile P s = x # t \<Longrightarrow> length t < length s"
  by (metis length_Cons length_dropWhile_le less_Suc_eq_le less_le_trans lessI not_less_eq)

function manager_environment_value :: "(nat \<Rightarrow> bool) \<Rightarrow> string \<Rightarrow> string \<Rightarrow> string option" where
  "manager_environment_value alloc line name =
     (if line = [] then None
      else let entry = takeWhile (\<lambda>c. c \<noteq> newline) line
           in if length entry > length name \<and> entry ! length name = CHR ''='' \<and> take (length name) entry = name
              then if alloc (length entry - length name) then Some (drop (length name + 1) entry) else None
              else case dropWhile (\<lambda>c. c \<noteq> newline) line of
                     [] \<Rightarrow> None
                   | _ # rest \<Rightarrow> manager_environment_value alloc rest name)"
  by pat_completeness auto

termination manager_environment_value
  by (relation "measure (\<lambda>(_, line, _). length line)") (auto dest: after_mark_shorter)

function path_has_component :: "string \<Rightarrow> string \<Rightarrow> bool" where
  "path_has_component cursor component =
     (if cursor = [] then False
      else if takeWhile (\<lambda>c. c \<noteq> CHR '':'') cursor = component then True
      else case dropWhile (\<lambda>c. c \<noteq> CHR '':'') cursor of
             [] \<Rightarrow> False
           | _ # rest \<Rightarrow> path_has_component rest component)"
  by pat_completeness auto

termination path_has_component
  by (relation "measure (\<lambda>(cursor, _). length cursor)") (auto dest: after_mark_shorter)

definition append_component :: "string \<Rightarrow> string \<Rightarrow> string" where
  "append_component merged component =
     (if component \<noteq> [] \<and> \<not> path_has_component merged component
      then (if merged \<noteq> [] then merged @ '':'' else merged) @ component
      else merged)"

function merge_loop :: "string \<Rightarrow> string \<Rightarrow> string" where
  "merge_loop cursor merged =
     (if cursor = [] then merged
      else let merged = append_component merged (takeWhile (\<lambda>c. c \<noteq> CHR '':'') cursor)
           in case dropWhile (\<lambda>c. c \<noteq> CHR '':'') cursor of
                [] \<Rightarrow> merged
              | _ # rest \<Rightarrow> merge_loop rest merged)"
  by pat_completeness auto

termination merge_loop
  by (relation "measure (\<lambda>(cursor, _). length cursor)") (auto dest: after_mark_shorter)

declare manager_environment_value.simps [simp del] path_has_component.simps [simp del] merge_loop.simps [simp del]

definition merge_path_environment :: "(nat \<Rightarrow> bool) \<Rightarrow> string \<Rightarrow> string \<Rightarrow> string option" where
  "merge_path_environment alloc preferred preserved =
     (if \<not> alloc (length preferred + length preserved + 2) then None
      else Some (merge_loop preserved preferred))"

text \<open>
  The environment of the process is a map; \<open>setenv\<close> succeeds or not as a function of the name.
  The result is the status the source returns (0 or -1) and the environment.
\<close>

type_synonym environment = "string \<rightharpoonup> string"

fun merge_names :: "(nat \<Rightarrow> bool) \<Rightarrow> (string \<Rightarrow> bool) \<Rightarrow> string \<Rightarrow> (string \<times> bool) list \<Rightarrow>
    int \<times> environment \<Rightarrow> int \<times> environment" where
  "merge_names alloc setenv_ok manager [] (status, env) = (status, env)"
| "merge_names alloc setenv_ok manager ((name, merge_path) # names) (status, env) =
     (if \<not> merge_path then merge_names alloc setenv_ok manager names (status, env)
      else case (env name, manager_environment_value alloc manager name) of
             (Some preferred, Some preserved) \<Rightarrow>
               (case merge_path_environment alloc preferred preserved of
                  Some merged \<Rightarrow>
                    if setenv_ok name
                    then merge_names alloc setenv_ok manager names (status, env(name \<mapsto> merged))
                    else merge_names alloc setenv_ok manager names (- 1, env)
                | None \<Rightarrow> merge_names alloc setenv_ok manager names (- 1, env))
           | _ \<Rightarrow> merge_names alloc setenv_ok manager names (status, env))"

definition merge_manager_path_environment ::
    "(nat \<Rightarrow> bool) \<Rightarrow> (string \<Rightarrow> bool) \<Rightarrow> string option \<Rightarrow> (string \<times> bool) list \<Rightarrow> environment \<Rightarrow> int \<times> environment" where
  "merge_manager_path_environment alloc setenv_ok manager names env =
     (if \<not> list_ex snd names then (0, env)
      else case manager of
             None \<Rightarrow> (- 1, env)
           | Some m \<Rightarrow> merge_names alloc setenv_ok m names (0, env))"

section \<open>Paths as lists of components\<close>

abbreviation "colon \<equiv> CHR '':''"

lemma split_on_cases:
  "dropWhile (\<lambda>x. x \<noteq> c) s = [] \<Longrightarrow> split_on c s = [takeWhile (\<lambda>x. x \<noteq> c) s]"
  "dropWhile (\<lambda>x. x \<noteq> c) s = y # t \<Longrightarrow> split_on c s = takeWhile (\<lambda>x. x \<noteq> c) s # split_on c t"
  by (subst split_on_step, simp only: list.case)+

lemma path_has_component_iff:
  "component \<noteq> [] \<Longrightarrow> path_has_component path component \<longleftrightarrow> component \<in> set (split_on colon path)"
proof (induction path component rule: path_has_component.induct)
  case (1 cursor component)
  note P = path_has_component.simps [of cursor component]
  show ?case
  proof (cases "cursor = []")
    case True
    then show ?thesis using 1 P by simp
  next
    case False
    show ?thesis
    proof (cases "dropWhile (\<lambda>c. c \<noteq> colon) cursor")
      case Nil
      show ?thesis unfolding P split_on_cases(1) [OF Nil] using False by (simp only: Nil) auto
    next
      case (Cons x rest)
      show ?thesis
      proof (cases "takeWhile (\<lambda>c. c \<noteq> colon) cursor = component")
        case True
        then show ?thesis unfolding P split_on_cases(2) [OF Cons] using False by (simp only: Cons) simp
      next
        case ne: False
        show ?thesis using "1.IH" [OF False ne Cons "1.prems"] ne False
          unfolding P split_on_cases(2) [OF Cons] by (simp only: Cons) auto
      qed
    qed
  qed
qed

lemma split_on_snoc:
  "colon \<notin> set w \<Longrightarrow> split_on colon (s @ colon # w) = split_on colon s @ [w]"
  by (induction s) (auto simp: split_on_single split: list.splits)

lemma append_component_split:
  assumes "colon \<notin> set c"
  shows "g_strsplit (append_component merged c) colon =
    (if c = [] \<or> c \<in> set (g_strsplit merged colon) then g_strsplit merged colon
     else g_strsplit merged colon @ [c])"
  using assms path_has_component_iff [of c merged]
  by (cases "merged = []") (auto simp: append_component_def g_strsplit_def split_on_snoc split_on_single)

text \<open>The merge on lists of components.\<close>

fun add_components :: "string list \<Rightarrow> string list \<Rightarrow> string list" where
  "add_components seen [] = seen"
| "add_components seen (c # cs) =
     add_components (if c = [] \<or> c \<in> set seen then seen else seen @ [c]) cs"

lemma merge_loop_components:
  "g_strsplit (merge_loop cursor merged) colon = add_components (g_strsplit merged colon) (g_strsplit cursor colon)"
proof (induction cursor merged rule: merge_loop.induct)
  case (1 cursor merged)
  let ?w = "takeWhile (\<lambda>c. c \<noteq> colon) cursor"
  have w: "colon \<notin> set ?w" by (auto dest: set_takeWhileD)
  note comp = append_component_split [OF w, of merged]
  show ?case
  proof (cases "cursor = []")
    case True
    then show ?thesis by (simp add: merge_loop.simps g_strsplit_def)
  next
    case False
    show ?thesis
    proof (cases "dropWhile (\<lambda>c. c \<noteq> colon) cursor")
      case Nil
      have "merge_loop cursor merged = append_component merged ?w"
        using False by (subst merge_loop.simps) (simp only: Nil Let_def if_False list.case)
      moreover have "g_strsplit cursor colon = [?w]" using False split_on_cases(1) [OF Nil] by (simp add: g_strsplit_def)
      ultimately show ?thesis using comp by simp
    next
      case (Cons x rest)
      have "merge_loop cursor merged = merge_loop rest (append_component merged ?w)"
        using False by (subst merge_loop.simps) (simp only: Cons Let_def if_False list.case)
      moreover have "g_strsplit cursor colon = ?w # split_on colon rest"
        using False split_on_cases(2) [OF Cons] by (simp add: g_strsplit_def)
      moreover have "add_components seen (split_on colon rest) = add_components seen (g_strsplit rest colon)" for seen
        by (simp add: g_strsplit_def)
      ultimately show ?thesis using comp "1.IH" [OF False refl Cons] by simp
    qed
  qed
qed

lemma add_components_spec:
  "\<exists>new. add_components seen cs = seen @ new \<and> distinct new \<and> subseq new cs
     \<and> set new = set cs - set seen - {[]}"
proof (induction cs arbitrary: seen)
  case (Cons c cs)
  show ?case
  proof (cases "c = [] \<or> c \<in> set seen")
    case True
    then show ?thesis using Cons.IH [of seen] by auto
  next
    case False
    obtain new where "add_components (seen @ [c]) cs = (seen @ [c]) @ new" "distinct new" "subseq new cs"
      "set new = set cs - set (seen @ [c]) - {[]}" using Cons.IH by blast
    then show ?thesis using False by (intro exI [of _ "c # new"]) auto
  qed
qed simp

lemma merge_loop_length: "length (merge_loop cursor merged) \<le> length merged + length cursor + 1"
proof (induction cursor merged rule: merge_loop.induct)
  case (1 cursor merged)
  let ?w = "takeWhile (\<lambda>c. c \<noteq> colon) cursor" and ?d = "dropWhile (\<lambda>c. c \<noteq> colon) cursor"
  have l: "length ?w + length ?d = length cursor"
    by (metis length_append takeWhile_dropWhile_id)
  have a: "length (append_component merged ?w) \<le> length merged + 1 + length ?w"
    by (simp add: append_component_def)
  show ?case
  proof (cases "cursor = []")
    case False
    then show ?thesis
    proof (cases ?d)
      case Nil
      have "merge_loop cursor merged = append_component merged ?w"
        using False by (subst merge_loop.simps) (simp only: Nil Let_def if_False list.case)
      then show ?thesis using a l by simp
    next
      case (Cons x rest)
      have "merge_loop cursor merged = merge_loop rest (append_component merged ?w)"
        using False by (subst merge_loop.simps) (simp only: Cons Let_def if_False list.case)
      then show ?thesis using a l Cons "1.IH" [OF False refl Cons] by simp
    qed
  qed (simp add: merge_loop.simps)
qed

section \<open>The properties\<close>

text \<open>C35. Merging two paths keeps the preferred one untouched and in front: the components of the
  merged path are those of the preferred path followed by the components of the preserved one that
  are not empty and not already there, each once and in their order; and the merged string with its
  terminator fits the buffer allocated for it.\<close>

theorem merge_path_components:
  assumes "merge_path_environment alloc preferred preserved = Some merged"
  shows "(\<exists>new. g_strsplit merged (CHR '':'') = g_strsplit preferred (CHR '':'') @ new \<and> distinct new
      \<and> subseq new (g_strsplit preserved (CHR '':''))
      \<and> set new = set (g_strsplit preserved (CHR '':'')) - set (g_strsplit preferred (CHR '':'')) - {[]})
    \<and> length merged + 1 \<le> length preferred + length preserved + 2"
proof -
  have m: "merged = merge_loop preserved preferred"
    using assms by (simp add: merge_path_environment_def split: if_splits)
  show ?thesis
    using add_components_spec [of "g_strsplit preferred colon" "g_strsplit preserved colon"]
      merge_loop_length [of preserved preferred]
    unfolding m merge_loop_components by simp
qed

theorem merge_path_components_witness:
  "merge_path_environment (\<lambda>_. True) ''/a:/b'' ''/c::/a:/c:/d'' = Some ''/a:/b:/c:/d''
   \<and> (\<exists>new. g_strsplit ''/a:/b:/c:/d'' (CHR '':'') = g_strsplit ''/a:/b'' (CHR '':'') @ new)"
proof -
  have "merge_path_environment (\<lambda>_. True) ''/a:/b'' ''/c::/a:/c:/d'' = Some ''/a:/b:/c:/d''" by code_simp
  from this merge_path_components [OF this] show ?thesis by blast
qed

definition entry_of :: "string \<Rightarrow> string \<Rightarrow> string option" where
  "entry_of name line = (if g_str_has_prefix line (name @ ''='') then Some (drop (length name + 1) line) else None)"

lemma entry_of_iff:
  "length line > length name \<and> line ! length name = CHR ''='' \<and> take (length name) line = name
    \<longleftrightarrow> g_str_has_prefix line (name @ ''='')" (is "?l \<longleftrightarrow> ?r")
proof
  assume l: ?l
  then have "take (Suc (length name)) line = name @ ''=''" by (simp add: take_Suc_conv_app_nth)
  then show ?r by (simp add: g_str_has_prefix_def)
next
  assume ?r
  then obtain t where "line = (name @ ''='') @ t" by (auto simp: g_str_has_prefix_iff)
  then show ?l by (simp add: nth_append)
qed

lemma manager_environment_first:
  "manager_environment_value (\<lambda>_. True) env name =
     (case find (\<lambda>line. entry_of name line \<noteq> None) (g_strsplit env newline) of
        None \<Rightarrow> None | Some line \<Rightarrow> entry_of name line)"
proof (induction "length env" arbitrary: env rule: less_induct)
  case less
  note M = manager_environment_value.simps [of "\<lambda>_. True" env name]
  let ?w = "takeWhile (\<lambda>c. c \<noteq> newline) env"
  show ?case
  proof (cases "env = []")
    case True
    then show ?thesis using M by (simp add: g_strsplit_def)
  next
    case False
    show ?thesis
    proof (cases "g_str_has_prefix ?w (name @ ''='')")
      case True
      have "manager_environment_value (\<lambda>_. True) env name = Some (drop (length name + 1) ?w)"
        unfolding M Let_def entry_of_iff using False True by simp
      moreover have "\<exists>ws. g_strsplit env newline = ?w # ws" using False
        by (simp add: g_strsplit_def split_on_step [of newline env])
      ultimately show ?thesis using True by (auto simp: entry_of_def)
    next
      case np: False
      show ?thesis
      proof (cases "dropWhile (\<lambda>c. c \<noteq> newline) env")
        case Nil
        have "manager_environment_value (\<lambda>_. True) env name = None"
          unfolding M Let_def entry_of_iff using False np by (simp only: Nil) simp
        then show ?thesis using False np split_on_cases(1) [OF Nil] by (simp add: g_strsplit_def entry_of_def)
      next
        case (Cons x rest)
        have "manager_environment_value (\<lambda>_. True) env name = manager_environment_value (\<lambda>_. True) rest name"
          unfolding M Let_def entry_of_iff using False np by (simp only: Cons) simp
        moreover have "length rest < length env" using Cons by (rule after_mark_shorter)
        moreover have "entry_of name [] = None" by (simp add: entry_of_def g_str_has_prefix_def)
        ultimately show ?thesis using less [of rest] False np split_on_cases(2) [OF Cons]
          by (auto simp: g_strsplit_def entry_of_def [of name ?w])
      qed
    qed
  qed
qed

definition merged_value :: "string \<Rightarrow> string \<Rightarrow> string option \<Rightarrow> string option" where
  "merged_value manager name v =
     (case (v, manager_environment_value (\<lambda>_. True) manager name) of
        (Some v, Some p) \<Rightarrow> merge_path_environment (\<lambda>_. True) v p | _ \<Rightarrow> v)"

lemma merge_names_all:
  "distinct (map fst (filter snd names)) \<Longrightarrow>
   merge_names (\<lambda>_. True) (\<lambda>_. True) m names (status, env) =
     (status, \<lambda>n. if (n, True) \<in> set names then merged_value m n (env n) else env n)"
proof (induction names arbitrary: env)
  case (Cons a names)
  obtain n b where a: "a = (n, b)" by fastforce
  show ?case
  proof (cases b)
    case True
    let ?env = "env(n := merged_value m n (env n))"
    have "merge_names (\<lambda>_. True) (\<lambda>_. True) m (a # names) (status, env) =
        merge_names (\<lambda>_. True) (\<lambda>_. True) m names (status, ?env)"
      using True by (auto simp: a merged_value_def merge_path_environment_def fun_upd_idem split: option.split)
    moreover have "(n, True) \<notin> set names" using Cons.prems True a by force
    moreover have "distinct (map fst (filter snd names))" using Cons.prems True a by simp
    ultimately show ?thesis using True a by (auto simp: Cons.IH)
  next
    case False
    then show ?thesis using Cons a by (auto simp: fun_eq_iff)
  qed
qed simp

text \<open>The launcher changes exactly the variables it was told to merge: with the manager's listing
  read and no allocation or update failing, each variable named for merging once, that the launcher
  has and the listing has too (its first \<open>NAME=value\<close> line counts), becomes the merge of the two
  values with the launcher's own in front; every other variable keeps its value.\<close>

theorem merge_environment:
  assumes "distinct (map fst (filter snd names))"
  shows "merge_manager_path_environment (\<lambda>_. True) (\<lambda>_. True) (Some manager) names env =
    (0, \<lambda>n. if (n, True) \<in> set names
         then (case (env n, find (\<lambda>line. entry_of n line \<noteq> None) (g_strsplit manager (CHR 0x0A))) of
                 (Some preferred, Some line) \<Rightarrow>
                   merge_path_environment (\<lambda>_. True) preferred (the (entry_of n line))
               | _ \<Rightarrow> env n)
         else env n)"
proof -
  have v: "merged_value manager n (env n) =
      (case (env n, find (\<lambda>line. entry_of n line \<noteq> None) (g_strsplit manager newline)) of
         (Some preferred, Some line) \<Rightarrow> merge_path_environment (\<lambda>_. True) preferred (the (entry_of n line))
       | _ \<Rightarrow> env n)" for n
  proof (cases "find (\<lambda>line. entry_of n line \<noteq> None) (g_strsplit manager newline)")
    case None
    then show ?thesis unfolding merged_value_def manager_environment_first by (simp split: option.split)
  next
    case (Some line)
    then have "entry_of n line \<noteq> None" by (auto simp: find_Some_iff simp del: not_None_eq)
    then show ?thesis unfolding merged_value_def manager_environment_first Some
      by (auto split: option.split)
  qed
  have "\<not> list_ex snd names \<Longrightarrow> (n, True) \<notin> set names" for n by (auto simp: list_ex_iff)
  then have "merge_manager_path_environment (\<lambda>_. True) (\<lambda>_. True) (Some manager) names env =
      (0, \<lambda>n. if (n, True) \<in> set names then merged_value manager n (env n) else env n)"
    using merge_names_all [OF assms, of manager 0 env] by (simp add: merge_manager_path_environment_def)
  then show ?thesis unfolding v by simp
qed

theorem merge_environment_witness:
  "snd (merge_manager_path_environment (\<lambda>_. True) (\<lambda>_. True) (Some (''A=x'' @ [newline] @ ''P=/d:/s''))
     [(''P'', True), (''A'', False)] [''P'' \<mapsto> ''/s'', ''A'' \<mapsto> ''y'']) ''P'' = Some ''/s:/d''"
proof -
  have "distinct (map fst (filter snd [(''P'', True), (''A'', False)]))" by simp
  note m = merge_environment [OF this]
  show ?thesis unfolding m by code_simp
qed

end
