(* ===== verification/Launcher.thy ===== *)
theory Launcher
  imports Agent_Process Path_Merge
begin

text \<open>
  The launcher, \<open>src/native/spaces.c\<close>: reading the manager's environment through a pipe, updating the
  activation environment, the monitor that owns the application, and \<open>main\<close>. Calls of the operating
  system are answered by the world; \<open>facts\<close> gives what the pure functions of the other theories
  read from \<open>/proc\<close>. The monitor's loop recurses on the answers of its \<open>waitpid\<close>: when the list
  ends there is no child left (\<open>ECHILD\<close>).
\<close>

section \<open>The manager's environment\<close>

definition MAXIMUM_CAPACITY :: nat where "MAXIMUM_CAPACITY = 1024 * 1024"
definition SYSTEMCTL :: string where "SYSTEMCTL = ''/usr/bin/systemctl''"
definition DBUS_UPDATE :: string where "DBUS_UPDATE = ''/usr/bin/dbus-update-activation-environment''"

record listing =
  l_output :: "byte list"
  l_capacity :: nat
  l_end_of_file :: bool

text \<open>The inner loop; the fuel bounds the bytes it can still take (one round takes at least one).\<close>

fun drain :: "world \<Rightarrow> int \<Rightarrow> nat \<Rightarrow> listing \<Rightarrow> ('s, os_event, listing) comp" where
  "drain w fd 0 l = ret l"
| "drain w fd (Suc n) l = do {
     room \<leftarrow> (if length (l_output l) + 1 \<noteq> l_capacity l then ret (Some l)
              else if l_capacity l \<ge> MAXIMUM_CAPACITY then ret None
              else do {
                a \<leftarrow> os_call w (Malloc (min (l_capacity l * 2) MAXIMUM_CAPACITY));
                ret (if failed a then None
                     else Some (l\<lparr>l_capacity := min (l_capacity l * 2) MAXIMUM_CAPACITY\<rparr>)) });
     case room of None \<Rightarrow> ret l
     | Some l \<Rightarrow> do {
         a \<leftarrow> os_call w (Read fd (l_capacity l - length (l_output l) - 1));
         if a_data a \<noteq> []
         then drain w fd n (l\<lparr>l_output := l_output l @ take (l_capacity l - length (l_output l) - 1) (a_data a)\<rparr>)
         else if a_result a \<ge> 0 \<or> a_errno a \<notin> {EAGAIN, EINTR} then ret (l\<lparr>l_end_of_file := True\<rparr>)
         else ret l } }"

record child_wait =
  w_done :: bool
  w_valid :: bool
  w_status :: "32 word"

definition poll_child :: "world \<Rightarrow> int \<Rightarrow> child_wait \<Rightarrow> ('s, os_event, child_wait) comp" where
  "poll_child w child c =
     (if w_done c then ret c
      else do {
        a \<leftarrow> os_call w (Waitpid child True);
        ret (if a_result a = child then \<lparr>w_done = True, w_valid = True, w_status = a_status a\<rparr>
             else if failed a \<and> a_errno a \<noteq> EINTR then c\<lparr>w_done := True\<rparr>
             else c) })"

fun poll_attempts :: "world \<Rightarrow> int \<Rightarrow> int \<Rightarrow> nat \<Rightarrow> listing \<Rightarrow> child_wait \<Rightarrow> ('s, os_event, listing \<times> child_wait) comp" where
  "poll_attempts w fd child 0 l c = ret (l, c)"
| "poll_attempts w fd child (Suc n) l c =
     (if w_done c \<and> l_end_of_file l then ret (l, c)
      else do {
        l \<leftarrow> drain w fd MAXIMUM_CAPACITY l;
        c \<leftarrow> poll_child w child c;
        cond (\<not> w_done c \<or> \<not> l_end_of_file l) (os_do w (Poll fd 10));
        poll_attempts w fd child n l c })"

definition manager_child :: "world \<Rightarrow> int \<times> int \<Rightarrow> ('s, os_event, ending + 'a) comp" where
  "manager_child w p = do {
     null \<leftarrow> os_call w OpenNull;
     os_do w (Close (fst p));
     e \<leftarrow> (if failed null then ret (Some (a_errno null))
          else redirect w [(a_result null, 0), (snd p, 1), (a_result null, 2)]);
     if e \<noteq> None then quit 127
     else do {
       cond (a_result null > 2) (os_do w (Close (a_result null)));
       cond (snd p > 2) (os_do w (Close (snd p)));
       a \<leftarrow> os_call w (Exec SYSTEMCTL [SYSTEMCTL, ''--user'', ''show-environment'']);
       if failed a then quit 127
       else ret (Inl (Replaced SYSTEMCTL [SYSTEMCTL, ''--user'', ''show-environment''])) } }"

definition collect_listing :: "world \<Rightarrow> int \<Rightarrow> int \<Rightarrow> ('s, os_event, byte list option) comp" where
  "collect_listing w fd child = do {
     r \<leftarrow> poll_attempts w fd child 100 \<lparr>l_output = [], l_capacity = 4096, l_end_of_file = False\<rparr>
            \<lparr>w_done = False, w_valid = False, w_status = 0\<rparr>;
     os_do w (Close fd);
     c \<leftarrow> (if w_done (snd r) then ret (snd r)
           else do {
             os_do w (Kill child SIGKILL);
             a \<leftarrow> os_call w (Waitpid child False);
             ret \<lparr>w_done = a_result a = child, w_valid = a_result a = child, w_status = a_status a\<rparr> });
     ret (if \<not> w_done c \<or> \<not> w_valid c \<or> \<not> l_end_of_file (fst r) \<or> \<not> wifexited (w_status c)
             \<or> wexitstatus (w_status c) \<noteq> 0
          then None else Some (l_output (fst r))) }"

definition read_manager_environment :: "world \<Rightarrow> ('s, os_event, ending + byte list option) comp" where
  "read_manager_environment w = do {
     p \<leftarrow> os_call w Pipe2;
     if failed p then ret (Inr None)
     else do {
       f \<leftarrow> os_call w Fork;
       if failed f
       then do {
         os_do w (Close (fst (a_fds p)));
         os_do w (Close (snd (a_fds p)));
         ret (Inr None) }
       else if a_result f = 0 then manager_child w (a_fds p)
       else do {
         os_do w (Close (snd (a_fds p)));
         n \<leftarrow> os_call w (Nonblock (fst (a_fds p)));
         m \<leftarrow> (if failed n then ret n else os_call w (Malloc 4096));
         if failed n \<or> failed m
         then do {
           os_do w (Close (fst (a_fds p)));
           os_do w (Kill (a_result f) SIGKILL);
           os_do w (Waitpid (a_result f) False);
           ret (Inr None) }
         else lift (collect_listing w (fst (a_fds p)) (a_result f)) } } }"

section \<open>The activation environment\<close>

text \<open>\<open>waited\<close> is the result of the last \<open>waitpid\<close>, with the status that came with it.\<close>

fun update_attempts :: "world \<Rightarrow> int \<Rightarrow> nat \<Rightarrow> ('s, os_event, answer option) comp" where
  "update_attempts w child 0 = ret None"
| "update_attempts w child (Suc n) = do {
     a \<leftarrow> os_call w (Waitpid child True);
     if failed a \<and> a_errno a = EINTR then update_attempts w child n
     else if a_result a = 0 then do { os_do w (Usleep 10000); update_attempts w child n }
     else ret (Some a) }"

definition update_child :: "world \<Rightarrow> string list \<Rightarrow> ('s, os_event, ending + 'a) comp" where
  "update_child w names = do {
     null \<leftarrow> redirect_null w (\<lambda>null. [(null, 0), (null, 1), (null, 2)]);
     case null of
       Inl e \<Rightarrow> quit 127
     | Inr null_fd \<Rightarrow> do {
         cond (null_fd > 2) (os_do w (Close null_fd));
         m \<leftarrow> os_call w (Malloc (8 * (length names + 3)));
         if failed m then quit 127
         else do {
           a \<leftarrow> os_call w (Exec DBUS_UPDATE (DBUS_UPDATE # ''--systemd'' # names));
           if failed a then quit 127
           else ret (Inl (Replaced DBUS_UPDATE (DBUS_UPDATE # ''--systemd'' # names))) } } }"

definition update_dbus_environment :: "world \<Rightarrow> string list \<Rightarrow> ('s, os_event, ending + int) comp" where
  "update_dbus_environment w names =
     (if names = [] then ret (Inr 0)
      else do {
        f \<leftarrow> os_call w Fork;
        if failed f
        then do { os_do w (Complain ''could not update guest D-Bus activation environment''); ret (Inr (- 1)) }
        else if a_result f = 0 then update_child w names
        else do {
          waited \<leftarrow> update_attempts w (a_result f) 100;
          waited \<leftarrow> (case waited of Some a \<Rightarrow> ret a
                    | None \<Rightarrow> do { os_do w (Kill (a_result f) SIGKILL); os_call w (Waitpid (a_result f) False) });
          if a_result waited \<noteq> a_result f \<or> \<not> wifexited (a_status waited) \<or> wexitstatus (a_status waited) \<noteq> 0
          then do { os_do w (Complain ''could not update guest D-Bus activation environment''); ret (Inr (- 1)) }
          else ret (Inr 0) } })"

section \<open>The application and its monitor\<close>

text \<open>The name a login shell gets: a dash and the last component of its path.\<close>

definition login_name :: "string \<Rightarrow> string" where
  "login_name shell = CHR ''-'' # rev (takeWhile (\<lambda>c. c \<noteq> CHR ''/'') (rev shell))"

definition execute_application :: "world \<Rightarrow> string list \<Rightarrow> ('s, os_event, ending) comp" where
  "execute_application w command = do {
     a \<leftarrow> (case command of
            path # _ \<Rightarrow> do { a \<leftarrow> os_call w (Exec path command); ret (Some (a, path, command)) }
          | [] \<Rightarrow> do {
              account \<leftarrow> os_call w Getpwuid;
              let shell = (if \<not> failed account \<and> take 1 (a_text account) = ''/'' then a_text account else ''/bin/sh'');
              m \<leftarrow> os_call w (Malloc (length (login_name shell) + 1));
              if failed m then ret None
              else do { a \<leftarrow> os_call w (Exec shell [login_name shell]); ret (Some (a, shell, [login_name shell])) } });
     case a of None \<Rightarrow> ret (ExitWith 127)
     | Some (a, path, argv) \<Rightarrow>
         if \<not> failed a then ret (Replaced path argv)
         else do {
           os_do w (Complain ''could not start application'');
           ret (ExitWith (if a_errno a = ENOENT then 127 else 126)) } }"

text \<open>The signal handler: the child to signal, or the request that the loop looks at.\<close>

definition forward_term :: "int \<Rightarrow> int \<Rightarrow> int \<Rightarrow> (int \<times> int) option \<times> int" where
  "forward_term forwarded_child termination_requested signum =
     (if forwarded_child > 0 then (Some (forwarded_child, signum), termination_requested) else (None, signum))"

fun ignore_signals :: "world \<Rightarrow> int list \<Rightarrow> ('s, os_event, bool) comp" where
  "ignore_signals w [] = ret True"
| "ignore_signals w (n # ns) = do {
     a \<leftarrow> os_call w (SetSignal n True);
     if failed a then ret False else ignore_signals w ns }"

definition configure_supervisor_signals :: "world \<Rightarrow> ('s, os_event, bool) comp" where
  "configure_supervisor_signals w = do {
     a \<leftarrow> os_call w (SetSignal SIGTERM False);
     if failed a then ret False else ignore_signals w [SIGHUP, SIGINT, SIGQUIT] }"

record facts =
  x_alloc :: "nat \<Rightarrow> bool"
  x_setenv :: "string \<Rightarrow> bool"
  x_write :: write_answer
  x_rewrite :: write_answer
  x_probe :: probe
  x_files :: "string \<Rightarrow> string option"
  x_own_group :: int
  x_self :: int

text \<open>\<open>release_agent_reference\<close> with its calls: the state is read and written under the lock, and the
  last holder terminates the agent.\<close>

definition release_reference :: "world \<Rightarrow> reference \<Rightarrow> ('s, os_event, reference) comp" where
  "release_reference w r =
     (if \<not> r_held r \<or> r_pid r \<le> 0 then ret r
      else do {
        a \<leftarrow> os_call w LockState;
        let (r', content, killed) = release_agent_reference (\<not> failed a) (a_write a) r (a_text a);
        cond (content \<noteq> a_text a) (os_do w (SaveState content));
        each (terminate_agent w) killed;
        ret r' })"

fun wait_loop :: "world \<Rightarrow> int \<Rightarrow> int \<Rightarrow> answer list \<Rightarrow> bool \<Rightarrow> ('s, os_event, bool \<times> int) comp" where
  "wait_loop w application descriptor [] reported = ret (reported, 0)"
| "wait_loop w application descriptor (a # as) reported = do {
     emit (Waitpid (- 1) False, a);
     if failed a
     then (if a_errno a = EINTR \<and> a_term a = 0 then wait_loop w application descriptor as reported
           else ret (reported, a_term a))
     else do {
       reported \<leftarrow> (if a_result a = application \<and> \<not> reported
                    then do {
                      os_do w (ReportStatus descriptor (a_status a));
                      os_do w (Close descriptor);
                      detach_terminal w;
                      ret True }
                    else ret reported);
       if a_term a \<noteq> 0 then ret (reported, a_term a)
       else wait_loop w application descriptor as reported } }"

definition give_up :: "world \<Rightarrow> reference \<Rightarrow> int \<Rightarrow> ('s, os_event, ending) comp" where
  "give_up w agent descriptor = do {
     os_do w (ReportStatus descriptor (push_bit 8 1));
     os_do w (Close descriptor);
     _ \<leftarrow> release_reference w agent;
     ret (ExitWith 1) }"

definition monitor_parent :: "world \<Rightarrow> facts \<Rightarrow> answer list \<Rightarrow> int \<Rightarrow> reference \<Rightarrow> int \<Rightarrow> ('s, os_event, ending) comp" where
  "monitor_parent w x waits application agent descriptor = do {
     os_do w (SetSignal SIGPIPE True);
     r \<leftarrow> wait_loop w application descriptor waits False;
     cond (snd r \<noteq> 0)
       (each (\<lambda>g. os_do w (Kill (- g) (snd r)))
          (terminate_adopted_groups (x_files x) (p_getpgid (x_probe x)) (x_own_group x) (x_self x)));
     cond (\<not> fst r) (do {
       os_do w (ReportStatus descriptor (push_bit 8 1));
       os_do w (Close descriptor) });
     _ \<leftarrow> release_reference w agent;
     ret (ExitWith 0) }"

definition monitor_application :: "world \<Rightarrow> facts \<Rightarrow> answer list \<Rightarrow> string list \<Rightarrow> reference \<Rightarrow> int \<Rightarrow> ('s, os_event, ending) comp" where
  "monitor_application w x waits command agent descriptor = do {
     p \<leftarrow> os_call w (Prctl ''PR_SET_CHILD_SUBREAPER'');
     if failed p then give_up w agent descriptor
     else do {
       f \<leftarrow> os_call w Fork;
       if failed f then give_up w agent descriptor
       else if a_result f = 0 then execute_application w command
       else do {
         ok \<leftarrow> configure_supervisor_signals w;
         if \<not> ok
         then do { os_do w (Kill (a_result f) SIGTERM); give_up w agent descriptor }
         else monitor_parent w x waits (a_result f) agent descriptor } } }"

section \<open>The status on its way to the launcher\<close>

text \<open>\<open>int\<close> in memory, least significant byte first; \<open>report_status\<close> and \<open>read_status\<close> repeat short
  writes and reads as the loops of \<open>protocol.h\<close> do, and stop at the first error.\<close>

definition int_bytes :: "32 word \<Rightarrow> byte list" where
  "int_bytes x = rev (htonl_bytes x)"

definition bytes_int :: "byte list \<Rightarrow> 32 word" where
  "bytes_int bs = ntohl_bytes (rev bs)"

definition report_status :: "32 word \<Rightarrow> sock \<Rightarrow> sock" where
  "report_status status s = snd (write_sock (int_bytes status) s)"

definition read_status :: "sock \<Rightarrow> 32 word option" where
  "read_status s = (case fst (read_sock 4 s) of Done bs \<Rightarrow> Some (bytes_int bs) | _ \<Rightarrow> None)"

section \<open>The arguments and the whole launcher\<close>

record config =
  o_agent :: "string option"
  o_names :: "(string \<times> bool) list"
  o_steam :: bool

fun parse_arguments :: "string list \<Rightarrow> config \<Rightarrow> string + config \<times> string list" where
  "parse_arguments [] c = Inl ''expected -- before the command''"
| "parse_arguments (arg # args) c =
     (if arg = ''--'' then Inr (c, args)
      else if arg = ''--agent''
      then (case args of [] \<Rightarrow> Inl ''--agent requires a path''
            | path # args \<Rightarrow> parse_arguments args (c\<lparr>o_agent := Some path\<rparr>))
      else if arg = ''--dbus-env'' \<or> arg = ''--dbus-env-path''
      then (case args of [] \<Rightarrow> Inl (arg @ '' requires a variable name'')
            | name # args \<Rightarrow> parse_arguments args (c\<lparr>o_names := o_names c @ [(name, arg = ''--dbus-env-path'')]\<rparr>))
      else if arg = ''--launch-id''
      then (case args of [] \<Rightarrow> Inl ''--launch-id requires a value''
            | _ # args \<Rightarrow> parse_arguments args c)
      else if arg = ''SteamLaunch'' \<or> take 6 arg = ''AppId=''
      then parse_arguments args (c\<lparr>o_steam := True\<rparr>)
      else Inl (''unknown option: '' @ arg))"

text \<open>Acquiring and finishing a reference, with the calls around the state file. The result of the
  first is \<open>None\<close> in the supervisor while its agent runs; else the reference, the ready descriptor and
  the contents of the state file.\<close>

definition acquire_reference :: "world \<Rightarrow> facts \<Rightarrow> arrival list \<Rightarrow> string option \<Rightarrow>
    ('s, os_event, (ending + reference \<times> int \<times> string) option) comp" where
  "acquire_reference w x output agent =
     (if agent = None then ret (Some (Inr (no_reference, - 1, [])))
      else do {
        a \<leftarrow> os_call w LockState;
        let q = (\<lambda>started. \<lparr>q_agent = True, q_lock = \<not> failed a, q_probe = x_probe x, q_write = a_write a, q_started = started\<rparr>);
        let (r, content, starting) = acquire_agent_reference (q 1) (a_text a);
        cond (failed a) (os_do w (Complain ''could not lock shared polkit agent state''));
        cond (content \<noteq> a_text a) (os_do w (SaveState content));
        if \<not> starting then ret (Some (Inr (r, - 1, content)))
        else do {
          s \<leftarrow> start_agent w output agent;
          ret (case s of None \<Rightarrow> None
               | Some (Inl e) \<Rightarrow> Some (Inl e)
               | Some (Inr (pid, ready)) \<Rightarrow>
                   Some (Inr (fst (acquire_agent_reference (q pid) (a_text a)), ready, content))) } })"

definition finish_reference :: "world \<Rightarrow> facts \<Rightarrow> reference \<Rightarrow> int \<Rightarrow> string \<Rightarrow> ('s, os_event, reference) comp" where
  "finish_reference w x r ready content =
     (if \<not> r_starting r then ret r
      else do {
        started \<leftarrow> finish_agent_start w (r_pid r) ready;
        let (r', content', killed) = finish_agent_reference
              \<lparr>f_alive = started > 0, f_start = p_start (x_probe x) started, f_write = x_write x, f_rewrite = x_rewrite x\<rparr> r content;
        cond (content' \<noteq> content) (os_do w (SaveState content'));
        each (stop_agent w) killed;
        ret r' })"

definition listing_text :: "byte list \<Rightarrow> string" where
  "listing_text bs = takeWhile (\<lambda>c. c \<noteq> CHR 0x00) (map (\<lambda>b. char_of (unat b)) bs)"

definition launch_application :: "world \<Rightarrow> facts \<Rightarrow> answer list \<Rightarrow> string list \<Rightarrow> reference \<Rightarrow> (environment, os_event, ending) comp" where
  "launch_application w x waits command r = do {
     p \<leftarrow> os_call w Pipe2;
     if failed p then do { _ \<leftarrow> release_reference w r; ret (ExitWith 1) }
     else do {
       f \<leftarrow> os_call w Fork;
       if failed f
       then do {
         os_do w (Close (fst (a_fds p)));
         os_do w (Close (snd (a_fds p)));
         _ \<leftarrow> release_reference w r;
         ret (ExitWith 1) }
       else if a_result f = 0
       then do {
         os_do w (Close (fst (a_fds p)));
         monitor_application w x waits command r (snd (a_fds p)) }
       else do {
         os_do w (Close (snd (a_fds p)));
         ok \<leftarrow> configure_supervisor_signals w;
         status \<leftarrow> (if \<not> ok then ret None
                   else do {
                     a \<leftarrow> os_call w (Read (fst (a_fds p)) 4);
                     ret (if failed a then None else Some (a_status a)) });
         case status of
           None \<Rightarrow> do {
             os_do w (Kill (a_result f) SIGTERM);
             os_do w (Close (fst (a_fds p)));
             ret (ExitWith 1) }
         | Some status \<Rightarrow> do {
             os_do w (Close (fst (a_fds p)));
             os_do w (Waitpid (a_result f) True);
             ret (ExitWith (status_code status)) } } } }"

definition launcher_main :: "world \<Rightarrow> facts \<Rightarrow> arrival list \<Rightarrow> answer list \<Rightarrow> string list \<Rightarrow>
    (environment, os_event, ending option) comp" where
  "launcher_main w x output waits args = do {
     m \<leftarrow> os_call w (Malloc (9 * (length args + 1)));
     if failed m then ret (Some (ExitWith 1))
     else case parse_arguments args \<lparr>o_agent = None, o_names = [], o_steam = False\<rparr> of
       Inl complaint \<Rightarrow> do { os_do w (Complain complaint); ret (Some (ExitWith 2)) }
     | Inr (c, command) \<Rightarrow> do {
         cond (o_steam c) (os_do w (Prctl ''PR_SET_NAME reaper''));
         manager \<leftarrow> (if list_ex snd (o_names c) then read_manager_environment w else ret (Inr None));
         case manager of Inl e \<Rightarrow> ret (Some e)
         | Inr listing \<Rightarrow> do {
             modify (\<lambda>env. snd (merge_manager_path_environment (x_alloc x) (x_setenv x)
                       (map_option listing_text listing) (o_names c) env));
             acquired \<leftarrow> acquire_reference w x output (o_agent c);
             case acquired of None \<Rightarrow> ret None
             | Some (Inl e) \<Rightarrow> ret (Some e)
             | Some (Inr (r, ready, content)) \<Rightarrow> do {
                 updated \<leftarrow> update_dbus_environment w (map fst (o_names c));
                 case updated of Inl e \<Rightarrow> ret (Some e)
                 | Inr _ \<Rightarrow> do {
                     r \<leftarrow> finish_reference w x r ready content;
                     e \<leftarrow> launch_application w x waits command r;
                     ret (Some e) } } } } }"

end
