(* ===== verification/Launcher_Safety.thy ===== *)
theory Launcher_Safety
  imports Launcher
begin

text \<open>
  The properties of the launcher: the exit status on its way through the pipe, the monitor's single
  report and single release, the grammar of the command line, and the bounds of the manager's
  environment. \<open>quiet\<close> computations (no report, no lock, no fork) are recognised by rules, and
  \<open>emits_calls\<close> step through calls one at a time.
\<close>

section \<open>The status reaches the launcher unchanged\<close>

lemma bytes_int_int_bytes [simp]: "bytes_int (int_bytes x) = x"
  by (simp add: bytes_int_def int_bytes_def)

lemma length_int_bytes [simp]: "length (int_bytes x) = 4"
  by (simp add: int_bytes_def)

lemma status_of_exit: "n < 256 \<Longrightarrow> status_code (push_bit 8 (of_nat n)) = int n"
proof -
  assume "n < 256"
  then have "\<forall>m \<in> {..<256}. status_code (push_bit 8 (of_nat m)) = int m \<Longrightarrow> ?thesis" by simp
  moreover have "list_all (\<lambda>m. status_code (push_bit 8 (of_nat m)) = int m) [0..<256]" by code_simp
  ultimately show ?thesis by (auto simp: list_all_iff)
qed

lemma status_of_signal: "0 < n \<Longrightarrow> n < 127 \<Longrightarrow> core \<in> {0, 128} \<Longrightarrow> status_code (of_nat n + core) = 128 + int n"
proof -
  assume a: "0 < n" "n < 127" "core \<in> {0, 128}"
  have "list_all (\<lambda>m. status_code (of_nat m + 0) = 128 + int m \<and> status_code (of_nat m + 128) = 128 + int m) [1..<127]"
    by code_simp
  then show ?thesis using a by (auto simp: list_all_iff)
qed

lemma status_code_range: "0 \<le> status_code st \<and> status_code st \<le> 255"
proof -
  have "uint (drop_bit 8 (st AND 0xFF00)) \<le> 255"
  proof -
    have "drop_bit 8 (st AND 0xFF00) = drop_bit 8 st AND 0xFF" by (rule bit_word_eqI) (auto simp: bit_simps)
    then have "drop_bit 8 (st AND 0xFF00) \<le> 0xFF" by (simp add: word_and_le1)
    then have "uint (drop_bit 8 (st AND 0xFF00)) \<le> uint (0xFF :: 32 word)" by (simp only: word_le_def)
    then show ?thesis by simp
  qed
  moreover have "uint (st AND 0x7F) \<le> 127"
  proof -
    have "st AND 0x7F \<le> 0x7F" by (rule word_and_le1)
    then have "uint (st AND 0x7F) \<le> uint (0x7F :: 32 word)" by (simp only: word_le_def)
    then show ?thesis by simp
  qed
  moreover have "0 \<le> uint (drop_bit 8 (st AND 0xFF00))" "0 \<le> uint (st AND 0x7F)" by simp_all
  ultimately show ?thesis unfolding status_code_def wexitstatus_def wtermsig_def by auto
qed

lemma read_all_eof:
  "healthy es \<Longrightarrow> length (in_bytes es) < n \<Longrightarrow> fst (spaces_read_all n acc (es @ [Eof])) = Failed"
proof (induction n acc es rule: spaces_read_all.induct)
  case (2 n acc)
  then show ?case by simp
next
  case (6 n acc b bs es)
  then show ?case by (auto split: list.splits)
qed auto

text \<open>The exit status survives its way from the monitor to the launcher: if the launcher reads what the
  monitor wrote, with short writes and reads and interruptions of any kind, it gets the same wait
  status, and exits with the application's exit code or with 128 plus its signal, always a number
  from 0 to 255; a report cut short by the end of the pipe is never taken for a status.\<close>

theorem status_delivered:
  assumes "WrErr \<notin> set (acceptances a)" "4 \<le> progress (acceptances a)" "sent a = []"
    and "healthy (arrivals b)" "in_bytes (arrivals b) = sent (report_status status a)"
  shows "read_status b = Some status \<and> 0 \<le> status_code status \<and> status_code status \<le> 255
     \<and> (\<forall>n < 256. status = push_bit 8 (of_nat n) \<longrightarrow> status_code status = int n)
     \<and> (\<forall>n < 127. 0 < n \<and> (status = of_nat n \<or> status = of_nat n + 128) \<longrightarrow> status_code status = 128 + int n)
     \<and> (\<forall>es. healthy es \<and> length (in_bytes es) < 4 \<longrightarrow> read_status (b\<lparr>arrivals := es @ [Eof]\<rparr>) = None)"
proof -
  obtain as' where w: "spaces_write_all (int_bytes status) (acceptances a) (sent a) = (Done (), as', sent a @ int_bytes status)"
    using write_all_ok [OF assms(1), of "int_bytes status" "sent a"] assms(2) by auto
  then have bytes: "in_bytes (arrivals b) = int_bytes status"
    using assms(3,5) by (simp add: report_status_def write_sock_def)
  obtain es' where "spaces_read_all 4 [] (arrivals b) = (Done (take 4 (int_bytes status)), es')"
    using read_all_healthy [OF assms(4), of 4 "[]"] bytes by auto
  then have "read_status b = Some status" by (simp add: read_status_def read_sock_def)
  moreover have "read_status (b\<lparr>arrivals := es @ [Eof]\<rparr>) = None" if "healthy es" "length (in_bytes es) < 4" for es
    using read_all_eof [OF that, of "[]"]
    by (auto simp: read_status_def read_sock_def split: prod.splits outcome.splits)
  ultimately show ?thesis
    using status_code_range [of status] status_of_exit status_of_signal [of _ 0] status_of_signal [of _ 128] by auto
qed

theorem status_delivered_witness:
  "read_status \<lparr>arrivals = [Data 0 [3], Intr, Data 0 [], Data 0 []], acceptances = [], sent = []\<rparr> = Some (push_bit 8 3)
   \<and> status_code (push_bit 8 3) = 3"
proof -
  let ?a = "\<lparr>arrivals = [], acceptances = [Takes 1, WrIntr, Takes 2, Takes 1, Takes 1], sent = []\<rparr>"
  let ?b = "\<lparr>arrivals = [Data 0 [3], Intr, Data 0 [], Data 0 []], acceptances = [], sent = []\<rparr>"
  have "in_bytes (arrivals ?b) = sent (report_status (push_bit 8 (of_nat 3)) ?a)" by code_simp
  moreover have "status_code (push_bit 8 3) = 3" using status_of_exit [of 3] by simp
  ultimately show ?thesis using status_delivered [of ?a ?b "push_bit 8 (of_nat 3)"] by simp
qed

section \<open>The monitor reports once and releases once\<close>

definition reports :: "os_event list \<Rightarrow> (int \<times> 32 word) list" where
  "reports es = concat (map (\<lambda>c. case c of ReportStatus d st \<Rightarrow> [(d, st)] | _ \<Rightarrow> []) (calls es))"

definition locks :: "os_event list \<Rightarrow> nat" where
  "locks es = count_list (calls es) LockState"

definition forks :: "os_event list \<Rightarrow> int list" where
  "forks es = map (\<lambda>e. a_result (snd e)) (filter (\<lambda>e. fst e = Fork) es)"

lemma trace_simps [simp]:
  "reports [] = []" "reports ((c, a) # es) = (case c of ReportStatus d st \<Rightarrow> [(d, st)] | _ \<Rightarrow> []) @ reports es"
  "reports (es @ fs) = reports es @ reports fs"
  "locks [] = 0" "locks ((c, a) # es) = (if c = LockState then 1 else 0) + locks es" "locks (es @ fs) = locks es + locks fs"
  "forks [] = []" "forks ((c, a) # es) = (if c = Fork then [a_result a] else []) @ forks es" "forks (es @ fs) = forks es @ forks fs"
  by (simp_all add: reports_def locks_def forks_def split: syscall.split)

text \<open>Computations that neither report, nor lock the state file, nor fork.\<close>

definition silent :: "os_event list \<Rightarrow> bool" where
  "silent es = (reports es = [] \<and> locks es = 0 \<and> forks es = [])"

definition quiet :: "('s, os_event, 'a) comp \<Rightarrow> bool" where
  "quiet m = (\<forall>s. emits m s (\<lambda>_ _ es. silent es))"

fun tame :: "syscall \<Rightarrow> bool" where
  "tame Fork = False" | "tame LockState = False" | "tame (ReportStatus d st) = False" | "tame _ = True"

lemma silent_append [simp]: "silent (es @ fs) \<longleftrightarrow> silent es \<and> silent fs"
  by (auto simp: silent_def)

lemma quiet_call: "tame c \<Longrightarrow> quiet (os_call w c)"
  by (cases c) (auto simp: quiet_def silent_def emits_def wp_simps)

lemma quiet_do: "tame c \<Longrightarrow> quiet (os_do w c)"
  by (cases c) (auto simp: quiet_def silent_def emits_def wp_simps)

lemma quiet_ret: "quiet (ret a)"
  by (auto simp: quiet_def silent_def intro: emits_return)

lemma quiet_bind: "quiet m \<Longrightarrow> (\<And>a. quiet (f a)) \<Longrightarrow> quiet (State_Monad.bind m f)"
  unfolding quiet_def by (auto intro!: emits_bind [where P = "\<lambda>_ _ es. silent es"] intro: emits_mono)

lemma quiet_cond: "quiet m \<Longrightarrow> quiet (cond b m)"
  by (simp add: cond_def quiet_ret)

lemma quiet_if: "(b \<Longrightarrow> quiet m) \<Longrightarrow> (\<not> b \<Longrightarrow> quiet n) \<Longrightarrow> quiet (if b then m else n)"
  by simp

lemmas quiet_intros = quiet_call quiet_do quiet_ret quiet_bind quiet_cond quiet_if

lemma quiet_each: "(\<And>x. quiet (f x)) \<Longrightarrow> quiet (each f xs)"
  by (induction xs) (auto intro: quiet_intros)

lemma quiet_detach: "quiet (detach_terminal w)"
  unfolding detach_terminal_def by (intro quiet_intros) simp_all

lemma quiet_ignore: "quiet (ignore_signals w ns)"
  by (induction w ns rule: ignore_signals.induct) (auto intro!: quiet_intros)

lemma quiet_configure: "quiet (configure_supervisor_signals w)"
  unfolding configure_supervisor_signals_def by (intro quiet_intros quiet_ignore) simp_all

lemma quiet_terminate_attempts: "quiet (terminate_attempts w agent n)"
  by (induction n) (auto intro!: quiet_intros)

lemma quiet_terminate: "quiet (terminate_agent w agent)"
  unfolding terminate_agent_def by (intro quiet_intros quiet_terminate_attempts) simp_all


lemma quiet_emits: "quiet m \<Longrightarrow> emits m s (\<lambda>_ _ es. silent es)"
  by (simp add: quiet_def)

definition held_reference :: "reference \<Rightarrow> bool" where
  "held_reference r = (r_held r \<and> r_pid r > 0)"

lemma release_reference_emits:
  "emits (release_reference w r) s (\<lambda>_ _ es. reports es = [] \<and> forks es = [] \<and>
     locks es = (if held_reference r then 1 else 0))"
proof (cases "held_reference r")
  case False
  then show ?thesis by (auto simp: release_reference_def held_reference_def intro: emits_return)
next
  case True
  have q: "quiet (let (r', content, killed) = x in
      do { cond (content \<noteq> t) (os_do w (SaveState content)); each (terminate_agent w) killed; ret r' })" for x t
    by (cases x) (auto intro!: quiet_intros quiet_each quiet_terminate)
  have "\<not> (\<not> r_held r \<or> r_pid r \<le> 0)" using True by (simp add: held_reference_def)
  then show ?thesis
    unfolding release_reference_def if_not_P [OF \<open>\<not> (\<not> r_held r \<or> r_pid r \<le> 0)\<close>]
  proof (intro emits_bind [where P = "\<lambda>a _ es. es = [(LockState, a)]"], goal_cases)
    case 1
    show ?case by (simp add: emits_def wp_simps)
  next
    case (2 a s' es)
    show ?case by (rule emits_mono [OF quiet_emits [OF q]]) (use 2 True in \<open>simp add: silent_def\<close>)
  qed
qed

text \<open>What the launcher is told: the status of the application if it is reaped before the loop is left,
  else the status of a process that exited with 1.\<close>

fun final_report :: "int \<Rightarrow> answer list \<Rightarrow> 32 word" where
  "final_report application [] = push_bit 8 1"
| "final_report application (a # as) =
     (if failed a then (if a_errno a = EINTR \<and> a_term a = 0 then final_report application as else push_bit 8 1)
      else if a_result a = application then a_status a
      else if a_term a \<noteq> 0 then push_bit 8 1
      else final_report application as)"

lemma report_once_emits:
  "emits (do { os_do w (ReportStatus d st); os_do w (Close d); detach_terminal w; ret True }) s
     (\<lambda>r _ es. r \<and> reports es = [(d, st)] \<and> locks es = 0 \<and> forks es = [])"
proof (rule emits_bind [where P = "\<lambda>_ _ es. reports es = [(d, st)] \<and> locks es = 0 \<and> forks es = []"], goal_cases)
  case 1
  show ?case by (simp add: emits_def wp_simps)
next
  case (2 a s' es)
  have "emits (do { os_do w (Close d); detach_terminal w; ret True }) s' (\<lambda>r _ es. r \<and> silent es)"
    by (rule emits_bind [OF quiet_emits], rule quiet_do, simp,
        rule emits_bind [OF quiet_emits], rule quiet_detach, auto simp: silent_def intro: emits_return)
  then show ?case by (rule emits_mono) (use 2 in \<open>simp add: silent_def\<close>)
qed

lemma wait_loop_emits:
  fixes s :: "('s, os_event) mach"
  shows "emits (wait_loop w application d as reported) s (\<lambda>r _ es. locks es = 0 \<and> forks es = [] \<and>
     (reported \<longrightarrow> fst r \<and> reports es = []) \<and>
     (\<not> reported \<longrightarrow> (if fst r then reports es = [(d, final_report application as)]
                  else reports es = [] \<and> final_report application as = push_bit 8 1)))"
proof (induction as arbitrary: reported s)
  case Nil
  show ?case by (auto intro!: emits_return)
next
  case (Cons a as)
  show ?case unfolding wait_loop.simps
  proof (rule emits_bind [where P = "\<lambda>_ _ es. es = [(Waitpid (- 1) False, a)]"], goal_cases)
    case 1
    show ?case by (simp add: emits_def wp_simps)
  next
    case (2 u s' es)
    show ?case
    proof (cases "failed a")
      case True
      then show ?thesis using 2 by (auto intro!: emits_return emits_mono [OF Cons.IH])
    next
      case alive: False
      show ?thesis
      proof (cases "a_result a = application \<and> \<not> reported")
        case True
        have t: "emits (wait_loop w application d as True) t
            (\<lambda>r _ es. locks es = 0 \<and> forks es = [] \<and> fst r \<and> reports es = [])" for t :: "('s, os_event) mach"
          by (rule emits_mono [OF Cons.IH [of True]]) auto
        show ?thesis unfolding if_not_P [OF alive] if_P [OF True]
        proof (rule emits_bind [OF report_once_emits], goal_cases)
          case (1 r t es')
          show ?case
          proof (cases "a_term a = 0")
            case False
            then show ?thesis using 1 2 alive True by (auto intro!: emits_return)
          next
            case on: True
            have e: "(if a_term a \<noteq> 0 then ret (r, a_term a) else wait_loop w application d as r) = wait_loop w application d as True"
              using on 1 by simp
            show ?thesis unfolding e by (rule emits_mono [OF t]) (use 1 2 alive True in simp)
          qed
        qed
      next
        case False
        show ?thesis unfolding if_not_P [OF alive] if_not_P [OF False]
        proof (rule emits_bind [where P = "\<lambda>r _ es. r = reported \<and> es = []"], goal_cases)
          case 1
          show ?case by (auto intro: emits_return)
        next
          case (2 r t es')
          show ?case
          proof (cases "a_term a = 0")
            case True
            then have e: "(if a_term a \<noteq> 0 then ret (r, a_term a) else wait_loop w application d as r)
                = wait_loop w application d as reported" using 2 by simp
            show ?thesis unfolding e
              by (rule emits_mono [OF Cons.IH [of reported]])
                 (use \<open>es = [(Waitpid (- 1) False, a)]\<close> 2 alive True False in simp)
          qed (use \<open>es = [(Waitpid (- 1) False, a)]\<close> 2 alive False in \<open>auto intro!: emits_return\<close>)
        qed
      qed
    qed
  qed
qed


lemma give_up_emits:
  "emits (give_up w r d) s (\<lambda>e _ es. e = ExitWith 1 \<and> reports es = [(d, push_bit 8 1)] \<and>
     locks es = (if held_reference r then 1 else 0) \<and> forks es = [])"
proof -
  let ?first = "\<lambda>_ _ es. reports es = [(d, push_bit 8 1)] \<and> locks es = 0 \<and> forks es = []"
  have 1: "emits (do { os_do w (ReportStatus d (push_bit 8 1)); os_do w (Close d) }) s ?first"
    by (simp add: emits_def wp_simps)
  have 2: "emits (do { _ \<leftarrow> release_reference w r; ret (ExitWith 1) }) t (\<lambda>e _ es. e = ExitWith 1 \<and> reports es = [] \<and>
      forks es = [] \<and> locks es = (if held_reference r then 1 else 0))" for t
    by (rule emits_bind [OF release_reference_emits]) (auto intro!: emits_return)
  have "emits (do { do { os_do w (ReportStatus d (push_bit 8 1)); os_do w (Close d) };
      _ \<leftarrow> release_reference w r; ret (ExitWith 1) }) s (\<lambda>e _ es. e = ExitWith 1 \<and> reports es = [(d, push_bit 8 1)] \<and>
     locks es = (if held_reference r then 1 else 0) \<and> forks es = [])"
    by (rule emits_bind [OF 1], rule emits_mono [OF 2]) auto
  then show ?thesis by (simp add: give_up_def emits_def wp_simps)
qed

lemma monitor_parent_emits:
  "emits (monitor_parent w x waits application r d) s (\<lambda>e _ es. e = ExitWith 0 \<and>
     reports es = [(d, final_report application waits)] \<and> forks es = [] \<and> locks es = (if held_reference r then 1 else 0))"
  unfolding monitor_parent_def
proof (rule emits_bind [OF quiet_emits [OF quiet_do]], simp, rule emits_bind [OF wait_loop_emits],
    rule emits_bind [OF quiet_emits [OF quiet_cond [OF quiet_each [OF quiet_do]]]], simp, goal_cases)
  case (1 u s1 es1 q s2 es2 v s3 es3)
  note before = this
  show ?case
  proof (rule emits_bind [where P = "\<lambda>_ _ es. reports es = (if fst q then [] else [(d, push_bit 8 1)]) \<and> locks es = 0 \<and> forks es = []"],
      goal_cases)
    case 1
    show ?case by (simp add: emits_def wp_simps)
  next
    case (2 a s' es)
    show ?case
      by (rule emits_bind [OF release_reference_emits], rule emits_return)
         (use 2 before in \<open>auto simp: silent_def split: if_splits\<close>)
  qed
qed

text \<open>C38. The monitor tells the launcher exactly one status and gives its agent reference back exactly
  once, whatever fails: on every run of the monitor process itself, one status is reported on the
  descriptor it was given (the application's, if it was reaped before the monitor left its loop,
  otherwise an exit with 1), the state file is locked for one release if a reference is held and
  not at all otherwise, one application at most is forked, and the process ends with 0 or 1.\<close>

theorem monitor_reports_once:
  "emits (monitor_application w x waits command r d) s (\<lambda>e _ es. 0 \<in> set (forks es) \<or>
     (length (forks es) \<le> 1 \<and> locks es = (if held_reference r then 1 else 0) \<and>
      (e = ExitWith 1 \<and> reports es = [(d, push_bit 8 1)] \<or>
       e = ExitWith 0 \<and> (\<exists>application. forks es = [application] \<and> reports es = [(d, final_report application waits)]))))"
 
proof -
  let ?quiet = "\<lambda>_ _ es. silent es"
  note quiet_mono = emits_mono [of _ _ ?quiet]
  show ?thesis
    unfolding monitor_application_def
  proof (rule emits_bind [OF quiet_emits [OF quiet_call]], simp, goal_cases)
    case (1 p s1 es1)
    show ?case
    proof (cases "failed p")
      case True
      then show ?thesis using 1 by (auto simp: silent_def intro!: emits_mono [OF give_up_emits])
    next
      case ok: False
      show ?thesis unfolding if_not_P [OF ok]
      proof (rule emits_bind [where P = "\<lambda>f _ es. es = [(Fork, f)]"], goal_cases)
        case 1
        show ?case by (simp add: emits_def wp_simps)
      next
        case (2 f s2 es2)
        show ?case
        proof (cases "failed f \<or> a_result f = 0")
          case True
          have "emits (execute_application w command) s2 (\<lambda>e _ es. True)"
            unfolding execute_application_def by (auto simp: emits_def wp_simps Let_def split: list.split)
          then show ?thesis using True 1 2
            by (auto simp: silent_def intro!: emits_mono [OF give_up_emits] elim: emits_mono)
        next
          case False
          then have parent: "\<not> failed f" "a_result f \<noteq> 0" by auto
          show ?thesis unfolding if_not_P [OF parent(1)] if_not_P [OF parent(2)]
          proof (rule emits_bind [OF quiet_emits [OF quiet_configure]], goal_cases)
            case (1 ok s3 es3)
            show ?case
            proof (cases ok)
              case False
              then show ?thesis using \<open>silent es1\<close> 2 1 parent
                by (auto simp: silent_def intro!: emits_bind [OF quiet_emits [OF quiet_do]] emits_mono [OF give_up_emits])
            next
              case True
              then show ?thesis using \<open>silent es1\<close> 2 1 parent
                by (auto simp: silent_def intro!: emits_mono [OF monitor_parent_emits])
            qed
          qed
        qed
      qed
    qed
  qed
qed

section \<open>The command line\<close>

datatype option_word = Agent string | Env string | EnvPath string | LaunchId string | Steam | AppId string

primrec render :: "option_word \<Rightarrow> string list" where
  "render (Agent path) = [''--agent'', path]"
| "render (Env name) = [''--dbus-env'', name]"
| "render (EnvPath name) = [''--dbus-env-path'', name]"
| "render (LaunchId i) = [''--launch-id'', i]"
| "render Steam = [''SteamLaunch'']"
| "render (AppId i) = [''AppId='' @ i]"

primrec apply_option :: "option_word \<Rightarrow> config \<Rightarrow> config" where
  "apply_option (Agent path) c = c\<lparr>o_agent := Some path\<rparr>"
| "apply_option (Env name) c = c\<lparr>o_names := o_names c @ [(name, False)]\<rparr>"
| "apply_option (EnvPath name) c = c\<lparr>o_names := o_names c @ [(name, True)]\<rparr>"
| "apply_option (LaunchId i) c = c"
| "apply_option Steam c = c\<lparr>o_steam := True\<rparr>"
| "apply_option (AppId i) c = c\<lparr>o_steam := True\<rparr>"

definition command_line :: "option_word list \<Rightarrow> string list \<Rightarrow> string list" where
  "command_line options command = concat (map render options) @ ''--'' # command"

lemma command_line_simps:
  "command_line [] command = ''--'' # command"
  "command_line (x # options) command = render x @ command_line options command"
  by (simp_all add: command_line_def)

lemma parse_render: "parse_arguments (render x @ args) c = parse_arguments args (apply_option x c)"
  by (cases x) simp_all

lemma parse_command_line:
  "parse_arguments (command_line options command) c = Inr (fold apply_option options c, command)"
  by (induction options arbitrary: c) (simp_all add: command_line_simps parse_render)

lemma parse_cases:
  assumes "parse_arguments args c = Inr r"
  obtains (stop) command where "args = ''--'' # command" | (more) x rest where "args = render x @ rest"
proof (cases args)
  case Nil
  then show ?thesis using assms by simp
next
  case (Cons arg args')
  note P = assms [unfolded Cons parse_arguments.simps]
  show ?thesis
  proof (cases "arg \<in> {''--agent'', ''--dbus-env'', ''--dbus-env-path'', ''--launch-id''}")
    case True
    then obtain v rest where v: "args' = v # rest" using P by (cases args') auto
    from True consider "arg = ''--agent''" | "arg = ''--dbus-env''" | "arg = ''--dbus-env-path''" | "arg = ''--launch-id''"
      by blast
    then show ?thesis
    proof cases
      case 1 show ?thesis by (rule more [of "Agent v" rest]) (simp only: Cons v 1 render.simps append.simps)
    next
      case 2 show ?thesis by (rule more [of "Env v" rest]) (simp only: Cons v 2 render.simps append.simps)
    next
      case 3 show ?thesis by (rule more [of "EnvPath v" rest]) (simp only: Cons v 3 render.simps append.simps)
    next
      case 4 show ?thesis by (rule more [of "LaunchId v" rest]) (simp only: Cons v 4 render.simps append.simps)
    qed
  next
    case False
    have "arg = ''--'' \<or> arg = ''SteamLaunch'' \<or> take 6 arg = ''AppId=''"
    proof (rule ccontr)
      assume "\<not> ?thesis"
      with P False show False by simp
    qed
    then consider "arg = ''--''" | "arg = ''SteamLaunch''" | "take 6 arg = ''AppId=''" by blast
    then show ?thesis
    proof cases
      case 1 show ?thesis by (rule stop [of args']) (simp only: Cons 1)
    next
      case 2 show ?thesis by (rule more [of Steam args']) (simp only: Cons 2 render.simps append.simps)
    next
      case 3
      then have "arg = ''AppId='' @ drop 6 arg" by (metis append_take_drop_id)
      then have "arg # args' = render (AppId (drop 6 arg)) @ args'" by (simp only: render.simps append.simps)
      then show ?thesis using more [of "AppId (drop 6 arg)" args'] by (simp only: Cons)
    qed
  qed
qed

lemma parse_sound:
  "parse_arguments args c = Inr (c', command) \<Longrightarrow>
   \<exists>options. args = command_line options command \<and> c' = fold apply_option options c"
proof (induction "length args" arbitrary: args c rule: less_induct)
  case less
  from less.prems show ?case
  proof (cases rule: parse_cases)
    case (stop cmd)
    then show ?thesis using less.prems by (intro exI [of _ "[]"]) (simp add: command_line_simps)
  next
    case (more x rest)
    have "length rest < length args" using more by (cases x) simp_all
    moreover have "parse_arguments rest (apply_option x c) = Inr (c', command)"
      using less.prems more by (simp add: parse_render)
    ultimately obtain options where "rest = command_line options command" "c' = fold apply_option options (apply_option x c)"
      using less.hyps by blast
    then show ?thesis using more by (intro exI [of _ "x # options"]) (simp add: command_line_simps)
  qed
qed

text \<open>The launcher accepts exactly the command lines of its grammar: the arguments are accepted if
  and only if they are a sequence of options, then \<open>--\<close>, then a command; the options take effect in
  order, the last agent wins, every variable is kept in order with its merge flag, and the command is
  passed on verbatim, whatever it looks like.\<close>

theorem arguments_grammar:
  "parse_arguments args c = Inr (c', command) \<longleftrightarrow>
   (\<exists>options. args = command_line options command \<and> c' = fold apply_option options c)"
  using parse_sound parse_command_line by blast

section \<open>The manager's environment is bounded and comes from a command that succeeded\<close>

definition listing_ok :: "listing \<Rightarrow> bool" where
  "listing_ok l \<longleftrightarrow> length (l_output l) + 1 \<le> l_capacity l \<and> l_capacity l \<le> MAXIMUM_CAPACITY \<and> 0 < l_capacity l"

text \<open>Every read asks for at least one byte and for no more than fits, leaving one byte for the terminator.\<close>

definition reads_ok :: "os_event list \<Rightarrow> bool" where
  "reads_ok es \<longleftrightarrow> (\<forall>fd n. Read fd n \<in> set (calls es) \<longrightarrow> 0 < n \<and> n < MAXIMUM_CAPACITY)"

lemma reads_ok_simps [simp]: "reads_ok []" "reads_ok (es @ fs) \<longleftrightarrow> reads_ok es \<and> reads_ok fs"
  "reads_ok ((c, a) # es) \<longleftrightarrow> (\<forall>fd n. c = Read fd n \<longrightarrow> 0 < n \<and> n < MAXIMUM_CAPACITY) \<and> reads_ok es"
  by (auto simp: reads_ok_def)

definition saw_end :: "int \<Rightarrow> os_event list \<Rightarrow> bool" where
  "saw_end fd es \<longleftrightarrow> (\<exists>n a. (Read fd n, a) \<in> set es \<and> a_data a = [] \<and> (a_result a \<ge> 0 \<or> a_errno a \<notin> {EAGAIN, EINTR}))"

lemma saw_end_simps [simp]: "\<not> saw_end fd []" "saw_end fd (es @ fs) \<longleftrightarrow> saw_end fd es \<or> saw_end fd fs"
  "saw_end fd ((c, a) # es) \<longleftrightarrow> (\<exists>n. c = Read fd n) \<and> a_data a = [] \<and> (a_result a \<ge> 0 \<or> a_errno a \<notin> {EAGAIN, EINTR}) \<or> saw_end fd es"
  by (auto simp: saw_end_def)

lemma drain_emits:
  "listing_ok l \<Longrightarrow> l_end_of_file l \<longrightarrow> seen \<Longrightarrow>
   emits (drain w fd n l) s (\<lambda>l' _ es. listing_ok l' \<and> reads_ok es \<and> (l_end_of_file l' \<longrightarrow> seen \<or> saw_end fd es))"
proof (induction n arbitrary: l s)
  case 0
  then show ?case by (auto intro!: emits_return)
next
  case (Suc n)
  show ?case unfolding drain.simps
  proof (rule emits_bind [where P = "\<lambda>room _ es. reads_ok es \<and> (\<forall>l'. room = Some l' \<longrightarrow> listing_ok l' \<and>
      length (l_output l') + 1 < l_capacity l' \<and> l_end_of_file l' = l_end_of_file l)"], goal_cases)
    case 1
    show ?case using Suc.prems by (auto simp: listing_ok_def MAXIMUM_CAPACITY_def emits_def wp_simps)
  next
    case (2 room s1 es1)
    show ?case
    proof (cases room)
      case None
      then show ?thesis using 2 Suc.prems by (auto intro!: emits_return)
    next
      case (Some l')
      then have l': "listing_ok l'" "length (l_output l') + 1 < l_capacity l'" "l_end_of_file l' \<longrightarrow> seen"
        using 2 Suc.prems by auto
      show ?thesis unfolding Some option.case
      proof (rule emits_bind [where P = "\<lambda>a _ es. es = [(Read fd (l_capacity l' - length (l_output l') - 1), a)]"], goal_cases)
        case 1
        show ?case by (simp add: emits_def wp_simps)
      next
        case (2 a s2 es2)
        have r: "reads_ok es2" using 2 l' by (auto simp: listing_ok_def)
        let ?l = "l'\<lparr>l_output := l_output l' @ take (l_capacity l' - length (l_output l') - 1) (a_data a)\<rparr>"
        have ok: "listing_ok ?l" using l' by (auto simp: listing_ok_def)
        show ?case
        proof (cases "a_data a = []")
          case True
          then show ?thesis using 2 r l' Suc.prems \<open>reads_ok es1 \<and> _\<close> by (auto simp: listing_ok_def intro!: emits_return)
        next
          case False
          then have e: "(if a_data a \<noteq> [] then drain w fd n ?l else if a_result a \<ge> 0 \<or> a_errno a \<notin> {EAGAIN, EINTR}
              then ret (l'\<lparr>l_end_of_file := True\<rparr>) else ret l') = drain w fd n ?l" by simp
          have "l_end_of_file ?l \<longrightarrow> seen" using l' by simp
          from Suc.IH [OF ok this] show ?thesis unfolding e
            by (rule emits_mono) (use r \<open>reads_ok es1 \<and> _\<close> in auto)
        qed
      qed
    qed
  qed
qed

text \<open>The fuel of the inner loop is never used up: more fuel gives the same run.\<close>

lemma drain_fuel:
  fixes s :: "('s, os_event) mach"
  shows "listing_ok l \<Longrightarrow> MAXIMUM_CAPACITY \<le> n + length (l_output l) \<Longrightarrow>
   run_state (drain w fd (n + k) l) s = run_state (drain w fd n l) s"
proof (induction n arbitrary: l s)
  case 0
  then show ?case by (simp add: listing_ok_def)
next
  case (Suc n)
  have step: "run_state (drain w fd (n + k) (l'\<lparr>l_output := l_output l' @ take (l_capacity l' - length (l_output l') - 1) d\<rparr>)) t
      = run_state (drain w fd n (l'\<lparr>l_output := l_output l' @ take (l_capacity l' - length (l_output l') - 1) d\<rparr>)) t"
    if "listing_ok l'" "length (l_output l') + 1 < l_capacity l'" "length (l_output l) \<le> length (l_output l')" "d \<noteq> []" for l' d and t :: "('s, os_event) mach"
  proof (rule Suc.IH)
    have "1 \<le> length d" using that(4) by (cases d) simp_all
    then show "MAXIMUM_CAPACITY \<le> n + length (l_output (l'\<lparr>l_output := l_output l' @
        take (l_capacity l' - length (l_output l') - 1) d\<rparr>))"
      using that Suc.prems by (simp add: min_def, linarith)
  qed (use that in \<open>auto simp: listing_ok_def\<close>)
  let ?new = "min (l_capacity l * 2) MAXIMUM_CAPACITY"
  have grown: "listing_ok (l\<lparr>l_capacity := ?new\<rparr>)" "length (l_output l) + 1 < ?new"
    if "length (l_output l) + 1 = l_capacity l" "l_capacity l < MAXIMUM_CAPACITY"
    using that Suc.prems by (auto simp: listing_ok_def)
  have same: "length (l_output l) + 1 < l_capacity l" if "length (l_output l) + 1 \<noteq> l_capacity l"
    using that Suc.prems by (auto simp: listing_ok_def)
  have calls: "run_state (os_call w c) t = (w c (hist t), t\<lparr>hist := hist t @ [(c, w c (hist t))]\<rparr>)" for c and t :: "('s, os_event) mach"
    by (simp add: os_call_def sys_def Let_def)
  show ?case
  proof (cases "length (l_output l) + 1 \<noteq> l_capacity l")
    case True
    then show ?thesis using step [OF Suc.prems(1) same [OF True]]
      by (simp add: calls)
  next
    case False
    then have full: "length (l_output l) + 1 = l_capacity l" by simp
    show ?thesis
    proof (cases "l_capacity l \<ge> MAXIMUM_CAPACITY")
      case True
      then show ?thesis using full by simp
    next
      case small: False
      then have "l_capacity l < MAXIMUM_CAPACITY" by simp
      note g = grown [OF full this]
      have "length (l_output (l\<lparr>l_capacity := ?new\<rparr>)) + 1 < l_capacity (l\<lparr>l_capacity := ?new\<rparr>)" using g by simp
      note st = step [OF g(1) this]
      show ?thesis using st full small by (simp add: calls)
    qed
  qed
qed


definition exited :: "int \<Rightarrow> os_event list \<Rightarrow> 32 word \<Rightarrow> bool" where
  "exited child es status \<longleftrightarrow> (\<exists>b a. (Waitpid child b, a) \<in> set es \<and> a_result a = child \<and> a_status a = status)"

lemma exited_simps [simp]: "\<not> exited child [] st" "exited child (es @ fs) st \<longleftrightarrow> exited child es st \<or> exited child fs st"
  "exited child ((c, a) # es) st \<longleftrightarrow> (\<exists>b. c = Waitpid child b) \<and> a_result a = child \<and> a_status a = st \<or> exited child es st"
  by (auto simp: exited_def)

lemma poll_child_emits:
  "(w_valid c \<longrightarrow> got (w_status c)) \<Longrightarrow>
   emits (poll_child w child c) s (\<lambda>c' _ es. reads_ok es \<and> (w_valid c' \<longrightarrow> got (w_status c') \<or> exited child es (w_status c')))"
  unfolding poll_child_def by (auto simp: emits_def wp_simps)

lemma poll_attempts_emits:
  "listing_ok l \<Longrightarrow> (l_end_of_file l \<longrightarrow> seen) \<Longrightarrow> (w_valid c \<longrightarrow> got (w_status c)) \<Longrightarrow>
   emits (poll_attempts w fd child n l c) s (\<lambda>(l', c') _ es. reads_ok es \<and> listing_ok l' \<and>
     (l_end_of_file l' \<longrightarrow> seen \<or> saw_end fd es) \<and> (w_valid c' \<longrightarrow> got (w_status c') \<or> exited child es (w_status c')))"
proof (induction n arbitrary: l c s seen got)
  case 0
  then show ?case by (auto intro!: emits_return)
next
  case (Suc n)
  show ?case
  proof (cases "w_done c \<and> l_end_of_file l")
    case True
    then show ?thesis using Suc.prems by (auto intro!: emits_return)
  next
    case False
    show ?thesis unfolding poll_attempts.simps if_not_P [OF False]
    proof (rule emits_bind [OF drain_emits [where seen = seen, OF Suc.prems(1,2)]], rule emits_bind [OF poll_child_emits [where got = got, OF Suc.prems(3)]],
        rule emits_bind [where P = "\<lambda>_ _ es. reads_ok es"], goal_cases)
      case 1
      show ?case by (simp add: emits_def wp_simps)
    next
      case (2 l1 s1 es1 c1 s2 es2 u s3 es3)
      have "listing_ok l1" "l_end_of_file l1 \<longrightarrow> seen \<or> saw_end fd es1"
        "w_valid c1 \<longrightarrow> got (w_status c1) \<or> exited child es2 (w_status c1)" using 2 by auto
      from Suc.IH [where got = "\<lambda>st. got st \<or> exited child es2 st", OF this, of s3] show ?case by (rule emits_mono) (use 2 in auto)
    qed
  qed
qed

lemma emits_call:
  assumes "\<And>a s'. hist s' = hist s @ [(c, a)] \<Longrightarrow> emits (f a) s' (\<lambda>b p es. Q b p ((c, a) # es))"
  shows "emits (State_Monad.bind (os_call w c) f) s Q"
proof (rule emits_bind [where P = "\<lambda>a _ es. es = [(c, a)]"])
  show "emits (os_call w c) s (\<lambda>a _ es. es = [(c, a)])" by (simp add: emits_def wp_simps)
qed (use assms in simp)

lemma emits_do:
  assumes "\<And>a s'. hist s' = hist s @ [(c, a)] \<Longrightarrow> emits (f ()) s' (\<lambda>b p es. Q b p ((c, a) # es))"
  shows "emits (State_Monad.bind (os_do w c) f) s Q"
proof (rule emits_bind [where P = "\<lambda>_ _ es. \<exists>a. es = [(c, a)]"])
  show "emits (os_do w c) s (\<lambda>_ _ es. \<exists>a. es = [(c, a)])" by (simp add: emits_def wp_simps)
qed (use assms in auto)

lemmas emits_calls = emits_call emits_do

lemma emits_if: "(b \<Longrightarrow> emits m s Q) \<Longrightarrow> (\<not> b \<Longrightarrow> emits n s Q) \<Longrightarrow> emits (if b then m else n) s Q"
  by simp

lemma emits_lift: "emits m s (\<lambda>x p es. Q (Inr x) p es) \<Longrightarrow> emits (lift m) s Q"
  by (simp add: emits_def wp_lift)

lemma manager_child_emits:
  "emits (manager_child w p) s (\<lambda>r _ es. reads_ok es \<and> (\<exists>e. r = Inl e))"
proof -
  have redirect: "emits (redirect w ps) s (\<lambda>_ _ es. reads_ok es)" for ps and s :: "('a, os_event) mach"
  proof (induction w ps arbitrary: s rule: redirect.induct)
    case (2 w d e rest)
    show ?case unfolding redirect.simps
      by (intro emits_calls emits_if emits_return emits_mono [OF 2]) simp_all
  qed (auto intro: emits_return)
  show ?thesis unfolding manager_child_def
    by (intro emits_calls, rule emits_bind [where P = "\<lambda>_ _ es. reads_ok es"], intro emits_if emits_return redirect)
       (auto simp: emits_def wp_simps)
qed

text \<open>The listing of the manager's environment is bounded and trustworthy: every read fits the buffer
  with a byte to spare for the terminator, and whatever is returned is shorter than one mebibyte and
  was read to the end of the pipe from a child that exited with 0; in every other case there is no
  listing.\<close>

theorem environment_listing:
  "emits (read_manager_environment w) s (\<lambda>r _ es. reads_ok es \<and>
     (case r of Inr (Some out) \<Rightarrow> length out < 1024 * 1024 \<and>
         (\<exists>fd child status. saw_end fd es \<and> exited child es status \<and> wifexited status \<and> wexitstatus status = 0)
      | _ \<Rightarrow> True))"
proof -
  have collect: "emits (collect_listing w fd child) t (\<lambda>r _ es. reads_ok es \<and> (case r of None \<Rightarrow> True
      | Some out \<Rightarrow> length out < 1024 * 1024 \<and> saw_end fd es \<and>
         (\<exists>status. exited child es status \<and> wifexited status \<and> wexitstatus status = 0)))"
    for fd child and t :: "('a, os_event) mach"
    unfolding collect_listing_def
  proof (rule emits_bind [OF poll_attempts_emits [where seen = False and got = "\<lambda>_. False"]], goal_cases)
    case (4 r s1 es1)
    then show ?case
      by (cases r) (auto simp: emits_def wp_simps listing_ok_def MAXIMUM_CAPACITY_def)
  qed (auto simp: listing_ok_def MAXIMUM_CAPACITY_def)
  show ?thesis
    unfolding read_manager_environment_def
    by (intro emits_calls emits_if emits_return emits_lift emits_mono [OF collect] emits_mono [OF manager_child_emits]
          emits_bind [where P = "\<lambda>_ _ es. reads_ok es"])
       (auto simp: emits_def wp_simps split: option.splits)
qed

end
