(* ===== verification/Portal_Identity.thy ===== *)
theory Portal_Identity
  imports Spaces_Prelude
begin

text \<open>
  The host broker's registration with the desktop portal, \<open>src/native/spaces_broker.c\<close>: the callbacks
  \<open>portal_appeared\<close>, \<open>portal_vanished\<close>, \<open>portal_registration_done\<close> and the retry timer over the fields
  of \<open>Broker\<close> they share. A cancellable is a number; the calls in flight are the
  \<open>PortalRegistration\<close> records that GDBus will hand back, cancelled ones too. \<open>pi_log\<close> is a history
  of the replies, for the statements.
\<close>

type_synonym owner = string

datatype register_reply = Registered | Refused | Unknown_Outcome

record identity =
  pi_owner :: "owner option"
  pi_registered :: bool
  pi_registration :: "nat option"
  pi_retry :: bool
  pi_retry_delay :: nat
  pi_quit :: bool
  pi_exit_status :: int
  pi_next :: nat
  pi_inflight :: "(nat \<times> owner) list"
  pi_log :: "(nat \<times> owner) list"

definition initial_identity :: identity where
  "initial_identity = \<lparr>pi_owner = None, pi_registered = False, pi_registration = None, pi_retry = False,
     pi_retry_delay = 0, pi_quit = False, pi_exit_status = 0, pi_next = 0, pi_inflight = [], pi_log = []\<rparr>"

text \<open>A cancellable that was cleared stays in its record, so its number is never given out again.\<close>

definition register_portal_identity :: "identity \<Rightarrow> identity" where
  "register_portal_identity s =
     s\<lparr>pi_retry := False, pi_registration := Some (pi_next s), pi_next := pi_next s + 1,
       pi_inflight := (pi_next s, case pi_owner s of Some q \<Rightarrow> q | None \<Rightarrow> []) # pi_inflight s\<rparr>"

definition clear_portal_identity :: "identity \<Rightarrow> identity" where
  "clear_portal_identity s =
     s\<lparr>pi_registration := None, pi_retry := False, pi_registered := False, pi_retry_delay := 1, pi_owner := None\<rparr>"

definition portal_appeared :: "owner \<Rightarrow> identity \<Rightarrow> identity" where
  "portal_appeared q s = register_portal_identity ((clear_portal_identity s)\<lparr>pi_owner := Some q\<rparr>)"

definition portal_vanished :: "identity \<Rightarrow> identity" where
  "portal_vanished s = clear_portal_identity s"

text \<open>The call \<open>n\<close>, addressed to \<open>q\<close>, comes back. The log gets the confirmation of the portal, whether
  or not the broker takes it.\<close>

definition portal_registration_done :: "nat \<Rightarrow> owner \<Rightarrow> register_reply \<Rightarrow> identity \<Rightarrow> identity" where
  "portal_registration_done n q reply s =
     (let s = s\<lparr>pi_inflight := remove1 (n, q) (pi_inflight s),
               pi_log := (if reply = Registered then (n, q) # pi_log s else pi_log s)\<rparr>
      in if pi_registration s \<noteq> Some n then s
         else let s = s\<lparr>pi_registration := None\<rparr>
              in case reply of
                   Registered \<Rightarrow> s\<lparr>pi_registered := True\<rparr>
                 | Unknown_Outcome \<Rightarrow> s\<lparr>pi_exit_status := 1, pi_quit := True\<rparr>
                 | Refused \<Rightarrow> s\<lparr>pi_retry := True, pi_retry_delay := min (pi_retry_delay s * 2) 30\<rparr>)"

text \<open>The owner a portal call may be addressed to: the current owner of the name, if this connection is
  registered with it.\<close>

definition portal_destination :: "owner option \<Rightarrow> identity \<Rightarrow> owner option" where
  "portal_destination current s =
     (case current of None \<Rightarrow> None
      | Some q \<Rightarrow> if pi_registered s \<and> pi_owner s = Some q then Some q else None)"

text \<open>One callback of the main loop.\<close>

inductive identity_step :: "identity \<Rightarrow> identity \<Rightarrow> bool" where
  step_appeared: "identity_step s (portal_appeared q s)"
| step_vanished: "identity_step s (portal_vanished s)"
| step_done: "(n, q) \<in> set (pi_inflight s) \<Longrightarrow> identity_step s (portal_registration_done n q reply s)"
| step_retry: "pi_retry s \<Longrightarrow> identity_step s (register_portal_identity s)"

text \<open>
  What always holds: the pending registration is in flight, to the current owner, under a fresh
  number; the three ways forward (registered, registering, waiting to retry) exclude each other and
  need an owner, and while the program runs an owner has one of them; a registration in force was
  confirmed by the owner it is for.
\<close>

definition identity_ok :: "identity \<Rightarrow> bool" where
  "identity_ok s \<longleftrightarrow>
     (\<forall>(n, q) \<in> set (pi_inflight s). n < pi_next s) \<and>
     distinct (map fst (pi_inflight s)) \<and>
     (\<forall>n. pi_registration s = Some n \<longrightarrow> (\<exists>q. pi_owner s = Some q \<and> (n, q) \<in> set (pi_inflight s))) \<and>
     (pi_registered s \<longrightarrow> pi_registration s = None \<and> \<not> pi_retry s \<and> (\<exists>q n. pi_owner s = Some q \<and> (n, q) \<in> set (pi_log s))) \<and>
     (pi_retry s \<longrightarrow> pi_registration s = None \<and> pi_owner s \<noteq> None) \<and>
     (pi_owner s \<noteq> None \<longrightarrow> pi_registered s \<or> pi_registration s \<noteq> None \<or> pi_retry s \<or> pi_quit s) \<and>
     (pi_owner s \<noteq> None \<longrightarrow> 1 \<le> pi_retry_delay s) \<and> pi_retry_delay s \<le> 30 \<and>
     (pi_quit s \<longrightarrow> pi_exit_status s = 1)"

lemma identity_initially: "identity_ok initial_identity"
  by (simp add: identity_ok_def initial_identity_def)

lemma fresh_number: "\<forall>(n, q) \<in> set xs. n < (k::nat) \<Longrightarrow> k \<notin> fst ` set xs"
  by force

lemma register_ok:
  assumes "identity_ok s" "pi_owner s = Some q" "\<not> pi_registered s" "pi_registration s = None"
  shows "identity_ok (register_portal_identity s)"
proof -
  have "pi_next s \<notin> fst ` set (pi_inflight s)" using assms(1) fresh_number unfolding identity_ok_def by blast
  then show ?thesis using assms unfolding identity_ok_def register_portal_identity_def
    by (auto simp: less_Suc_eq)
qed

lemma clear_ok: "identity_ok s \<Longrightarrow> identity_ok (clear_portal_identity s)"
  unfolding identity_ok_def clear_portal_identity_def by auto

lemma appeared_ok: "identity_ok s \<Longrightarrow> identity_ok (portal_appeared q s)"
proof -
  assume ok: "identity_ok s"
  then have "pi_next s \<notin> fst ` set (pi_inflight s)" using fresh_number unfolding identity_ok_def by blast
  then show ?thesis using ok
    unfolding identity_ok_def portal_appeared_def register_portal_identity_def clear_portal_identity_def
    by (auto simp: less_Suc_eq)
qed

lemma inflight_unique: "distinct (map fst xs) \<Longrightarrow> (n, a) \<in> set xs \<Longrightarrow> (n, b) \<in> set xs \<Longrightarrow> a = b"
  by (metis eq_key_imp_eq_value)

lemma distinct_map_remove1: "distinct (map f xs) \<Longrightarrow> distinct (map f (remove1 x xs))"
  by (induction xs) (auto, metis image_eqI notin_set_remove1)

lemma done_ok:
  assumes ok: "identity_ok s" and here: "(n, q) \<in> set (pi_inflight s)"
  shows "identity_ok (portal_registration_done n q reply s)"
proof -
  have d: "distinct (map fst (pi_inflight s))" using ok by (simp add: identity_ok_def)
  have others: "m \<noteq> n \<Longrightarrow> (m, p) \<in> set (remove1 (n, q) (pi_inflight s)) \<longleftrightarrow> (m, p) \<in> set (pi_inflight s)" for m p
    by (metis in_set_remove1 prod.inject notin_set_remove1)
  have less: "set (remove1 (n, q) (pi_inflight s)) \<subseteq> set (pi_inflight s)" by (rule set_remove1_subset)
  have d': "distinct (map fst (remove1 (n, q) (pi_inflight s)))"
    using d by (rule distinct_map_remove1)
  show ?thesis
  proof (cases "pi_registration s = Some n")
    case False
    then show ?thesis using ok d' less others
      by (auto simp: identity_ok_def portal_registration_done_def Let_def)
  next
    case True
    then obtain p where "pi_owner s = Some p" "(n, p) \<in> set (pi_inflight s)" using ok by (auto simp: identity_ok_def)
    then have "pi_owner s = Some q" using inflight_unique [OF d here] by blast
    then show ?thesis using ok d' less True
      by (cases reply) (auto simp: identity_ok_def portal_registration_done_def Let_def)
  qed
qed

lemma identity_preserved: "identity_step s t \<Longrightarrow> identity_ok s \<Longrightarrow> identity_ok t"
proof (induction rule: identity_step.induct)
  case (step_retry s)
  then obtain q where "pi_owner s = Some q" "\<not> pi_registered s" "pi_registration s = None"
    unfolding identity_ok_def by blast
  then show ?case using step_retry by (intro register_ok)
qed (auto simp: portal_vanished_def intro: appeared_ok clear_ok done_ok)

interpretation portal_identity: inductive_invariant "\<lambda>s. s = initial_identity" identity_step identity_ok
  by unfold_locales (auto simp: identity_initially intro: identity_preserved)

text \<open>C8. A portal call only ever goes to the current owner of the portal's name, and only after that very
  owner has confirmed this connection's registration, however the portal comes and goes and in
  whatever order the answers to old and cancelled attempts arrive; as long as the broker runs and
  the portal has an owner, exactly one of being registered, registering and waiting to retry holds,
  and the wait never exceeds thirty seconds.\<close>

theorem portal_calls_registered_owner:
  assumes "reach (\<lambda>s. s = initial_identity) identity_step s"
  shows "(\<forall>q. portal_destination current s = Some q \<longrightarrow> current = Some q \<and> pi_owner s = Some q \<and> (\<exists>n. (n, q) \<in> set (pi_log s))) \<and>
    (pi_owner s \<noteq> None \<and> \<not> pi_quit s \<longrightarrow>
       length (filter id [pi_registered s, pi_registration s \<noteq> None, pi_retry s]) = 1) \<and>
    pi_retry_delay s \<le> 30"
proof -
  have ok: "identity_ok s" using assms by (rule portal_identity.always)
  then have "pi_owner s \<noteq> None \<and> \<not> pi_quit s \<Longrightarrow>
       length (filter id [pi_registered s, pi_registration s \<noteq> None, pi_retry s]) = 1"
    unfolding identity_ok_def by auto
  moreover have "portal_destination current s = Some q \<Longrightarrow> current = Some q \<and> pi_owner s = Some q \<and> (\<exists>n. (n, q) \<in> set (pi_log s))" for q
    using ok unfolding identity_ok_def by (auto simp: portal_destination_def split: option.splits if_splits)
  moreover have "pi_retry_delay s \<le> 30" using ok by (simp add: identity_ok_def)
  ultimately show ?thesis by blast
qed

theorem portal_calls_registered_owner_witness:
  "\<exists>s. reach (\<lambda>s. s = initial_identity) identity_step s \<and> portal_destination (Some '':1.9'') s = Some '':1.9''
     \<and> (\<exists>n. (n, '':1.9'') \<in> set (pi_log s)) \<and> portal_destination (Some '':1.5'') s = None"
proof -
  let ?a = "portal_appeared '':1.5'' initial_identity"
  let ?b = "portal_appeared '':1.9'' ?a"
  let ?c = "portal_registration_done 0 '':1.5'' Registered ?b"
  let ?d = "portal_registration_done 1 '':1.9'' Registered ?c"
  note defs = portal_appeared_def register_portal_identity_def clear_portal_identity_def initial_identity_def
    portal_registration_done_def portal_destination_def
  have "reach (\<lambda>s. s = initial_identity) identity_step initial_identity" by (rule reach_init) simp
  then have "reach (\<lambda>s. s = initial_identity) identity_step ?a" by (rule reach_step) (rule step_appeared)
  then have "reach (\<lambda>s. s = initial_identity) identity_step ?b" by (rule reach_step) (rule step_appeared)
  then have "reach (\<lambda>s. s = initial_identity) identity_step ?c"
    by (rule reach_step) (rule step_done, simp add: defs)
  then have r: "reach (\<lambda>s. s = initial_identity) identity_step ?d"
    by (rule reach_step) (rule step_done, simp add: defs)
  moreover have "portal_destination (Some '':1.9'') ?d = Some '':1.9''" "portal_destination (Some '':1.5'') ?d = None"
    by (simp_all add: defs)
  ultimately show ?thesis using portal_calls_registered_owner [OF r, of "Some '':1.9''"] by blast
qed

end
