(* ===== verification/Host_Calls.thy ===== *)
theory Host_Calls
  imports Portal_Identity Frame_Protocol
begin

text \<open>
  What the host broker, \<open>src/native/spaces_broker.c\<close>, works with: D-Bus values, its own state, the calls
  it makes and their answers, and the requests to the portal. Calls repeated while interrupted are
  one call; \<open>HWrite\<close> stands for the loop that repeats short writes, and fails when one of them does.

  A method handler ends with a reply, with an error, without any answer (GDBus ignores a missing
  \<open>GError\<close>), or \<open>Undefined\<close>: \<open>g_variant_get\<close> with a format that does not fit the value leaves its
  variables unset, and the handler goes on with them.
\<close>

datatype gvariant =
    GString string
  | GUint nat
  | GInt int
  | GInt64 int
  | GBool bool
  | GHandle int
  | GStrings "string list"
  | GDict "(string \<times> gvariant) list"
  | GTuple "gvariant list"
  | GVariant gvariant

datatype failure = AccessDenied | PermissionDenied | InvalidArgument | InvalidData | InvalidArgs
  | ServiceUnknown | TimedOut | NotFound | NoSpace | IoFailure | RemoteError | AddressInUse

datatype method_result = Reply "gvariant list" "int list" | Failure failure | Unanswered | Undefined

datatype file_kind = Regular | Directory | OtherKind nat

record file_stat =
  st_dev :: nat
  st_ino :: nat
  st_kind :: file_kind
  st_size :: int

datatype flags = O_RDONLY | O_RDWR | O_PATH | O_WRONLY | O_CREAT_EXCL | O_NOFOLLOW

record mapping_entry =
  m_guest :: string
  m_descriptor :: int
  m_metadata :: file_stat

record broker =
  bk_space :: string
  bk_app :: string
  bk_mappings :: "mapping_entry list"
  bk_staged :: "string list"
  bk_identity :: identity

datatype host_call =
    GetNameOwner
  | PortalCall owner string string gvariant "int list"
  | AwaitResponse owner string
  | SystemCall string gvariant
  | DupFd int
  | AppendFd int
  | Fstat int
  | GetFlags int
  | OpenProc int flags
  | OpenBeneath int string flags
  | OpenPath string flags
  | MakeDirectory string
  | ReadLink string
  | ToUri string
  | FromUri string
  | Pread int nat
  | HWrite int "byte list"
  | CloseFd int
  | Unlink string
  | ReadFile string
  | StatPath string
  | LimitRealtime nat int
  | Memfd string
  | Seek int
  | HRead int nat
  | Truncate int
  | Uuid
  | LeaveStack "byte list list"

record host_answer =
  h_ok :: bool
  h_number :: int
  h_stat :: file_stat
  h_text :: string
  h_bytes :: "byte list"
  h_value :: gvariant
  h_signals :: "(string \<times> nat \<times> gvariant) list"

type_synonym host_event = "host_call \<times> host_answer"
type_synonym host = "host_call \<Rightarrow> host_event list \<Rightarrow> host_answer"
type_synonym 'a broker_comp = "(broker, host_event, 'a) comp"

definition call :: "host \<Rightarrow> host_call \<Rightarrow> host_answer broker_comp" where
  "call h c = sys (h c) (\<lambda>a. (c, a))"

definition perform :: "host \<Rightarrow> host_call \<Rightarrow> unit broker_comp" where
  "perform h c = do { _ \<leftarrow> call h c; ret () }"

lemma wp_call [wp_simps]: "wp (call h c) Q s = Q (h c (hist s)) (s\<lparr>hist := hist s @ [(c, h c (hist s))]\<rparr>)"
  by (simp add: call_def wp_simps)

lemma wp_perform [wp_simps]: "wp (perform h c) Q s = Q () (s\<lparr>hist := hist s @ [(c, h c (hist s))]\<rparr>)"
  by (simp add: perform_def wp_simps)

section \<open>Dictionaries\<close>

definition dict_insert :: "string \<Rightarrow> gvariant \<Rightarrow> (string \<times> gvariant) list \<Rightarrow> (string \<times> gvariant) list" where
  "dict_insert k v d = filter (\<lambda>(k', _). k' \<noteq> k) d @ [(k, v)]"

section \<open>Requests to the portal\<close>

text \<open>\<open>portal_destination\<close> asks the bus for the owner now and compares it with the registration.\<close>

definition find_destination :: "host \<Rightarrow> (failure + owner) broker_comp" where
  "find_destination h = do {
     a \<leftarrow> call h GetNameOwner;
     identity \<leftarrow> gets bk_identity;
     ret (case portal_destination (if h_ok a then Some (h_text a) else None) identity of
            Some q \<Rightarrow> Inr q | None \<Rightarrow> Inl ServiceUnknown) }"

definition new_token :: "host \<Rightarrow> string broker_comp" where
  "new_token h = do { a \<leftarrow> call h Uuid; ret (map (\<lambda>c. if c = CHR ''-'' then CHR ''_'' else c) (h_text a)) }"

text \<open>The signals that reach \<open>response_signal\<close> before the nested loop ends; the last one for the request
  counts. None for the request: the two minutes are over.\<close>

definition response_of :: "string \<Rightarrow> (string \<times> nat \<times> gvariant) list \<Rightarrow> (nat \<times> gvariant) option" where
  "response_of path signals =
     (case rev (filter (\<lambda>(p, _). p = path) signals) of [] \<Rightarrow> None | (_, r) # _ \<Rightarrow> Some r)"

definition request_owner :: "host \<Rightarrow> owner \<Rightarrow> string \<Rightarrow> string \<Rightarrow> gvariant \<Rightarrow> int list \<Rightarrow>
    (failure + nat \<times> gvariant) broker_comp" where
  "request_owner h destination iface meth parameters fds = do {
     a \<leftarrow> call h (PortalCall destination iface meth parameters fds);
     if \<not> h_ok a then ret (Inl RemoteError)
     else do {
       s \<leftarrow> call h (AwaitResponse destination (h_text a));
       ret (case response_of (h_text a) (h_signals s) of None \<Rightarrow> Inl TimedOut | Some r \<Rightarrow> Inr r) } }"

definition wait_portal_request :: "host \<Rightarrow> string \<Rightarrow> string \<Rightarrow> gvariant \<Rightarrow> int list \<Rightarrow>
    (failure + nat \<times> gvariant) broker_comp" where
  "wait_portal_request h iface meth parameters fds = do {
     d \<leftarrow> find_destination h;
     case d of Inl e \<Rightarrow> ret (Inl e) | Inr destination \<Rightarrow> request_owner h destination iface meth parameters fds }"

definition screenshot_request :: "host \<Rightarrow> string \<Rightarrow> (string \<times> gvariant) list \<Rightarrow> (failure + nat \<times> gvariant) broker_comp" where
  "screenshot_request h parent options = do {
     d \<leftarrow> find_destination h;
     case d of Inl e \<Rightarrow> ret (Inl e)
     | Inr destination \<Rightarrow> do {
         token \<leftarrow> new_token h;
         request_owner h destination ''org.freedesktop.portal.Screenshot'' ''Screenshot''
           (GTuple [GString parent, GDict (dict_insert ''handle_token'' (GString token) options)]) [] } }"

definition call_host_portal :: "host \<Rightarrow> string \<Rightarrow> int \<Rightarrow> bool \<Rightarrow> string \<Rightarrow> (failure + nat) broker_comp" where
  "call_host_portal h meth descriptor writable activation_token = do {
     d \<leftarrow> find_destination h;
     case d of Inl e \<Rightarrow> ret (Inl e)
     | Inr destination \<Rightarrow> do {
         a \<leftarrow> call h (AppendFd descriptor);
         if \<not> h_ok a then ret (Inl IoFailure)
         else do {
           token \<leftarrow> new_token h;
           r \<leftarrow> request_owner h destination ''org.freedesktop.portal.OpenURI'' meth
             (GTuple [GString '''', GHandle (h_number a),
               GDict ((''handle_token'', GString token)
                 # (if writable then [(''writable'', GBool True)] else [])
                 @ (if activation_token \<noteq> [] then [(''activation_token'', GString activation_token)] else []))])
             [descriptor];
           ret (case r of Inl e \<Rightarrow> Inl e | Inr (response, _) \<Rightarrow> Inr response) } } }"

definition broker_options :: "host \<Rightarrow> (string \<times> gvariant) list \<Rightarrow> bool \<Rightarrow> (string \<times> gvariant) list broker_comp" where
  "broker_options h options background = do {
     token \<leftarrow> new_token h;
     space \<leftarrow> gets bk_space;
     let d = dict_insert ''handle_token'' (GString token) options;
     ret (case (background, map_of options ''commandline'') of
            (True, Some (GStrings command)) \<Rightarrow>
              dict_insert ''commandline''
                (GStrings ([''/usr/bin/spaces'', ''enter'', ''--graphical'', space, ''--''] @ command)) d
          | _ \<Rightarrow> d) }"

section \<open>Launchers\<close>

definition broker_launcher_id :: "string \<Rightarrow> string option \<Rightarrow> string option" where
  "broker_launcher_id app_id desktop_id =
     (case desktop_id of None \<Rightarrow> None
      | Some d \<Rightarrow>
          if CHR ''/'' \<in> set d \<or> \<not> g_str_has_suffix d ''.desktop'' then None
          else if g_str_has_prefix d app_id \<and> take 1 (drop (length app_id) d) = ''.'' then Some d
          else Some (app_id @ ''.'' @ d))"

text \<open>A key file: its groups in order, each a list of keys. GKeyFile's reading and writing are arguments.\<close>

type_synonym key_file = "(string \<times> (string \<times> string) list) list"

definition set_key :: "string \<Rightarrow> string \<Rightarrow> (string \<times> string) list \<Rightarrow> (string \<times> string) list" where
  "set_key k v d = (if k \<in> fst ` set d then map (\<lambda>(k', v'). (k', if k' = k then v else v')) d else d @ [(k, v)])"

definition wrap_exec :: "string \<Rightarrow> string \<times> (string \<times> string) list \<Rightarrow> string \<times> (string \<times> string) list" where
  "wrap_exec space = (\<lambda>(group, keys).
     (group,
      if group \<noteq> ''Desktop Entry'' \<and> \<not> g_str_has_prefix group ''Desktop Action '' then keys
      else case map_of keys ''Exec'' of None \<Rightarrow> keys
           | Some command \<Rightarrow> set_key ''Exec'' (''/usr/bin/spaces enter --graphical '' @ space @ '' -- '' @ command) keys))"

definition finish_main_group :: "string \<times> (string \<times> string) list \<Rightarrow> string \<times> (string \<times> string) list" where
  "finish_main_group = (\<lambda>(group, keys).
     (group,
      if group = ''Desktop Entry''
      then set_key ''DBusActivatable'' ''false'' (filter (\<lambda>(k, _). k \<noteq> ''TryExec'' \<and> k \<noteq> ''Path'') keys)
      else keys))"

definition broker_desktop_entry :: "(string \<Rightarrow> key_file option) \<Rightarrow> string \<Rightarrow> string \<Rightarrow> key_file option" where
  "broker_desktop_entry load space contents =
     (if length contents > 1024 * 1024 then None
      else case load contents of None \<Rightarrow> None
           | Some key \<Rightarrow>
               (let key = map (wrap_exec space) key;
                    key = (if ''Desktop Entry'' \<in> fst ` set key then key else key @ [(''Desktop Entry'', [])])
                in Some (map finish_main_group key)))"

end
