(* ===== verification/Host_Broker.thy ===== *)
theory Host_Broker
  imports Host_Calls Number_Parse
begin

text \<open>
  The methods of the host broker's integration interface, \<open>src/native/spaces_broker.c\<close>, over the calls of
  \<open>Host_Calls\<close>. A message's descriptors are \<open>None\<close> when it has no list. The parameters of a method
  arrive with the types its introspection data gives; the value inside a variant may be anything.
\<close>

section \<open>Guest paths\<close>

definition valid_guest_path :: "string \<Rightarrow> bool" where
  "valid_guest_path path = (take 1 path = ''/'' \<and> ''..'' \<notin> set (g_strsplit path (CHR ''/'')))"

definition mapping_matches :: "mapping_entry \<Rightarrow> string \<Rightarrow> bool" where
  "mapping_matches m path =
     (let size = length (m_guest m)
      in g_str_has_prefix path (m_guest m)
         \<and> (size = 1 \<or> drop size path = [] \<or> take 1 (drop size path) = ''/''))"

fun best_mapping :: "mapping_entry list \<Rightarrow> string \<Rightarrow> mapping_entry option \<Rightarrow> mapping_entry option" where
  "best_mapping [] path best = best"
| "best_mapping (m # ms) path best =
     best_mapping ms path
       (if mapping_matches m path
           \<and> (case best of None \<Rightarrow> True | Some b \<Rightarrow> length (m_guest m) > length (m_guest b))
        then Some m else best)"

definition find_mapping :: "mapping_entry list \<Rightarrow> string \<Rightarrow> mapping_entry option" where
  "find_mapping ms path = best_mapping ms path None"

definition secure_open :: "host \<Rightarrow> mapping_entry \<Rightarrow> string \<Rightarrow> flags \<Rightarrow> int option broker_comp" where
  "secure_open h m guest_path fl =
     (let relative = dropWhile (\<lambda>c. c = CHR ''/'') (drop (length (m_guest m)) guest_path)
      in if st_kind (m_metadata m) \<noteq> Directory
         then if relative \<noteq> [] then ret None
              else if length (''/proc/self/fd/'' @ show_int (m_descriptor m)) \<ge> 64 then ret None
              else do {
                a \<leftarrow> call h (OpenProc (m_descriptor m) fl);
                ret (if h_ok a then Some (h_number a) else None) }
         else do {
           a \<leftarrow> call h (OpenBeneath (m_descriptor m) (if relative = [] then ''.'' else relative) fl);
           ret (if h_ok a then Some (h_number a) else None) })"

text \<open>\<open>invocation_fd\<close>: GLib's precondition on the index fails without setting an error.\<close>

definition invocation_fd :: "host \<Rightarrow> int list option \<Rightarrow> int \<Rightarrow> (failure option + int) broker_comp" where
  "invocation_fd h fds handle =
     (case fds of None \<Rightarrow> ret (Inl (Some InvalidArgument))
      | Some list \<Rightarrow>
          if handle < 0 \<or> handle \<ge> int (length list) then ret (Inl None)
          else do {
            a \<leftarrow> call h (DupFd (list ! nat handle));
            ret (if h_ok a then Inr (h_number a) else Inl (Some IoFailure)) })"

primrec answer_error :: "failure option \<Rightarrow> method_result" where
  "answer_error None = Unanswered"
| "answer_error (Some e) = Failure e"

definition close_all :: "host \<Rightarrow> int list \<Rightarrow> unit broker_comp" where
  "close_all h fds = each (\<lambda>fd. perform h (CloseFd fd)) fds"

definition same_object_stat :: "file_stat \<Rightarrow> file_stat \<Rightarrow> bool" where
  "same_object_stat a b = (st_dev a = st_dev b \<and> st_ino a = st_ino b \<and> st_kind a = st_kind b)"

definition same_object :: "host \<Rightarrow> int \<Rightarrow> int \<Rightarrow> bool broker_comp" where
  "same_object h left right = do {
     a \<leftarrow> call h (Fstat left);
     if \<not> h_ok a then ret False
     else do {
       b \<leftarrow> call h (Fstat right);
       ret (h_ok b \<and> same_object_stat (h_stat a) (h_stat b)) } }"

section \<open>Opening a guest's file with the portal\<close>

text \<open>The flags of a descriptor: the number 2 is \<open>O_RDWR\<close> after masking with \<open>O_ACCMODE\<close>.\<close>

definition open_proved :: "host \<Rightarrow> mapping_entry \<Rightarrow> string \<Rightarrow> string \<Rightarrow> bool \<Rightarrow> string \<Rightarrow> int \<Rightarrow> method_result broker_comp" where
  "open_proved h m meth guest_path requested_writable activation_token proof_fd = do {
     st \<leftarrow> call h (Fstat proof_fd);
     if \<not> h_ok st then do { close_all h [proof_fd]; ret (Failure IoFailure) }
     else do {
       guest_writable \<leftarrow> (if requested_writable
         then do { fl \<leftarrow> call h (GetFlags proof_fd); ret (h_ok fl \<and> h_number fl = 2) }
         else ret False);
       rw \<leftarrow> (if guest_writable \<and> meth = ''OpenFile'' then secure_open h m guest_path O_RDWR else ret None);
       ro \<leftarrow> (if rw = None then secure_open h m guest_path O_RDONLY else ret None);
       case (case rw of Some fd \<Rightarrow> Some fd | None \<Rightarrow> ro) of
         None \<Rightarrow> do { close_all h [proof_fd]; ret (Failure IoFailure) }
       | Some mapped \<Rightarrow> do {
           mst \<leftarrow> call h (Fstat mapped);
           if \<not> h_ok mst then do { close_all h [mapped, proof_fd]; ret (Failure IoFailure) }
           else if \<not> same_object_stat (h_stat st) (h_stat mst)
           then do { close_all h [mapped, proof_fd]; ret (Failure PermissionDenied) }
           else do {
             r \<leftarrow> call_host_portal h meth mapped (rw \<noteq> None) activation_token;
             close_all h [mapped, proof_fd];
             ret (case r of Inl e \<Rightarrow> Failure e | Inr response \<Rightarrow> Reply [GUint response] []) } } } }"

definition open_file_method :: "host \<Rightarrow> string \<Rightarrow> string \<Rightarrow> int \<Rightarrow> bool \<Rightarrow> string \<Rightarrow> int list option \<Rightarrow> method_result broker_comp" where
  "open_file_method h meth guest_path handle requested_writable activation_token fds = do {
     mappings \<leftarrow> gets bk_mappings;
     case (if valid_guest_path guest_path then find_mapping mappings guest_path else None) of
       None \<Rightarrow> ret (Failure PermissionDenied)
     | Some m \<Rightarrow> do {
         p \<leftarrow> invocation_fd h fds handle;
         case p of Inl e \<Rightarrow> ret (answer_error e)
         | Inr proof_fd \<Rightarrow> open_proved h m meth guest_path requested_writable activation_token proof_fd } }"

definition resolve_path_method :: "host \<Rightarrow> string \<Rightarrow> int \<Rightarrow> int list option \<Rightarrow> method_result broker_comp" where
  "resolve_path_method h guest_path handle fds = do {
     mappings \<leftarrow> gets bk_mappings;
     case (if valid_guest_path guest_path then find_mapping mappings guest_path else None) of
       None \<Rightarrow> ret (Failure PermissionDenied)
     | Some m \<Rightarrow> do {
         p \<leftarrow> invocation_fd h fds handle;
         case p of Inl e \<Rightarrow> ret (Failure (case e of None \<Rightarrow> IoFailure | Some e \<Rightarrow> e))
         | Inr proof_fd \<Rightarrow> do {
             mp \<leftarrow> secure_open h m guest_path O_PATH;
             case mp of None \<Rightarrow> do { close_all h [proof_fd]; ret (Failure PermissionDenied) }
             | Some mapped \<Rightarrow> do {
                 same \<leftarrow> same_object h proof_fd mapped;
                 r \<leftarrow> (if \<not> same then ret (Inl PermissionDenied)
                      else if length (''/proc/self/fd/'' @ show_int mapped) \<ge> 64 then ret (Inl InvalidArgument)
                      else do {
                        l \<leftarrow> call h (ReadLink (''/proc/self/fd/'' @ show_int mapped));
                        if \<not> h_ok l then ret (Inl IoFailure)
                        else if take 1 (h_text l) \<noteq> ''/'' \<or> g_str_has_suffix (h_text l) '' (deleted)''
                        then ret (Inl InvalidArgument)
                        else do {
                          u \<leftarrow> call h (ToUri (h_text l));
                          ret (if h_ok u then Inr (h_text u) else Inl IoFailure) } });
                 close_all h [mapped, proof_fd];
                 ret (case r of Inl e \<Rightarrow> Failure e | Inr uri \<Rightarrow> Reply [GString uri] []) } } } }"

section \<open>Staged files\<close>

definition STAGED_FILE_MAXIMUM :: nat where "STAGED_FILE_MAXIMUM = 32 * 1024 * 1024"
definition SECRET_MAXIMUM :: nat where "SECRET_MAXIMUM = 64 * 1024"

text \<open>The copying loop, with the bytes copied so far as the offset; the fuel is one more than can be copied.\<close>

fun copy_loop :: "host \<Rightarrow> int \<Rightarrow> int \<Rightarrow> nat \<Rightarrow> nat \<Rightarrow> (failure option) option broker_comp" where
  "copy_loop h source output 0 copied = ret None"
| "copy_loop h source output (Suc n) copied = do {
     a \<leftarrow> call h (Pread source copied);
     if \<not> h_ok a then ret (Some (Some IoFailure))
     else if h_bytes a = [] then ret (Some None)
     else if copied + length (h_bytes a) > STAGED_FILE_MAXIMUM then ret (Some (Some NoSpace))
     else do {
       b \<leftarrow> call h (HWrite output (h_bytes a));
       if \<not> h_ok b then ret (Some (Some IoFailure))
       else copy_loop h source output n (copied + length (h_bytes a)) } }"

definition copy_staged_fd :: "host \<Rightarrow> int \<Rightarrow> int \<Rightarrow> (failure option) option broker_comp" where
  "copy_staged_fd h source output = do {
     st \<leftarrow> call h (Fstat source);
     if \<not> h_ok st then ret (Some (Some IoFailure))
     else if st_kind (h_stat st) \<noteq> Regular \<or> st_size (h_stat st) < 0 \<or> st_size (h_stat st) > int STAGED_FILE_MAXIMUM
     then ret (Some (Some InvalidArgument))
     else copy_loop h source output (STAGED_FILE_MAXIMUM + 1) 0 }"

text \<open>A source copied to a new file of the given directory: the file's name, or the error and the name of
  the file to remove, if there may be one.\<close>

definition stage_source :: "host \<Rightarrow> string \<Rightarrow> int \<Rightarrow> (failure \<times> string option + string) broker_comp" where
  "stage_source h directory source = do {
     d \<leftarrow> call h (MakeDirectory directory);
     if \<not> h_ok d then ret (Inl (IoFailure, None))
     else do {
       token \<leftarrow> new_token h;
       let filename = directory @ ''/'' @ token;
       f \<leftarrow> call h (OpenPath filename O_CREAT_EXCL);
       if \<not> h_ok f then ret (Inl (IoFailure, Some filename))
       else do {
         c \<leftarrow> copy_staged_fd h source (h_number f);
         case c of
           Some None \<Rightarrow> do {
             k \<leftarrow> call h (CloseFd (h_number f));
             ret (if h_ok k then Inr filename else Inl (IoFailure, Some filename)) }
         | Some (Some e) \<Rightarrow> do { perform h (CloseFd (h_number f)); ret (Inl (e, Some filename)) }
         | None \<Rightarrow> ret (Inl (IoFailure, Some filename)) } } }"

definition remove_file :: "host \<Rightarrow> string option \<Rightarrow> unit broker_comp" where
  "remove_file h f = (case f of None \<Rightarrow> ret () | Some name \<Rightarrow> perform h (Unlink name))"

definition stage_wallpaper_fd :: "host \<Rightarrow> string \<Rightarrow> int list option \<Rightarrow> int \<Rightarrow> (failure option + int \<times> string) broker_comp" where
  "stage_wallpaper_fd h cache fds handle = do {
     p \<leftarrow> invocation_fd h fds handle;
     case p of Inl e \<Rightarrow> ret (Inl e)
     | Inr source \<Rightarrow> do {
         r \<leftarrow> stage_source h (cache @ ''/spaces/wallpaper'') source;
         case r of Inl (e, f) \<Rightarrow> do { perform h (CloseFd source); remove_file h f; ret (Inl (Some e)) }
         | Inr filename \<Rightarrow> do {
             s \<leftarrow> call h (OpenPath filename O_NOFOLLOW);
             perform h (CloseFd source);
             if h_ok s then ret (Inr (h_number s, filename))
             else do { perform h (Unlink filename); ret (Inl (Some IoFailure)) } } } }"

definition stage_file_method :: "host \<Rightarrow> string \<Rightarrow> int \<Rightarrow> int list option \<Rightarrow> method_result broker_comp" where
  "stage_file_method h cache handle fds = do {
     p \<leftarrow> invocation_fd h fds handle;
     case p of Inl e \<Rightarrow> ret (Failure (case e of None \<Rightarrow> IoFailure | Some e \<Rightarrow> e))
     | Inr source \<Rightarrow> do {
         r \<leftarrow> stage_source h (cache @ ''/spaces/artwork'') source;
         case r of Inl (e, f) \<Rightarrow> do { remove_file h f; perform h (CloseFd source); ret (Failure e) }
         | Inr filename \<Rightarrow> do {
             u \<leftarrow> call h (ToUri filename);
             if \<not> h_ok u
             then do { perform h (Unlink filename); perform h (CloseFd source); ret (Failure IoFailure) }
             else do {
               modify (\<lambda>b. b\<lparr>bk_staged := bk_staged b @ [filename]\<rparr>);
               perform h (CloseFd source);
               ret (Reply [GString (h_text u)] []) } } } }"

definition remove_staged_file_method :: "host \<Rightarrow> string \<Rightarrow> method_result broker_comp" where
  "remove_staged_file_method h uri = do {
     f \<leftarrow> call h (FromUri uri);
     if \<not> h_ok f then ret (Failure InvalidArgument)
     else do {
       staged \<leftarrow> gets bk_staged;
       if h_text f \<notin> set staged then ret (Failure NotFound)
       else do {
         perform h (Unlink (h_text f));
         modify (\<lambda>b. b\<lparr>bk_staged := remove1 (h_text f) (bk_staged b)\<rparr>);
         ret (Reply [] []) } } }"

section \<open>The application's secret\<close>

definition secret_domain :: "byte list" where
  "secret_domain = map of_char ''org.anatase.spaces.portal-secret.v1'' @ [0]"

definition APP_SECRET_SIZE :: nat where "APP_SECRET_SIZE = 64"

text \<open>The secret is read to its end, but no further than one byte more than the maximum, which is too much; the result
  says whether no read failed. A read that gives nothing is the end; the fuel is one more than there can be reads.\<close>

fun read_master :: "host \<Rightarrow> int \<Rightarrow> nat \<Rightarrow> byte list \<Rightarrow> (byte list \<times> bool) option broker_comp" where
  "read_master h descriptor 0 raw = ret None"
| "read_master h descriptor (Suc n) raw =
     (if length raw \<ge> SECRET_MAXIMUM + 1 then ret (Some (raw, True))
      else do {
        a \<leftarrow> call h (HRead descriptor (SECRET_MAXIMUM + 1 - length raw));
        if \<not> h_ok a then ret (Some (raw, False))
        else if take (SECRET_MAXIMUM + 1 - length raw) (h_bytes a) = [] then ret (Some (raw, True))
        else read_master h descriptor n (raw @ take (SECRET_MAXIMUM + 1 - length raw) (h_bytes a)) })"

text \<open>The two buffers on the stack, with what was put at their beginning, and \<open>secure_clear\<close> of all of a buffer.\<close>

definition stack_buffer :: "nat \<Rightarrow> byte list \<Rightarrow> byte list" where
  "stack_buffer n content = content @ replicate (n - length content) 0"

definition clear_buffer :: "byte list \<Rightarrow> byte list" where
  "clear_buffer buffer = map (\<lambda>_. 0) buffer"

text \<open>What is in \<open>raw\<close> and \<open>derived\<close> where the function comes to its label \<open>out\<close>, after whether it succeeded. \<open>hmac\<close> is
  GLib's HMAC-SHA-512 of a key and a message.\<close>

definition derive_secret :: "host \<Rightarrow> (byte list \<Rightarrow> byte list \<Rightarrow> byte list) \<Rightarrow> string \<Rightarrow> int \<Rightarrow> int \<Rightarrow> (bool \<times> byte list \<times> byte list) broker_comp" where
  "derive_secret h hmac app_id host_descriptor guest_descriptor =
     (if length app_id \<ge> 2 ^ 32 then ret (False, [], [])
      else do {
        s \<leftarrow> call h (Seek host_descriptor);
        if \<not> h_ok s then ret (False, [], [])
        else do {
          r \<leftarrow> read_master h host_descriptor (SECRET_MAXIMUM + 2) [];
          case r of None \<Rightarrow> ret (False, [], [])
          | Some (raw, complete) \<Rightarrow>
              if \<not> complete \<or> raw = [] \<or> length raw > SECRET_MAXIMUM then ret (False, raw, [])
              else do {
                let derived = hmac raw (secret_domain @ htonl_bytes (of_nat (length app_id)) @ map of_char app_id);
                if length derived \<noteq> APP_SECRET_SIZE then ret (False, raw, take APP_SECRET_SIZE derived)
                else do {
                  w \<leftarrow> call h (HWrite guest_descriptor derived);
                  ret (h_ok w, raw, derived) } } } })"

text \<open>The last event is the return, with what the function's frame leaves on the stack.\<close>

definition finish_app_secret :: "host \<Rightarrow> (byte list \<Rightarrow> byte list \<Rightarrow> byte list) \<Rightarrow> string \<Rightarrow> int \<Rightarrow> int \<Rightarrow> bool broker_comp" where
  "finish_app_secret h hmac app_id host_descriptor guest_descriptor = do {
     r \<leftarrow> derive_secret h hmac app_id host_descriptor guest_descriptor;
     case r of (success, raw, derived) \<Rightarrow> do {
       let raw = clear_buffer (stack_buffer (SECRET_MAXIMUM + 1) raw);
       let derived = clear_buffer (stack_buffer APP_SECRET_SIZE derived);
       perform h (Truncate host_descriptor);
       perform h (LeaveStack [raw, derived]);
       ret success } }"

end
