(* ===== verification/Host_Methods.thy ===== *)
theory Host_Methods
  imports Host_Broker
begin

text \<open>
  The remaining methods of the host broker (\<open>src/native/spaces_broker.c\<close>): scheduling and game mode by
  pidfd, screenshots, the general portal requests, the dynamic launcher, the method table, and the
  arguments it is started with.
\<close>

section \<open>Processes by descriptor\<close>

definition g_ascii_isspace :: "char \<Rightarrow> bool" where
  "g_ascii_isspace c = ((of_char c :: nat) \<in> {9, 10, 12, 13, 32})"

text \<open>What follows \<open>Pid:\<close>, read by \<open>g_ascii_strtoull\<close>, which takes a sign and negates modulo \<open>2^64\<close>.\<close>

definition pid_value :: "string \<Rightarrow> nat option" where
  "pid_value s =
     (let t = dropWhile g_ascii_isspace s;
          negative = (take 1 t = ''-'');
          u = (if take 1 t = ''-'' \<or> take 1 t = ''+'' then drop 1 t else t);
          digits = takeWhile is_digit u;
          value = (if negative then (2 ^ 64 - decimal digits) mod 2 ^ 64 else decimal digits)
      in if digits = [] \<or> decimal digits \<ge> 2 ^ 64 \<or> dropWhile g_ascii_isspace (dropWhile is_digit u) \<noteq> [] \<or> value = 0
         then None else Some value)"

definition pid_of_fdinfo :: "string \<Rightarrow> nat option" where
  "pid_of_fdinfo contents =
     (case filter (\<lambda>line. g_str_has_prefix line ''Pid:'') (g_strsplit contents (CHR 0x0A)) of
        [] \<Rightarrow> None | line # _ \<Rightarrow> pid_value (drop 4 line))"

definition pidfd_id :: "host \<Rightarrow> int \<Rightarrow> (failure + nat) broker_comp" where
  "pidfd_id h descriptor =
     (if length (''/proc/self/fdinfo/'' @ show_int descriptor) \<ge> 64 then ret (Inl IoFailure)
      else do {
        a \<leftarrow> call h (ReadFile (''/proc/self/fdinfo/'' @ show_int descriptor));
        ret (if \<not> h_ok a then Inl IoFailure
             else case pid_of_fdinfo (h_text a) of None \<Rightarrow> Inl InvalidArgument | Some p \<Rightarrow> Inr p) })"

text \<open>\<open>IoFailure\<close> of a path too long stands for the missing error of that return.\<close>

definition realtime_checked :: "host \<Rightarrow> int \<Rightarrow> int \<Rightarrow> bool \<Rightarrow> int \<Rightarrow> (failure + gvariant) broker_comp" where
  "realtime_checked h process_fd thread_fd high_priority priority = do {
     p \<leftarrow> pidfd_id h process_fd;
     case p of Inl e \<Rightarrow> ret (Inl e)
     | Inr process \<Rightarrow> do {
         t \<leftarrow> pidfd_id h thread_fd;
         case t of Inl e \<Rightarrow> ret (Inl e)
         | Inr thread \<Rightarrow> do {
             let path = ''/proc/'' @ show_nat process @ ''/task/'' @ show_nat thread;
             st \<leftarrow> (if length path \<ge> 96 then ret False else do { a \<leftarrow> call h (StatPath path); ret (h_ok a) });
             if \<not> st then ret (Inl PermissionDenied)
             else do {
               l \<leftarrow> call h (SystemCall ''Get'' (GTuple [GString ''org.freedesktop.RealtimeKit1'', GString ''RTTimeUSecMax'']));
               if \<not> h_ok l then ret (Inl RemoteError)
               else case h_value l of
                 GInt64 limit \<Rightarrow>
                   if limit \<le> 0 then ret (Inl InvalidData)
                   else do {
                     r \<leftarrow> call h (LimitRealtime process limit);
                     if \<not> h_ok r then ret (Inl IoFailure)
                     else do {
                       a \<leftarrow> call h (if high_priority
                         then SystemCall ''MakeThreadHighPriorityWithPID'' (GTuple [GUint process, GUint thread, GInt priority])
                         else SystemCall ''MakeThreadRealtimeWithPID'' (GTuple [GUint process, GUint thread, GUint (nat (priority mod 2 ^ 32))]));
                       ret (if h_ok a then Inr (h_value a) else Inl RemoteError) } }
               | _ \<Rightarrow> ret (Inl InvalidData) } } } }"

definition realtime_method :: "host \<Rightarrow> int \<Rightarrow> int \<Rightarrow> bool \<Rightarrow> int \<Rightarrow> int list option \<Rightarrow> method_result broker_comp" where
  "realtime_method h process_handle thread_handle high_priority priority fds = do {
     p \<leftarrow> invocation_fd h fds process_handle;
     case p of Inl e \<Rightarrow> ret (answer_error e)
     | Inr process_fd \<Rightarrow> do {
         t \<leftarrow> invocation_fd h fds thread_handle;
         case t of Inl e \<Rightarrow> do { close_all h [process_fd]; ret (answer_error e) }
         | Inr thread_fd \<Rightarrow> do {
             r \<leftarrow> realtime_checked h process_fd thread_fd high_priority priority;
             close_all h [thread_fd, process_fd];
             ret (case r of Inl e \<Rightarrow> Failure e | Inr v \<Rightarrow> Reply [v] []) } } }"

definition game_mode_methods :: "string list" where
  "game_mode_methods = [''QueryStatusByPIDFd'', ''RegisterGameByPIDFd'', ''UnregisterGameByPIDFd'']"

definition game_mode_method :: "host \<Rightarrow> string \<Rightarrow> int \<Rightarrow> int \<Rightarrow> int list option \<Rightarrow> method_result broker_comp" where
  "game_mode_method h meth target_handle requester_handle fds =
     (if meth \<notin> set game_mode_methods then ret (Failure AccessDenied)
      else case fds of None \<Rightarrow> ret (Failure InvalidArgument)
      | Some list \<Rightarrow> do {
          t \<leftarrow> invocation_fd h fds target_handle;
          case t of Inl e \<Rightarrow> ret (Failure (case e of None \<Rightarrow> InvalidArgument | Some e \<Rightarrow> e))
          | Inr target_fd \<Rightarrow> do {
              q \<leftarrow> invocation_fd h fds requester_handle;
              case q of Inl e \<Rightarrow> do { close_all h [target_fd]; ret (Failure (case e of None \<Rightarrow> InvalidArgument | Some e \<Rightarrow> e)) }
              | Inr requester_fd \<Rightarrow> do {
                  close_all h [target_fd, requester_fd];
                  d \<leftarrow> find_destination h;
                  case d of Inl e \<Rightarrow> ret (Failure e)
                  | Inr destination \<Rightarrow> do {
                      a \<leftarrow> call h (PortalCall destination ''org.freedesktop.portal.GameMode'' meth
                             (GTuple [GHandle target_handle, GHandle requester_handle]) list);
                      ret (if h_ok a then Reply [h_value a] [] else Failure RemoteError) } } } })"

section \<open>Screenshots\<close>

text \<open>The file a successful response names, and its descriptor, when there are such.\<close>

definition screenshot_file :: "host \<Rightarrow> nat \<Rightarrow> gvariant \<Rightarrow> (string option \<times> int option) broker_comp" where
  "screenshot_file h response results =
     (case (response, results) of
        (0, GDict d) \<Rightarrow>
          (case map_of d ''uri'' of
             Some (GString uri) \<Rightarrow> do {
               f \<leftarrow> call h (FromUri uri);
               if \<not> h_ok f then ret (None, None)
               else do {
                 k \<leftarrow> call h (OpenPath (h_text f) O_NOFOLLOW);
                 ret (Some (h_text f), if h_ok k then Some (h_number k) else None) } }
           | _ \<Rightarrow> ret (None, None))
      | _ \<Rightarrow> ret (None, None))"

definition bounded_regular :: "host \<Rightarrow> int option \<Rightarrow> bool broker_comp" where
  "bounded_regular h descriptor =
     (case descriptor of None \<Rightarrow> ret False
      | Some fd \<Rightarrow> do {
          a \<leftarrow> call h (Fstat fd);
          ret (h_ok a \<and> st_kind (h_stat a) = Regular \<and> 0 \<le> st_size (h_stat a)
               \<and> st_size (h_stat a) \<le> int STAGED_FILE_MAXIMUM) })"

definition screenshot_method :: "host \<Rightarrow> string \<Rightarrow> (string \<times> gvariant) list \<Rightarrow> method_result broker_comp" where
  "screenshot_method h parent options = do {
     q \<leftarrow> screenshot_request h parent options;
     case q of Inl e \<Rightarrow> ret (Failure e)
     | Inr (response, results) \<Rightarrow> do {
         file \<leftarrow> screenshot_file h response results;
         good \<leftarrow> (if response = 0 then bounded_regular h (snd file) else ret True);
         if \<not> good
         then do { close_all h (case snd file of None \<Rightarrow> [] | Some fd \<Rightarrow> [fd]); ret (Failure InvalidData) }
         else do {
           descriptor \<leftarrow> (case snd file of Some fd \<Rightarrow> ret (Some fd)
             | None \<Rightarrow> do { m \<leftarrow> call h (Memfd ''spaces-empty-screenshot''); ret (if h_ok m then Some (h_number m) else None) });
           case descriptor of None \<Rightarrow> ret (Failure IoFailure)
           | Some fd \<Rightarrow> do {
               a \<leftarrow> call h (AppendFd fd);
               if \<not> h_ok a then do { close_all h [fd]; ret (Failure IoFailure) }
               else do {
                 remove_file h (fst file);
                 close_all h [fd];
                 ret (Reply [GUint response, GHandle (h_number a), results] [fd]) } } } } }"

section \<open>Portal requests\<close>

record prepared =
  pr_parameters :: gvariant
  pr_fds :: "int list"
  pr_staged :: "string option"
  pr_secret :: "(int \<times> int) option"

text \<open>What is undone when a request fails: the secret's buffer is emptied, descriptors are closed, the
  staged file is removed.\<close>

definition discard :: "host \<Rightarrow> (int \<times> int) option \<Rightarrow> string option \<Rightarrow> unit broker_comp" where
  "discard h secret staged = do {
     (case secret of None \<Rightarrow> ret ()
      | Some (host_fd, guest_fd) \<Rightarrow> do {
          perform h (Truncate host_fd);
          perform h (CloseFd host_fd);
          perform h (CloseFd guest_fd) });
     remove_file h staged }"

definition prepare_secret :: "host \<Rightarrow> string \<Rightarrow> gvariant \<Rightarrow> int list option \<Rightarrow> (method_result + prepared) broker_comp" where
  "prepare_secret h app_id input fds =
     (if length app_id > 255 then ret (Inl (Failure InvalidArgument))
      else case input of
        GTuple [GHandle handle, GDict options] \<Rightarrow> do {
          g \<leftarrow> invocation_fd h fds handle;
          case g of Inl e \<Rightarrow> ret (Inl (answer_error e))
          | Inr guest_fd \<Rightarrow> do {
              m \<leftarrow> call h (Memfd ''spaces-portal-secret'');
              if \<not> h_ok m then do { perform h (CloseFd guest_fd); ret (Inl (Failure IoFailure)) }
              else do {
                a \<leftarrow> call h (AppendFd (h_number m));
                if \<not> h_ok a
                then do { discard h (Some (h_number m, guest_fd)) None; ret (Inl (Failure IoFailure)) }
                else do {
                  updated \<leftarrow> broker_options h options False;
                  ret (Inr \<lparr>pr_parameters = GTuple [GHandle (h_number a), GDict updated], pr_fds = [h_number m],
                            pr_staged = None, pr_secret = Some (h_number m, guest_fd)\<rparr>) } } } }
      | _ \<Rightarrow> ret (Inl Undefined))"

definition prepare_wallpaper_file :: "host \<Rightarrow> string \<Rightarrow> gvariant \<Rightarrow> int list option \<Rightarrow> (method_result + prepared) broker_comp" where
  "prepare_wallpaper_file h cache input fds =
     (case input of
        GTuple [GString parent, GHandle handle, GDict options] \<Rightarrow> do {
          s \<leftarrow> stage_wallpaper_fd h cache fds handle;
          case s of Inl e \<Rightarrow> ret (Inl (answer_error e))
          | Inr (staged, path) \<Rightarrow> do {
              a \<leftarrow> call h (AppendFd staged);
              perform h (CloseFd staged);
              if \<not> h_ok a then do { discard h None (Some path); ret (Inl (Failure IoFailure)) }
              else do {
                updated \<leftarrow> broker_options h options False;
                ret (Inr \<lparr>pr_parameters = GTuple [GString parent, GHandle (h_number a), GDict updated],
                          pr_fds = [staged], pr_staged = Some path, pr_secret = None\<rparr>) } } }
      | _ \<Rightarrow> ret (Inl Undefined))"

definition simple_request :: "int list option \<Rightarrow> gvariant \<Rightarrow> method_result + prepared" where
  "simple_request fds parameters =
     Inr \<lparr>pr_parameters = parameters, pr_fds = (case fds of None \<Rightarrow> [] | Some l \<Rightarrow> l), pr_staged = None, pr_secret = None\<rparr>"

definition prepare_request :: "host \<Rightarrow> string \<Rightarrow> string \<Rightarrow> string \<Rightarrow> string \<Rightarrow> gvariant \<Rightarrow> int list option \<Rightarrow>
    (method_result + prepared) broker_comp" where
  "prepare_request h cache iface meth app_id input fds =
     (if iface = ''org.freedesktop.portal.Background'' \<and> meth = ''RequestBackground''
      then (case input of
              GTuple [GString parent, GDict options] \<Rightarrow> do {
                updated \<leftarrow> broker_options h options True;
                ret (simple_request fds (GTuple [GString parent, GDict updated])) }
            | _ \<Rightarrow> ret (Inl Undefined))
      else if iface = ''org.freedesktop.portal.DynamicLauncher'' \<and> meth = ''PrepareInstall''
      then (case input of
              GTuple [GString parent, GString name, GVariant icon, GDict options] \<Rightarrow> do {
                updated \<leftarrow> broker_options h options False;
                ret (simple_request fds (GTuple [GString parent, GString name, GVariant icon, GDict updated])) }
            | _ \<Rightarrow> ret (Inl Undefined))
      else if iface = ''org.freedesktop.portal.Secret'' \<and> meth = ''RetrieveSecret''
      then prepare_secret h app_id input fds
      else if iface = ''org.freedesktop.portal.Wallpaper'' \<and> meth = ''SetWallpaperFile''
      then prepare_wallpaper_file h cache input fds
      else if iface = ''org.freedesktop.portal.Wallpaper'' \<and> meth = ''SetWallpaperURI''
      then (case input of
              GTuple [GString parent, GString uri, GDict options] \<Rightarrow>
                if g_str_has_prefix uri ''file:'' then ret (Inl (Failure InvalidArgument))
                else do {
                  updated \<leftarrow> broker_options h options False;
                  ret (simple_request fds (GTuple [GString parent, GString uri, GDict updated])) }
            | _ \<Rightarrow> ret (Inl Undefined))
      else ret (Inl (Failure AccessDenied)))"

definition send_request :: "host \<Rightarrow> (byte list \<Rightarrow> byte list \<Rightarrow> byte list) \<Rightarrow>
    string \<Rightarrow> string \<Rightarrow> string \<Rightarrow> prepared \<Rightarrow> method_result broker_comp" where
  "send_request h hmac iface meth app_id p = do {
     r \<leftarrow> wait_portal_request h iface meth (pr_parameters p) (pr_fds p);
     case r of Inl e \<Rightarrow> do { discard h (pr_secret p) (pr_staged p); ret (Failure e) }
     | Inr (response, results) \<Rightarrow> do {
         ok \<leftarrow> (case (response, pr_secret p) of
                 (0, Some (host_fd, guest_fd)) \<Rightarrow> finish_app_secret h hmac app_id host_fd guest_fd
               | _ \<Rightarrow> ret True);
         let response = (if ok then response else 2);
         let results = (if ok then results else GDict []);
         close_all h (case pr_secret p of None \<Rightarrow> [] | Some (host_fd, guest_fd) \<Rightarrow> [host_fd, guest_fd]);
         cond (response \<noteq> 0) (remove_file h (pr_staged p));
         ret (Reply [GUint response, results] []) } }"

definition portal_request_method :: "host \<Rightarrow> (byte list \<Rightarrow> byte list \<Rightarrow> byte list) \<Rightarrow> string \<Rightarrow>
    string \<Rightarrow> string \<Rightarrow> string \<Rightarrow> gvariant \<Rightarrow> int list option \<Rightarrow> method_result broker_comp" where
  "portal_request_method h hmac cache iface meth app_id input fds = do {
     p \<leftarrow> prepare_request h cache iface meth app_id input fds;
     case p of Inl result \<Rightarrow> ret result | Inr p \<Rightarrow> send_request h hmac iface meth app_id p }"

section \<open>The dynamic launcher\<close>

text \<open>The parameters for the host, or what the method ends with. \<open>load\<close> and \<open>save\<close> are GKeyFile's.\<close>

definition launcher_parameters :: "(string \<Rightarrow> key_file option) \<Rightarrow> (key_file \<Rightarrow> string) \<Rightarrow> broker \<Rightarrow> string \<Rightarrow> gvariant \<Rightarrow> method_result + gvariant" where
  "launcher_parameters load save b meth input =
     (if meth = ''Install''
      then (case input of
              GTuple [GString token, GString desktop_id, GString entry, GDict options] \<Rightarrow>
                (case (broker_launcher_id (bk_app b) (Some desktop_id), broker_desktop_entry load (bk_space b) entry) of
                   (Some host_id, Some host_entry) \<Rightarrow>
                     Inr (GTuple [GString token, GString host_id, GString (save host_entry), GDict options])
                 | _ \<Rightarrow> Inl (Failure InvalidArgs))
            | _ \<Rightarrow> Inl Undefined)
      else if meth = ''RequestInstallToken'' then Inr input
      else if meth = ''Uninstall'' \<or> meth = ''Launch''
      then (case input of
              GTuple [GString desktop_id, GDict options] \<Rightarrow>
                (case broker_launcher_id (bk_app b) (Some desktop_id) of
                   None \<Rightarrow> Inl (Failure AccessDenied)
                 | Some host_id \<Rightarrow> Inr (GTuple [GString host_id, GDict options]))
            | _ \<Rightarrow> Inl Undefined)
      else if meth = ''GetDesktopEntry'' \<or> meth = ''GetIcon''
      then (case input of
              GTuple [GString desktop_id] \<Rightarrow>
                (case broker_launcher_id (bk_app b) (Some desktop_id) of
                   None \<Rightarrow> Inl (Failure AccessDenied)
                 | Some host_id \<Rightarrow> Inr (GTuple [GString host_id]))
            | _ \<Rightarrow> Inl Undefined)
      else Inl (Failure AccessDenied))"

text \<open>GDBus refuses parameters that are no tuple, without an error.\<close>

definition is_tuple :: "gvariant \<Rightarrow> bool" where
  "is_tuple v = (case v of GTuple _ \<Rightarrow> True | _ \<Rightarrow> False)"

definition dynamic_launcher_method :: "host \<Rightarrow> (string \<Rightarrow> key_file option) \<Rightarrow> (key_file \<Rightarrow> string) \<Rightarrow> string \<Rightarrow> gvariant \<Rightarrow> method_result broker_comp" where
  "dynamic_launcher_method h load save meth input = do {
     b \<leftarrow> gets id;
     case launcher_parameters load save b meth input of
       Inl result \<Rightarrow> ret result
     | Inr parameters \<Rightarrow> do {
         d \<leftarrow> find_destination h;
         case d of Inl e \<Rightarrow> ret (Failure e)
         | Inr destination \<Rightarrow>
             if \<not> is_tuple parameters then ret Unanswered
             else do {
               a \<leftarrow> call h (PortalCall destination ''org.freedesktop.portal.DynamicLauncher'' meth parameters []);
               ret (if h_ok a then Reply [GVariant (h_value a)] [] else Failure RemoteError) } } }"

section \<open>The method table\<close>

datatype integration_call =
    OpenFile string int bool string
  | OpenDirectory string int string
  | MakeRealtime int int bool int
  | MakeGameMode string int int
  | Screenshot string "(string \<times> gvariant) list"
  | StageFile int
  | ResolvePath string int
  | RemoveStagedFile string
  | PortalRequest string string string gvariant
  | DynamicLauncherCall string gvariant

record surroundings =
  u_hmac :: "byte list \<Rightarrow> byte list \<Rightarrow> byte list"
  u_cache :: string
  u_load :: "string \<Rightarrow> key_file option"
  u_save :: "key_file \<Rightarrow> string"

primrec open_method :: "host \<Rightarrow> surroundings \<Rightarrow> int list option \<Rightarrow> integration_call \<Rightarrow> method_result broker_comp" where
  "open_method h u fds (OpenFile path handle writable token) = open_file_method h ''OpenFile'' path handle writable token fds"
| "open_method h u fds (OpenDirectory path handle token) = open_file_method h ''OpenDirectory'' path handle False token fds"
| "open_method h u fds (MakeRealtime p t high priority) = realtime_method h p t high priority fds"
| "open_method h u fds (MakeGameMode meth t q) = game_mode_method h meth t q fds"
| "open_method h u fds (Screenshot parent options) = screenshot_method h parent options"
| "open_method h u fds (StageFile handle) = stage_file_method h (u_cache u) handle fds"
| "open_method h u fds (ResolvePath path handle) = resolve_path_method h path handle fds"
| "open_method h u fds (RemoveStagedFile uri) = remove_staged_file_method h uri"
| "open_method h u fds (PortalRequest iface meth app_id input) =
     portal_request_method h (u_hmac u) (u_cache u) iface meth app_id input fds"
| "open_method h u fds (DynamicLauncherCall meth input) = dynamic_launcher_method h (u_load u) (u_save u) meth input"

section \<open>Starting\<close>

record start_options =
  so_name :: "string option"
  so_space :: "string option"
  so_app :: "string option"
  so_ready :: int
  so_mappings :: "mapping_entry list"

text \<open>A descriptor's number is decimal, with \<open>strtol\<close>'s white space and sign.\<close>

definition descriptor_number :: "string \<Rightarrow> int option" where
  "descriptor_number s =
     (case signed_numeral s of (value, digits, rest) \<Rightarrow>
        if digits = [] \<or> rest \<noteq> [] \<or> value < 0 \<or> value > 2147483647 then None else Some value)"

definition add_mapping :: "(int \<Rightarrow> file_stat option) \<Rightarrow> string \<Rightarrow> string \<Rightarrow> mapping_entry option" where
  "add_mapping fstat guest descriptor_text =
     (case (if valid_guest_path guest then descriptor_number descriptor_text else None) of
        None \<Rightarrow> None
      | Some fd \<Rightarrow> (case fstat fd of None \<Rightarrow> None
                  | Some st \<Rightarrow> Some \<lparr>m_guest = guest, m_descriptor = fd, m_metadata = st\<rparr>))"

fun start_arguments :: "(int \<Rightarrow> file_stat option) \<Rightarrow> string list \<Rightarrow> start_options \<Rightarrow> start_options option" where
  "start_arguments fstat [] o' = Some o'"
| "start_arguments fstat (arg # args) o' =
     (if arg = ''--name''
      then (case args of v # args \<Rightarrow> start_arguments fstat args (o'\<lparr>so_name := Some v\<rparr>) | [] \<Rightarrow> None)
      else if arg = ''--space''
      then (case args of v # args \<Rightarrow> start_arguments fstat args (o'\<lparr>so_space := Some v\<rparr>) | [] \<Rightarrow> None)
      else if arg = ''--app-id''
      then (case args of v # args \<Rightarrow> start_arguments fstat args (o'\<lparr>so_app := Some v\<rparr>) | [] \<Rightarrow> None)
      else if arg = ''--ready-fd''
      then (case args of v # args \<Rightarrow> start_arguments fstat args (o'\<lparr>so_ready := atoi v\<rparr>) | [] \<Rightarrow> None)
      else if arg = ''--map''
      then (case args of
              guest # fd # args \<Rightarrow>
                (case add_mapping fstat guest fd of
                   None \<Rightarrow> None
                 | Some m \<Rightarrow> start_arguments fstat args (o'\<lparr>so_mappings := so_mappings o' @ [m]\<rparr>))
            | _ \<Rightarrow> None)
      else None)"

definition start_broker :: "(int \<Rightarrow> file_stat option) \<Rightarrow> string list \<Rightarrow> (broker \<times> string \<times> int) option" where
  "start_broker fstat args =
     (case start_arguments fstat args \<lparr>so_name = None, so_space = None, so_app = None, so_ready = - 1, so_mappings = []\<rparr> of
        None \<Rightarrow> None
      | Some o' \<Rightarrow>
          (case (so_name o', so_space o', so_app o') of
             (Some name, Some space, Some app) \<Rightarrow>
               if so_ready o' < 0 \<or> so_mappings o' = [] then None
               else Some (\<lparr>bk_space = space, bk_app = app, bk_mappings = so_mappings o', bk_staged = [],
                          bk_identity = initial_identity\<rparr>, name, so_ready o')
           | _ \<Rightarrow> None))"

text \<open>On its way out the broker removes the files it staged.\<close>

definition remove_staged_files :: "host \<Rightarrow> unit broker_comp" where
  "remove_staged_files h = do {
     staged \<leftarrow> gets bk_staged;
     each (\<lambda>f. perform h (Unlink f)) staged }"

end
