(* ===== verification/Broker_Safety.thy ===== *)
theory Broker_Safety
  imports Host_Methods
begin

text \<open>
  Properties of the host broker. \<open>routed\<close> computations address the portal only as the broker's
  identity allows; they are recognised by rules, one per construct, so that the whole method table
  follows by stepping through the code.
\<close>

section \<open>Every portal call goes to the registered owner\<close>

definition addressed :: "identity \<Rightarrow> host_event \<Rightarrow> bool" where
  "addressed i e = (case fst e of
     PortalCall d _ _ _ _ \<Rightarrow> pi_registered i \<and> pi_owner i = Some d
   | AwaitResponse d _ \<Rightarrow> pi_registered i \<and> pi_owner i = Some d
   | _ \<Rightarrow> True)"

definition routed :: "identity \<Rightarrow> 'a broker_comp \<Rightarrow> bool" where
  "routed i m = (\<forall>s. bk_identity (prog s) = i \<longrightarrow> emits m s (\<lambda>_ b es. bk_identity b = i \<and> list_all (addressed i) es))"

fun neutral :: "host_call \<Rightarrow> bool" where
  "neutral (PortalCall d i m p f) = False" | "neutral (AwaitResponse d p) = False" | "neutral _ = True"

lemma routed_call: "neutral c \<Longrightarrow> routed i (call h c)"
  by (cases c) (auto simp: routed_def addressed_def emits_def wp_simps)

lemma routed_perform: "neutral c \<Longrightarrow> routed i (perform h c)"
  by (cases c) (auto simp: routed_def addressed_def emits_def wp_simps)

lemma routed_ret: "routed i (ret a)"
  by (auto simp: routed_def intro: emits_return)

lemma routed_gets: "routed i (gets f)"
  by (auto simp: routed_def intro: emits_gets)

lemma routed_modify: "(\<And>b. bk_identity (f b) = bk_identity b) \<Longrightarrow> routed i (modify f)"
  by (auto simp: routed_def intro: emits_modify)

lemma routed_bind:
  assumes "routed i m" "\<And>a. routed i (f a)"
  shows "routed i (State_Monad.bind m f)"
  unfolding routed_def
proof (intro allI impI)
  fix s :: "(broker, host_event) mach"
  assume "bk_identity (prog s) = i"
  then have "emits m s (\<lambda>_ b es. bk_identity b = i \<and> list_all (addressed i) es)" using assms(1) by (simp add: routed_def)
  then show "emits (State_Monad.bind m f) s (\<lambda>_ b es. bk_identity b = i \<and> list_all (addressed i) es)"
  proof (rule emits_bind)
    fix a es and s' :: "(broker, host_event) mach"
    assume h: "bk_identity (prog s') = i \<and> list_all (addressed i) es"
    then have "emits (f a) s' (\<lambda>_ b es. bk_identity b = i \<and> list_all (addressed i) es)"
      using assms(2) by (simp add: routed_def)
    then show "emits (f a) s' (\<lambda>_ b es'. bk_identity b = i \<and> list_all (addressed i) (es @ es'))"
      by (rule emits_mono) (use h in simp)
  qed
qed

lemma routed_portal:
  "pi_registered i \<Longrightarrow> pi_owner i = Some d \<Longrightarrow> routed i (call h (PortalCall d iface meth p fds))"
  "pi_registered i \<Longrightarrow> pi_owner i = Some d \<Longrightarrow> routed i (call h (AwaitResponse d path))"
  by (auto simp: routed_def addressed_def emits_def wp_simps)

lemma routed_if: "(b \<Longrightarrow> routed i m) \<Longrightarrow> (\<not> b \<Longrightarrow> routed i n) \<Longrightarrow> routed i (if b then m else n)"
  by simp

lemma routed_cond: "routed i m \<Longrightarrow> routed i (cond b m)"
  by (simp add: cond_def routed_ret)

lemma routed_each: "(\<And>x. routed i (f x)) \<Longrightarrow> routed i (each f xs)"
  by (induction xs) (auto intro: routed_ret routed_bind)

lemma routed_option: "(x = None \<Longrightarrow> routed i m) \<Longrightarrow> (\<And>y. x = Some y \<Longrightarrow> routed i (f y)) \<Longrightarrow> routed i (case x of None \<Rightarrow> m | Some y \<Rightarrow> f y)"
  by (cases x) auto

lemma routed_sum: "(\<And>y. x = Inl y \<Longrightarrow> routed i (g y)) \<Longrightarrow> (\<And>y. x = Inr y \<Longrightarrow> routed i (f y)) \<Longrightarrow> routed i (case x of Inl y \<Rightarrow> g y | Inr y \<Rightarrow> f y)"
  by (cases x) auto

lemma routed_prod: "(\<And>a b. x = (a, b) \<Longrightarrow> routed i (f a b)) \<Longrightarrow> routed i (case x of (a, b) \<Rightarrow> f a b)"
  by (cases x) auto

lemmas routed_intros = routed_call routed_perform routed_ret routed_gets routed_modify routed_bind routed_if routed_cond
  routed_each routed_option routed_sum routed_prod

text \<open>The destination that was found may be addressed.\<close>

lemma routed_destination:
  assumes "\<And>q. pi_registered i \<Longrightarrow> pi_owner i = Some q \<Longrightarrow> routed i (f (Inr q))" "\<And>e. routed i (f (Inl e))"
  shows "routed i (State_Monad.bind (find_destination h) f)"
  unfolding routed_def
proof (intro allI impI)
  fix s :: "(broker, host_event) mach"
  assume i: "bk_identity (prog s) = i"
  have "emits (find_destination h) s (\<lambda>d b es. bk_identity b = i \<and> list_all (addressed i) es \<and>
      (case d of Inl _ \<Rightarrow> True | Inr q \<Rightarrow> pi_registered i \<and> pi_owner i = Some q))"
    using i by (auto simp: find_destination_def emits_def wp_simps addressed_def portal_destination_def split: option.split)
  then show "emits (State_Monad.bind (find_destination h) f) s (\<lambda>_ b es. bk_identity b = i \<and> list_all (addressed i) es)"
  proof (rule emits_bind)
    fix d :: "failure + owner" and es and s' :: "(broker, host_event) mach"
    assume p: "bk_identity (prog s') = i \<and> list_all (addressed i) es \<and>
      (case d of Inl _ \<Rightarrow> True | Inr q \<Rightarrow> pi_registered i \<and> pi_owner i = Some q)"
    then have "emits (f d) s' (\<lambda>_ b es. bk_identity b = i \<and> list_all (addressed i) es)"
      using assms by (cases d) (auto simp: routed_def)
    then show "emits (f d) s' (\<lambda>_ b es'. bk_identity b = i \<and> list_all (addressed i) (es @ es'))"
      by (rule emits_mono) (use p in simp)
  qed
qed

lemma routed_new_token: "routed i (new_token h)"
  unfolding new_token_def by (intro routed_intros) simp

lemma routed_request_owner:
  "pi_registered i \<Longrightarrow> pi_owner i = Some q \<Longrightarrow> routed i (request_owner h q iface meth p fds)"
  unfolding request_owner_def by (intro routed_intros routed_portal)

lemma routed_wait_portal_request: "routed i (wait_portal_request h iface meth p fds)"
  unfolding wait_portal_request_def
  by (rule routed_destination) (simp_all add: routed_request_owner routed_ret)

lemma routed_screenshot_request: "routed i (screenshot_request h parent options)"
  unfolding screenshot_request_def
  by (rule routed_destination) (auto intro!: routed_bind routed_new_token routed_request_owner routed_ret)

lemma routed_call_host_portal: "routed i (call_host_portal h meth fd writable token)"
  unfolding call_host_portal_def
  by (rule routed_destination) (auto intro!: routed_intros routed_new_token routed_request_owner)

lemma routed_broker_options: "routed i (broker_options h options background)"
  unfolding broker_options_def Let_def by (intro routed_intros routed_new_token)

lemma routed_secure_open: "routed i (secure_open h m path fl)"
  unfolding secure_open_def Let_def by (intro routed_intros) simp_all

lemma routed_invocation_fd: "routed i (invocation_fd h fds handle)"
  unfolding invocation_fd_def by (intro routed_intros) simp

lemma routed_close_all: "routed i (close_all h fds)"
  unfolding close_all_def by (intro routed_intros) simp

lemma routed_same_object: "routed i (same_object h a b)"
  unfolding same_object_def by (intro routed_intros) simp_all

lemma routed_remove_file: "routed i (remove_file h f)"
  unfolding remove_file_def by (intro routed_intros) simp

lemmas routed_helpers = routed_intros routed_new_token routed_wait_portal_request routed_screenshot_request
  routed_call_host_portal routed_broker_options routed_secure_open routed_invocation_fd routed_close_all
  routed_same_object routed_remove_file

lemma routed_copy_loop: "routed i (copy_loop h source output n copied)"
  by (induction n arbitrary: copied) (auto intro!: routed_helpers)

lemma routed_stage_source: "routed i (stage_source h directory source)"
  unfolding stage_source_def copy_staged_fd_def Let_def by (intro routed_helpers routed_copy_loop) simp_all

lemma routed_open_file: "routed i (open_file_method h meth path handle rw token fds)"
  unfolding open_file_method_def open_proved_def by (intro routed_helpers) simp_all

lemma routed_resolve: "routed i (resolve_path_method h path handle fds)"
  unfolding resolve_path_method_def by (intro routed_helpers) simp_all

lemma routed_stage_wallpaper: "routed i (stage_wallpaper_fd h cache fds handle)"
  unfolding stage_wallpaper_fd_def by (intro routed_helpers routed_stage_source) simp_all

lemma routed_stage_file: "routed i (stage_file_method h cache handle fds)"
  unfolding stage_file_method_def by (intro routed_helpers routed_stage_source) simp_all

lemma routed_remove_staged: "routed i (remove_staged_file_method h uri)"
  unfolding remove_staged_file_method_def by (intro routed_helpers) simp_all

lemma routed_read_master: "routed i (read_master h fd n raw)"
proof (induction n arbitrary: raw)
  case (Suc n)
  then show ?case unfolding read_master.simps by (intro routed_helpers) simp_all
qed (simp add: routed_ret)

lemma routed_secret: "routed i (finish_app_secret h hmac app_id a b)"
proof -
  have "routed i (derive_secret h hmac app_id a b)"
    unfolding derive_secret_def Let_def by (intro routed_helpers routed_read_master) simp_all
  then show ?thesis unfolding finish_app_secret_def Let_def by (intro routed_helpers) simp_all
qed

lemma routed_pidfd: "routed i (pidfd_id h fd)"
  unfolding pidfd_id_def by (intro routed_helpers) simp_all

lemma routed_realtime: "routed i (realtime_method h p t high priority fds)"
proof -
  have "routed i (case v of GInt64 limit \<Rightarrow> f limit | _ \<Rightarrow> ret (Inl e))" if "\<And>limit. routed i (f limit)"
    for v and f :: "int \<Rightarrow> (failure + gvariant) broker_comp" and e
    using that by (cases v) (simp_all add: routed_ret)
  note number = this
  show ?thesis unfolding realtime_method_def realtime_checked_def Let_def
    by (intro routed_helpers routed_pidfd number) simp_all
qed

lemma routed_game_mode: "routed i (game_mode_method h meth t q fds)"
  unfolding game_mode_method_def
  by (intro routed_helpers routed_destination routed_portal) simp_all

lemma routed_screenshot: "routed i (screenshot_method h parent options)"
proof -
  have "routed i (screenshot_file h response results)" for response results
    unfolding screenshot_file_def
    by (cases results; cases response)
       (auto intro!: routed_helpers split: option.split gvariant.split)
  then show ?thesis unfolding screenshot_method_def bounded_regular_def
    by (intro routed_helpers) simp_all
qed

lemma routed_discard: "routed i (discard h secret staged)"
  unfolding discard_def by (intro routed_helpers) simp_all

lemma routed_prepare: "routed i (prepare_request h cache iface meth app_id input fds)"
proof -
  have two: "routed i (case input of GTuple [GString a, GDict b] \<Rightarrow> f a b | _ \<Rightarrow> ret x)" if "\<And>a b. routed i (f a b)"
    for f :: "string \<Rightarrow> (string \<times> gvariant) list \<Rightarrow> (method_result + prepared) broker_comp" and x
    using that by (auto simp: routed_ret split: gvariant.split list.split)
  have handle: "routed i (case input of GTuple [GHandle a, GDict b] \<Rightarrow> f a b | _ \<Rightarrow> ret x)" if "\<And>a b. routed i (f a b)"
    for f :: "int \<Rightarrow> (string \<times> gvariant) list \<Rightarrow> (method_result + prepared) broker_comp" and x
    using that by (auto simp: routed_ret split: gvariant.split list.split)
  have secret: "routed i (prepare_secret h app_id input fds)"
    unfolding prepare_secret_def by (intro routed_helpers handle routed_discard) simp_all
  have wall: "routed i (case input of GTuple [GString a, GHandle b, GDict c] \<Rightarrow> f a b c | _ \<Rightarrow> ret x)" if "\<And>a b c. routed i (f a b c)"
    for f :: "string \<Rightarrow> int \<Rightarrow> (string \<times> gvariant) list \<Rightarrow> (method_result + prepared) broker_comp" and x
    using that by (auto simp: routed_ret split: gvariant.split list.split)
  have uri: "routed i (case input of GTuple [GString a, GString b, GDict c] \<Rightarrow> f a b c | _ \<Rightarrow> ret x)" if "\<And>a b c. routed i (f a b c)"
    for f :: "string \<Rightarrow> string \<Rightarrow> (string \<times> gvariant) list \<Rightarrow> (method_result + prepared) broker_comp" and x
    using that by (auto simp: routed_ret split: gvariant.split list.split)
  have four: "routed i (case input of GTuple [GString a, GString b, GVariant c, GDict d] \<Rightarrow> f a b c d | _ \<Rightarrow> ret x)"
    if "\<And>a b c d. routed i (f a b c d)"
    for f :: "string \<Rightarrow> string \<Rightarrow> gvariant \<Rightarrow> (string \<times> gvariant) list \<Rightarrow> (method_result + prepared) broker_comp" and x
    using that by (auto simp: routed_ret split: gvariant.split list.split)
  have wallpaper: "routed i (prepare_wallpaper_file h cache input fds)"
    unfolding prepare_wallpaper_file_def by (intro routed_helpers wall routed_discard routed_stage_wallpaper) simp_all
  show ?thesis unfolding prepare_request_def
    by (intro routed_if two four uri secret wallpaper routed_helpers)
qed

lemma routed_portal_request: "routed i (portal_request_method h hmac cache iface meth app_id input fds)"
proof -
  have "routed i (case (response, secret) of (0, Some (a, b)) \<Rightarrow> finish_app_secret h hmac app_id a b | _ \<Rightarrow> ret True)"
    for response :: nat and secret
    by (auto intro: routed_secret routed_ret split: nat.split option.split)
  then show ?thesis unfolding portal_request_method_def send_request_def Let_def
    by (intro routed_helpers routed_prepare routed_discard) simp_all
qed

lemma routed_dynamic_launcher: "routed i (dynamic_launcher_method h load save meth input)"
  unfolding dynamic_launcher_method_def
  by (intro routed_helpers routed_destination routed_portal) simp_all

text \<open>C3. Whatever a guest asks of the integration interface, the broker addresses the portal only through
  the owner its identity is registered with: on every run of every method, each call to the portal
  and each wait for its response names the registered owner, and a method never changes the
  registration itself. With no registration in force, no method reaches the portal at all.\<close>

theorem methods_address_registered_owner:
  "emits (open_method h u fds c) s (\<lambda>_ b es. bk_identity b = bk_identity (prog s) \<and>
     list_all (addressed (bk_identity (prog s))) es)"
proof -
  have "routed i (open_method h u fds c)" for i
    by (cases c) (simp_all add: routed_open_file routed_realtime routed_game_mode routed_screenshot routed_stage_file
        routed_resolve routed_remove_staged routed_portal_request routed_dynamic_launcher)
  then show ?thesis by (simp add: routed_def)
qed

section \<open>Guest paths and mappings\<close>

abbreviation "slash \<equiv> CHR ''/''"

lemma split_on_append_sep: "split_on c (xs @ c # ys) = split_on c xs @ split_on c ys"
proof (induction xs)
  case (Cons x xs)
  then show ?case by (cases "split_on c xs") auto
qed simp

lemma split_on_dropWhile: "set (split_on c (dropWhile (\<lambda>x. x = c) s)) \<subseteq> set (split_on c s)"
  by (induction s) auto

text \<open>The path relative to a mapping that matches has no \<open>..\<close> component and no leading slash.\<close>

lemma relative_path_safe:
  assumes "valid_guest_path path" "mapping_matches m path"
  shows "''..'' \<notin> set (split_on slash (dropWhile (\<lambda>c. c = slash) (drop (length (m_guest m)) path)))"
    and "take 1 (dropWhile (\<lambda>c. c = slash) (drop (length (m_guest m)) path)) \<noteq> ''/''"
proof -
  let ?t = "drop (length (m_guest m)) path"
  obtain p where p: "path = slash # p" using assms(1) by (cases path) (auto simp: valid_guest_path_def)
  have dots: "''..'' \<notin> set (split_on slash path)" using assms(1) p by (auto simp: valid_guest_path_def g_strsplit_def)
  have path: "path = m_guest m @ ?t"
    using assms(2) append_take_drop_id [of "length (m_guest m)" path]
    by (simp add: mapping_matches_def Let_def g_str_has_prefix_def)
  have "''..'' \<notin> set (split_on slash ?t)"
  proof (cases "?t")
    case Nil
    then show ?thesis by simp
  next
    case (Cons x xs)
    consider "x = slash" | "length (m_guest m) = 1"
      using assms(2) Cons by (auto simp: mapping_matches_def Let_def)
    then show ?thesis
    proof cases
      case 1
      have "split_on slash path = split_on slash (m_guest m) @ split_on slash xs"
        using path Cons 1 split_on_append_sep [of slash "m_guest m" xs] by simp
      then show ?thesis using dots Cons 1 by simp
    next
      case 2
      then have "m_guest m = [slash]" using path p by (cases "m_guest m") auto
      then have "split_on slash path = [] # split_on slash ?t" using path by (metis append_Cons append_Nil split_on.simps(2))
      then show ?thesis using dots by simp
    qed
  qed
  then show "''..'' \<notin> set (split_on slash (dropWhile (\<lambda>c. c = slash) ?t))" using split_on_dropWhile by blast
  have "take 1 (dropWhile (\<lambda>c. c = slash) t) \<noteq> ''/''" for t by (induction t) auto
  then show "take 1 (dropWhile (\<lambda>c. c = slash) ?t) \<noteq> ''/''" .
qed

lemma best_mapping_spec:
  "(\<forall>b. best = Some b \<longrightarrow> mapping_matches b path) \<Longrightarrow>
   (case best_mapping ms path best of
      None \<Rightarrow> best = None \<and> (\<forall>m \<in> set ms. \<not> mapping_matches m path)
    | Some b \<Rightarrow> mapping_matches b path \<and> (b \<in> set ms \<or> best = Some b) \<and>
        (\<forall>m \<in> set ms. mapping_matches m path \<longrightarrow> length (m_guest m) \<le> length (m_guest b)) \<and>
        (\<forall>b'. best = Some b' \<longrightarrow> length (m_guest b') \<le> length (m_guest b)))"
proof (induction ms arbitrary: best)
  case Nil
  then show ?case by (auto split: option.split)
next
  case (Cons m ms)
  let ?best = "if mapping_matches m path \<and> (case best of None \<Rightarrow> True | Some b \<Rightarrow> length (m_guest m) > length (m_guest b))
    then Some m else best"
  have "\<forall>b. ?best = Some b \<longrightarrow> mapping_matches b path" using Cons.prems by auto
  from Cons.IH [OF this] show ?case
    unfolding best_mapping.simps
    by (auto split: option.splits if_splits)
qed

text \<open>C9. A guest path is resolved through the most specific mapping: the mapping found is one of the
  broker's, contains the path at a component boundary, and no other that does has a longer guest
  path; there is none exactly when none contains the path. What is opened beneath it, for a path that
  passed the check, is relative and has no \<open>..\<close> component.\<close>

theorem mapping_resolution:
  assumes "valid_guest_path path"
  shows "case find_mapping ms path of
    None \<Rightarrow> \<forall>m \<in> set ms. \<not> mapping_matches m path
  | Some b \<Rightarrow> b \<in> set ms \<and> mapping_matches b path \<and>
      (\<forall>m \<in> set ms. mapping_matches m path \<longrightarrow> length (m_guest m) \<le> length (m_guest b)) \<and>
      (let relative = dropWhile (\<lambda>c. c = slash) (drop (length (m_guest b)) path)
       in take 1 relative \<noteq> ''/'' \<and> ''..'' \<notin> set (split_on slash relative))"
proof (cases "find_mapping ms path")
  case None
  then show ?thesis using best_mapping_spec [of None path ms] by (simp add: find_mapping_def)
next
  case (Some b)
  then have "mapping_matches b path" using best_mapping_spec [of None path ms] by (simp add: find_mapping_def)
  then show ?thesis using Some best_mapping_spec [of None path ms] relative_path_safe [OF assms, of b]
    by (simp add: find_mapping_def Let_def)
qed

theorem mapping_resolution_witness:
  "(let st = \<lparr>st_dev = 1, st_ino = 2, st_kind = Directory, st_size = 0\<rparr>;
        a = \<lparr>m_guest = ''/mnt'', m_descriptor = 5, m_metadata = st\<rparr>; b = \<lparr>m_guest = ''/mnt/d'', m_descriptor = 6, m_metadata = st\<rparr>
    in find_mapping [a, b] ''/mnt/d/x'' = Some b \<and> find_mapping [a, b] ''/mnt/dx'' = Some a \<and> b \<in> set [a, b])"
proof -
  let ?st = "\<lparr>st_dev = 1, st_ino = 2, st_kind = Directory, st_size = 0\<rparr>"
  let ?a = "\<lparr>m_guest = ''/mnt'', m_descriptor = 5, m_metadata = ?st\<rparr>"
  let ?b = "\<lparr>m_guest = ''/mnt/d'', m_descriptor = 6, m_metadata = ?st\<rparr>"
  have v: "valid_guest_path ''/mnt/d/x''" by code_simp
  have "find_mapping [?a, ?b] ''/mnt/d/x'' = Some ?b" "find_mapping [?a, ?b] ''/mnt/dx'' = Some ?a" by code_simp+
  then show ?thesis using mapping_resolution [OF v, of "[?a, ?b]"] by (simp add: Let_def)
qed

end
