(* ===== verification/Broker_Confinement.thy ===== *)
theory Broker_Confinement
  imports Broker_Safety
begin

text \<open>
  What a guest can make the host broker do: the files it opens for the guest, the copies it stages, the
  secrets it derives, and the launchers it installs.
\<close>

section \<open>A file opened for a guest\<close>

definition no_portal :: "host_event list \<Rightarrow> bool" where
  "no_portal es = list_all (\<lambda>e. neutral (fst e)) es"

lemma no_portal_simps [simp]: "no_portal []" "no_portal ((c, a) # es) \<longleftrightarrow> neutral c \<and> no_portal es"
  "no_portal (es @ fs) \<longleftrightarrow> no_portal es \<and> no_portal fs"
  by (simp_all add: no_portal_def)

text \<open>The descriptor was opened for a mapping: the mapping's own, or beneath it by a safe relative path.\<close>

definition opened_by :: "mapping_entry \<Rightarrow> flags \<Rightarrow> int \<Rightarrow> host_event \<Rightarrow> bool" where
  "opened_by m fl fd e = (h_ok (snd e) \<and> h_number (snd e) = fd \<and>
     (case fst e of
        OpenProc d f \<Rightarrow> d = m_descriptor m \<and> f = fl
      | OpenBeneath d relative f \<Rightarrow> d = m_descriptor m \<and> f = fl \<and> take 1 relative \<noteq> ''/'' \<and> ''..'' \<notin> set (split_on slash relative)
      | _ \<Rightarrow> False))"

definition has_stat :: "int \<Rightarrow> file_stat \<Rightarrow> host_event list \<Rightarrow> bool" where
  "has_stat fd st es = (\<exists>a. (Fstat fd, a) \<in> set es \<and> h_ok a \<and> h_stat a = st)"

text \<open>What allows the portal to be given \<open>fd\<close> for a guest that has \<open>guest_fd\<close> open.\<close>

definition backed :: "broker \<Rightarrow> string \<Rightarrow> int \<Rightarrow> bool \<Rightarrow> host_event list \<Rightarrow> int \<Rightarrow> bool" where
  "backed b path guest_fd writable es fd \<longleftrightarrow>
     (\<exists>m st st'. valid_guest_path path \<and> find_mapping (bk_mappings b) path = Some m \<and>
        list_ex (opened_by m (if writable then O_RDWR else O_RDONLY) fd) es \<and>
        has_stat guest_fd st es \<and> has_stat fd st' es \<and> same_object_stat st st' \<and>
        (\<not> writable \<or> (\<exists>a. (GetFlags guest_fd, a) \<in> set es \<and> h_ok a \<and> h_number a = 2)))"

lemma secure_open_emits:
  assumes "valid_guest_path path" "mapping_matches m path"
  shows "emits (secure_open h m path fl) s (\<lambda>r b es. b = prog s \<and> no_portal es \<and>
     (case r of None \<Rightarrow> True | Some fd \<Rightarrow> list_ex (opened_by m fl fd) es))"
proof -
  note safe = relative_path_safe [OF assms]
  have "''..'' \<notin> set (split_on slash ''.'')" "take 1 ''.'' \<noteq> ''/''" by simp_all
  then show ?thesis using safe unfolding secure_open_def Let_def
    by (auto simp: emits_def wp_simps opened_by_def)
qed

text \<open>The descriptor that the broker works with is a duplicate of the one the guest passed.\<close>

lemma invocation_fd_emits: "emits (invocation_fd h fds handle) s (\<lambda>r b es. b = prog s \<and> no_portal es \<and>
   (case r of Inl _ \<Rightarrow> True
    | Inr fd \<Rightarrow> \<exists>passed a. fds = Some passed \<and> 0 \<le> handle \<and> handle < int (length passed) \<and>
        es = [(DupFd (passed ! nat handle), a)] \<and> h_ok a \<and> h_number a = fd))"
  unfolding invocation_fd_def by (auto simp: emits_def wp_simps split: option.split)

lemma close_all_emits: "emits (close_all h fds) s (\<lambda>r b es. b = prog s \<and> no_portal es)"
proof -
  have "emits (each (\<lambda>fd. perform h (CloseFd fd)) fds) s (\<lambda>r b es. b = prog s \<and> no_portal es)" for s
  proof (induction fds arbitrary: s)
    case (Cons fd fds)
    show ?case unfolding each.simps
      by (rule emits_bind [where P = "\<lambda>_ b es. b = prog s \<and> no_portal es"])
         (auto simp: emits_def [of "perform _ _"] wp_simps intro!: emits_mono [OF Cons.IH])
  qed (auto intro: emits_return)
  then show ?thesis by (simp add: close_all_def)
qed

text \<open>What each call to the portal of an \<open>OpenFile\<close> or \<open>OpenDirectory\<close> looks like.\<close>

definition asks_writable :: "gvariant \<Rightarrow> bool" where
  "asks_writable p = (case p of GTuple [_, _, GDict options] \<Rightarrow> map_of options ''writable'' = Some (GBool True) | _ \<Rightarrow> False)"

definition opens :: "string \<Rightarrow> int \<Rightarrow> bool \<Rightarrow> host_call \<Rightarrow> bool" where
  "opens meth fd writable c = (case c of
     PortalCall _ iface m p fds \<Rightarrow> iface = ''org.freedesktop.portal.OpenURI'' \<and> m = meth \<and> fds = [fd] \<and> asks_writable p = writable
   | _ \<Rightarrow> True)"

lemma neutral_opens: "no_portal es \<Longrightarrow> list_all (\<lambda>e. opens meth fd writable (fst e)) es"
  unfolding no_portal_def opens_def by (auto simp: list_all_iff split: host_call.splits)

lemma find_destination_emits: "emits (find_destination h) s (\<lambda>_ b es. b = prog s \<and> no_portal es)"
  by (simp add: find_destination_def emits_def wp_simps)

lemma new_token_emits: "emits (new_token h) s (\<lambda>_ b es. b = prog s \<and> no_portal es)"
  by (simp add: new_token_def emits_def wp_simps)

lemma request_owner_emits:
  "opens meth fd writable (PortalCall q iface m p fds) \<Longrightarrow>
   emits (request_owner h q iface m p fds) s (\<lambda>_ b es. list_all (\<lambda>e. opens meth fd writable (fst e)) es)"
  by (auto simp: request_owner_def emits_def wp_simps opens_def)

lemma call_host_portal_emits:
  fixes s :: "(broker, host_event) mach"
  shows "emits (call_host_portal h meth fd writable token) s (\<lambda>_ b es. list_all (\<lambda>e. opens meth fd writable (fst e)) es)"
  unfolding call_host_portal_def
proof (rule emits_bind [OF find_destination_emits], goal_cases)
  case (1 d s1 es1)
  show ?case
  proof (cases d)
    case (Inl e)
    then show ?thesis using 1 neutral_opens by (auto intro!: emits_return)
  next
    case (Inr q)
    show ?thesis unfolding Inr sum.case
    proof (rule emits_bind [where P = "\<lambda>a b es. no_portal es"], goal_cases)
      case 1
      show ?case by (simp add: emits_def wp_simps)
    next
      case (2 a s2 es2)
      show ?case
      proof (cases "h_ok a")
        case False
        then show ?thesis using 1 2 neutral_opens by (auto intro!: emits_return)
      next
        case True
        have o: "opens meth fd writable (PortalCall q ''org.freedesktop.portal.OpenURI'' meth
            (GTuple [GString '''', GHandle (h_number a),
               GDict ((''handle_token'', GString token')
                 # (if writable then [(''writable'', GBool True)] else [])
                 @ (if token \<noteq> [] then [(''activation_token'', GString token)] else []))]) [fd])" for token'
          by (simp add: opens_def asks_writable_def)
        have ok: "\<not> \<not> h_ok a" using True by simp
        show ?thesis unfolding if_not_P [OF ok]
          by (rule emits_bind [OF new_token_emits], rule emits_bind [OF request_owner_emits [OF o]], rule emits_return)
             (use 1 2 neutral_opens in simp)
      qed
    qed
  qed
qed

text \<open>The events of an \<open>OpenFile\<close> or \<open>OpenDirectory\<close>: every portal call opens a backed descriptor.\<close>

definition open_granted :: "broker \<Rightarrow> string \<Rightarrow> string \<Rightarrow> int \<Rightarrow> bool \<Rightarrow> host_event list \<Rightarrow> host_event list \<Rightarrow> bool" where
  "open_granted b meth path g requested all es =
     list_all (\<lambda>e. case fst e of
       PortalCall _ iface m p fds \<Rightarrow>
         (\<exists>fd. opens meth fd (asks_writable p) (fst e) \<and> backed b path g (asks_writable p) all fd \<and>
               (asks_writable p \<longrightarrow> requested \<and> meth = ''OpenFile''))
     | _ \<Rightarrow> True) es"

lemma open_granted_simps [simp]: "open_granted b meth path g rw all []"
  "open_granted b meth path g rw all (es @ fs) \<longleftrightarrow> open_granted b meth path g rw all es \<and> open_granted b meth path g rw all fs"
  by (simp_all add: open_granted_def)

lemma no_portal_granted: "no_portal es \<Longrightarrow> open_granted b meth path g rw all es"
  unfolding no_portal_def open_granted_def by (auto simp: list_all_iff split: host_call.splits)

lemma opens_granted:
  assumes "list_all (\<lambda>e. opens meth fd writable (fst e)) es" "backed b path g writable all fd"
    "writable \<longrightarrow> requested \<and> meth = ''OpenFile''"
  shows "open_granted b meth path g requested all es"
  unfolding open_granted_def list_all_iff
proof (intro ballI)
  fix e
  assume "e \<in> set es"
  then have "opens meth fd writable (fst e)" using assms(1) by (simp add: list_all_iff)
  then show "case fst e of
      PortalCall _ iface m p fds \<Rightarrow>
        (\<exists>fd. opens meth fd (asks_writable p) (fst e) \<and> backed b path g (asks_writable p) all fd \<and>
               (asks_writable p \<longrightarrow> requested \<and> meth = ''OpenFile''))
     | _ \<Rightarrow> True"
    using assms(2,3) by (cases "fst e") (auto simp: opens_def intro!: exI [of _ fd])
qed

lemma give_back:
  "no_portal es \<Longrightarrow> emits (do { close_all h fds; ret r }) s' (\<lambda>_ _ es'. open_granted b meth path g rw (es @ es') (es @ es'))"
  by (rule emits_bind [OF close_all_emits], rule emits_return) (simp add: no_portal_granted)

lemma open_proved_emits:
  fixes s :: "(broker, host_event) mach"
  assumes v: "valid_guest_path path" "find_mapping (bk_mappings b) path = Some m" "mapping_matches m path"
  shows "emits (open_proved h m meth path requested token proof_fd) s (\<lambda>_ _ es. open_granted b meth path proof_fd requested es es)"
  unfolding open_proved_def
proof (rule emits_bind [where P = "\<lambda>a _ es. es = [(Fstat proof_fd, a)]"], goal_cases)
  case 1
  show ?case by (simp add: emits_def wp_simps)
next
  case (2 st s1 es1)
  show ?case
  proof (cases "h_ok st")
    case False
    have "no_portal es1" using 2 by simp
    then show ?thesis using False give_back [of es1] by simp
  next
    case True
    have ok: "\<not> \<not> h_ok st" using True by simp
    show ?thesis unfolding if_not_P [OF ok]
    proof (rule emits_bind [where P = "\<lambda>g _ es. no_portal es \<and>
        (g \<longrightarrow> requested \<and> (\<exists>a. (GetFlags proof_fd, a) \<in> set es \<and> h_ok a \<and> h_number a = 2))"], goal_cases)
      case 1
      show ?case by (auto simp: emits_def wp_simps)
    next
      case (2 g s2 es2)
      show ?case
      proof (rule emits_bind [where P = "\<lambda>r _ es. no_portal es \<and> (r \<noteq> None \<longrightarrow> g \<and> meth = ''OpenFile'') \<and>
          (case r of None \<Rightarrow> True | Some fd \<Rightarrow> list_ex (opened_by m O_RDWR fd) es)"], goal_cases)
        case 1
        show ?case by (auto intro!: emits_return emits_mono [OF secure_open_emits [OF v(1,3)]])
      next
        case (2 rw s3 es3)
        show ?case
        proof (rule emits_bind [where P = "\<lambda>r _ es. no_portal es \<and> (rw \<noteq> None \<longrightarrow> r = None) \<and>
            (case r of None \<Rightarrow> True | Some fd \<Rightarrow> list_ex (opened_by m O_RDONLY fd) es)"], goal_cases)
          case 1
          show ?case by (auto intro!: emits_return emits_mono [OF secure_open_emits [OF v(1,3)]])
        next
          case (2 ro s4 es4)
          let ?es = "es1 @ es2 @ es3 @ es4"
          have np: "no_portal ?es"
            using \<open>hist s1 = hist s @ es1\<close> 2 \<open>es1 = [(Fstat proof_fd, st)]\<close> \<open>no_portal es2 \<and> _\<close> \<open>no_portal es3 \<and> _\<close> by simp
          show ?case
          proof (cases "case rw of Some fd \<Rightarrow> Some fd | None \<Rightarrow> ro")
            case None
            then show ?thesis using give_back [OF np] by (simp del: no_portal_simps)
          next
            case (Some mapped)
            let ?w = "rw \<noteq> None"
            have opened: "list_ex (opened_by m (if ?w then O_RDWR else O_RDONLY) mapped) ?es"
              using Some \<open>no_portal es3 \<and> _\<close> 2 by (cases rw) auto
            have writable: "?w \<longrightarrow> requested \<and> meth = ''OpenFile'' \<and> (\<exists>a. (GetFlags proof_fd, a) \<in> set ?es \<and> h_ok a \<and> h_number a = 2)"
              using \<open>no_portal es2 \<and> _\<close> \<open>no_portal es3 \<and> _\<close> by auto
            have first: "has_stat proof_fd (h_stat st) ?es"
              using True \<open>es1 = [(Fstat proof_fd, st)]\<close> by (auto simp: has_stat_def)
            show ?thesis unfolding Some option.case
            proof (rule emits_bind [where P = "\<lambda>a _ es. es = [(Fstat mapped, a)]"], goal_cases)
              case 1
              show ?case by (simp add: emits_def wp_simps)
            next
              case (2 mst s5 es5)
              have np5: "no_portal (?es @ es5)" using np 2 by simp
              show ?case
              proof (cases "h_ok mst \<and> same_object_stat (h_stat st) (h_stat mst)")
                case False
                then show ?thesis using give_back [OF np5] by (auto simp del: no_portal_simps)
              next
                case good: True
                then have c: "\<not> \<not> h_ok mst" "\<not> \<not> same_object_stat (h_stat st) (h_stat mst)" by simp_all
                show ?thesis unfolding if_not_P [OF c(1)] if_not_P [OF c(2)]
                proof (rule emits_bind [OF call_host_portal_emits], rule emits_bind [OF close_all_emits], rule emits_return, goal_cases)
                  case (1 r s6 es6 u s7 es7)
                  let ?all = "?es @ es5 @ es6 @ es7"
                  have "backed b path proof_fd ?w ?all mapped"
                    unfolding backed_def
                  proof (intro exI conjI)
                    show "list_ex (opened_by m (if ?w then O_RDWR else O_RDONLY) mapped) ?all" using opened by auto
                    show "has_stat proof_fd (h_stat st) ?all" using first by (auto simp: has_stat_def)
                    show "has_stat mapped (h_stat mst) ?all" using good 2 by (auto simp: has_stat_def)
                    show "\<not> ?w \<or> (\<exists>a. (GetFlags proof_fd, a) \<in> set ?all \<and> h_ok a \<and> h_number a = 2)" using writable by auto
                  qed (use v good in auto)
                  then have "open_granted b meth path proof_fd requested ?all es6"
                    using 1 writable by (intro opens_granted [where fd = mapped and writable = ?w]) auto
                  moreover have "open_granted b meth path proof_fd requested ?all (?es @ es5)" "open_granted b meth path proof_fd requested ?all es7"
                    using no_portal_granted [OF np5] no_portal_granted 1 by blast+
                  ultimately show ?case by simp
                qed
              qed
            qed
          qed
        qed
      qed
    qed
  qed
qed

text \<open>C4. A guest gets nothing opened that it could not open itself. A run of \<open>OpenFile\<close> or \<open>OpenDirectory\<close> either
  calls no portal, or it begins by taking the descriptor that the guest passed at the index it named; then, whenever the portal
  is given a descriptor, the guest's path passed the check and lies in a mapping of the broker, the descriptor was opened through
  that mapping (beneath it, by a relative path without \<open>..\<close>) and is, by device, inode and type, the object that the guest's
  own descriptor stands for; and the portal is told that the file is writable only if writing was asked for, the method is
  \<open>OpenFile\<close>, the guest's own descriptor is open for reading and writing, and the descriptor given was opened so
  on the host.\<close>

theorem open_file_confined:
  "emits (open_file_method h meth path handle requested token fds) s
     (\<lambda>_ _ es. no_portal es \<or>
        (\<exists>passed a es'. fds = Some passed \<and> 0 \<le> handle \<and> handle < int (length passed) \<and>
           es = (DupFd (passed ! nat handle), a) # es' \<and> h_ok a \<and>
           open_granted (prog s) meth path (h_number a) requested es' es'))"
  unfolding open_file_method_def
proof (rule emits_bind [where P = "\<lambda>r b es. r = bk_mappings (prog s) \<and> es = []"], goal_cases)
  case 1
  show ?case by (auto intro: emits_gets)
next
  case (2 mappings s0 es0)
  show ?case
  proof (cases "if valid_guest_path path then find_mapping mappings path else None")
    case None
    then show ?thesis using 2 by (auto intro!: emits_return)
  next
    case (Some m)
    then have v: "valid_guest_path path" "find_mapping (bk_mappings (prog s)) path = Some m" "es0 = []"
      using 2 by (auto split: if_splits)
    then have match: "mapping_matches m path"
      using best_mapping_spec [of None path "bk_mappings (prog s)"] by (simp add: find_mapping_def)
    show ?thesis unfolding Some option.case
    proof (rule emits_bind [OF invocation_fd_emits], goal_cases)
      case (1 p s1 es1)
      show ?case
      proof (cases p)
        case (Inl e)
        then show ?thesis using 1 v by (auto intro!: emits_return)
      next
        case (Inr proof_fd)
        then show ?thesis using 1 v
          by (auto intro!: emits_mono [OF open_proved_emits [OF v(1,2) match]])
      qed
    qed
  qed
qed

section \<open>Copies of guest files are bounded\<close>

text \<open>What was written to a descriptor, in order, and what was read from one: \<open>read_through fd at es\<close> is a value when the reads
  of \<open>fd\<close> in \<open>es\<close> go on without a gap or a repetition from the offset \<open>at\<close> until one of them gives nothing, and
  then it is all that they gave.\<close>

definition bytes_written :: "int \<Rightarrow> host_event list \<Rightarrow> byte list" where
  "bytes_written fd es = concat (map (\<lambda>(c, a). case c of HWrite d bs \<Rightarrow> if d = fd then bs else [] | _ \<Rightarrow> []) es)"

fun read_through :: "int \<Rightarrow> nat \<Rightarrow> host_event list \<Rightarrow> byte list option" where
  "read_through fd at [] = None"
| "read_through fd at ((c, a) # es) =
     (case c of
        Pread d n \<Rightarrow>
          if d \<noteq> fd then read_through fd at es
          else if n \<noteq> at \<or> \<not> h_ok a then None
          else if h_bytes a = [] then Some []
          else map_option ((@) (h_bytes a)) (read_through fd (at + length (h_bytes a)) es)
      | _ \<Rightarrow> read_through fd at es)"

lemma bytes_simps [simp]:
  "bytes_written fd [] = []"
  "bytes_written fd ((c, a) # es) = (case c of HWrite d bs \<Rightarrow> if d = fd then bs else [] | _ \<Rightarrow> []) @ bytes_written fd es"
  "bytes_written fd (es @ fs) = bytes_written fd es @ bytes_written fd fs"
  by (simp_all add: bytes_written_def)

lemma copy_loop_emits:
  "copied \<le> STAGED_FILE_MAXIMUM \<Longrightarrow> STAGED_FILE_MAXIMUM < n + copied \<Longrightarrow>
   emits (copy_loop h source output n copied) s (\<lambda>r _ es.
     (\<exists>result. r = Some result \<and> (result = None \<longrightarrow> read_through source copied es = Some (bytes_written output es))) \<and>
     copied + length (bytes_written output es) \<le> STAGED_FILE_MAXIMUM)"
proof (induction n arbitrary: copied s)
  case 0
  then show ?case by simp
next
  case (Suc n)
  show ?case unfolding copy_loop.simps
  proof (rule emits_bind [where P = "\<lambda>a _ es. es = [(Pread source copied, a)]"], goal_cases)
    case 1
    show ?case by (simp add: emits_def wp_simps)
  next
    case (2 a s1 es1)
    show ?case
    proof (cases "h_ok a \<and> h_bytes a \<noteq> [] \<and> copied + length (h_bytes a) \<le> STAGED_FILE_MAXIMUM")
      case False
      then consider "\<not> h_ok a" | "h_ok a" "h_bytes a = []" | "h_ok a" "h_bytes a \<noteq> []" "copied + length (h_bytes a) > STAGED_FILE_MAXIMUM"
        by linarith
      then show ?thesis using Suc.prems(1) \<open>es1 = _\<close> \<open>hist s1 = _\<close>
        by cases (simp_all add: emits_def wp_return)
    next
      case True
      then have c: "\<not> \<not> h_ok a" "h_bytes a \<noteq> []" "\<not> copied + length (h_bytes a) > STAGED_FILE_MAXIMUM" by auto
      show ?thesis unfolding if_not_P [OF c(1)] if_not_P [OF c(2)] if_not_P [OF c(3)]
      proof (rule emits_bind [where P = "\<lambda>b _ es. es = [(HWrite output (h_bytes a), b)]"], goal_cases)
        case 1
        show ?case by (simp add: emits_def wp_simps)
      next
        case (2 b s2 es2)
        have "1 \<le> length (h_bytes a)" using c(2) by (cases "h_bytes a") simp_all
        then have "emits (copy_loop h source output n (copied + length (h_bytes a))) s2 (\<lambda>r _ es.
            (\<exists>result. r = Some result \<and> (result = None \<longrightarrow>
              read_through source (copied + length (h_bytes a)) es = Some (bytes_written output es))) \<and>
            copied + length (h_bytes a) + length (bytes_written output es) \<le> STAGED_FILE_MAXIMUM)"
          using Suc.prems c(3) by (intro Suc.IH) auto
        then have more: "emits (copy_loop h source output n (copied + length (h_bytes a))) s2 (\<lambda>r _ es.
            (\<exists>result. r = Some result \<and> (result = None \<longrightarrow>
              read_through source copied (es1 @ es2 @ es) = Some (bytes_written output (es1 @ es2 @ es)))) \<and>
            copied + length (bytes_written output (es1 @ es2 @ es)) \<le> STAGED_FILE_MAXIMUM)"
          by (rule emits_mono) (use \<open>es1 = [(Pread source copied, a)]\<close> 2 c in auto)
        show ?case
        proof (cases "h_ok b")
          case True
          then show ?thesis using more by simp
        next
          case False
          then show ?thesis using \<open>es1 = [(Pread source copied, a)]\<close> 2 c by (auto intro!: emits_return)
        qed
      qed
    qed
  qed
qed

text \<open>C7. Copying a guest's file to the host's cache ends, is bounded and is exact: the copy always comes to a result,
  never writes more than 32 MiB whatever the source claims its size to be, and when it succeeds the source was read from its
  beginning, every read where the one before ended, to its end, and the copy holds exactly those bytes in that order.\<close>

theorem staged_copy_bounded:
  "emits (copy_staged_fd h source output) s (\<lambda>r _ es.
     length (bytes_written output es) \<le> 32 * 1024 * 1024 \<and>
     (case r of None \<Rightarrow> False | Some (Some e) \<Rightarrow> True
      | Some None \<Rightarrow> read_through source 0 es = Some (bytes_written output es)))"
  unfolding copy_staged_fd_def
proof (rule emits_bind [where P = "\<lambda>a _ es. es = [(Fstat source, a)]"], goal_cases)
  case 1
  show ?case by (simp add: emits_def wp_simps)
next
  case (2 a s1 es1)
  have "emits (copy_loop h source output (STAGED_FILE_MAXIMUM + 1) 0) s1 (\<lambda>r _ es.
     (\<exists>result. r = Some result \<and> (result = None \<longrightarrow> read_through source 0 es = Some (bytes_written output es))) \<and>
     0 + length (bytes_written output es) \<le> STAGED_FILE_MAXIMUM)"
    by (rule copy_loop_emits) simp_all
  then have loop: "emits (copy_loop h source output (STAGED_FILE_MAXIMUM + 1) 0) s1 (\<lambda>r _ es.
     length (bytes_written output (es1 @ es)) \<le> 32 * 1024 * 1024 \<and>
     (case r of None \<Rightarrow> False | Some (Some e) \<Rightarrow> True
      | Some None \<Rightarrow> read_through source 0 (es1 @ es) = Some (bytes_written output (es1 @ es))))"
    by (rule emits_mono) (use 2 in \<open>auto simp: STAGED_FILE_MAXIMUM_def split: option.split\<close>)
  show ?case using 2 loop by (auto intro!: emits_return)
qed

section \<open>The application's secret\<close>

definition secret_message :: "string \<Rightarrow> byte list" where
  "secret_message app_id = secret_domain @ htonl_bytes (of_nat (length app_id)) @ map of_char app_id"

text \<open>The bytes that were read from a descriptor, if the reads went on to its end.\<close>

fun read_to_end :: "int \<Rightarrow> host_event list \<Rightarrow> byte list option" where
  "read_to_end fd [] = None"
| "read_to_end fd ((c, a) # es) =
     (case c of
        HRead d n \<Rightarrow>
          if d \<noteq> fd then read_to_end fd es
          else if \<not> h_ok a then None
          else if take n (h_bytes a) = [] then Some []
          else map_option ((@) (take n (h_bytes a))) (read_to_end fd es)
      | _ \<Rightarrow> read_to_end fd es)"

definition only_reads :: "int \<Rightarrow> host_event list \<Rightarrow> bool" where
  "only_reads fd es = list_all (\<lambda>e. case fst e of HRead d _ \<Rightarrow> d = fd | _ \<Rightarrow> False) es"

lemma read_master_emits:
  "SECRET_MAXIMUM + 1 < n + length raw0 \<Longrightarrow> length raw0 \<le> SECRET_MAXIMUM + 1 \<Longrightarrow>
   emits (read_master h fd n raw0) s (\<lambda>r b es. b = prog s \<and> only_reads fd es \<and>
     (\<exists>raw complete. r = Some (raw, complete) \<and> length raw \<le> SECRET_MAXIMUM + 1 \<and>
        (complete \<and> length raw \<le> SECRET_MAXIMUM \<longrightarrow> (\<exists>got. read_to_end fd es = Some got \<and> raw = raw0 @ got))))"
proof (induction n arbitrary: raw0 s)
  case 0
  then show ?case by simp
next
  case (Suc n)
  show ?case
  proof (cases "length raw0 \<ge> SECRET_MAXIMUM + 1")
    case True
    then show ?thesis using Suc.prems by (auto simp: emits_def wp_simps only_reads_def)
  next
    case False
    let ?size = "SECRET_MAXIMUM + 1 - length raw0"
    show ?thesis unfolding read_master.simps if_not_P [OF False]
    proof (rule emits_bind [where P = "\<lambda>a b es. b = prog s \<and> es = [(HRead fd ?size, a)]"], goal_cases)
      case 1
      show ?case by (simp add: emits_def wp_simps)
    next
      case (2 a s1 es1)
      let ?got = "take ?size (h_bytes a)"
      show ?case
      proof (cases "h_ok a \<and> ?got \<noteq> []")
        case no: False
        then show ?thesis using 2 False by (auto intro!: emits_return simp: only_reads_def)
      next
        case more: True
        then have c: "\<not> \<not> h_ok a" "?got \<noteq> []" by auto
        have "emits (read_master h fd n (raw0 @ ?got)) s1 (\<lambda>r b es. b = prog s1 \<and> only_reads fd es \<and>
           (\<exists>raw complete. r = Some (raw, complete) \<and> length raw \<le> SECRET_MAXIMUM + 1 \<and>
              (complete \<and> length raw \<le> SECRET_MAXIMUM \<longrightarrow>
                (\<exists>got. read_to_end fd es = Some got \<and> raw = (raw0 @ ?got) @ got))))"
        proof (rule Suc.IH)
          show "SECRET_MAXIMUM + 1 < n + length (raw0 @ ?got)" using Suc.prems(1) c(2) by (cases ?got) auto
          show "length (raw0 @ ?got) \<le> SECRET_MAXIMUM + 1" using Suc.prems(2) by simp
        qed
        then show ?thesis unfolding if_not_P [OF c(1)] if_not_P [OF c(2)]
          by (rule emits_mono) (use 2 more in \<open>auto simp: only_reads_def\<close>)
      qed
    qed
  qed
qed

text \<open>C6. The master secret of a space never leaves the broker. Whatever the kernel answers, the broker does nothing with the
  two descriptors than to rewind and read the host's, write to the guest's, and empty the host's; it writes at most once, and then
  exactly the 64 bytes that the keyed hash gives for the application's id, under a fixed domain and with its length, with
  the key that was read from the beginning of the host's descriptor to its end, 1 byte to 64 KiB of it; that write is the only way
  to succeed. On every path the last things it does are to empty the descriptor, and to return with both of its buffers, the
  secret's and the derived key's, full of zeros.\<close>

theorem secret_stays_in_broker:
  "emits (finish_app_secret h hmac app_id host_fd guest_fd) s (\<lambda>ok _ es.
     \<exists>start a b. es = start @ [(Truncate host_fd, a), (LeaveStack [replicate (64 * 1024 + 1) 0, replicate 64 0], b)] \<and>
       ((\<not> ok \<and> list_all (\<lambda>e. case fst e of Seek d \<Rightarrow> d = host_fd | HRead d _ \<Rightarrow> d = host_fd | _ \<Rightarrow> False) start) \<or>
        (\<exists>c reads raw w. start = (Seek host_fd, c) # reads @ [(HWrite guest_fd (hmac raw (secret_message app_id)), w)] \<and>
           h_ok c \<and> only_reads host_fd reads \<and> read_to_end host_fd reads = Some raw \<and>
           0 < length raw \<and> length raw \<le> 64 * 1024 \<and> length (hmac raw (secret_message app_id)) = 64 \<and> ok = h_ok w)))"
proof -
  let ?quiet = "\<lambda>es. list_all (\<lambda>e. case fst e of Seek d \<Rightarrow> d = host_fd | HRead d _ \<Rightarrow> d = host_fd | _ \<Rightarrow> False) es"
  let ?written = "\<lambda>ok es. \<exists>c reads raw w. es = (Seek host_fd, c) # reads @ [(HWrite guest_fd (hmac raw (secret_message app_id)), w)] \<and>
           h_ok c \<and> only_reads host_fd reads \<and> read_to_end host_fd reads = Some raw \<and>
           0 < length raw \<and> length raw \<le> 64 * 1024 \<and> length (hmac raw (secret_message app_id)) = 64 \<and> ok = h_ok w"
  have quiet: "only_reads host_fd es \<Longrightarrow> ?quiet es" for es
    by (auto simp: only_reads_def list_all_iff split: host_call.splits)
  have derive: "emits (derive_secret h hmac app_id host_fd guest_fd) s (\<lambda>r b es.
      case r of (ok, raw, derived) \<Rightarrow> length raw \<le> 64 * 1024 + 1 \<and> length derived \<le> 64 \<and> (\<not> ok \<and> ?quiet es \<or> ?written ok es))"
  proof (cases "length app_id \<ge> 2 ^ 32")
    case True
    then show ?thesis by (simp add: derive_secret_def emits_def wp_simps)
  next
    case False
    show ?thesis unfolding derive_secret_def if_not_P [OF False]
    proof (rule emits_bind [where P = "\<lambda>a b es. es = [(Seek host_fd, a)]"], goal_cases)
      case 1
      show ?case by (simp add: emits_def wp_simps)
    next
      case (2 c s1 es1)
      show ?case
      proof (cases "h_ok c")
        case False
        then show ?thesis using 2 by (auto intro!: emits_return)
      next
        case seek: True
        then have no: "\<not> \<not> h_ok c" by simp
        show ?thesis unfolding if_not_P [OF no]
        proof (rule emits_bind [OF read_master_emits], goal_cases)
          case (3 r s2 reads)
          then obtain raw complete where r: "r = Some (raw, complete)" "length raw \<le> SECRET_MAXIMUM + 1"
            "complete \<and> length raw \<le> SECRET_MAXIMUM \<longrightarrow> read_to_end host_fd reads = Some raw" "only_reads host_fd reads" by auto
          show ?case
          proof (cases "complete \<and> raw \<noteq> [] \<and> length raw \<le> SECRET_MAXIMUM")
            case False
            then show ?thesis using r 2 quiet by (auto intro!: emits_return simp: SECRET_MAXIMUM_def)
          next
            case True
            then show ?thesis using r 2 quiet [OF r(4)] seek
              by (auto simp: emits_def wp_simps Let_def secret_message_def SECRET_MAXIMUM_def APP_SECRET_SIZE_def)
          qed
        qed simp_all
      qed
    qed
  qed
  have cleared: "clear_buffer (stack_buffer n xs) = replicate n 0" if "length xs \<le> n" for n xs
    using that by (simp add: clear_buffer_def stack_buffer_def map_replicate_const flip: replicate_add)
  show ?thesis
    unfolding finish_app_secret_def
  proof (rule emits_bind [OF derive], goal_cases)
    case (1 r s1 es1)
    obtain ok raw derived where r: "r = (ok, raw, derived)" by (cases r)
    with 1 show ?case
      by (auto simp: emits_def wp_simps Let_def cleared SECRET_MAXIMUM_def APP_SECRET_SIZE_def)
  qed
qed

text \<open>The number a dead process has in the kernel's listing, \<open>-1\<close>, is taken for a process id.\<close>

lemma dead_process_accepted: "pid_value (CHR 0x09 # ''-1'') = Some (2 ^ 64 - 1)"
  by (simp add: pid_value_def Let_def g_ascii_isspace_def is_digit_def decimal_def digit_value_def)

section \<open>Launchers run in their space\<close>

definition space_command :: "string \<Rightarrow> string" where
  "space_command space = ''/usr/bin/spaces enter --graphical '' @ space @ '' -- ''"

text \<open>A group that runs something runs it in the space.\<close>

definition group_confined :: "string \<Rightarrow> string \<times> (string \<times> string) list \<Rightarrow> bool" where
  "group_confined space g \<longleftrightarrow>
     (let (sect, keys) = g in
      (sect = ''Desktop Entry'' \<or> g_str_has_prefix sect ''Desktop Action '' \<longrightarrow>
         (\<forall>v. (''Exec'', v) \<in> set keys \<longrightarrow> g_str_has_prefix v (space_command space))) \<and>
      (sect = ''Desktop Entry'' \<longrightarrow> ''TryExec'' \<notin> fst ` set keys \<and> ''Path'' \<notin> fst ` set keys \<and>
         (\<forall>v. (''DBusActivatable'', v) \<in> set keys \<longrightarrow> v = ''false'')))"

lemma set_key_member: "(k', v') \<in> set (set_key k v d) \<Longrightarrow> (k' = k \<and> v' = v) \<or> (k' \<noteq> k \<and> (k', v') \<in> set d)"
  by (auto simp: set_key_def image_iff split: if_splits)

lemma map_of_None_key: "map_of d k = None \<Longrightarrow> (k, v) \<notin> set d"
  by (metis map_of_eq_None_iff image_eqI fst_conv)

lemma wrap_exec_confined:
  assumes "(''Exec'', v) \<in> set (snd (wrap_exec space (sect, keys)))"
    "sect = ''Desktop Entry'' \<or> g_str_has_prefix sect ''Desktop Action ''"
  shows "g_str_has_prefix v (space_command space)"
proof (cases "map_of keys ''Exec''")
  case None
  then show ?thesis using assms map_of_None_key [OF None] by (auto simp: wrap_exec_def split: if_splits)
next
  case (Some command)
  have "wrap_exec space (sect, keys) = (sect, set_key ''Exec'' (space_command space @ command) keys)"
    using assms(2) Some by (auto simp: wrap_exec_def space_command_def)
  then have "v = space_command space @ command" using assms(1) set_key_member by fastforce
  then show ?thesis by simp
qed

lemma finish_main_confined:
  assumes "\<And>v. (''Exec'', v) \<in> set keys \<Longrightarrow>
      sect = ''Desktop Entry'' \<or> g_str_has_prefix sect ''Desktop Action '' \<Longrightarrow> g_str_has_prefix v (space_command space)"
  shows "group_confined space (finish_main_group (sect, keys))"
proof (cases "sect = ''Desktop Entry''")
  case True
  let ?kept = "filter (\<lambda>(k, _). k \<noteq> ''TryExec'' \<and> k \<noteq> ''Path'') keys"
  have "k = ''DBusActivatable'' \<and> v = ''false'' \<or> k \<noteq> ''DBusActivatable'' \<and> k \<noteq> ''TryExec'' \<and> k \<noteq> ''Path'' \<and> (k, v) \<in> set keys"
    if "(k, v) \<in> set (set_key ''DBusActivatable'' ''false'' ?kept)" for k v
    using set_key_member [OF that] by auto
  note member = this
  let ?new = "set_key ''DBusActivatable'' ''false'' ?kept"
  have f: "finish_main_group (sect, keys) = (sect, ?new)" using True by (simp add: finish_main_group_def)
  have "\<forall>v. (''Exec'', v) \<in> set ?new \<longrightarrow> g_str_has_prefix v (space_command space)"
    using member [of "''Exec''"] assms True by auto
  moreover have "''TryExec'' \<notin> fst ` set ?new" "''Path'' \<notin> fst ` set ?new"
    using member [of "''TryExec''"] member [of "''Path''"] by force+
  moreover have "\<forall>v. (''DBusActivatable'', v) \<in> set ?new \<longrightarrow> v = ''false''"
    using member [of "''DBusActivatable''"] by blast
  ultimately show ?thesis unfolding group_confined_def f Let_def prod.case by blast
next
  case False
  then show ?thesis using assms by (simp add: group_confined_def finish_main_group_def)
qed

text \<open>C5. A launcher a guest installs on the host runs in its space: when an \<open>Install\<close> is passed on, the
  launcher's id has no slash, ends in \<open>.desktop\<close> and begins with the space's application id and a dot
  (no guest can replace another application's launcher), and in the entry, as it is written, every
  command of the main group and of the actions begins with entering the space, there is no \<open>TryExec\<close> or
  \<open>Path\<close>, and activation by D-Bus is off.\<close>

theorem installed_launcher_confined:
  assumes "launcher_parameters load save b ''Install'' input = Inr parameters"
    and "CHR ''/'' \<notin> set (bk_app b)"
  shows "\<exists>token host_id key options. parameters = GTuple [GString token, GString host_id, GString (save key), GDict options] \<and>
     g_str_has_prefix host_id (bk_app b @ ''.'') \<and> g_str_has_suffix host_id ''.desktop'' \<and> CHR ''/'' \<notin> set host_id \<and>
     list_all (group_confined (bk_space b)) key"
proof -
  obtain token desktop_id entry options host_id key
    where input: "input = GTuple [GString token, GString desktop_id, GString entry, GDict options]"
      and i: "broker_launcher_id (bk_app b) (Some desktop_id) = Some host_id"
      and k: "broker_desktop_entry load (bk_space b) entry = Some key"
      and p: "parameters = GTuple [GString token, GString host_id, GString (save key), GDict options]"
    using assms(1) by (auto simp: launcher_parameters_def split: gvariant.splits list.splits option.splits)
  have "g_str_has_prefix host_id (bk_app b @ ''.'')" "g_str_has_suffix host_id ''.desktop''" "CHR ''/'' \<notin> set host_id"
  proof -
    consider "host_id = desktop_id" "g_str_has_prefix desktop_id (bk_app b)" "take 1 (drop (length (bk_app b)) desktop_id) = ''.''"
      | "host_id = bk_app b @ ''.'' @ desktop_id"
      using i by (auto simp: broker_launcher_id_def split: if_splits)
    then show "g_str_has_prefix host_id (bk_app b @ ''.'')"
    proof cases
      case 1
      then show ?thesis using take_add [of "length (bk_app b)" 1 desktop_id] by (simp add: g_str_has_prefix_def)
    next
      case 2
      then show ?thesis using g_str_has_prefix_append [of "bk_app b @ ''.''" desktop_id] by simp
    qed
    show "g_str_has_suffix host_id ''.desktop''" "CHR ''/'' \<notin> set host_id"
      using i assms(2) by (auto simp: broker_launcher_id_def g_str_has_suffix_iff split: if_splits)
  qed
  moreover have "list_all (group_confined (bk_space b)) key"
  proof -
    obtain loaded where l: "load entry = Some loaded"
      using k by (cases "load entry") (simp_all add: broker_desktop_entry_def split: if_splits)
    define wrapped where "wrapped = map (wrap_exec (bk_space b)) loaded"
    define groups where "groups = (if ''Desktop Entry'' \<in> fst ` set wrapped then wrapped else wrapped @ [(''Desktop Entry'', [])])"
    have key: "key = map finish_main_group groups"
      using k unfolding broker_desktop_entry_def l option.case Let_def wrapped_def [symmetric] groups_def [symmetric]
      by (simp split: if_splits)
    have g: "(\<exists>g'. g = wrap_exec (bk_space b) g') \<or> g = (''Desktop Entry'', [])" if "g \<in> set groups" for g
      using that unfolding groups_def wrapped_def by (auto split: if_splits)
    have "group_confined (bk_space b) (finish_main_group g)" if h: "g \<in> set groups" for g
    proof (cases "g = (''Desktop Entry'', [])")
      case True
      then show ?thesis by (auto intro: finish_main_confined)
    next
      case False
      then obtain sect keys where w: "g = wrap_exec (bk_space b) (sect, keys)" using g [OF h] by auto
      have "fst (wrap_exec (bk_space b) (sect, keys)) = sect" by (simp add: wrap_exec_def)
      then obtain keys' where e: "wrap_exec (bk_space b) (sect, keys) = (sect, keys')" by (metis prod.collapse)
      then show ?thesis using w wrap_exec_confined [of _ "bk_space b" sect keys]
        by (auto intro!: finish_main_confined)
    qed
    then show ?thesis by (auto simp: key list_all_iff)
  qed
  ultimately show ?thesis using p by blast
qed

theorem installed_launcher_confined_witness:
  "(let b = \<lparr>bk_space = ''work'', bk_app = ''org.x'', bk_mappings = [], bk_staged = [], bk_identity = initial_identity\<rparr>;
        load = (\<lambda>_. Some [(''Desktop Entry'', [(''Exec'', ''rm -rf x''), (''TryExec'', ''rm'')])]);
        save = concat \<circ> map (concat \<circ> map snd \<circ> snd)
    in \<exists>p key. launcher_parameters load save b ''Install'' (GTuple [GString ''t'', GString ''a.desktop'', GString ''e'', GDict []]) = Inr p
       \<and> p = GTuple [GString ''t'', GString ''org.x.a.desktop'', GString (save key), GDict []] \<and> list_all (group_confined ''work'') key)"
proof -
  let ?b = "\<lparr>bk_space = ''work'', bk_app = ''org.x'', bk_mappings = [], bk_staged = [], bk_identity = initial_identity\<rparr>"
  let ?load = "\<lambda>_. Some [(''Desktop Entry'', [(''Exec'', ''rm -rf x''), (''TryExec'', ''rm'')])]"
  let ?save = "concat \<circ> map (concat \<circ> map snd \<circ> snd)"
  let ?input = "GTuple [GString ''t'', GString ''a.desktop'', GString ''e'', GDict []]"
  obtain key where k: "broker_desktop_entry ?load ''work'' ''e'' = Some key"
    by (simp add: broker_desktop_entry_def Let_def)
  have i: "broker_launcher_id ''org.x'' (Some ''a.desktop'') = Some ''org.x.a.desktop''" by code_simp
  have p: "launcher_parameters ?load ?save ?b ''Install'' ?input =
      Inr (GTuple [GString ''t'', GString ''org.x.a.desktop'', GString (?save key), GDict []])"
    unfolding launcher_parameters_def by (simp add: i k)
  from installed_launcher_confined [OF p] obtain key' where
    "?save key = ?save key'" "list_all (group_confined ''work'') key'" by auto
  then show ?thesis unfolding Let_def using p by (intro exI [of _ "GTuple [GString ''t'', GString ''org.x.a.desktop'', GString (?save key), GDict []]"] exI [of _ key']) simp
qed

end
