(* ===== verification/Tree_Diff.thy ===== *)
theory Tree_Diff
  imports Spaces_Prelude
begin

text \<open>
  src/native/scu_diff.h: the difference between two renderings of a desktop's element tree that
  the control service sends in place of the whole tree. Both trees are cut into rows, the rows
  they begin and end with in common are set aside, the lengths of longest common subsequences of
  what remains are tabulated from the end, and a walk from the start turns the table into
  unified hunks without context. The result is given up (\<open>None\<close>, the caller then sends the
  whole tree) when the table would be too large, when it cannot be allocated, or when the
  hunks are not clearly shorter than the tree.

  Trees are valid UTF-8 in the source; a string is the list of its bytes, and the number of
  characters of one is the number of bytes that do not continue a character. Sizes
  (\<open>gsize\<close>) are natural numbers, as each is at most the size of a string in memory; the
  cells of the table are words of 32 bits, as in the source.
\<close>

section \<open>The code\<close>

definition line_end :: char where
  "line_end = CHR 0x0A"

definition g_utf8_strlen :: "string \<Rightarrow> nat" where
  "g_utf8_strlen s = length (filter (\<lambda>c. (of_char c :: nat) div 64 \<noteq> 2) s)"

definition tree_diff_range :: "nat \<Rightarrow> nat \<Rightarrow> string" where
  "tree_diff_range start count =
     show_nat (start + (if count \<noteq> 0 then 1 else 0)) @ (if count \<noteq> 1 then '','' @ show_nat count else [])"

text \<open>The rows of a tree: split at line ends, without an empty last field.\<close>

definition tree_rows :: "string \<Rightarrow> string list" where
  "tree_rows s = (let rows = g_strsplit s line_end
                  in if rows \<noteq> [] \<and> last rows = [] then butlast rows else rows)"

fun common_rows :: "string list \<Rightarrow> string list \<Rightarrow> nat" where
  "common_rows (x # xs) (y # ys) = (if x = y then Suc (common_rows xs ys) else 0)"
| "common_rows _ _ = 0"

text \<open>The table has \<open>n + 1\<close> rows of \<open>m + 1\<close> cells, \<open>n\<close> and \<open>m\<close> the numbers of rows
  to compare; the last row and the last column stay zero.\<close>

definition lcs_cell :: "string list \<Rightarrow> string list \<Rightarrow> 32 word list \<Rightarrow> nat \<Rightarrow> nat \<Rightarrow> 32 word" where
  "lcs_cell a b lcs i j =
     (let width = length b + 1
      in if a ! i = b ! j then 1 + lcs ! ((i + 1) * width + j + 1)
         else max (lcs ! ((i + 1) * width + j)) (lcs ! (i * width + j + 1)))"

fun lcs_row :: "string list \<Rightarrow> string list \<Rightarrow> nat \<Rightarrow> nat \<Rightarrow> 32 word list \<Rightarrow> 32 word list" where
  "lcs_row a b i 0 lcs = lcs"
| "lcs_row a b i (Suc j) lcs = lcs_row a b i j (lcs[i * (length b + 1) + j := lcs_cell a b lcs i j])"

fun lcs_fill :: "string list \<Rightarrow> string list \<Rightarrow> nat \<Rightarrow> 32 word list \<Rightarrow> 32 word list" where
  "lcs_fill a b 0 lcs = lcs"
| "lcs_fill a b (Suc i) lcs = lcs_fill a b i (lcs_row a b i (length b) lcs)"

definition lcs_table :: "string list \<Rightarrow> string list \<Rightarrow> 32 word list" where
  "lcs_table a b = lcs_fill a b (length a) (replicate ((length a + 1) * (length b + 1)) 0)"

text \<open>
  The inner loop gathers the removed and the added rows of one hunk. The source tests
  \<open>j == m\<close>; as \<open>j\<close> never exceeds \<open>m\<close>, \<open>m \<le> j\<close> is the same test, and the
  function ends from any \<open>j\<close>.
\<close>

function hunk_body :: "string list \<Rightarrow> string list \<Rightarrow> 32 word list \<Rightarrow> nat \<Rightarrow> nat \<Rightarrow> string \<Rightarrow> string
    \<Rightarrow> nat \<times> nat \<times> string \<times> string" where
  "hunk_body a b lcs i j removed added =
     (let n = length a; m = length b; width = m + 1
      in if i < n \<or> j < m then
           if i < n \<and> j < m \<and> a ! i = b ! j then (i, j, removed, added)
           else if i < n \<and> (m \<le> j \<or> lcs ! ((i + 1) * width + j) \<ge> lcs ! (i * width + j + 1))
           then hunk_body a b lcs (i + 1) j (removed @ ''-'' @ a ! i @ [line_end]) added
           else hunk_body a b lcs i (j + 1) removed (added @ ''+'' @ b ! j @ [line_end])
         else (i, j, removed, added))"
  by pat_completeness auto
termination
  by (relation "measure (\<lambda>(a, b, lcs, i, j, _). (length a - i) + (length b - j))") auto

declare hunk_body.simps [simp del]

definition hunk :: "nat \<Rightarrow> nat \<Rightarrow> nat \<Rightarrow> nat \<Rightarrow> nat \<Rightarrow> string \<Rightarrow> string \<Rightarrow> string" where
  "hunk pre start_i i start_j j removed added =
     ''@@ -'' @ tree_diff_range (pre + start_i) (i - start_i) @ '' +''
       @ tree_diff_range (pre + start_j) (j - start_j) @ '' @@'' @ [line_end] @ removed @ added"

lemma hunk_body_stop:
  "\<not> (i < length a \<or> j < length b) \<or> (i < length a \<and> j < length b \<and> a ! i = b ! j) \<Longrightarrow>
     hunk_body a b lcs i j r s = (i, j, r, s)"
  by (subst hunk_body.simps) (auto simp: Let_def)

lemma hunk_body_remove:
  "i < length a \<Longrightarrow> \<not> (j < length b \<and> a ! i = b ! j) \<Longrightarrow>
     length b \<le> j \<or> lcs ! ((i + 1) * (length b + 1) + j) \<ge> lcs ! (i * (length b + 1) + j + 1) \<Longrightarrow>
     hunk_body a b lcs i j r s = hunk_body a b lcs (i + 1) j (r @ ''-'' @ a ! i @ [line_end]) s"
  by (subst hunk_body.simps) (auto simp: Let_def)

lemma hunk_body_add:
  "j < length b \<Longrightarrow> \<not> (i < length a \<and> a ! i = b ! j) \<Longrightarrow>
     \<not> (i < length a \<and> lcs ! ((i + 1) * (length b + 1) + j) \<ge> lcs ! (i * (length b + 1) + j + 1)) \<Longrightarrow>
     hunk_body a b lcs i j r s = hunk_body a b lcs i (j + 1) r (s @ ''+'' @ b ! j @ [line_end])"
  by (subst hunk_body.simps) (auto simp: Let_def)

text \<open>The three cases as an induction rule.\<close>

lemma hunk_body_cases [case_names Stop Remove Add]:
  fixes lcs :: "32 word list"
  assumes "\<And>i j r s. \<not> (i < length a \<or> j < length b) \<or> (i < length a \<and> j < length b \<and> a ! i = b ! j) \<Longrightarrow> P i j r s"
    and "\<And>i j r s. i < length a \<Longrightarrow> \<not> (j < length b \<and> a ! i = b ! j) \<Longrightarrow>
       length b \<le> j \<or> lcs ! ((i + 1) * (length b + 1) + j) \<ge> lcs ! (i * (length b + 1) + j + 1) \<Longrightarrow>
       P (i + 1) j (r @ ''-'' @ a ! i @ [line_end]) s \<Longrightarrow> P i j r s"
    and "\<And>i j r s. j < length b \<Longrightarrow> \<not> (i < length a \<and> a ! i = b ! j) \<Longrightarrow>
       \<not> (i < length a \<and> lcs ! ((i + 1) * (length b + 1) + j) \<ge> lcs ! (i * (length b + 1) + j + 1)) \<Longrightarrow>
       P i (j + 1) r (s @ ''+'' @ b ! j @ [line_end]) \<Longrightarrow> P i j r s"
  shows "P i j r s"
proof (induction "(length a - i) + (length b - j)" arbitrary: i j r s rule: less_induct)
  case less
  consider "\<not> (i < length a \<or> j < length b) \<or> (i < length a \<and> j < length b \<and> a ! i = b ! j)"
    | "i < length a" "\<not> (j < length b \<and> a ! i = b ! j)"
      "length b \<le> j \<or> lcs ! ((i + 1) * (length b + 1) + j) \<ge> lcs ! (i * (length b + 1) + j + 1)"
    | "j < length b" "\<not> (i < length a \<and> a ! i = b ! j)"
      "\<not> (i < length a \<and> lcs ! ((i + 1) * (length b + 1) + j) \<ge> lcs ! (i * (length b + 1) + j + 1))"
    by (metis not_le)
  then show ?case
  proof cases
    case 1 then show ?thesis by (rule assms(1))
  next
    case 2 then show ?thesis by (rule assms(2)) (rule less.hyps, use 2 in simp)
  next
    case 3 then show ?thesis by (rule assms(3)) (rule less.hyps, use 3 in simp)
  qed
qed

lemma hunk_body_progress:
  "hunk_body a b lcs i j r s = (i', j', r', s') \<Longrightarrow>
     i \<le> i' \<and> j \<le> j' \<and> (length a - i') + (length b - j') \<le> (length a - i) + (length b - j)"
proof (induction i j r s rule: hunk_body_cases [where a = a and b = b and lcs = lcs])
  case (Stop i j r s) then show ?case by (simp add: hunk_body_stop)
next
  case (Remove i j r s) then show ?case by (fastforce simp: hunk_body_remove)
next
  case (Add i j r s) then show ?case by (fastforce simp: hunk_body_add)
qed

lemma hunk_body_advances:
  assumes "hunk_body a b lcs i j r s = (i', j', r', s')"
    and "i < length a \<or> j < length b" "\<not> (i < length a \<and> j < length b \<and> a ! i = b ! j)"
  shows "(length a - i') + (length b - j') < (length a - i) + (length b - j)"
proof (cases "i < length a \<and> (length b \<le> j \<or> lcs ! ((i + 1) * (length b + 1) + j) \<ge> lcs ! (i * (length b + 1) + j + 1))")
  case True
  with assms have "hunk_body a b lcs (i + 1) j (r @ ''-'' @ a ! i @ [line_end]) s = (i', j', r', s')"
    using hunk_body_remove [of i a j b lcs r s] by auto
  from hunk_body_progress [OF this] True show ?thesis by linarith
next
  case False
  with assms(2) have j: "j < length b" by auto
  with False assms have "hunk_body a b lcs i (j + 1) r (s @ ''+'' @ b ! j @ [line_end]) = (i', j', r', s')"
    using hunk_body_add [of j b i a lcs r s] by auto
  from hunk_body_progress [OF this] j show ?thesis by linarith
qed

function hunks :: "nat \<Rightarrow> string list \<Rightarrow> string list \<Rightarrow> 32 word list \<Rightarrow> nat \<Rightarrow> nat \<Rightarrow> string \<Rightarrow> string" where
  "hunks pre a b lcs i j out =
     (let n = length a; m = length b
      in if i < n \<or> j < m then
           if i < n \<and> j < m \<and> a ! i = b ! j then hunks pre a b lcs (i + 1) (j + 1) out
           else (case hunk_body a b lcs i j [] [] of (i', j', removed, added) \<Rightarrow>
                   hunks pre a b lcs i' j' (out @ hunk pre i i' j j' removed added))
         else out)"
  by pat_completeness auto
termination
  by (relation "measure (\<lambda>(pre, a, b, lcs, i, j, _). (length a - i) + (length b - j))")
    (auto dest: hunk_body_advances [OF sym])

declare hunks.simps [simp del]

definition tree_diff :: "bool \<Rightarrow> string \<Rightarrow> string \<Rightarrow> string \<Rightarrow> string option" where
  "tree_diff allocated previous current unchanged_text =
     (if previous = current then Some unchanged_text
      else let old = tree_rows previous; now = tree_rows current;
               pre = common_rows old now;
               suf = common_rows (rev (drop pre old)) (rev (drop pre now));
               n = length old - pre - suf; m = length now - pre - suf
           in if n \<noteq> 0 \<and> m > 6000000 div n then None
              else if \<not> allocated then None
              else let a = take n (drop pre old); b = take m (drop pre now);
                       out = hunks pre a b (lcs_table a b) 0 0 []
                   in if 5 * g_utf8_strlen out \<le> 3 * g_utf8_strlen current then Some out else None)"

section \<open>The table\<close>

fun lcs_len :: "'a list \<Rightarrow> 'a list \<Rightarrow> nat" where
  "lcs_len (x # xs) (y # ys) =
     (if x = y then Suc (lcs_len xs ys) else max (lcs_len xs (y # ys)) (lcs_len (x # xs) ys))"
| "lcs_len _ _ = 0"

definition longest_common :: "nat \<Rightarrow> 'a list \<Rightarrow> 'a list \<Rightarrow> bool" where
  "longest_common k xs ys =
     ((\<exists>zs. subseq zs xs \<and> subseq zs ys \<and> length zs = k) \<and>
      (\<forall>zs. subseq zs xs \<longrightarrow> subseq zs ys \<longrightarrow> length zs \<le> k))"

lemma lcs_len_Nil [simp]: "lcs_len xs [] = 0"
  by (cases xs) simp_all

lemma lcs_len_upper: "subseq zs xs \<Longrightarrow> subseq zs ys \<Longrightarrow> length zs \<le> lcs_len xs ys"
proof (induction xs ys arbitrary: zs rule: lcs_len.induct)
  case (1 x xs y ys)
  show ?case
  proof (cases zs)
    case (Cons z zs')
    show ?thesis
    proof (cases "x = y")
      case True
      have "subseq zs' xs" "subseq zs' ys"
        using 1(4,5) by (auto simp: Cons dest: subseq_Cons' split: if_splits)
      with True 1(1) show ?thesis by (simp add: Cons)
    next
      case False
      then have "subseq zs xs \<or> subseq zs ys"
        using 1(4,5) by (auto simp: Cons split: if_splits)
      with False 1 show ?thesis by (fastforce simp: le_max_iff_disj)
    qed
  qed simp
qed auto

lemma lcs_len_attained: "\<exists>zs. subseq zs xs \<and> subseq zs ys \<and> length zs = lcs_len xs ys"
proof (induction xs ys rule: lcs_len.induct)
  case (1 x xs y ys)
  show ?case
  proof (cases "x = y")
    case True
    with 1(1) obtain zs where "subseq zs xs" "subseq zs ys" "length zs = lcs_len xs ys" by blast
    with True show ?thesis by (intro exI [of _ "x # zs"]) simp
  next
    case False
    with 1(2,3) show ?thesis by (auto simp: max_def intro: list_emb_Cons)
  qed
qed auto

lemma longest_common_lcs_len: "longest_common k xs ys \<longleftrightarrow> k = lcs_len xs ys"
  unfolding longest_common_def using lcs_len_attained [of xs ys] lcs_len_upper [of _ xs ys]
  by (metis le_antisym)

lemma lcs_len_le: "lcs_len xs ys \<le> length xs" "lcs_len xs ys \<le> length ys"
  using lcs_len_attained [of xs ys] by (auto dest!: list_emb_length)

lemma lcs_len_prepend: "lcs_len (ps @ xs) (ps @ ys) = length ps + lcs_len xs ys"
  by (induction ps) auto

lemma subseq_butlast:
  assumes "subseq zs (xs @ [x])" shows "subseq (butlast zs) xs"
proof -
  from assms obtain us vs where "zs = us @ vs" "subseq us xs" "subseq vs [x]"
    by (auto simp: subseq_append_iff)
  then show ?thesis
    by (cases vs) (auto simp: butlast_append split: if_splits dest: list_emb_length
        intro: subseq_order.trans [OF _ _] prefix_imp_subseq simp: butlast_conv_take take_is_prefix)
qed

lemma lcs_len_snoc: "lcs_len (xs @ [x]) (ys @ [x]) = Suc (lcs_len xs ys)"
proof (rule antisym)
  from lcs_len_attained [of "xs @ [x]" "ys @ [x]"] obtain zs
    where "subseq zs (xs @ [x])" "subseq zs (ys @ [x])" "length zs = lcs_len (xs @ [x]) (ys @ [x])"
    by blast
  with lcs_len_upper [OF subseq_butlast subseq_butlast] show
    "lcs_len (xs @ [x]) (ys @ [x]) \<le> Suc (lcs_len xs ys)" by fastforce
next
  from lcs_len_attained [of xs ys] obtain zs
    where "subseq zs xs" "subseq zs ys" "length zs = lcs_len xs ys" by blast
  then show "Suc (lcs_len xs ys) \<le> lcs_len (xs @ [x]) (ys @ [x])"
    using lcs_len_upper [of "zs @ [x]" "xs @ [x]" "ys @ [x]"] by (simp add: list_emb_append_mono)
qed

lemma lcs_len_append: "lcs_len (xs @ ss) (ys @ ss) = lcs_len xs ys + length ss"
proof (induction ss rule: rev_induct)
  case (snoc s ss)
  then show ?case by (metis append.assoc lcs_len_snoc add_Suc_right length_append_singleton)
qed simp

text \<open>
  What the table holds while it is filled from its end: from the cell \<open>(i, j)\<close> on, and in the last
  column, the length of a longest common subsequence of the rows that are left.
\<close>

definition cell_right :: "string list \<Rightarrow> string list \<Rightarrow> 32 word list \<Rightarrow> nat \<Rightarrow> nat \<Rightarrow> bool" where
  "cell_right a b lcs i j = (unat (lcs ! (i * (length b + 1) + j)) = lcs_len (drop i a) (drop j b))"

definition filled :: "string list \<Rightarrow> string list \<Rightarrow> nat \<Rightarrow> nat \<Rightarrow> 32 word list \<Rightarrow> bool" where
  "filled a b i j lcs =
     (length lcs = (length a + 1) * (length b + 1) \<and>
      (\<forall>i' j'. i' \<le> length a \<longrightarrow> j' \<le> length b \<longrightarrow> i < i' \<or> (i = i' \<and> j \<le> j') \<or> j' = length b \<longrightarrow>
         cell_right a b lcs i' j'))"

lemma cell_index:
  fixes w :: nat
  assumes "j < w" "j' < w" shows "i * w + j = i' * w + j' \<longleftrightarrow> i = i' \<and> j = j'"
proof
  assume e: "i * w + j = i' * w + j'"
  from assms have "(i * w + j) div w = i" "(i' * w + j') div w = i'"
    "(i * w + j) mod w = j" "(i' * w + j') mod w = j'" by simp_all
  with e show "i = i' \<and> j = j'" by metis
qed simp

lemma cell_bound:
  fixes n m :: nat
  assumes "i \<le> n" "j \<le> m" shows "i * (m + 1) + j < (n + 1) * (m + 1)"
proof -
  from assms(1) have "i * (m + 1) \<le> n * (m + 1)" by (rule mult_le_mono1)
  moreover have "(n + 1) * (m + 1) = n * (m + 1) + (m + 1)" by simp
  ultimately show ?thesis using assms(2) by linarith
qed

lemma drop_len_Cons: "i < length a \<Longrightarrow> drop i a = a ! i # drop (Suc i) a"
  by (simp add: Cons_nth_drop_Suc)

lemma lcs_cell_right:
  assumes f: "filled a b i (Suc j) lcs" and ij: "i < length a" "j < length b"
    and bound: "min (length a) (length b) < 2 ^ 32"
  shows "unat (lcs_cell a b lcs i j) = lcs_len (drop i a) (drop j b)"
proof -
  let ?w = "length b + 1"
  have cells: "cell_right a b lcs (i + 1) (j + 1)" "cell_right a b lcs (i + 1) j" "cell_right a b lcs i (j + 1)"
    using f ij by (auto simp: filled_def)
  have "Suc (lcs_len (drop (i + 1) a) (drop (j + 1) b)) \<le> min (length a) (length b)"
    using lcs_len_le [of "drop (i + 1) a" "drop (j + 1) b"] ij by auto
  with bound have small: "Suc (lcs_len (drop (i + 1) a) (drop (j + 1) b)) < 2 ^ 32" by linarith
  then have "unat (1 + lcs ! ((i + 1) * ?w + j + 1)) = 1 + lcs_len (drop (i + 1) a) (drop (j + 1) b)"
    using cells(1) by (simp add: cell_right_def unat_word_ariths add.assoc)
  moreover have "unat (max x y) = max (unat x) (unat y)" for x y :: "32 word"
    by (simp add: max_def word_le_nat_alt)
  ultimately show ?thesis
    using cells(2,3) drop_len_Cons [OF ij(1)] drop_len_Cons [OF ij(2)]
    by (simp add: lcs_cell_def Let_def cell_right_def add.assoc)
qed

lemma filled_step:
  assumes f: "filled a b i (Suc j) lcs" and ij: "i < length a" "j < length b"
    and bound: "min (length a) (length b) < 2 ^ 32"
  shows "filled a b i j (lcs[i * (length b + 1) + j := lcs_cell a b lcs i j])"
proof -
  have l: "length lcs = (length a + 1) * (length b + 1)" using f by (simp add: filled_def)
  have "cell_right a b (lcs[i * (length b + 1) + j := lcs_cell a b lcs i j]) i' j'"
    if "i' \<le> length a" "j' \<le> length b" "i < i' \<or> (i = i' \<and> j \<le> j') \<or> j' = length b" for i' j'
  proof (cases "i' = i \<and> j' = j")
    case True
    moreover have "i * (length b + 1) + j < length lcs"
      unfolding l using ij by (intro cell_bound) auto
    ultimately show ?thesis using lcs_cell_right [OF assms] by (simp add: cell_right_def del: mult_Suc_right)
  next
    case False
    then have ne: "i * (length b + 1) + j \<noteq> i' * (length b + 1) + j'"
      using ij that by (subst cell_index) auto
    have "cell_right a b lcs i' j'" using f that False by (auto simp: filled_def)
    then show ?thesis using ne by (simp add: cell_right_def)
  qed
  then show ?thesis by (simp add: filled_def l)
qed

lemma filled_row:
  "filled a b i j lcs \<Longrightarrow> i < length a \<Longrightarrow> j \<le> length b \<Longrightarrow> min (length a) (length b) < 2 ^ 32 \<Longrightarrow>
     filled a b i 0 (lcs_row a b i j lcs)"
  by (induction a b i j lcs rule: lcs_row.induct) (auto simp del: One_nat_def dest: filled_step)

lemma filled_fill:
  "filled a b i 0 lcs \<Longrightarrow> i \<le> length a \<Longrightarrow> min (length a) (length b) < 2 ^ 32 \<Longrightarrow>
     filled a b 0 0 (lcs_fill a b i lcs)"
proof (induction a b i lcs rule: lcs_fill.induct)
  case (2 a b i lcs)
  have "Suc i < i' \<or> (Suc i = i' \<and> 0 \<le> j') \<or> j' = length b"
    if "i < i' \<or> (i = i' \<and> length b \<le> j') \<or> j' = length b" "j' \<le> length b" for i' j'
    using that by auto
  with 2(2) have "filled a b i (length b) lcs" unfolding filled_def by blast
  then have "filled a b i 0 (lcs_row a b i (length b) lcs)" by (rule filled_row) (use 2 in auto)
  with 2 show ?case by simp
qed simp

text \<open>Every cell is right, and adding one to a cell does not wrap around.\<close>

lemma lcs_table_right:
  assumes "min (length a) (length b) < 2 ^ 32" "i \<le> length a" "j \<le> length b"
  shows "unat (lcs_table a b ! (i * (length b + 1) + j)) = lcs_len (drop i a) (drop j b)"
proof -
  have zero: "replicate ((length a + 1) * (length b + 1)) (0 :: 32 word) ! (i' * (length b + 1) + j') = 0"
    if "i' \<le> length a" "j' \<le> length b" for i' j'
    by (rule nth_replicate) (rule cell_bound [OF that])
  have "cell_right a b (replicate ((length a + 1) * (length b + 1)) 0) i' j'"
    if "i' \<le> length a" "j' \<le> length b" "length a < i' \<or> (length a = i' \<and> 0 \<le> j') \<or> j' = length b" for i' j'
    unfolding cell_right_def zero [OF that(1,2)] using that(3) that(1) by auto
  then have "filled a b (length a) 0 (replicate ((length a + 1) * (length b + 1)) 0)"
    unfolding filled_def length_replicate by blast
  then have "filled a b 0 0 (lcs_table a b)"
    unfolding lcs_table_def by (rule filled_fill [OF _ order_refl assms(1)])
  moreover have "0 < i \<or> (0 = i \<and> 0 \<le> j) \<or> j = length b" by auto
  ultimately have "cell_right a b (lcs_table a b) i j"
    using assms(2,3) by (simp only: filled_def)
  then show ?thesis by (simp only: cell_right_def)
qed

section \<open>What the receiver does with the hunks\<close>

definition unlines :: "string list \<Rightarrow> string" where
  "unlines rows = concat (map (\<lambda>r. r @ [line_end]) rows)"

definition read_range :: "string \<Rightarrow> nat \<times> nat" where
  "read_range r = (case split_on (CHR '','') r of
     [x] \<Rightarrow> (decimal x, 1) | x # y # _ \<Rightarrow> (decimal x, decimal y) | [] \<Rightarrow> (0, 0))"

text \<open>The number of rows before a hunk: a range that is empty names the row before it.\<close>

definition rows_before :: "string \<Rightarrow> nat" where
  "rows_before r = (case read_range r of (start, count) \<Rightarrow> if count = 0 then start else start - 1)"

fun apply_rows :: "string list \<Rightarrow> string list \<Rightarrow> nat \<Rightarrow> string list \<Rightarrow> string list option" where
  "apply_rows old [] pos out = Some (out @ drop pos old)"
| "apply_rows old (l # ls) pos out =
     (if take 2 l = ''@@'' then
        (let words = split_on (CHR '' '') l;
             p = rows_before (tl (words ! 1));
             out' = out @ take (p - pos) (drop pos old)
         in if pos \<le> p \<and> p \<le> length old \<and> length out' = rows_before (tl (words ! 2))
            then apply_rows old ls p out' else None)
      else if take 1 l = ''-'' then
        (if pos < length old \<and> old ! pos = tl l then apply_rows old ls (pos + 1) out else None)
      else if take 1 l = ''+'' then apply_rows old ls pos (out @ [tl l])
      else None)"

definition apply_diff :: "string list \<Rightarrow> string \<Rightarrow> string list option" where
  "apply_diff old d = apply_rows old (tree_rows d) 0 []"

definition row_free :: "string \<Rightarrow> bool" where
  "row_free r = (line_end \<notin> set r)"

lemma unlines_simps [simp]: "unlines [] = []" "unlines (r # rs) = r @ line_end # unlines rs"
  "unlines (rs @ ss) = unlines rs @ unlines ss"
  by (simp_all add: unlines_def)

lemma split_unlines: "list_all row_free rs \<Longrightarrow> split_on line_end (unlines rs) = rs @ [ [] ]"
  by (induction rs) (auto simp: row_free_def split_on_append)

lemma tree_rows_unlines:
  assumes "list_all row_free rs" shows "tree_rows (unlines rs) = rs"
proof (cases rs)
  case (Cons r ss)
  then have "unlines rs \<noteq> []" by simp
  then show ?thesis by (simp add: tree_rows_def g_strsplit_def split_unlines [OF assms])
qed (simp add: tree_rows_def g_strsplit_def)

lemma rows_row_free: "list_all row_free (tree_rows s)"
  by (auto simp: list_all_iff row_free_def tree_rows_def g_strsplit_def Let_def
      dest: split_on_free in_set_butlastD split: if_splits)

lemma digit_not_sep: "is_digit c \<Longrightarrow> c \<noteq> CHR '','' \<and> c \<noteq> CHR '' '' \<and> c \<noteq> line_end"
  by (auto simp: is_digit_def line_end_def)

lemma show_nat_free: "CHR '','' \<notin> set (show_nat k)" "CHR '' '' \<notin> set (show_nat k)" "line_end \<notin> set (show_nat k)"
  using show_nat_digits digit_not_sep by blast+

lemma range_free: "CHR '' '' \<notin> set (tree_diff_range k c)" "line_end \<notin> set (tree_diff_range k c)"
  using show_nat_free(3) by (auto simp: tree_diff_range_def show_nat_free line_end_def)

lemma rows_before_range: "rows_before (tree_diff_range k c) = k"
  by (auto simp: rows_before_def read_range_def tree_diff_range_def split_on_append split_on_single show_nat_free)

definition hunk_header :: "nat \<Rightarrow> nat \<Rightarrow> nat \<Rightarrow> nat \<Rightarrow> string" where
  "hunk_header k c k' c' = ''@@ -'' @ tree_diff_range k c @ '' +'' @ tree_diff_range k' c' @ '' @@''"

lemma header_words:
  "split_on (CHR '' '') (hunk_header k c k' c') =
     [''@@'', CHR ''-'' # tree_diff_range k c, CHR ''+'' # tree_diff_range k' c', ''@@'']"
proof -
  have "split_on (CHR '' '') (hunk_header k c k' c') = split_on (CHR '' '')
     (''@@'' @ CHR '' '' # (CHR ''-'' # tree_diff_range k c) @ CHR '' '' #
      (CHR ''+'' # tree_diff_range k' c') @ CHR '' '' # ''@@'')"
    by (simp add: hunk_header_def)
  then show ?thesis by (simp only: split_on_append) (simp add: split_on_append range_free)
qed

lemma header_free: "row_free (hunk_header k c k' c')"
  using range_free by (auto simp: row_free_def hunk_header_def line_end_def)

lemma apply_header:
  assumes "pos \<le> k" "k \<le> length old" "length out + (k - pos) = k'"
  shows "apply_rows old (hunk_header k c k' c' # ls) pos out = apply_rows old ls k (out @ take (k - pos) (drop pos old))"
proof -
  have "take 2 (hunk_header k c k' c') = ''@@''" by (simp add: hunk_header_def)
  then show ?thesis using assms by (simp add: header_words rows_before_range Let_def)
qed

lemma apply_removed:
  "pos + length rs \<le> length old \<Longrightarrow> take (length rs) (drop pos old) = rs \<Longrightarrow>
     apply_rows old (map ((#) (CHR ''-'')) rs @ ls) pos out = apply_rows old ls (pos + length rs) out"
proof (induction rs arbitrary: pos)
  case (Cons r rs)
  from Cons.prems(1) have "drop pos old = old ! pos # drop (Suc pos) old" by (simp add: Cons_nth_drop_Suc)
  with Cons.prems(2) have r: "old ! pos = r" and rs: "take (length rs) (drop (Suc pos) old) = rs" by simp_all
  from Cons.prems(1) have len: "Suc pos + length rs \<le> length old" by simp
  have "take 2 (CHR ''-'' # r) \<noteq> ''@@''" "take 1 (CHR ''-'' # r) = ''-''" by simp_all
  then show ?case
    using Cons.IH [OF len rs] Cons.prems(1) r by simp
qed simp

lemma apply_added:
  "apply_rows old (map ((#) (CHR ''+'')) rs @ ls) pos out = apply_rows old ls pos (out @ rs)"
  by (induction rs arbitrary: out) auto

section \<open>The walk\<close>

definition between :: "nat \<Rightarrow> nat \<Rightarrow> 'a list \<Rightarrow> 'a list" where
  "between i j xs = take (j - i) (drop i xs)"

lemma between_self [simp]: "between i i xs = []"
  by (simp add: between_def)

lemma between_Suc: "i < j \<Longrightarrow> i < length xs \<Longrightarrow> between i j xs = xs ! i # between (Suc i) j xs"
  by (simp add: between_def drop_len_Cons) (metis Suc_diff_Suc take_Suc_Cons)

lemma between_length [simp]: "j \<le> length xs \<Longrightarrow> length (between i j xs) = j - i"
  by (simp add: between_def)

lemma between_join:
  assumes "i \<le> j" "j \<le> k" shows "between i j xs @ between j k xs = between i k xs"
proof -
  from assms have "k - i = (j - i) + (k - j)" "drop (j - i) (drop i xs) = drop j xs" by simp_all
  then show ?thesis by (simp only: between_def take_add)
qed

text \<open>The rows of one hunk, and what the table says of the point where it ends.\<close>

lemma hunk_body_rows:
  assumes bound: "min (length a) (length b) < 2 ^ 32"
  shows "i \<le> length a \<Longrightarrow> j \<le> length b \<Longrightarrow> hunk_body a b (lcs_table a b) i j r s = (i', j', r', s') \<Longrightarrow>
     i \<le> i' \<and> i' \<le> length a \<and> j \<le> j' \<and> j' \<le> length b \<and>
     r' = r @ unlines (map ((#) (CHR ''-'')) (between i i' a)) \<and>
     s' = s @ unlines (map ((#) (CHR ''+'')) (between j j' b)) \<and>
     lcs_len (drop i' a) (drop j' b) = lcs_len (drop i a) (drop j b)"
proof (induction i j r s rule: hunk_body_cases [where a = a and b = b and lcs = "lcs_table a b"])
  case (Stop i j r s) then show ?case by (simp add: hunk_body_stop)
next
  case (Remove i j r s)
  then have "hunk_body a b (lcs_table a b) (i + 1) j (r @ ''-'' @ a ! i @ [line_end]) s = (i', j', r', s')"
    by (simp only: hunk_body_remove [OF Remove(1-3)])
  note IH = Remove.IH [OF _ Remove.prems(2) this]
  have "lcs_len (drop (i + 1) a) (drop j b) = lcs_len (drop i a) (drop j b)"
  proof (cases "j < length b")
    case True
    have "lcs_len (drop (i + 1) a) (drop j b) \<ge> lcs_len (drop i a) (drop (j + 1) b)"
      using Remove.hyps(1,3) Remove.prems(2) True
        lcs_table_right [OF bound, of "i + 1" j] lcs_table_right [OF bound, of i "j + 1"]
      by (simp add: word_le_nat_alt add.assoc del: mult_Suc mult_Suc_right)
    then show ?thesis
      using True Remove.hyps(1,2) by (simp add: drop_len_Cons)
  qed (use Remove.prems in simp)
  with IH Remove.hyps(1) show ?case by (simp add: between_Suc)
next
  case (Add i j r s)
  then have "hunk_body a b (lcs_table a b) i (j + 1) r (s @ ''+'' @ b ! j @ [line_end]) = (i', j', r', s')"
    by (simp only: hunk_body_add [OF Add(1-3)])
  note IH = Add.IH [OF Add.prems(1) _ this]
  have "lcs_len (drop i a) (drop (j + 1) b) = lcs_len (drop i a) (drop j b)"
  proof (cases "i < length a")
    case True
    have "lcs_len (drop (i + 1) a) (drop j b) \<le> lcs_len (drop i a) (drop (j + 1) b)"
      using Add.hyps(1,3) Add.prems(1) True
        lcs_table_right [OF bound, of "i + 1" j] lcs_table_right [OF bound, of i "j + 1"]
      by (simp add: word_le_nat_alt add.assoc del: mult_Suc mult_Suc_right)
    then show ?thesis
      using True Add.hyps(1,2) by (simp add: drop_len_Cons)
  qed (use Add.prems in simp)
  with IH Add.hyps(1) show ?case by (simp add: between_Suc)
qed

lemma between_drop: "i \<le> j \<Longrightarrow> between i j xs @ drop j xs = drop i xs"
  by (metis append_take_drop_id drop_drop le_add_diff_inverse2 between_def)

lemma between_subset: "set (between i j xs) \<subseteq> set xs"
  unfolding between_def by (meson order_trans set_drop_subset set_take_subset)

lemma between_row_free: "list_all row_free a \<Longrightarrow> c \<noteq> line_end \<Longrightarrow> list_all row_free (map ((#) c) (between i j a))"
  using between_subset [of i j a] by (auto simp: list_all_iff row_free_def)

lemma hunk_unlines:
  "hunk pre i i' j j' (unlines rs) (unlines ss) =
     unlines (hunk_header (pre + i) (i' - i) (pre + j) (j' - j) # rs @ ss)"
  by (simp add: hunk_def hunk_header_def)

definition count_rows :: "char \<Rightarrow> string list \<Rightarrow> nat" where
  "count_rows c ls = length (filter (\<lambda>l. take 1 l = [c]) ls)"

lemma count_rows_simps [simp]:
  "count_rows c [] = 0" "count_rows c (ls @ ms) = count_rows c ls + count_rows c ms"
  "count_rows c (map ((#) d) rs) = (if c = d then length rs else 0)"
  "count_rows c (hunk_header k n k' n' # ls) = (if c = CHR ''@'' then 1 else 0) + count_rows c ls"
  by (auto simp: count_rows_def hunk_header_def filter_map comp_def)

text \<open>The lines \<open>ls\<close> turn the old rows from \<open>i\<close> on into the new ones from \<open>j\<close> on.\<close>

definition turns :: "string list \<Rightarrow> nat \<Rightarrow> nat \<Rightarrow> nat \<Rightarrow> string list \<Rightarrow> string list \<Rightarrow> bool" where
  "turns old pre i j result ls =
     (\<forall>pos acc. pos \<le> pre + i \<longrightarrow> length acc + (pre + i - pos) = pre + j \<longrightarrow>
        apply_rows old ls pos acc = Some (acc @ between pos (pre + i) old @ result))"

lemma turns_end:
  assumes "length p = pre" shows "turns (p @ a @ t) pre (length a) j t []"
proof -
  have "drop pos (p @ a @ t) = between pos (pre + length a) (p @ a @ t) @ t" if "pos \<le> pre + length a" for pos
    using between_drop [OF that, of "p @ a @ t"] assms by simp
  then show ?thesis by (simp add: turns_def)
qed

lemma turns_same:
  assumes "length p = pre" "i < length a" "turns (p @ a @ t) pre (i + 1) (j + 1) result ls"
  shows "turns (p @ a @ t) pre i j (a ! i # result) ls"
  unfolding turns_def
proof (intro allI impI)
  fix pos and acc :: "string list"
  assume pos: "pos \<le> pre + i" and len: "length acc + (pre + i - pos) = pre + j"
  have "between (pre + i) (pre + i + 1) (p @ a @ t) = [a ! i]"
    using assms(1,2) by (simp add: between_Suc nth_append)
  then have "between pos (pre + i + 1) (p @ a @ t) = between pos (pre + i) (p @ a @ t) @ [a ! i]"
    using between_join [of pos "pre + i" "pre + i + 1" "p @ a @ t"] pos by simp
  then show "apply_rows (p @ a @ t) ls pos acc = Some (acc @ between pos (pre + i) (p @ a @ t) @ a ! i # result)"
    using assms(3) [unfolded turns_def, rule_format, of pos acc] pos len by simp
qed

lemma turns_hunk:
  assumes p: "length p = pre" and ij: "i \<le> i'" "i' \<le> length a" "j \<le> j'" "length added = j' - j"
    and rest: "turns (p @ a @ t) pre i' j' result ls"
  shows "turns (p @ a @ t) pre i j (added @ result)
    (hunk_header (pre + i) (i' - i) (pre + j) (j' - j) # map ((#) (CHR ''-'')) (between i i' a) @ map ((#) (CHR ''+'')) added @ ls)"
  unfolding turns_def
proof (intro allI impI)
  fix pos and acc :: "string list"
  assume pos: "pos \<le> pre + i" and len: "length acc + (pre + i - pos) = pre + j"
  let ?old = "p @ a @ t" and ?acc = "acc @ between pos (pre + i) (p @ a @ t)"
  have "apply_rows ?old (hunk_header (pre + i) (i' - i) (pre + j) (j' - j) # map ((#) (CHR ''-'')) (between i i' a)
      @ map ((#) (CHR ''+'')) added @ ls) pos acc
    = apply_rows ?old (map ((#) (CHR ''-'')) (between i i' a) @ map ((#) (CHR ''+'')) added @ ls) (pre + i) ?acc"
    using pos len p ij by (subst apply_header) (auto simp: between_def)
  also have "\<dots> = apply_rows ?old (map ((#) (CHR ''+'')) added @ ls) (pre + i + length (between i i' a)) ?acc"
  proof (rule apply_removed)
    show "pre + i + length (between i i' a) \<le> length ?old" using p ij by simp
    show "take (length (between i i' a)) (drop (pre + i) ?old) = between i i' a"
      using p ij by (simp add: between_def)
  qed
  also have "\<dots> = apply_rows ?old ls (pre + i') (?acc @ added)"
    using ij by (simp add: apply_added)
  also have "\<dots> = Some ((?acc @ added) @ result)"
    using rest [unfolded turns_def, rule_format, of "pre + i'" "?acc @ added"] len pos p ij by simp
  finally show "apply_rows ?old (hunk_header (pre + i) (i' - i) (pre + j) (j' - j) #
      map ((#) (CHR ''-'')) (between i i' a) @ map ((#) (CHR ''+'')) added @ ls) pos acc
    = Some (acc @ between pos (pre + i) ?old @ added @ result)" by simp
qed

text \<open>The whole walk, from any point of it.\<close>

lemma hunks_lines:
  assumes bound: "min (length a) (length b) < 2 ^ 32" and p: "length p = pre"
    and free: "list_all row_free a" "list_all row_free b"
  shows "i \<le> length a \<Longrightarrow> j \<le> length b \<Longrightarrow>
    \<exists>ls. hunks pre a b (lcs_table a b) i j out = out @ unlines ls \<and> list_all row_free ls \<and>
      count_rows (CHR ''-'') ls + lcs_len (drop i a) (drop j b) = length a - i \<and>
      count_rows (CHR ''+'') ls + lcs_len (drop i a) (drop j b) = length b - j \<and>
      turns (p @ a @ t) pre i j (drop j b @ t) ls"
proof (induction "(length a - i) + (length b - j)" arbitrary: i j out rule: less_induct)
  case less
  let ?L = "lcs_table a b"
  consider (finished) "i = length a" "j = length b" | (same) "i < length a" "j < length b" "a ! i = b ! j"
    | (differ) "i < length a \<or> j < length b" "\<not> (i < length a \<and> j < length b \<and> a ! i = b ! j)"
    using less.prems by linarith
  then show ?case
  proof cases
    case finished
    then have "hunks pre a b ?L i j out = out" by (subst hunks.simps) (simp add: Let_def)
    with finished show ?thesis using turns_end [OF p] by (intro exI [of _ "[]"]) simp
  next
    case same
    then have eq: "hunks pre a b ?L i j out = hunks pre a b ?L (i + 1) (j + 1) out"
      by (subst hunks.simps) (simp add: Let_def)
    have "length a - (i + 1) + (length b - (j + 1)) < length a - i + (length b - j)"
      "i + 1 \<le> length a" "j + 1 \<le> length b" using same by linarith+
    from less.hyps [OF this, of out] obtain ls
      where "hunks pre a b ?L (i + 1) (j + 1) out = out @ unlines ls" "list_all row_free ls"
        "count_rows (CHR ''-'') ls + lcs_len (drop (i + 1) a) (drop (j + 1) b) = length a - (i + 1)"
        "count_rows (CHR ''+'') ls + lcs_len (drop (i + 1) a) (drop (j + 1) b) = length b - (j + 1)"
        "turns (p @ a @ t) pre (i + 1) (j + 1) (drop (j + 1) b @ t) ls" by blast
    with same eq turns_same [OF p same(1), of t j "drop (j + 1) b @ t" ls] show ?thesis
      by (intro exI [of _ ls]) (simp add: drop_len_Cons Suc_diff_Suc)
  next
    case differ
    obtain i' j' r s where body: "hunk_body a b ?L i j [] [] = (i', j', r, s)" by (metis prod_cases4)
    from differ body have eq: "hunks pre a b ?L i j out = hunks pre a b ?L i' j' (out @ hunk pre i i' j j' r s)"
      by (subst hunks.simps) (auto simp: Let_def)
    from hunk_body_rows [OF bound less.prems body]
    have ij: "i \<le> i'" "i' \<le> length a" "j \<le> j'" "j' \<le> length b"
      and rs: "r = unlines (map ((#) (CHR ''-'')) (between i i' a))" "s = unlines (map ((#) (CHR ''+'')) (between j j' b))"
      and same_len: "lcs_len (drop i' a) (drop j' b) = lcs_len (drop i a) (drop j b)" by simp_all
    let ?hunk = "hunk_header (pre + i) (i' - i) (pre + j) (j' - j) #
      map ((#) (CHR ''-'')) (between i i' a) @ map ((#) (CHR ''+'')) (between j j' b)"
    from less.hyps [OF hunk_body_advances [OF body differ] ij(2,4), of "out @ unlines ?hunk"] obtain ls
      where ls: "hunks pre a b ?L i' j' (out @ unlines ?hunk) = (out @ unlines ?hunk) @ unlines ls" "list_all row_free ls"
        "count_rows (CHR ''-'') ls + lcs_len (drop i' a) (drop j' b) = length a - i'"
        "count_rows (CHR ''+'') ls + lcs_len (drop i' a) (drop j' b) = length b - j'"
        "turns (p @ a @ t) pre i' j' (drop j' b @ t) ls" by blast
    have "turns (p @ a @ t) pre i j (between j j' b @ drop j' b @ t) (?hunk @ ls)"
      using turns_hunk [OF p ij(1-3) _ ls(5)] ij(4) by simp
    moreover have "between j j' b @ drop j' b @ t = drop j b @ t"
      using between_drop [OF ij(3), of b] by (metis append.assoc)
    moreover have "list_all row_free (?hunk @ ls)"
      using ls(2) header_free between_row_free [OF free(1)] between_row_free [OF free(2)]
      by (simp add: line_end_def)
    moreover have "hunks pre a b ?L i j out = out @ unlines (?hunk @ ls)"
      using eq ls(1) by (simp only: rs hunk_unlines) simp
    moreover have "count_rows (CHR ''-'') (?hunk @ ls) = (i' - i) + count_rows (CHR ''-'') ls"
      "count_rows (CHR ''+'') (?hunk @ ls) = (j' - j) + count_rows (CHR ''+'') ls" using ij by simp_all
    then have "count_rows (CHR ''-'') (?hunk @ ls) + lcs_len (drop i a) (drop j b) = length a - i"
      "count_rows (CHR ''+'') (?hunk @ ls) + lcs_len (drop i a) (drop j b) = length b - j"
      using ls(3,4) same_len ij by linarith+
    ultimately show ?thesis by (intro exI [of _ "?hunk @ ls"]) (simp only: simp_thms)
  qed
qed

lemma common_rows_take: "take (common_rows xs ys) xs = take (common_rows xs ys) ys"
  by (induction xs ys rule: common_rows.induct) auto

lemma common_rows_le: "common_rows xs ys \<le> length xs" "common_rows xs ys \<le> length ys"
  by (induction xs ys rule: common_rows.induct) auto

lemma common_rows_drop:
  assumes "k = common_rows (rev xs) (rev ys)"
  shows "drop (length xs - k) xs = drop (length ys - k) ys"
  using common_rows_take [of "rev xs" "rev ys"] by (simp add: assms take_rev)

text \<open>What sets both trees apart once the rows in common are set aside.\<close>

lemma common_parts:
  assumes "pre = common_rows old now" "suf = common_rows (rev (drop pre old)) (rev (drop pre now))"
    and "a = take (length old - pre - suf) (drop pre old)" "b = take (length now - pre - suf) (drop pre now)"
  shows "\<exists>p t. length p = pre \<and> old = p @ a @ t \<and> now = p @ b @ t"
proof (intro exI conjI)
  let ?p = "take pre old" and ?t = "drop (length old - pre - suf) (drop pre old)"
  show "length ?p = pre" using common_rows_le(1) [of old now] assms(1) by simp
  show "old = ?p @ a @ ?t" using assms(3) by (metis append_take_drop_id)
  have "?p = take pre now" using common_rows_take assms(1) by metis
  moreover have "?t = drop (length now - pre - suf) (drop pre now)"
    using common_rows_drop [OF assms(2)] by simp
  ultimately show "now = ?p @ b @ ?t" using assms(4) by (metis append_take_drop_id)
qed

text \<open>What the code returns, in one lemma.\<close>

lemma tree_diff_lines:
  assumes "tree_diff allocated previous current unchanged = Some d" "previous \<noteq> current"
  defines "old \<equiv> tree_rows previous" and "now \<equiv> tree_rows current"
  shows "apply_diff old d = Some now \<and>
    count_rows (CHR ''-'') (tree_rows d) + lcs_len old now = length old \<and>
    count_rows (CHR ''+'') (tree_rows d) + lcs_len old now = length now \<and>
    5 * g_utf8_strlen d \<le> 3 * g_utf8_strlen current"
proof -
  define pre where "pre = common_rows old now"
  define suf where "suf = common_rows (rev (drop pre old)) (rev (drop pre now))"
  define n where "n = length old - pre - suf"
  define m where "m = length now - pre - suf"
  define a where "a = take n (drop pre old)"
  define b where "b = take m (drop pre now)"
  have "(if n \<noteq> 0 \<and> m > 6000000 div n then None else if \<not> allocated then None
     else let out = hunks pre a b (lcs_table a b) 0 0 []
          in if 5 * g_utf8_strlen out \<le> 3 * g_utf8_strlen current then Some out else None) = Some d"
    using assms(1) unfolding tree_diff_def if_not_P [OF assms(2)] Let_def
    by (simp only: n_def m_def a_def b_def pre_def suf_def old_def now_def)
  then have small: "\<not> (n \<noteq> 0 \<and> m > 6000000 div n)" and d: "d = hunks pre a b (lcs_table a b) 0 0 []"
    and len: "5 * g_utf8_strlen d \<le> 3 * g_utf8_strlen current"
    by (auto simp: Let_def split: if_splits)
  have "m \<le> 6000000 \<or> n = 0" using small by (meson div_le_dividend le_trans not_le)
  then have bound: "min (length a) (length b) < 2 ^ 32" by (auto simp: a_def b_def)
  obtain p t where p: "length p = pre" and old: "old = p @ a @ t" and now: "now = p @ b @ t"
    using common_parts [OF pre_def suf_def a_def [unfolded n_def] b_def [unfolded m_def]] by blast
  have free: "list_all row_free a" "list_all row_free b"
    using rows_row_free [of previous] rows_row_free [of current] old now by (simp_all add: old_def now_def)
  from hunks_lines [OF bound p free, of 0 0 "[]" t] obtain ls
    where ls: "d = unlines ls" "list_all row_free ls"
      "count_rows (CHR ''-'') ls + lcs_len a b = length a" "count_rows (CHR ''+'') ls + lcs_len a b = length b"
      "turns old pre 0 0 (b @ t) ls" unfolding d old by auto
  have rows: "tree_rows d = ls" by (simp add: ls(1) tree_rows_unlines [OF ls(2)])
  have "apply_diff old d = Some now"
    using ls(5) [unfolded turns_def, rule_format, of 0 "[]"]
    by (simp add: apply_diff_def rows old now between_def p)
  moreover have "lcs_len old now = pre + lcs_len a b + length t"
    by (simp add: old now p lcs_len_prepend lcs_len_append)
  ultimately show ?thesis using ls(3,4) len by (simp add: rows old now p)
qed

section \<open>Properties\<close>

text \<open>C23. A difference rebuilds the tree: applied as unified hunks to the rows of the previous tree, it
  gives the rows of the current one, for any two trees; it is only returned if it is at most
  three fifths as long as the tree it stands for, and the agreed text for an unchanged tree is
  returned exactly for equal trees.\<close>

theorem tree_diff_rebuilds:
  "case tree_diff allocated previous current unchanged of
     None \<Rightarrow> previous \<noteq> current
   | Some d \<Rightarrow> if previous = current then d = unchanged
       else apply_diff (tree_rows previous) d = Some (tree_rows current) \<and>
            5 * g_utf8_strlen d \<le> 3 * g_utf8_strlen current"
proof (cases "tree_diff allocated previous current unchanged")
  case None
  then show ?thesis by (auto simp: tree_diff_def)
next
  case (Some d)
  show ?thesis
  proof (cases "previous = current")
    case True with Some show ?thesis by (simp add: tree_diff_def)
  next
    case False with tree_diff_lines [OF Some] show ?thesis by (simp add: Some)
  qed
qed

text \<open>C24. A difference is as small as can be: the rows that it neither removes nor adds number
  as many as a longest common subsequence of both trees, whatever part of the work is spared
  by setting the common first and last rows aside.\<close>

theorem tree_diff_minimal:
  "case tree_diff allocated previous current unchanged of
     None \<Rightarrow> True
   | Some d \<Rightarrow> previous = current \<or>
       (\<exists>kept. longest_common kept (tree_rows previous) (tree_rows current) \<and>
          count_rows (CHR ''-'') (tree_rows d) + kept = length (tree_rows previous) \<and>
          count_rows (CHR ''+'') (tree_rows d) + kept = length (tree_rows current))"
  using tree_diff_lines [of allocated previous current unchanged]
  by (cases "tree_diff allocated previous current unchanged") (auto simp: longest_common_lcs_len)

lemma tree_diff_example:
  "tree_diff True (unlines [''window'', ''label one'', ''button'', ''end of it, a rather long row that stays''])
     (unlines [''window'', ''label two'', ''button'', ''end of it, a rather long row that stays'']) ''same'' =
   Some (unlines [''@@ -2 +2 @@'', ''-label one'', ''+label two''])"
proof -
  have "lcs_table [''label one''] [''label two''] = [0, 0, 0, 0]"
    by (simp add: lcs_table_def lcs_cell_def Let_def)
  moreover have "char_of (50 :: nat) = CHR ''2''" by code_simp
  ultimately have "hunks 1 [''label one''] [''label two''] (lcs_table [''label one''] [''label two'']) 0 0 [] =
      unlines [''@@ -2 +2 @@'', ''-label one'', ''+label two'']"
    by (simp add: hunks.simps hunk_body.simps Let_def hunk_def tree_diff_range_def show_nat.simps digit_char_def)
  then show ?thesis
    by (simp add: tree_diff_def tree_rows_def g_strsplit_def Let_def line_end_def g_utf8_strlen_def)
qed

end
