(* ===== verification/Mcp_Schema.thy ===== *)
theory Mcp_Schema
  imports Spaces_Prelude Complex_Main
begin

text \<open>
  src/native/scu_mcp.h, first part: the catalog of the desktop-control tools, the JSON schema
  that is built from it, and the validator that checks the arguments of a call against that schema
  before anything touches the desktop. The same code runs in the frontend inside a space and in the
  shared host service.

  JSON documents are what the vendored library yyjson makes of a text: the datatype \<open>json\<close>, with
  objects as lists of members in their order, duplicates kept, strings that may contain a zero byte, and
  floating-point numbers as the rational numbers they denote. Descriptions, prose
  for the model that calls the tools, are left out of catalog and schema; nothing reads them.
\<close>

section \<open>JSON values\<close>

datatype json =
    JNull
  | JBool bool
  | JInt int
  | JReal rat
  | JString string
  | JArray "json list"
  | JObject "(string \<times> json) list"

text \<open>\<open>yyjson_obj_get\<close> finds the first member of that name; on anything but an object it finds none.\<close>

definition json_member :: "json option \<Rightarrow> string \<Rightarrow> json option" where
  "json_member o' k = (case o' of Some (JObject ms) \<Rightarrow> map_of ms k | _ \<Rightarrow> None)"

text \<open>A C function sees a string up to its first zero byte.\<close>

definition c_string :: "string \<Rightarrow> string" where
  "c_string s = takeWhile (\<lambda>c. c \<noteq> CHR 0x00) s"

definition json_string :: "json option \<Rightarrow> string \<Rightarrow> string option" where
  "json_string o' k = (case json_member o' k of Some (JString s) \<Rightarrow> Some (c_string s) | _ \<Rightarrow> None)"

fun json_num :: "json \<Rightarrow> rat option" where
  "json_num (JInt i) = Some (of_int i)"
| "json_num (JReal r) = Some r"
| "json_num _ = None"

definition json_number :: "json option \<Rightarrow> string \<Rightarrow> rat \<Rightarrow> rat" where
  "json_number o' k fallback = (case Option.bind (json_member o' k) json_num of Some r \<Rightarrow> r | None \<Rightarrow> fallback)"

definition json_boolean :: "json option \<Rightarrow> string \<Rightarrow> bool" where
  "json_boolean o' k = (json_member o' k = Some (JBool True))"

text \<open>The elements that \<open>yyjson_arr_foreach\<close> visits: none unless there is an array.\<close>

definition elements :: "json option \<Rightarrow> json list" where
  "elements a = (case a of Some (JArray xs) \<Rightarrow> xs | _ \<Rightarrow> [])"

text \<open>\<open>yyjson_mut_obj_put\<close>: replaces the first member of that name and drops the others, or appends.\<close>

fun result_member :: "string \<Rightarrow> json \<Rightarrow> (string \<times> json) list \<Rightarrow> (string \<times> json) list" where
  "result_member k v [] = [(k, v)]"
| "result_member k v ((k', w) # ms) =
     (if k' = k then (k, v) # filter (\<lambda>(n, _). n \<noteq> k) ms else (k', w) # result_member k v ms)"

section \<open>The catalog\<close>

datatype argument_type =
    ARG_STRING | ARG_NUMBER | ARG_INTEGER | ARG_BOOLEAN | ARG_STRING_ARRAY | ARG_OBJECT
  | ARG_OBJECT_ARRAY | ARG_NUMBER_ARRAY | ARG_INTEGER_ARRAY | ARG_OBSERVATION

datatype batch_kind = BATCH_NONE | BATCH_VISION | BATCH_ACCESSIBILITY

record argument =
  a_name :: string
  a_type :: argument_type
  a_choices :: "string list option"
  a_minimum :: int
  a_maximum :: int
  a_allow_false :: bool
  a_allow_null :: bool

text \<open>The flags of a tool (\<open>ARGS_ACTION\<close>, \<open>ARGS_POINT\<close>, the modes) are one field each.\<close>

record tool =
  t_name :: string
  t_args_action :: bool
  t_args_point :: bool
  t_arguments :: "argument list"
  t_required :: "string list option"
  t_action :: bool
  t_batch :: batch_kind
  t_modes :: "batch_kind list"
  t_targeted_required :: "string list option"

definition argument :: "string \<Rightarrow> argument_type \<Rightarrow> argument" where
  "argument name type = \<lparr>a_name = name, a_type = type, a_choices = None, a_minimum = 0, a_maximum = 0,
     a_allow_false = False, a_allow_null = False\<rparr>"

definition bounded :: "string \<Rightarrow> argument_type \<Rightarrow> int \<Rightarrow> int \<Rightarrow> argument" where
  "bounded name type least most = (argument name type)\<lparr>a_minimum := least, a_maximum := most\<rparr>"

definition ELEMENT_CAPACITY :: int where "ELEMENT_CAPACITY = 20000"

definition pointer_buttons :: "string list" where
  "pointer_buttons = [''left'', ''right'', ''middle'']"
definition scroll_directions :: "string list" where
  "scroll_directions = [''up'', ''down'', ''left'', ''right'']"
definition action_arguments :: "argument list" where
  "action_arguments = [bounded ''element_id'' ARG_INTEGER 0 (ELEMENT_CAPACITY - 1)]"
definition point_arguments :: "argument list" where
  "point_arguments = [argument ''x'' ARG_NUMBER, argument ''y'' ARG_NUMBER]"
definition click_arguments :: "argument list" where
  "click_arguments = [(argument ''button'' ARG_STRING)\<lparr>a_choices := Some pointer_buttons\<rparr>,
     bounded ''count'' ARG_INTEGER 1 3]"
definition drag_arguments :: "argument list" where
  "drag_arguments = [argument ''from_x'' ARG_NUMBER, argument ''from_y'' ARG_NUMBER,
     argument ''to_x'' ARG_NUMBER, argument ''to_y'' ARG_NUMBER,
     bounded ''duration_ms'' ARG_INTEGER 0 10000,
     (argument ''button'' ARG_STRING)\<lparr>a_choices := Some pointer_buttons\<rparr>]"
definition scroll_arguments :: "argument list" where
  "scroll_arguments = [(argument ''direction'' ARG_STRING)\<lparr>a_choices := Some scroll_directions\<rparr>,
     bounded ''amount'' ARG_INTEGER 1 700]"
definition text_arguments :: "argument list" where
  "text_arguments = [argument ''text'' ARG_STRING]"
definition value_arguments :: "argument list" where
  "value_arguments = [argument ''value'' ARG_STRING]"
definition key_arguments :: "argument list" where
  "key_arguments = [bounded ''keys'' ARG_STRING_ARRAY 1 5]"
definition delay_arguments :: "argument list" where
  "delay_arguments = [bounded ''ms'' ARG_INTEGER 0 30000]"
definition status_arguments :: "argument list" where
  "status_arguments = [argument ''observation'' ARG_BOOLEAN]"
definition search_application_arguments :: "argument list" where
  "search_application_arguments = [(argument ''pattern'' ARG_STRING)\<lparr>a_allow_null := True\<rparr>]"
definition launch_application_arguments :: "argument list" where
  "launch_application_arguments = [argument ''application'' ARG_STRING,
     (argument ''arg'' ARG_STRING)\<lparr>a_allow_null := True\<rparr>,
     (argument ''action'' ARG_STRING)\<lparr>a_allow_null := True\<rparr>]"
definition vision_arguments :: "argument list" where
  "vision_arguments = [bounded ''steps'' ARG_OBJECT_ARRAY 0 64,
     (argument ''observations'' ARG_OBSERVATION)\<lparr>a_allow_false := True\<rparr>]"
definition accessibility_arguments :: "argument list" where
  "accessibility_arguments = [bounded ''steps'' ARG_OBJECT_ARRAY 0 64, argument ''observations'' ARG_OBSERVATION]"

definition new_tool :: "string \<Rightarrow> argument list \<Rightarrow> string list option \<Rightarrow> tool" where
  "new_tool name arguments required = \<lparr>t_name = name, t_args_action = False, t_args_point = False,
     t_arguments = arguments, t_required = required, t_action = False, t_batch = BATCH_NONE,
     t_modes = [], t_targeted_required = None\<rparr>"

definition tools :: "tool list" where
  "tools =
     [new_tool ''status'' status_arguments None,
      (new_tool ''vision'' vision_arguments None)\<lparr>t_action := True, t_batch := BATCH_VISION\<rparr>,
      (new_tool ''accessibility'' accessibility_arguments None)\<lparr>t_action := True, t_batch := BATCH_ACCESSIBILITY\<rparr>,
      new_tool ''search_applications'' search_application_arguments None,
      (new_tool ''launch_application'' launch_application_arguments (Some [''application'']))\<lparr>t_action := True\<rparr>]"

definition pointer_action :: "string \<Rightarrow> argument list \<Rightarrow> string list \<Rightarrow> tool" where
  "pointer_action name arguments required =
     (new_tool name arguments (Some required))\<lparr>t_action := True, t_modes := [BATCH_VISION]\<rparr>"

definition element_action :: "string \<Rightarrow> tool" where
  "element_action name = (new_tool name [] (Some [''element_id'']))
     \<lparr>t_args_action := True, t_action := True, t_modes := [BATCH_ACCESSIBILITY]\<rparr>"

definition action_tools :: "tool list" where
  "action_tools =
     [(pointer_action ''click'' click_arguments [''x'', ''y''])\<lparr>t_args_point := True\<rparr>,
      (pointer_action ''move_cursor'' [] [''x'', ''y''])\<lparr>t_args_point := True\<rparr>,
      pointer_action ''drag'' drag_arguments [''from_x'', ''from_y'', ''to_x'', ''to_y''],
      (pointer_action ''scroll'' scroll_arguments [''x'', ''y'', ''direction''])\<lparr>t_args_point := True\<rparr>,
      pointer_action ''press_keys'' key_arguments [''keys''],
      element_action ''activate'',
      element_action ''open_context_menu'',
      (pointer_action ''type_text'' text_arguments [''text''])
        \<lparr>t_targeted_required := Some [''element_id'', ''text''], t_modes := [BATCH_VISION, BATCH_ACCESSIBILITY]\<rparr>,
      (element_action ''set_value'')\<lparr>t_arguments := value_arguments, t_required := Some [''element_id'', ''value'']\<rparr>,
      (pointer_action ''delay_ms'' delay_arguments [''ms''])\<lparr>t_modes := [BATCH_VISION, BATCH_ACCESSIBILITY]\<rparr>]"

definition find_tool :: "bool \<Rightarrow> string option \<Rightarrow> tool option" where
  "find_tool no_vision name =
     find (\<lambda>t. name = Some (t_name t) \<and> \<not> (no_vision \<and> t_batch t = BATCH_VISION)) tools"

text \<open>An action as a batch of that kind takes it: text is typed into a named element by the accessibility batch.\<close>

definition action_variant :: "batch_kind \<Rightarrow> tool \<Rightarrow> tool" where
  "action_variant batch action =
     (if batch = BATCH_ACCESSIBILITY \<and> t_targeted_required action \<noteq> None
      then action\<lparr>t_args_action := True, t_required := t_targeted_required action\<rparr> else action)"

definition find_action :: "batch_kind \<Rightarrow> string option \<Rightarrow> tool option" where
  "find_action batch name =
     map_option (action_variant batch)
       (find (\<lambda>action. batch \<in> set (t_modes action) \<and> name = Some (t_name action)) action_tools)"

section \<open>The schema\<close>

fun type_name :: "argument_type \<Rightarrow> string" where
  "type_name ARG_STRING = ''string''"
| "type_name ARG_NUMBER = ''number''"
| "type_name ARG_INTEGER = ''integer''"
| "type_name ARG_BOOLEAN = ''boolean''"
| "type_name ARG_OBSERVATION = ''object''"
| "type_name ARG_OBJECT = ''object''"
| "type_name _ = ''array''"

fun item_type_name :: "argument_type \<Rightarrow> string" where
  "item_type_name ARG_STRING_ARRAY = ''string''"
| "item_type_name ARG_NUMBER_ARRAY = ''number''"
| "item_type_name ARG_INTEGER_ARRAY = ''integer''"
| "item_type_name _ = ''object''"

definition is_array_type :: "argument_type \<Rightarrow> bool" where
  "is_array_type t = (t \<in> {ARG_STRING_ARRAY, ARG_OBJECT_ARRAY, ARG_NUMBER_ARRAY, ARG_INTEGER_ARRAY})"

definition put_if :: "bool \<Rightarrow> string \<Rightarrow> json \<Rightarrow> (string \<times> json) list \<Rightarrow> (string \<times> json) list" where
  "put_if b k v ms = (if b then result_member k v ms else ms)"

definition typed_property :: "argument \<Rightarrow> (string \<times> json) list" where
  "typed_property a =
     (let p = put_if (a_type a = ARG_BOOLEAN) ''default'' (JBool False) [];
          p = result_member ''type'' (JString (type_name (a_type a))) p
      in case a_choices a of None \<Rightarrow> p
         | Some cs \<Rightarrow> result_member ''enum'' (JArray (map JString cs)) p)"

definition ranged_property :: "argument \<Rightarrow> (string \<times> json) list \<Rightarrow> (string \<times> json) list" where
  "ranged_property a p =
     (if is_array_type (a_type a) then
        put_if (a_maximum a \<noteq> 0) ''maxItems'' (JInt (a_maximum a))
          (put_if (a_minimum a \<noteq> 0) ''minItems'' (JInt (a_minimum a))
            (result_member ''items'' (JObject [(''type'', JString (item_type_name (a_type a)))]) p))
      else if a_maximum a \<noteq> 0 then
        result_member ''maximum'' (JReal (of_int (a_maximum a)))
          (result_member ''minimum'' (JReal (of_int (a_minimum a))) p)
      else p)"

definition observation_property :: "argument \<Rightarrow> (string \<times> json) list \<Rightarrow> (string \<times> json) list" where
  "observation_property a p =
     (if a_type a \<noteq> ARG_OBSERVATION then p
      else result_member ''additionalProperties'' (JBool False)
        (result_member ''required'' (JArray [JString ''window''])
          (result_member ''properties'' (JObject
             [(''window'', JObject [(''type'', JString ''integer'')]),
              (''refresh'', JObject [(''type'', JString ''boolean''), (''default'', JBool False)])]) p)))"

definition argument_schema :: "argument \<Rightarrow> json" where
  "argument_schema a =
     (let p = JObject (observation_property a (ranged_property a (typed_property a)))
      in if a_allow_false a \<or> a_allow_null a then
           JObject [(''anyOf'', JArray [p,
             JObject ((''type'', JString (if a_allow_null a then ''null'' else ''boolean''))
               # (if a_allow_null a then [] else [(''enum'', JArray [JBool False])]))])]
         else p)"

definition add_argument_schemas :: "argument list \<Rightarrow> (string \<times> json) list \<Rightarrow> (string \<times> json) list" where
  "add_argument_schemas arguments ps = fold (\<lambda>a. result_member (a_name a) (argument_schema a)) arguments ps"

definition tool_fields :: "bool \<Rightarrow> tool \<Rightarrow> argument list" where
  "tool_fields no_vision t =
     (if no_vision \<and> t_name t = ''status'' then [] else t_arguments t)
     @ (if t_args_action t then action_arguments else []) @ (if t_args_point t then point_arguments else [])"

text \<open>Required members come first, in the order the tool names them, then the others.\<close>

definition order_properties :: "string list \<Rightarrow> (string \<times> json) list \<Rightarrow> (string \<times> json) list" where
  "order_properties required ps =
     (let first = fold (\<lambda>n o'. case map_of ps n of None \<Rightarrow> o' | Some p \<Rightarrow> result_member n p o') required []
      in fold (\<lambda>(k, p) o'. if map_of o' k = None then result_member k p o' else o') ps first)"

definition object_schema :: "string list option \<Rightarrow> (string \<times> json) list \<Rightarrow> json" where
  "object_schema required ps =
     JObject [(''type'', JString ''object''),
       (''properties'', JObject (case required of None \<Rightarrow> ps | Some names \<Rightarrow> order_properties names ps)),
       (''required'', JArray (map JString (case required of None \<Rightarrow> [] | Some names \<Rightarrow> names))),
       (''additionalProperties'', JBool False)]"

text \<open>An action is never a batch itself, so that its schema needs no nested schemas.\<close>

definition action_schema :: "bool \<Rightarrow> tool \<Rightarrow> json" where
  "action_schema no_vision t = object_schema (t_required t) (add_argument_schemas (tool_fields no_vision t) [])"

definition step_schema :: "bool \<Rightarrow> tool \<Rightarrow> json" where
  "step_schema no_vision action =
     JObject [(''type'', JString ''object''),
       (''properties'', JObject
          [(''tool'', JObject [(''type'', JString ''string''), (''enum'', JArray [JString (t_name action)])]),
           (''args'', action_schema no_vision action)]),
       (''required'', JArray [JString ''tool'', JString ''args'']),
       (''additionalProperties'', JBool False)]"

definition batch_actions :: "batch_kind \<Rightarrow> tool list" where
  "batch_actions batch = List.map_filter (\<lambda>t. find_action batch (Some (t_name t))) action_tools"

definition put_items :: "json \<Rightarrow> (string \<times> json) list \<Rightarrow> (string \<times> json) list" where
  "put_items items ps =
     (case map_of ps ''steps'' of
        Some (JObject steps) \<Rightarrow> result_member ''steps'' (JObject (result_member ''items'' items steps)) ps
      | _ \<Rightarrow> ps)"

definition build_tool_schema :: "bool \<Rightarrow> tool \<Rightarrow> json" where
  "build_tool_schema no_vision t =
     (let ps = add_argument_schemas (tool_fields no_vision t) []
      in object_schema (t_required t)
           (if t_batch t = BATCH_NONE then ps
            else put_items (JObject [(''anyOf'', JArray (map (step_schema no_vision) (batch_actions (t_batch t))))]) ps))"

section \<open>The validator\<close>

definition type_ok :: "json \<Rightarrow> json \<Rightarrow> bool" where
  "type_ok v s =
     (case json_string (Some s) ''type'' of None \<Rightarrow> False
      | Some t \<Rightarrow>
          (case v of
             JObject _ \<Rightarrow> t = ''object''
           | JNull \<Rightarrow> t = ''null''
           | JArray _ \<Rightarrow> t = ''array''
           | JString w \<Rightarrow> t = ''string'' \<and> c_string w = w
           | JInt _ \<Rightarrow> t = ''integer'' \<or> t = ''number''
           | JReal _ \<Rightarrow> t = ''number''
           | JBool _ \<Rightarrow> t = ''boolean''))"

definition enum_ok :: "json \<Rightarrow> json \<Rightarrow> bool" where
  "enum_ok v s = (case json_member (Some s) ''enum'' of None \<Rightarrow> True | Some e \<Rightarrow> list_ex (\<lambda>x. x = v) (elements (Some e)))"

definition unbounded :: rat where
  "unbounded = 10 ^ 100"

definition number_ok :: "json \<Rightarrow> json \<Rightarrow> bool" where
  "number_ok v s =
     (case json_num v of None \<Rightarrow> True
      | Some r \<Rightarrow> \<not> (r < json_number (Some s) ''minimum'' (- unbounded) \<or> r > json_number (Some s) ''maximum'' unbounded))"

definition required_ok :: "(string \<times> json) list \<Rightarrow> json \<Rightarrow> bool" where
  "required_ok ms s =
     list_all (\<lambda>x. case x of JString n \<Rightarrow> json_member (Some (JObject ms)) (c_string n) \<noteq> None | _ \<Rightarrow> False)
       (elements (json_member (Some s) ''required''))"

lemma size_map_of: "map_of ms k = Some v \<Longrightarrow> size v < Suc (size_list (size_prod (\<lambda>_. 0) size) ms)"
  by (induction ms) (auto split: if_splits)

lemma size_member: "json_member o' k = Some v \<Longrightarrow> \<exists>s. o' = Some s \<and> size v < size s"
  using size_map_of by (fastforce simp: json_member_def split: option.splits json.splits)

lemma size_element: "v \<in> set (elements a) \<Longrightarrow> \<exists>s. a = Some s \<and> size v < size s"
  using size_list_estimation' [of v _ _ size] by (auto simp: elements_def less_Suc_eq_le split: option.splits json.splits)

function validate_schema :: "json \<Rightarrow> json \<Rightarrow> bool" where
  "validate_schema v s =
     (case json_member (Some s) ''anyOf'' of
        Some alternatives \<Rightarrow> list_ex (\<lambda>option. validate_schema v option) (elements (Some alternatives))
      | None \<Rightarrow>
          type_ok v s \<and> enum_ok v s \<and> number_ok v s \<and>
          (case v of
             JObject ms \<Rightarrow>
               required_ok ms s \<and>
               list_all (\<lambda>(k, x).
                 case json_member (json_member (Some s) ''properties'') (c_string k) of
                   None \<Rightarrow> json_member (Some s) ''additionalProperties'' \<noteq> Some (JBool False)
                 | Some p \<Rightarrow> validate_schema x p) ms
           | JArray xs \<Rightarrow>
               \<not> (of_nat (length xs) < json_number (Some s) ''minItems'' 0 \<or>
                  of_nat (length xs) > json_number (Some s) ''maxItems'' 1000000000) \<and>
               list_all (\<lambda>x. case json_member (Some s) ''items'' of
                 None \<Rightarrow> False | Some i \<Rightarrow> validate_schema x i) xs
           | _ \<Rightarrow> True))"
  by pat_completeness auto
termination
  by (relation "measure (\<lambda>(v, s). size s)") (fastforce dest: size_member size_element)+

declare validate_schema.simps [simp del]

text \<open>The schema is always built (memory for it is taken for granted, as elsewhere).\<close>

definition validate_arguments :: "bool \<Rightarrow> tool \<Rightarrow> json \<Rightarrow> bool" where
  "validate_arguments no_vision t args = validate_schema args (build_tool_schema no_vision t)"

section \<open>What the catalog promises\<close>

definition item_fits :: "argument_type \<Rightarrow> json \<Rightarrow> bool" where
  "item_fits t v =
     (case t of
        ARG_STRING_ARRAY \<Rightarrow> (case v of JString s \<Rightarrow> CHR 0x00 \<notin> set s | _ \<Rightarrow> False)
      | ARG_NUMBER_ARRAY \<Rightarrow> (case json_num v of Some r \<Rightarrow> \<bar>r\<bar> \<le> unbounded | None \<Rightarrow> False)
      | ARG_INTEGER_ARRAY \<Rightarrow> (case v of JInt i \<Rightarrow> \<bar>of_int i\<bar> \<le> unbounded | _ \<Rightarrow> False)
      | _ \<Rightarrow> (case v of JObject _ \<Rightarrow> True | _ \<Rightarrow> False))"

definition in_range :: "argument \<Rightarrow> rat \<Rightarrow> bool" where
  "in_range a r = (if a_maximum a = 0 then \<bar>r\<bar> \<le> unbounded else of_int (a_minimum a) \<le> r \<and> r \<le> of_int (a_maximum a))"

definition length_fits :: "argument \<Rightarrow> nat \<Rightarrow> bool" where
  "length_fits a n = (a_minimum a \<le> int n \<and> int n \<le> (if a_maximum a = 0 then 1000000000 else a_maximum a))"

text \<open>An object with members of those names only, each fitting, and the required ones present.\<close>

definition object_fits :: "(string \<Rightarrow> (json \<Rightarrow> bool) option) \<Rightarrow> string list \<Rightarrow> json \<Rightarrow> bool" where
  "object_fits known required v =
     (case v of
        JObject ms \<Rightarrow> list_all (\<lambda>n. map_of ms n \<noteq> None) required \<and>
          list_all (\<lambda>(k, x). case known (c_string k) of None \<Rightarrow> False | Some fits \<Rightarrow> fits x) ms
      | _ \<Rightarrow> False)"

definition kind_fits :: "argument \<Rightarrow> json \<Rightarrow> bool" where
  "kind_fits a v =
     (case a_type a of
        ARG_STRING \<Rightarrow> (case v of JString s \<Rightarrow> CHR 0x00 \<notin> set s | _ \<Rightarrow> False)
      | ARG_NUMBER \<Rightarrow> (case json_num v of Some r \<Rightarrow> in_range a r | None \<Rightarrow> False)
      | ARG_INTEGER \<Rightarrow> (case v of JInt i \<Rightarrow> in_range a (of_int i) | _ \<Rightarrow> False)
      | ARG_BOOLEAN \<Rightarrow> (case v of JBool _ \<Rightarrow> True | _ \<Rightarrow> False)
      | ARG_OBJECT \<Rightarrow> (case v of JObject _ \<Rightarrow> True | _ \<Rightarrow> False)
      | ARG_OBSERVATION \<Rightarrow>
          object_fits [''window'' \<mapsto> (\<lambda>x. case x of JInt i \<Rightarrow> \<bar>of_int i\<bar> \<le> unbounded | _ \<Rightarrow> False),
            ''refresh'' \<mapsto> (\<lambda>x. case x of JBool _ \<Rightarrow> True | _ \<Rightarrow> False)] [''window''] v
      | t \<Rightarrow> (case v of JArray xs \<Rightarrow> length_fits a (length xs) \<and> list_all (item_fits t) xs | _ \<Rightarrow> False))"

definition argument_fits :: "argument \<Rightarrow> json \<Rightarrow> bool" where
  "argument_fits a v =
     (kind_fits a v \<and> (case a_choices a of None \<Rightarrow> True | Some cs \<Rightarrow> v \<in> JString ` set cs) \<or>
      (if a_allow_null a then v = JNull else a_allow_false a \<and> v = JBool False))"

definition fields_fit :: "argument list \<Rightarrow> string \<Rightarrow> (json \<Rightarrow> bool) option" where
  "fields_fit arguments k = map_option argument_fits (find (\<lambda>a. a_name a = k) arguments)"

definition required_names :: "tool \<Rightarrow> string list" where
  "required_names t = (case t_required t of None \<Rightarrow> [] | Some names \<Rightarrow> names)"

definition action_accepts :: "bool \<Rightarrow> tool \<Rightarrow> json \<Rightarrow> bool" where
  "action_accepts no_vision t = object_fits (fields_fit (tool_fields no_vision t)) (required_names t)"

definition step_accepts :: "bool \<Rightarrow> batch_kind \<Rightarrow> json \<Rightarrow> bool" where
  "step_accepts no_vision batch v =
     list_ex (\<lambda>action. object_fits [''tool'' \<mapsto> (\<lambda>x. x = JString (t_name action)), ''args'' \<mapsto> action_accepts no_vision action]
        [''tool'', ''args''] v) (batch_actions batch)"

definition tool_accepts :: "bool \<Rightarrow> tool \<Rightarrow> json \<Rightarrow> bool" where
  "tool_accepts no_vision t =
     object_fits (if t_batch t = BATCH_NONE then fields_fit (tool_fields no_vision t)
       else (fields_fit (tool_fields no_vision t))(''steps'' \<mapsto>
         (\<lambda>v. case v of JArray xs \<Rightarrow> length xs \<le> 64 \<and> list_all (step_accepts no_vision (t_batch t)) xs | _ \<Rightarrow> False)))
       (required_names t)"

section \<open>Schemas and what they accept\<close>

lemma c_string_id: "c_string s = s \<longleftrightarrow> CHR 0x00 \<notin> set s"
  unfolding c_string_def by (auto simp: takeWhile_eq_all_conv)

lemma map_of_result_member [simp]: "map_of (result_member k v ms) = (map_of ms)(k \<mapsto> v)"
proof (induction k v ms rule: result_member.induct)
  case (2 k v k' w ms)
  have "map_of (filter (\<lambda>(n, _). n \<noteq> k) ms) = (map_of ms)(k := None)"
    by (induction ms) (auto simp: fun_eq_iff)
  with 2 show ?case by (auto simp: fun_eq_iff)
qed simp

lemma member_object [simp]: "json_member (Some (JObject ms)) k = map_of ms k"
  by (simp add: json_member_def)

lemma member_None [simp]: "json_member None k = None"
  by (simp add: json_member_def)

lemma elements_array [simp]: "elements (Some (JArray xs)) = xs" "elements None = []"
  by (simp_all add: elements_def)

text \<open>A schema is described by what its members are; the order of the members does not matter.\<close>

definition plain :: "(string \<times> json) list \<Rightarrow> bool" where
  "plain ms = (map_of ms ''anyOf'' = None)"

lemma validate_plain:
  "plain ms \<Longrightarrow> validate_schema v (JObject ms) =
     (type_ok v (JObject ms) \<and> enum_ok v (JObject ms) \<and> number_ok v (JObject ms) \<and>
      (case v of
         JObject vs \<Rightarrow> required_ok vs (JObject ms) \<and>
           list_all (\<lambda>(k, x). case json_member (map_of ms ''properties'') (c_string k) of
             None \<Rightarrow> map_of ms ''additionalProperties'' \<noteq> Some (JBool False) | Some p \<Rightarrow> validate_schema x p) vs
       | JArray xs \<Rightarrow> json_number (Some (JObject ms)) ''minItems'' 0 \<le> of_nat (length xs) \<and>
           of_nat (length xs) \<le> json_number (Some (JObject ms)) ''maxItems'' 1000000000 \<and>
           list_all (\<lambda>x. case map_of ms ''items'' of None \<Rightarrow> False | Some i \<Rightarrow> validate_schema x i) xs
       | _ \<Rightarrow> True))"
  by (subst validate_schema.simps) (simp add: plain_def not_less cong: option.case_cong json.case_cong)

lemma validate_any:
  "map_of ms ''anyOf'' = Some (JArray ss) \<Longrightarrow> validate_schema v (JObject ms) = list_ex (validate_schema v) ss"
  by (subst validate_schema.simps) simp

lemma within: "(- c \<le> r \<and> r \<le> c) = (\<bar>r\<bar> \<le> (c :: rat))"
  by auto

lemma list_all_true: "list_all (\<lambda>(k, x). True) xs"
  by (simp add: list_all_iff)

lemmas checks = type_ok_def enum_ok_def number_ok_def required_ok_def json_string_def json_number_def plain_def

lemma names_id [simp]:
  "c_string ''object'' = ''object''" "c_string ''null'' = ''null''" "c_string ''array'' = ''array''"
  "c_string ''string'' = ''string''" "c_string ''integer'' = ''integer''" "c_string ''number'' = ''number''"
  "c_string ''boolean'' = ''boolean''" "c_string ''window'' = ''window''" "c_string ''tool'' = ''tool''"
  "c_string ''args'' = ''args''"
  by (simp_all add: c_string_def)

lemma validate_item:
  "is_array_type t \<Longrightarrow> validate_schema v (JObject [(''type'', JString (item_type_name t))]) = item_fits t v"
  by (cases v; cases t)
    (simp_all add: validate_plain checks c_string_id is_array_type_def item_fits_def within list_all_true not_less)

text \<open>The members of the schema of an argument.\<close>

definition base_members :: "argument \<Rightarrow> (string \<times> json) list" where
  "base_members a = observation_property a (ranged_property a (typed_property a))"

lemma map_of_put_if: "map_of (put_if b k v ms) n = (if b \<and> n = k then Some v else map_of ms n)"
  by (simp add: put_if_def)

lemma typed_lookup:
  "map_of (typed_property a) k =
     (if k = ''enum'' \<and> a_choices a \<noteq> None then map_option (\<lambda>cs. JArray (map JString cs)) (a_choices a)
      else if k = ''type'' then Some (JString (type_name (a_type a)))
      else if k = ''default'' \<and> a_type a = ARG_BOOLEAN then Some (JBool False) else None)"
  by (simp add: typed_property_def Let_def map_of_put_if split: option.split)

lemma ranged_lookup:
  "map_of (ranged_property a p) k =
     (if is_array_type (a_type a) then
        (if k = ''maxItems'' \<and> a_maximum a \<noteq> 0 then Some (JInt (a_maximum a))
         else if k = ''minItems'' \<and> a_minimum a \<noteq> 0 then Some (JInt (a_minimum a))
         else if k = ''items'' then Some (JObject [(''type'', JString (item_type_name (a_type a)))]) else map_of p k)
      else if a_maximum a \<noteq> 0 \<and> k = ''maximum'' then Some (JReal (of_int (a_maximum a)))
      else if a_maximum a \<noteq> 0 \<and> k = ''minimum'' then Some (JReal (of_int (a_minimum a))) else map_of p k)"
  by (simp add: ranged_property_def map_of_put_if)

lemma observation_lookup:
  "map_of (observation_property a p) k =
     (if a_type a \<noteq> ARG_OBSERVATION then map_of p k
      else if k = ''additionalProperties'' then Some (JBool False)
      else if k = ''required'' then Some (JArray [JString ''window''])
      else if k = ''properties'' then Some (JObject
             [(''window'', JObject [(''type'', JString ''integer'')]),
              (''refresh'', JObject [(''type'', JString ''boolean''), (''default'', JBool False)])])
      else map_of p k)"
  by (simp add: observation_property_def)

lemma base_lookup:
  "map_of (base_members a) ''anyOf'' = None"
  "map_of (base_members a) ''type'' = Some (JString (type_name (a_type a)))"
  "map_of (base_members a) ''enum'' = map_option (\<lambda>cs. JArray (map JString cs)) (a_choices a)"
  "map_of (base_members a) ''minimum'' =
     (if \<not> is_array_type (a_type a) \<and> a_maximum a \<noteq> 0 then Some (JReal (of_int (a_minimum a))) else None)"
  "map_of (base_members a) ''maximum'' =
     (if \<not> is_array_type (a_type a) \<and> a_maximum a \<noteq> 0 then Some (JReal (of_int (a_maximum a))) else None)"
  "map_of (base_members a) ''minItems'' =
     (if is_array_type (a_type a) \<and> a_minimum a \<noteq> 0 then Some (JInt (a_minimum a)) else None)"
  "map_of (base_members a) ''maxItems'' =
     (if is_array_type (a_type a) \<and> a_maximum a \<noteq> 0 then Some (JInt (a_maximum a)) else None)"
  "map_of (base_members a) ''items'' =
     (if is_array_type (a_type a) then Some (JObject [(''type'', JString (item_type_name (a_type a)))]) else None)"
  "map_of (base_members a) ''required'' =
     (if a_type a = ARG_OBSERVATION then Some (JArray [JString ''window'']) else None)"
  "map_of (base_members a) ''additionalProperties'' =
     (if a_type a = ARG_OBSERVATION then Some (JBool False) else None)"
  "map_of (base_members a) ''properties'' =
     (if a_type a = ARG_OBSERVATION then Some (JObject
        [(''window'', JObject [(''type'', JString ''integer'')]),
         (''refresh'', JObject [(''type'', JString ''boolean''), (''default'', JBool False)])]) else None)"
  by (simp_all only: base_members_def observation_lookup ranged_lookup typed_lookup) simp_all

lemma base_enum_ok:
  "enum_ok v (JObject (base_members a)) = (case a_choices a of None \<Rightarrow> True | Some cs \<Rightarrow> v \<in> JString ` set cs)"
  by (auto simp: enum_ok_def base_lookup list_ex_iff split: option.split)

lemma base_number_ok:
  "\<not> is_array_type (a_type a) \<Longrightarrow>
     number_ok v (JObject (base_members a)) = (case json_num v of None \<Rightarrow> True | Some r \<Rightarrow> in_range a r)"
  by (simp add: number_ok_def json_number_def base_lookup in_range_def not_less within split: option.split)

lemma base_lengths:
  assumes "is_array_type (a_type a)"
  shows "(json_number (Some (JObject (base_members a))) ''minItems'' 0 \<le> of_nat n \<and>
     of_nat n \<le> json_number (Some (JObject (base_members a))) ''maxItems'' 1000000000) = length_fits a n"
proof -
  have least: "json_number (Some (JObject (base_members a))) ''minItems'' 0 = of_int (a_minimum a)"
    using assms by (simp add: json_number_def base_lookup)
  have most: "json_number (Some (JObject (base_members a))) ''maxItems'' 1000000000 =
      of_int (if a_maximum a = 0 then 1000000000 else a_maximum a)"
    using assms by (simp add: json_number_def base_lookup)
  have "(of_int i \<le> (of_nat n :: rat)) = (i \<le> int n)" "((of_nat n :: rat) \<le> of_int i) = (int n \<le> i)" for i
    by (metis of_int_le_iff of_int_of_nat_eq)+
  then show ?thesis unfolding least most length_fits_def by (simp only:)
qed

lemma validate_observation:
  "validate_schema x (JObject [(''type'', JString ''integer'')]) = (case x of JInt i \<Rightarrow> \<bar>of_int i\<bar> \<le> unbounded | _ \<Rightarrow> False)"
  "validate_schema x (JObject [(''type'', JString ''boolean''), (''default'', JBool False)]) = (case x of JBool _ \<Rightarrow> True | _ \<Rightarrow> False)"
  by (cases x; simp add: validate_plain checks within not_less)+

lemma plain_base: "plain (base_members a)"
  by (simp add: plain_def base_lookup)

lemma validate_base:
  "validate_schema v (JObject (base_members a)) =
     (kind_fits a v \<and> (case a_choices a of None \<Rightarrow> True | Some cs \<Rightarrow> v \<in> JString ` set cs))"
proof (cases "is_array_type (a_type a)")
  case True
  have name: "type_name (a_type a) = ''array''" using True by (cases "a_type a") (simp_all add: is_array_type_def)
  have "validate_schema v (JObject (base_members a)) =
      ((case v of JArray xs \<Rightarrow> length_fits a (length xs) \<and> list_all (item_fits (a_type a)) xs | _ \<Rightarrow> False) \<and>
       enum_ok v (JObject (base_members a)))"
  proof (cases v)
    case (JArray xs)
    have "number_ok v (JObject (base_members a))" "type_ok v (JObject (base_members a))"
      by (simp_all add: JArray number_ok_def type_ok_def json_string_def base_lookup name)
    moreover have items: "map_of (base_members a) ''items'' = Some (JObject [(''type'', JString (item_type_name (a_type a)))])"
      using True by (simp add: base_lookup)
    ultimately show ?thesis
      using base_lengths [OF True, of "length xs"]
      unfolding validate_plain [OF plain_base] JArray json.case items option.case validate_item [OF True]
      by blast
  qed (simp_all add: validate_plain [OF plain_base] type_ok_def json_string_def base_lookup name)
  also have "(case v of JArray xs \<Rightarrow> length_fits a (length xs) \<and> list_all (item_fits (a_type a)) xs | _ \<Rightarrow> False) = kind_fits a v"
    using True by (cases "a_type a") (simp_all add: is_array_type_def kind_fits_def cong: json.case_cong)
  finally show ?thesis by (simp only: base_enum_ok)
next
  case False
  have "validate_schema v (JObject (base_members a)) = (kind_fits a v \<and> enum_ok v (JObject (base_members a)))"
  proof (cases "a_type a = ARG_OBSERVATION")
    case True
    have "(case json_member (map_of (base_members a) ''properties'') (c_string k) of
            None \<Rightarrow> map_of (base_members a) ''additionalProperties'' \<noteq> Some (JBool False)
          | Some p \<Rightarrow> validate_schema x p) =
        (case [''window'' \<mapsto> (\<lambda>x. case x of JInt i \<Rightarrow> \<bar>of_int i\<bar> \<le> unbounded | _ \<Rightarrow> False),
            ''refresh'' \<mapsto> (\<lambda>x. case x of JBool _ \<Rightarrow> True | _ \<Rightarrow> False)] (c_string k) of
          None \<Rightarrow> False | Some fits \<Rightarrow> fits x)" for k x
      using True by (simp add: base_lookup validate_observation)
    then show ?thesis
      using False True unfolding validate_plain [OF plain_base]
      by (cases v) (simp_all add: type_ok_def base_number_ok json_string_def base_lookup kind_fits_def object_fits_def
          required_ok_def conj_commute conj_left_commute)
  next
    case no_observation: False
    with False show ?thesis
      unfolding validate_plain [OF plain_base]
      by (cases "a_type a"; cases v)
        (auto simp: type_ok_def base_number_ok base_lookup json_string_def kind_fits_def is_array_type_def c_string_id
          required_ok_def list_all_true)
  qed
  then show ?thesis by (simp only: base_enum_ok)
qed

lemma validate_argument: "validate_schema v (argument_schema a) = argument_fits a v"
proof (cases "a_allow_false a \<or> a_allow_null a")
  case True
  have "validate_schema v (JObject [(''type'', JString ''null'')]) = (v = JNull)"
    "validate_schema v (JObject [(''type'', JString ''boolean''), (''enum'', JArray [JBool False])]) = (v = JBool False)"
    by (cases v; auto simp: validate_plain checks list_all_true)+
  then show ?thesis
    using True validate_base [of v a]
    by (auto simp: argument_schema_def Let_def validate_any argument_fits_def base_members_def)
next
  case False
  then show ?thesis
    using validate_base [of v a]
    by (simp add: argument_schema_def Let_def argument_fits_def base_members_def)
qed

section \<open>Objects\<close>

lemma map_of_order: "map_of (order_properties required ps) = map_of ps"
proof -
  define put where "put = (\<lambda>n o'. case map_of ps n of None \<Rightarrow> o' | Some p \<Rightarrow> result_member n p o')"
  define add where "add = (\<lambda>(k, p) o'. if map_of o' k = None then result_member k p o' else (o' :: (string \<times> json) list))"
  have first: "map_of o' \<subseteq>\<^sub>m map_of ps \<Longrightarrow> map_of (fold put ns o') \<subseteq>\<^sub>m map_of ps" for ns o'
    by (induction ns arbitrary: o') (auto simp: put_def map_le_def split: option.splits)
  have others: "map_of (fold add qs o') k = (case map_of o' k of None \<Rightarrow> map_of qs k | Some p \<Rightarrow> Some p)" for qs o' k
  proof (induction qs arbitrary: o')
    case (Cons q qs)
    then show ?case
      by (cases q; cases "map_of o' (fst q)") (auto simp: add_def split: option.split)
  qed (simp split: option.split)
  have "map_of (fold put required []) \<subseteq>\<^sub>m map_of ps" by (rule first) (simp add: map_le_def)
  then have "map_of (fold add ps (fold put required [])) = map_of ps"
    by (auto simp: fun_eq_iff others map_le_def dom_def split: option.splits)
  then show ?thesis by (simp add: order_properties_def Let_def put_def add_def)
qed

lemma map_of_arguments:
  "distinct (map a_name arguments) \<Longrightarrow> map_of (add_argument_schemas arguments ps) k =
     (case find (\<lambda>a. a_name a = k) arguments of None \<Rightarrow> map_of ps k | Some a \<Rightarrow> Some (argument_schema a))"
  unfolding add_argument_schemas_def
proof (induction arguments arbitrary: ps)
  case (Cons a arguments)
  then have "a_name a = k \<Longrightarrow> find (\<lambda>a. a_name a = k) arguments = None"
    by (auto simp: find_None_iff image_iff)
  with Cons show ?case by (auto split: option.split)
qed simp

definition c_names :: "string list \<Rightarrow> bool" where
  "c_names ns = list_all (\<lambda>n. CHR 0x00 \<notin> set n) ns"

lemma required_members:
  "c_names ns \<Longrightarrow> list_all (\<lambda>x. case x of JString n \<Rightarrow> map_of ms (c_string n) \<noteq> None | _ \<Rightarrow> False) (map JString ns)
     = list_all (\<lambda>n. map_of ms n \<noteq> None) ns"
  by (induction ns) (auto simp: c_names_def c_string_id [THEN iffD2])

text \<open>The schema of an object accepts what the schemas of its members accept.\<close>

lemma validate_object:
  assumes "c_names (case required of None \<Rightarrow> [] | Some names \<Rightarrow> names)"
    and "\<And>k. (case map_of ps k of None \<Rightarrow> known k = None | Some p \<Rightarrow> known k = Some (\<lambda>v. validate_schema v p))"
  shows "validate_schema v (object_schema required ps) =
    object_fits known (case required of None \<Rightarrow> [] | Some names \<Rightarrow> names) v"
proof -
  let ?names = "case required of None \<Rightarrow> [] | Some names \<Rightarrow> names"
  let ?ps = "case required of None \<Rightarrow> ps | Some names \<Rightarrow> order_properties names ps"
  have same: "map_of ?ps = map_of ps" by (simp add: map_of_order split: option.split)
  let ?ms = "[(''type'', JString ''object''), (''properties'', JObject ?ps),
       (''required'', JArray (map JString ?names)), (''additionalProperties'', JBool False)]"
  have need: "required_ok vs (JObject ?ms) = list_all (\<lambda>n. map_of vs n \<noteq> None) ?names" for vs
    using required_members [OF assms(1), of vs] by (simp add: required_ok_def cong: json.case_cong)
  have member: "(case json_member (map_of ?ms ''properties'') (c_string k) of
      None \<Rightarrow> map_of ?ms ''additionalProperties'' \<noteq> Some (JBool False) | Some p \<Rightarrow> validate_schema x p)
    = (case known (c_string k) of None \<Rightarrow> False | Some fits \<Rightarrow> fits x)" for k x
    using assms(2) [of "c_string k"] by (auto simp: same split: option.splits)
  have plain: "plain ?ms" by (simp add: plain_def)
  show ?thesis
    unfolding object_schema_def validate_plain [OF plain] need member object_fits_def
    by (cases v) (simp_all add: type_ok_def enum_ok_def number_ok_def json_string_def)
qed

definition well_named :: "bool \<Rightarrow> tool \<Rightarrow> bool" where
  "well_named no_vision t =
     (distinct (map a_name (tool_fields no_vision t)) \<and> c_names (required_names t) \<and> CHR 0x00 \<notin> set (t_name t))"

lemma known_fields:
  assumes "distinct (map a_name arguments)"
  shows "(case map_of (add_argument_schemas arguments []) k of None \<Rightarrow> fields_fit arguments k = None
    | Some p \<Rightarrow> fields_fit arguments k = Some (\<lambda>v. validate_schema v p))"
  by (auto simp: map_of_arguments [OF assms] fields_fit_def validate_argument split: option.split)

lemma validate_action:
  assumes "well_named no_vision t"
  shows "validate_schema v (action_schema no_vision t) = action_accepts no_vision t v"
  unfolding action_schema_def action_accepts_def required_names_def
  by (rule validate_object) (use assms known_fields in \<open>simp_all add: well_named_def required_names_def\<close>)

lemma validate_step:
  assumes "well_named no_vision t"
  shows "validate_schema v (step_schema no_vision t) =
    object_fits [''tool'' \<mapsto> (\<lambda>x. x = JString (t_name t)), ''args'' \<mapsto> action_accepts no_vision t] [''tool'', ''args''] v"
proof -
  let ?name = "JObject [(''type'', JString ''string''), (''enum'', JArray [JString (t_name t)])]"
  let ?ps = "[(''tool'', ?name), (''args'', action_schema no_vision t)]"
  have name: "validate_schema x ?name = (x = JString (t_name t))" for x
    using assms by (cases x) (auto simp: validate_plain checks c_string_id well_named_def list_all_true)
  have "step_schema no_vision t = object_schema (Some [''tool'', ''args'']) ?ps"
    by (simp add: step_schema_def object_schema_def order_properties_def Let_def)
  moreover have "validate_schema v (object_schema (Some [''tool'', ''args'']) ?ps) =
    object_fits [''tool'' \<mapsto> (\<lambda>x. x = JString (t_name t)), ''args'' \<mapsto> action_accepts no_vision t]
      (case Some [''tool'', ''args''] of None \<Rightarrow> [] | Some names \<Rightarrow> names) v"
    by (rule validate_object) (simp_all add: c_names_def name validate_action [OF assms] cong: if_cong)
  ultimately show ?thesis by simp
qed

definition steps_argument :: argument where
  "steps_argument = bounded ''steps'' ARG_OBJECT_ARRAY 0 64"

lemma validate_steps:
  "validate_schema v (JObject (result_member ''items'' items (base_members steps_argument))) =
     (case v of JArray xs \<Rightarrow> length xs \<le> 64 \<and> list_all (\<lambda>x. validate_schema x items) xs | _ \<Rightarrow> False)"
proof -
  let ?ms = "result_member ''items'' items (base_members steps_argument)"
  have steps: "a_type steps_argument = ARG_OBJECT_ARRAY" "a_minimum steps_argument = 0" "a_maximum steps_argument = 64"
    "a_choices steps_argument = None" "is_array_type ARG_OBJECT_ARRAY"
    by (simp_all add: steps_argument_def bounded_def argument_def is_array_type_def)
  have plain: "plain ?ms" by (simp add: plain_def base_lookup)
  have items: "map_of ?ms ''items'' = Some items" by simp
  have "((of_nat n :: rat) \<le> 64) = (n \<le> 64)" for n by simp
  then show ?thesis
    unfolding validate_plain [OF plain] items option.case
    by (cases v) (simp_all add: type_ok_def enum_ok_def number_ok_def json_string_def json_number_def base_lookup steps)
qed

text \<open>Every tool of the catalog, and every action a batch may name, is well named.\<close>

lemmas catalog_simps = tools_def action_tools_def new_tool_def pointer_action_def element_action_def tool_fields_def
  argument_def bounded_def status_arguments_def vision_arguments_def accessibility_arguments_def
  search_application_arguments_def launch_application_arguments_def action_arguments_def point_arguments_def
  click_arguments_def drag_arguments_def scroll_arguments_def text_arguments_def value_arguments_def
  key_arguments_def delay_arguments_def

lemma catalog_well_named:
  "list_all (well_named no_vision) tools"
  "list_all (well_named no_vision) (batch_actions BATCH_VISION)"
  "list_all (well_named no_vision) (batch_actions BATCH_ACCESSIBILITY)"
  by (simp_all add: batch_actions_def find_action_def action_variant_def map_filter_simps well_named_def required_names_def c_names_def catalog_simps)

lemma catalog_steps:
  "list_all (\<lambda>t. t_batch t = BATCH_NONE \<or>
     find (\<lambda>a. a_name a = ''steps'') (tool_fields no_vision t) = Some steps_argument) tools"
  by (simp add: catalog_simps steps_argument_def)

lemma validate_tool:
  assumes t: "well_named no_vision t" and actions: "list_all (well_named no_vision) (batch_actions (t_batch t))"
    and steps: "t_batch t = BATCH_NONE \<or> find (\<lambda>a. a_name a = ''steps'') (tool_fields no_vision t) = Some steps_argument"
  shows "validate_arguments no_vision t v = tool_accepts no_vision t v"
proof (cases "t_batch t = BATCH_NONE")
  case True
  then show ?thesis
    using validate_action [OF t, of v]
    by (simp add: validate_arguments_def build_tool_schema_def action_schema_def tool_accepts_def action_accepts_def)
next
  case False
  let ?fields = "tool_fields no_vision t"
  let ?items = "JObject [(''anyOf'', JArray (map (step_schema no_vision) (batch_actions (t_batch t))))]"
  let ?ps = "put_items ?items (add_argument_schemas ?fields [])"
  let ?steps = "\<lambda>v. case v of JArray xs \<Rightarrow> length xs \<le> 64 \<and> list_all (step_accepts no_vision (t_batch t)) xs | _ \<Rightarrow> False"
  have distinct: "distinct (map a_name ?fields)" using t by (simp add: well_named_def)
  have "argument_schema steps_argument = JObject (base_members steps_argument)"
    by (simp add: argument_schema_def Let_def steps_argument_def bounded_def argument_def base_members_def)
  then have ps: "map_of ?ps = (map_of (add_argument_schemas ?fields []))
      (''steps'' \<mapsto> JObject (result_member ''items'' ?items (base_members steps_argument)))"
    using False steps by (simp add: put_items_def map_of_arguments [OF distinct])
  have item: "validate_schema x ?items = step_accepts no_vision (t_batch t) x" for x
    using actions by (simp add: validate_any step_accepts_def list_ex_iff list_all_iff validate_step)
  have known: "(case map_of ?ps k of None \<Rightarrow> ((fields_fit ?fields)(''steps'' \<mapsto> ?steps)) k = None
      | Some p \<Rightarrow> ((fields_fit ?fields)(''steps'' \<mapsto> ?steps)) k = Some (\<lambda>v. validate_schema v p))" for k
  proof (cases "k = ''steps''")
    case True
    have each: "(\<lambda>x. validate_schema x ?items) = step_accepts no_vision (t_batch t)" by (rule ext) (rule item)
    show ?thesis unfolding True ps fun_upd_same option.case validate_steps each by (rule refl)
  next
    case False
    with known_fields [OF distinct, of k] show ?thesis by (simp add: ps cong: option.case_cong)
  qed
  have "validate_schema v (object_schema (t_required t) ?ps) =
      object_fits ((fields_fit ?fields)(''steps'' \<mapsto> ?steps)) (case t_required t of None \<Rightarrow> [] | Some names \<Rightarrow> names) v"
    by (rule validate_object) (use t known in \<open>simp_all add: well_named_def required_names_def\<close>)
  with False show ?thesis
    by (simp add: validate_arguments_def build_tool_schema_def tool_accepts_def required_names_def)
qed

lemma validate_catalog:
  "list_all (\<lambda>t. validate_arguments no_vision t args = tool_accepts no_vision t args) tools"
proof -
  have "batch_actions BATCH_NONE = []" by code_simp
  then have actions: "list_all (well_named no_vision) (batch_actions (t_batch t))" for t
    using catalog_well_named by (cases "t_batch t") simp_all
  show ?thesis
    unfolding list_all_iff
  proof
    fix t assume "t \<in> set tools"
    then show "validate_arguments no_vision t args = tool_accepts no_vision t args"
      using catalog_well_named(1) [of no_vision] catalog_steps [of no_vision] actions
      by (intro validate_tool) (auto simp: list_all_iff)
  qed
qed

section \<open>Properties\<close>

text \<open>C15. For every tool of the catalog, with and without vision, the validator run on the generated schema
  accepts exactly the arguments the catalog promises: an object with all required members
  and no unknown ones, every string free of zero bytes and among its choices, every number within its
  range, every array within its length, and every step of a batch an action of that batch with
  arguments that meet its own contract in turn.\<close>

theorem arguments_meet_catalog:
  "list_all (\<lambda>t. validate_arguments no_vision t args = tool_accepts no_vision t args) tools"
  by (rule validate_catalog)

end
