(* ===== verification/Mcp_Protocol.thy ===== *)
theory Mcp_Protocol
  imports Mcp_Schema
begin

text \<open>
  src/native/scu_mcp.h, second part: JSON-RPC requests and their responses. \<open>request_outcome\<close> is
  \<open>handle_request\<close> up to the point where a tool runs: which requests are refused, which are answered at
  once, and which call a tool. \<open>begin_call\<close> and \<open>finish_call\<close> are \<open>call_tool\<close> before and after the tool.
  \<open>handle_request\<close> puts them together for a tool whose run is given as an argument: what it returns, which
  error it recorded, and what the transport did to the set of cancelled requests meanwhile.

  The prose of the tool list (descriptions) is left out, as in the catalog. \<open>yyjson_val_write\<close>, which turns a
  request's id into the key under which it is cancelled, is the parameter \<open>encode\<close>.
\<close>

section \<open>State\<close>

record mcp =
  m_modern :: bool
  m_initialized :: bool
  m_cancelled_ids :: "string list"
  m_active :: "string option"
  m_cancelled :: bool

text \<open>The set of cancelled requests (a hash table in the source) as a list without duplicates.\<close>

definition table_add :: "string \<Rightarrow> string list \<Rightarrow> string list" where
  "table_add k ks = (if k \<in> set ks then ks else k # ks)"

definition add_cancelled :: "string \<Rightarrow> mcp \<Rightarrow> mcp" where
  "add_cancelled k s =
     (let s = (if length (m_cancelled_ids s) < 256 then s\<lparr>m_cancelled_ids := table_add k (m_cancelled_ids s)\<rparr> else s)
      in if m_active s = Some k then s\<lparr>m_cancelled := True\<rparr> else s)"

section \<open>Responses\<close>

definition server_info :: json where
  "server_info = JObject [(''name'', JString ''scu''), (''version'', JString ''0.1.0'')]"

definition response_payload :: "bool \<Rightarrow> (string \<times> json) list \<Rightarrow> json" where
  "response_payload modern payload =
     JObject (if modern \<and> map_of payload ''_meta'' = None
       then result_member ''_meta'' (JObject [(''io.modelcontextprotocol/serverInfo'', server_info)]) payload
       else payload)"

definition reply_id :: "json option \<Rightarrow> json" where
  "reply_id identifier = (case identifier of Some i \<Rightarrow> i | None \<Rightarrow> JNull)"

definition error_object :: "int \<Rightarrow> string \<Rightarrow> json" where
  "error_object code message =
     (if code = - 32022
      then JObject [(''code'', JInt code), (''message'', JString ''Unsupported protocol version''),
             (''data'', JObject
               [(''supported'', JArray (map JString [''2026-07-28'', ''2025-11-25'', ''2025-06-18''])),
                (''requested'', JString message)])]
      else JObject [(''code'', JInt code), (''message'', JString message)])"

definition error_response :: "json option \<Rightarrow> int \<Rightarrow> string \<Rightarrow> json" where
  "error_response identifier code message =
     JObject [(''jsonrpc'', JString ''2.0''), (''id'', reply_id identifier), (''error'', error_object code message)]"

definition result_response :: "bool \<Rightarrow> json option \<Rightarrow> (string \<times> json) list \<Rightarrow> json" where
  "result_response modern identifier payload =
     JObject [(''jsonrpc'', JString ''2.0''), (''id'', reply_id identifier), (''result'', response_payload modern payload)]"

definition add_server_info :: "bool \<Rightarrow> string \<Rightarrow> (string \<times> json) list \<Rightarrow> (string \<times> json) list" where
  "add_server_info modern instructions ms =
     (let ms = result_member ''instructions'' (JString instructions) ms;
          ms = result_member ''capabilities'' (JObject [(''tools'', JObject [])]) ms
      in if modern then result_member ''_meta'' (JObject [(''io.modelcontextprotocol/serverInfo'', server_info)]) ms
         else result_member ''serverInfo'' server_info ms)"

definition tool_entry :: "bool \<Rightarrow> tool \<Rightarrow> json" where
  "tool_entry no_vision t =
     JObject [(''name'', JString (t_name t)), (''inputSchema'', build_tool_schema no_vision t),
       (''annotations'', JObject [(''readOnlyHint'', JBool (\<not> t_action t)), (''idempotentHint'', JBool False),
          (''openWorldHint'', JBool True)])]"

definition list_tools :: "bool \<Rightarrow> (string \<times> json) list \<Rightarrow> (string \<times> json) list" where
  "list_tools no_vision ms =
     result_member ''tools'' (JArray (map (tool_entry no_vision)
       (filter (\<lambda>t. \<not> (no_vision \<and> t_batch t = BATCH_VISION)) tools))) ms"

section \<open>Requests\<close>

datatype outcome =
    Silent
  | Respond json
  | CallTool json "json option" "(string \<times> json) list"

text \<open>The result object starts with a marker for clients of the modern protocol.\<close>

definition fresh_result :: "bool \<Rightarrow> (string \<times> json) list" where
  "fresh_result modern = (if modern then [(''resultType'', JString ''complete'')] else [])"

definition is_obj :: "json option \<Rightarrow> bool" where
  "is_obj v = (case v of Some (JObject _) \<Rightarrow> True | _ \<Rightarrow> False)"

definition is_id :: "json \<Rightarrow> bool" where
  "is_id v = (case v of JString _ \<Rightarrow> True | JInt _ \<Rightarrow> True | _ \<Rightarrow> False)"

definition method_outcome ::
    "bool \<Rightarrow> string \<Rightarrow> string \<Rightarrow> json \<Rightarrow> json option \<Rightarrow> mcp \<Rightarrow> outcome \<times> mcp" where
  "method_outcome no_vision instructions method identifier parameters s =
     (let result = fresh_result (m_modern s);
          fail = (\<lambda>code message. (Respond (error_response (Some identifier) code message), s));
          answer = (\<lambda>payload s. (Respond (result_response (m_modern s) (Some identifier) payload), s))
      in if method = ''initialize'' then
           (case json_string parameters ''protocolVersion'' of
              Some version \<Rightarrow>
                if version \<noteq> ''2025-06-18'' \<and> version \<noteq> ''2025-11-25'' then
                  fail (- 32602) ''Supported legacy protocols: 2025-11-25, 2025-06-18; modern: 2026-07-28''
                else let s = s\<lparr>m_modern := False, m_initialized := True\<rparr>
                     in answer (add_server_info False instructions
                          (result_member ''protocolVersion'' (JString version) result)) s
            | None \<Rightarrow> fail (- 32602) ''Supported legacy protocols: 2025-11-25, 2025-06-18; modern: 2026-07-28'')
         else if method = ''server/discover'' \<and> m_modern s then
           answer (add_server_info True instructions
             (result_member ''supportedVersions'' (JArray [JString ''2026-07-28'']) result)) s
         else if \<not> m_initialized s \<and> \<not> m_modern s then fail (- 32000) ''Initialize scu first''
         else if method = ''tools/list'' then answer (list_tools no_vision result) s
         else if method = ''tools/call'' then (CallTool identifier parameters result, s)
         else if method \<noteq> ''ping'' then fail (- 32601) ''Method not found''
         else answer result s)"

definition request_outcome :: "bool \<Rightarrow> string \<Rightarrow> json option \<Rightarrow> mcp \<Rightarrow> outcome \<times> mcp" where
  "request_outcome no_vision instructions request s =
     (let identifier = json_member request ''id'';
          parameters = json_member request ''params'';
          fail = (\<lambda>code message s. (Respond (error_response identifier code message), s))
      in case json_string request ''method'' of
           None \<Rightarrow> fail (- 32600) ''Invalid JSON-RPC request'' s
         | Some method \<Rightarrow>
             if \<not> is_obj request \<or> json_string request ''jsonrpc'' \<noteq> Some ''2.0'' \<or>
                (case identifier of None \<Rightarrow> False | Some i \<Rightarrow> \<not> is_id i)
             then fail (- 32600) ''Invalid JSON-RPC request'' s
             else if method = ''notifications/initialized'' then (Silent, s\<lparr>m_initialized := True\<rparr>)
             else case identifier of
                    None \<Rightarrow> (Silent, s)
                  | Some i \<Rightarrow>
                      let meta = json_member parameters ''_meta'';
                          version = json_string meta ''io.modelcontextprotocol/protocolVersion''
                      in if \<not> m_initialized s \<and> version = None \<and> method \<noteq> ''initialize'' then
                           fail (- 32602) ''Modern requests require protocol metadata on every request.'' s
                         else let s = s\<lparr>m_modern := (version \<noteq> None)\<rparr>
                              in case version of
                                   None \<Rightarrow> method_outcome no_vision instructions method i parameters s
                                 | Some v \<Rightarrow>
                                     if v \<noteq> ''2026-07-28'' then fail (- 32022) v s
                                     else if \<not> is_obj (json_member meta ''io.modelcontextprotocol/clientCapabilities'')
                                     then fail (- 32602) ''Modern requests require clientCapabilities metadata.'' s
                                     else method_outcome no_vision instructions method i parameters s)"

section \<open>Tool calls\<close>

definition begin_call :: "string \<Rightarrow> mcp \<Rightarrow> mcp" where
  "begin_call key s = s\<lparr>m_active := Some key, m_cancelled := (key \<in> set (m_cancelled_ids s))\<rparr>"

definition finish_call :: "string \<Rightarrow> mcp \<Rightarrow> mcp" where
  "finish_call key s = s\<lparr>m_active := None, m_cancelled_ids := removeAll key (m_cancelled_ids s)\<rparr>"

definition call_arguments :: "json option \<Rightarrow> json" where
  "call_arguments parameters = (case json_member parameters ''arguments'' of Some a \<Rightarrow> a | None \<Rightarrow> JObject [])"

text \<open>Which tool a call runs, and on what; or the error that it records instead.\<close>

definition selected_tool :: "bool \<Rightarrow> json option \<Rightarrow> (string \<times> string) + tool \<times> json" where
  "selected_tool no_vision parameters =
     (case find_tool no_vision (json_string parameters ''name'') of
        None \<Rightarrow> Inl (''unknown_tool'', ''Tool is not implemented by scu.'')
      | Some t \<Rightarrow>
          if validate_arguments no_vision t (call_arguments parameters)
          then Inr (t, call_arguments parameters)
          else Inl (''invalid_arguments'', ''Arguments do not match this scu tool's advertised supported schema.''))"

definition error_text :: "string \<Rightarrow> string \<Rightarrow> string" where
  "error_text code hint = ''Error: '' @ code @ '': '' @ hint @ [CHR 0x0A]"

text \<open>\<open>add_tool_result\<close> for a call without output.\<close>

definition failed_result :: "string \<Rightarrow> string \<Rightarrow> (string \<times> json) list \<Rightarrow> (string \<times> json) list" where
  "failed_result code hint result =
     result_member ''isError'' (JBool True) (result_member ''content''
       (JArray [JObject [(''type'', JString ''text''), (''text'', JString (error_text code hint))]]) result)"

text \<open>In the frontend a call is forwarded to the host, whose result is copied member by member; a frontend
  without vision drops the images from a status.\<close>

definition is_image :: "json \<Rightarrow> bool" where
  "is_image block = (json_string (Some block) ''type'' = Some ''image'')"

definition forwarded_result :: "bool \<Rightarrow> tool \<Rightarrow> (string \<times> json) list \<Rightarrow> (string \<times> json) list \<Rightarrow> (string \<times> json) list" where
  "forwarded_result no_vision t output result =
     (let output = (if no_vision \<and> t_name t = ''status''
        then result_member ''content'' (JArray (filter (\<lambda>b. \<not> is_image b) (elements (map_of output ''content''))))
               (filter (\<lambda>(k, _). k \<noteq> ''content'') output)
        else output)
      in fold (\<lambda>(k, v). result_member (c_string k) v) output result)"

record tool_run =
  r_output :: "(string \<times> json) list option"
  r_error :: "(string \<times> string) option"
  r_cancels :: "string list"
  r_flagged :: bool

text \<open>What is told of a call without output: the first error that was recorded.\<close>

definition recorded_error :: "(string \<times> string) option \<Rightarrow> string \<times> string" where
  "recorded_error e = (case e of Some x \<Rightarrow> x | None \<Rightarrow> (''operation_failed'', ''Inspect state before retrying.''))"

text \<open>While the tool runs, the transport may cancel requests (\<open>r_cancels\<close>, among them perhaps this one) or end
  the call by other means (\<open>r_flagged\<close>, as when the client hangs up).\<close>

definition handle_request ::
    "bool \<Rightarrow> string \<Rightarrow> (json \<Rightarrow> string) \<Rightarrow> (tool \<Rightarrow> json \<Rightarrow> tool_run) \<Rightarrow> json option \<Rightarrow> mcp \<Rightarrow> json option \<times> mcp" where
  "handle_request no_vision instructions encode execute request s =
     (case request_outcome no_vision instructions request s of
        (Silent, s) \<Rightarrow> (None, s)
      | (Respond r, s) \<Rightarrow> (Some r, s)
      | (CallTool i parameters result, s) \<Rightarrow>
          let key = encode i;
              s = begin_call key s;
              (result, s) = (case selected_tool no_vision parameters of
                 Inl (code, hint) \<Rightarrow> (failed_result code hint result, s)
               | Inr (t, args) \<Rightarrow>
                   let run = execute t args;
                       s = fold add_cancelled (r_cancels run) s;
                       s = s\<lparr>m_cancelled := m_cancelled s \<or> r_flagged run\<rparr>
                   in case r_output run of
                        Some output \<Rightarrow> (forwarded_result no_vision t output result, s)
                      | None \<Rightarrow> (case recorded_error (r_error run) of (code, hint) \<Rightarrow> (failed_result code hint result, s)));
              s = finish_call key s
          in if m_cancelled s then (None, s) else (Some (result_response (m_modern s) (Some i) result), s))"

section \<open>The transport\<close>

definition LINE_MAXIMUM :: nat where
  "LINE_MAXIMUM = 1024 * 1024"

definition line_end :: char where
  "line_end = CHR 0x0A"

text \<open>One byte of input: it is kept, or dropped because the line is too long already, or ends the line.\<close>

record line_buffer =
  lb_input :: string
  lb_oversized :: bool

definition empty_line :: line_buffer where
  "empty_line = \<lparr>lb_input = [], lb_oversized = False\<rparr>"

definition line_byte :: "char \<Rightarrow> line_buffer \<Rightarrow> line_buffer" where
  "line_byte c b = (if length (lb_input b) < LINE_MAXIMUM then b\<lparr>lb_input := lb_input b @ [c]\<rparr> else b\<lparr>lb_oversized := True\<rparr>)"

definition line_document :: "(string \<Rightarrow> json option) \<Rightarrow> line_buffer \<Rightarrow> json option" where
  "line_document parse b = (if lb_oversized b then None else parse (lb_input b))"

definition is_cancellation :: "json option \<Rightarrow> bool" where
  "is_cancellation d = (json_string d ''method'' = Some ''notifications/cancelled'')"

definition cancelled_request :: "json option \<Rightarrow> json option" where
  "cancelled_request d = json_member (json_member d ''params'') ''requestId''"

text \<open>The frontend's reader thread. A line that is no document is queued as \<open>None\<close> and answered as malformed.\<close>

record reader =
  rd_buffer :: line_buffer
  rd_queue :: "json option list"
  rd_mcp :: mcp

definition read_byte :: "(string \<Rightarrow> json option) \<Rightarrow> (json \<Rightarrow> string) \<Rightarrow> char \<Rightarrow> reader \<Rightarrow> reader" where
  "read_byte parse encode c r =
     (if c = line_end then
        let d = line_document parse (rd_buffer r);
            r = r\<lparr>rd_buffer := empty_line\<rparr>
        in if is_cancellation d then
             (case cancelled_request d of None \<Rightarrow> r
              | Some i \<Rightarrow> r\<lparr>rd_mcp := add_cancelled (encode i) (rd_mcp r)\<rparr>)
           else r\<lparr>rd_queue := rd_queue r @ [d]\<rparr>
      else r\<lparr>rd_buffer := line_byte c (rd_buffer r)\<rparr>)"

definition read_requests :: "(string \<Rightarrow> json option) \<Rightarrow> (json \<Rightarrow> string) \<Rightarrow> string \<Rightarrow> reader \<Rightarrow> reader" where
  "read_requests parse encode = fold (read_byte parse encode)"

text \<open>One turn of \<open>serve_mcp\<close> on a queued document.\<close>

definition serve_document ::
    "bool \<Rightarrow> string \<Rightarrow> (json \<Rightarrow> string) \<Rightarrow> (tool \<Rightarrow> json \<Rightarrow> tool_run) \<Rightarrow> json option \<Rightarrow> mcp \<Rightarrow> json option \<times> mcp" where
  "serve_document no_vision instructions encode execute d s =
     (case d of None \<Rightarrow> (Some (error_response None (- 32700) ''Malformed or oversized JSON message''), s)
      | Some r \<Rightarrow> handle_request no_vision instructions encode execute (Some r) s)"

section \<open>What the reader makes of its input\<close>

definition document_of :: "(string \<Rightarrow> json option) \<Rightarrow> string \<Rightarrow> json option" where
  "document_of parse l = (if length l > LINE_MAXIMUM then None else parse l)"

definition buffer_of :: "string \<Rightarrow> line_buffer" where
  "buffer_of l = \<lparr>lb_input = take LINE_MAXIMUM l, lb_oversized = (length l > LINE_MAXIMUM)\<rparr>"

lemma buffer_of_byte: "line_byte c (buffer_of l) = buffer_of (l @ [c])"
  by (auto simp: line_byte_def buffer_of_def)

lemma document_buffer: "line_document parse (buffer_of l) = document_of parse l"
  by (simp add: line_document_def buffer_of_def document_of_def)

definition read_line :: "(string \<Rightarrow> json option) \<Rightarrow> (json \<Rightarrow> string) \<Rightarrow> string \<Rightarrow> reader \<Rightarrow> reader" where
  "read_line parse encode l r =
     (let d = document_of parse l
      in if is_cancellation d then
           (case cancelled_request d of None \<Rightarrow> r
            | Some i \<Rightarrow> r\<lparr>rd_mcp := add_cancelled (encode i) (rd_mcp r)\<rparr>)
         else r\<lparr>rd_queue := rd_queue r @ [d]\<rparr>)"

lemma read_line_buffer [simp]: "rd_buffer (read_line parse encode l r) = rd_buffer r"
  by (simp add: read_line_def Let_def split: option.split)

lemma read_line_update: "read_line parse encode l (r\<lparr>rd_buffer := b\<rparr>) = (read_line parse encode l r)\<lparr>rd_buffer := b\<rparr>"
  by (simp add: read_line_def Let_def split: option.split)

lemma empty_line_buffer: "empty_line = buffer_of []"
  by (simp add: empty_line_def buffer_of_def LINE_MAXIMUM_def)

lemma read_rest:
  "rd_buffer r = buffer_of l \<Longrightarrow> line_end \<notin> set l \<Longrightarrow>
     read_requests parse encode bs r =
       (fold (read_line parse encode) (butlast (split_on line_end (l @ bs))) r)
         \<lparr>rd_buffer := buffer_of (last (split_on line_end (l @ bs)))\<rparr>"
proof (induction bs arbitrary: l r)
  case Nil
  then show ?case by (simp add: read_requests_def split_on_single)
next
  case (Cons c bs)
  show ?case
  proof (cases "c = line_end")
    case True
    have "read_byte parse encode c r = (read_line parse encode l r)\<lparr>rd_buffer := buffer_of []\<rparr>"
      using Cons.prems True
      by (simp add: read_byte_def Let_def document_buffer empty_line_buffer read_line_def split: option.split)
    then have "read_requests parse encode (c # bs) r =
        read_requests parse encode bs ((read_line parse encode l r)\<lparr>rd_buffer := buffer_of []\<rparr>)"
      by (simp add: read_requests_def)
    also have "\<dots> = (fold (read_line parse encode) (butlast (split_on line_end bs))
        ((read_line parse encode l r)\<lparr>rd_buffer := buffer_of []\<rparr>))
          \<lparr>rd_buffer := buffer_of (last (split_on line_end bs))\<rparr>"
      using Cons.IH [of "(read_line parse encode l r)\<lparr>rd_buffer := buffer_of []\<rparr>" "[]"] by simp
    also have "fold (read_line parse encode) ls (s\<lparr>rd_buffer := b\<rparr>) = (fold (read_line parse encode) ls s)\<lparr>rd_buffer := b\<rparr>" for ls s b
      by (induction ls arbitrary: s) (simp_all add: read_line_update)
    finally show ?thesis using Cons.prems True by (simp add: split_on_append)
  next
    case False
    have "read_requests parse encode (c # bs) r =
        read_requests parse encode bs (r\<lparr>rd_buffer := buffer_of (l @ [c])\<rparr>)"
      using False Cons.prems by (simp add: read_requests_def read_byte_def buffer_of_byte)
    moreover have "fold (read_line parse encode) ls (s\<lparr>rd_buffer := b\<rparr>) = (fold (read_line parse encode) ls s)\<lparr>rd_buffer := b\<rparr>" for ls s b
      by (induction ls arbitrary: s) (simp_all add: read_line_update)
    ultimately show ?thesis
      using Cons.IH [of "r\<lparr>rd_buffer := buffer_of (l @ [c])\<rparr>" "l @ [c]"] False Cons.prems by simp
  qed
qed

section \<open>Properties\<close>

text \<open>The reader, which sees its input byte by byte and keeps at most one MiB of a line, does what
  reading it line by line would do: every line that is complete is parsed once, in order, a line longer than the limit
  counts as malformed, cancellations take effect at once and everything else is queued.\<close>

theorem reader_reads_lines:
  "read_requests parse encode bs \<lparr>rd_buffer = empty_line, rd_queue = q, rd_mcp = s\<rparr> =
   (fold (read_line parse encode) (butlast (split_on line_end bs)) \<lparr>rd_buffer = empty_line, rd_queue = q, rd_mcp = s\<rparr>)
     \<lparr>rd_buffer := buffer_of (last (split_on line_end bs))\<rparr>"
  using read_rest [of "\<lparr>rd_buffer = empty_line, rd_queue = q, rd_mcp = s\<rparr>" "[]" parse encode bs]
  by (simp add: empty_line_buffer)

definition valid_request :: "json option \<Rightarrow> bool" where
  "valid_request request =
     (is_obj request \<and> json_string request ''jsonrpc'' = Some ''2.0'' \<and> json_string request ''method'' \<noteq> None \<and>
      (case json_member request ''id'' of None \<Rightarrow> True | Some i \<Rightarrow> is_id i))"

definition notification :: "json option \<Rightarrow> bool" where
  "notification request =
     (valid_request request \<and>
      (json_member request ''id'' = None \<or> json_string request ''method'' = Some ''notifications/initialized''))"

text \<open>A response names the request's id and carries either a result or an error.\<close>

definition responds_to :: "json option \<Rightarrow> json \<Rightarrow> bool" where
  "responds_to request r =
     (json_member (Some r) ''jsonrpc'' = Some (JString ''2.0'') \<and>
      json_member (Some r) ''id'' = Some (reply_id (json_member request ''id'')) \<and>
      (json_member (Some r) ''result'' = None) \<noteq> (json_member (Some r) ''error'' = None))"

lemma responses [simp]:
  "responds_to request (error_response (json_member request ''id'') code message)"
  "json_member request ''id'' = Some i \<Longrightarrow> responds_to request (error_response (Some i) code message)"
  "json_member request ''id'' = Some i \<Longrightarrow> responds_to request (result_response modern (Some i) payload)"
  by (simp_all add: responds_to_def error_response_def result_response_def)

definition outcome_ok :: "json option \<Rightarrow> outcome \<Rightarrow> bool" where
  "outcome_ok request out =
     (case out of Silent \<Rightarrow> notification request
      | Respond r \<Rightarrow> \<not> notification request \<and> responds_to request r
      | CallTool i p result \<Rightarrow> \<not> notification request \<and> json_member request ''id'' = Some i)"

lemma method_outcome_ok:
  "json_member request ''id'' = Some i \<Longrightarrow> \<not> notification request \<Longrightarrow>
     outcome_ok request (fst (method_outcome no_vision instructions method i parameters s))"
  by (simp add: method_outcome_def Let_def outcome_ok_def split: option.split)

lemma request_outcome_ok: "outcome_ok request (fst (request_outcome no_vision instructions request s))"
proof (cases "valid_request request \<and> \<not> notification request")
  case True
  then obtain i verb where i: "json_member request ''id'' = Some i" and "json_string request ''method'' = Some verb"
    by (auto simp: valid_request_def notification_def)
  moreover have "verb \<noteq> ''notifications/initialized''" using True calculation by (auto simp: notification_def)
  ultimately show ?thesis
    using True method_outcome_ok [OF i]
    by (auto simp: request_outcome_def Let_def valid_request_def outcome_ok_def split: option.split)
next
  case False
  then show ?thesis
    by (auto simp: request_outcome_def Let_def valid_request_def notification_def outcome_ok_def split: option.split)
qed

text \<open>The requests that call a tool: of a client that has initialized, or one that names the modern protocol and its
  capabilities with the request.\<close>

definition session_begun :: "json option \<Rightarrow> mcp \<Rightarrow> bool" where
  "session_begun request s =
     (let meta = json_member (json_member request ''params'') ''_meta''
      in case json_string meta ''io.modelcontextprotocol/protocolVersion'' of
           None \<Rightarrow> m_initialized s
         | Some v \<Rightarrow> v = ''2026-07-28'' \<and> is_obj (json_member meta ''io.modelcontextprotocol/clientCapabilities''))"

definition tool_request :: "json option \<Rightarrow> mcp \<Rightarrow> bool" where
  "tool_request request s \<longleftrightarrow>
     valid_request request \<and> \<not> notification request \<and> json_string request ''method'' = Some ''tools/call'' \<and> session_begun request s"

lemma method_calls_tool:
  "fst (method_outcome no_vision instructions verb i p s) = CallTool j q result \<longleftrightarrow>
     verb = ''tools/call'' \<and> (m_initialized s \<or> m_modern s) \<and> j = i \<and> q = p \<and> result = fresh_result (m_modern s)"
  by (auto simp: method_outcome_def Let_def split: option.split)

lemma request_calls_tool:
  assumes "request_outcome no_vision instructions request s = (out, t)"
  shows "(\<exists>i p result. out = CallTool i p result) = tool_request request s"
    and "out = CallTool i p result \<Longrightarrow>
       json_member request ''id'' = Some i \<and> p = json_member request ''params'' \<and> m_cancelled_ids t = m_cancelled_ids s"
proof -
  have kept: "m_cancelled_ids (snd (method_outcome no_vision instructions verb j q u)) = m_cancelled_ids u" for verb j q u
    by (simp add: method_outcome_def Let_def split: option.split)
  have by_verb: "method_outcome no_vision instructions verb j q u = (CallTool i p result, t) \<Longrightarrow>
      verb = ''tools/call'' \<and> (m_initialized u \<or> m_modern u) \<and> j = i \<and> q = p \<and> m_cancelled_ids t = m_cancelled_ids u" for verb j q u i p result
    using method_calls_tool [of no_vision instructions verb j q u i p result] kept [of verb j q u] by simp
  show "out = CallTool i p result \<Longrightarrow>
       json_member request ''id'' = Some i \<and> p = json_member request ''params'' \<and> m_cancelled_ids t = m_cancelled_ids s"
    using assms by (auto simp: request_outcome_def Let_def split: option.splits if_splits dest!: by_verb)
  show "(\<exists>i p result. out = CallTool i p result) = tool_request request s"
  proof
    assume "\<exists>i p result. out = CallTool i p result"
    then show "tool_request request s"
      using assms
      by (auto simp: request_outcome_def Let_def tool_request_def session_begun_def valid_request_def notification_def
          split: option.splits if_splits dest!: by_verb)
  next
    assume r: "tool_request request s"
    then obtain i where i: "json_member request ''id'' = Some i"
      by (auto simp: tool_request_def valid_request_def notification_def split: option.splits)
    let ?version = "json_string (json_member (json_member request ''params'') ''_meta'') ''io.modelcontextprotocol/protocolVersion''"
    have out: "out = fst (method_outcome no_vision instructions ''tools/call'' i (json_member request ''params'')
        (s\<lparr>m_modern := (?version \<noteq> None)\<rparr>))"
      using assms r i
      by (cases ?version) (auto simp: request_outcome_def Let_def tool_request_def session_begun_def valid_request_def)
    have "m_initialized s \<or> ?version \<noteq> None" using r by (auto simp: tool_request_def session_begun_def Let_def split: option.splits)
    with out method_calls_tool [of no_vision instructions "''tools/call''" i "json_member request ''params''"
        "s\<lparr>m_modern := (?version \<noteq> None)\<rparr>"] show "\<exists>i p result. out = CallTool i p result" by simp
  qed
qed

text \<open>A tool call was withdrawn: before it began, or while its tool ran.\<close>

definition withdrawn :: "bool \<Rightarrow> (json \<Rightarrow> string) \<Rightarrow> (tool \<Rightarrow> json \<Rightarrow> tool_run) \<Rightarrow> json option \<Rightarrow> mcp \<Rightarrow> bool" where
  "withdrawn no_vision encode execute request s =
     (case json_member request ''id'' of None \<Rightarrow> False
      | Some i \<Rightarrow> encode i \<in> set (m_cancelled_ids s) \<or>
          (case selected_tool no_vision (json_member request ''params'') of
             Inl _ \<Rightarrow> False
           | Inr (t, args) \<Rightarrow> encode i \<in> set (r_cancels (execute t args)) \<or> r_flagged (execute t args)))"

lemma cancel_active:
  "m_active s = Some k \<Longrightarrow>
     m_cancelled (fold add_cancelled ks s) = (m_cancelled s \<or> k \<in> set ks) \<and> m_active (fold add_cancelled ks s) = Some k"
  by (induction ks arbitrary: s) (auto simp: add_cancelled_def Let_def)

text \<open>C17. Every request is answered once and only once: a notification gets no response, anything else gets one, with its own
  id and either a result or an error, unless it is a tool call that was withdrawn, by a cancellation of this very request
  before it began or while its tool ran, or by the transport that ended the run. The cancellation of another
  request keeps no answer back.\<close>

theorem request_answered_once:
  "case handle_request no_vision instructions encode execute request s of (response, s') \<Rightarrow>
     (response = None) = (notification request \<or> tool_request request s \<and> withdrawn no_vision encode execute request s) \<and>
     list_all (responds_to request) (case response of None \<Rightarrow> [] | Some r \<Rightarrow> [r])"
proof -
  obtain out t where out: "request_outcome no_vision instructions request s = (out, t)" by force
  with request_outcome_ok [of request no_vision instructions s] have ok: "outcome_ok request out" by simp
  note calls = request_calls_tool [OF out]
  show ?thesis
  proof (cases out)
    case Silent
    then show ?thesis using ok by (simp add: handle_request_def out outcome_ok_def)
  next
    case (Respond r)
    then show ?thesis using ok calls(1) by (simp add: handle_request_def out outcome_ok_def)
  next
    case (CallTool i p result)
    note call = calls(2) [OF CallTool]
    have r: "tool_request request s" using calls(1) CallTool by blast
    have n: "\<not> notification request" using ok CallTool by (simp add: outcome_ok_def)
    have id: "json_member request ''id'' = Some i" and p: "p = json_member request ''params''"
      and ids: "m_cancelled_ids t = m_cancelled_ids s" using call by auto
    show ?thesis
    proof (cases "selected_tool no_vision p")
      case (Inl e)
      then have "withdrawn no_vision encode execute request s = m_cancelled (begin_call (encode i) t)"
        using p by (simp add: withdrawn_def id ids begin_call_def)
      with Inl n r id CallTool show ?thesis
        by (cases e) (simp add: handle_request_def out Let_def finish_call_def)
    next
      case (Inr x)
      obtain tool args where x: "x = (tool, args)" by (cases x)
      let ?run = "execute tool args"
      let ?after = "fold add_cancelled (r_cancels ?run) (begin_call (encode i) t)"
      have "m_cancelled ?after = (encode i \<in> set (m_cancelled_ids s) \<or> encode i \<in> set (r_cancels ?run))"
        using cancel_active [of "begin_call (encode i) t" "encode i" "r_cancels ?run"] by (simp add: begin_call_def ids)
      then have w: "withdrawn no_vision encode execute request s = (m_cancelled ?after \<or> r_flagged ?run)"
        using Inr x p by (auto simp: withdrawn_def id)
      have "fst (handle_request no_vision instructions encode execute request s) = None \<longleftrightarrow> m_cancelled ?after \<or> r_flagged ?run"
        by (cases "r_output ?run"; cases "recorded_error (r_error ?run)")
          (simp_all add: handle_request_def out CallTool Inr x Let_def finish_call_def)
      moreover have "fst (handle_request no_vision instructions encode execute request s) = Some a \<Longrightarrow> responds_to request a" for a
        by (cases "r_output ?run"; cases "recorded_error (r_error ?run)")
          (auto simp: handle_request_def out CallTool Inr x Let_def id split: if_splits)
      ultimately show ?thesis using n r w
        by (cases "handle_request no_vision instructions encode execute request s") (auto split: option.split)
    qed
  qed
qed

text \<open>C16. No tool runs on anything but a checked request for it: a run is only asked for on a well-formed request with an id and
  the method \<open>tools/call\<close>, of a client that has initialized or names the supported modern protocol and its
  capabilities, and then only for the tool of the catalog whose name the request gives, not a vision tool when vision
  is off, with the arguments that the request gives, none standing for an empty object, when they meet the tool's contract;
  whatever a run would do otherwise has no effect.\<close>

theorem tool_runs_checked:
  "handle_request no_vision instructions encode
     (\<lambda>t args. if tool_request request s \<and> t \<in> set tools \<and> \<not> (no_vision \<and> t_batch t = BATCH_VISION) \<and>
        json_string (json_member request ''params'') ''name'' = Some (t_name t) \<and>
        args = (case json_member (json_member request ''params'') ''arguments'' of Some a \<Rightarrow> a | None \<Rightarrow> JObject []) \<and>
        tool_accepts no_vision t args
      then execute t args else otherwise) request s =
   handle_request no_vision instructions encode execute request s"
proof -
  obtain out t where out: "request_outcome no_vision instructions request s = (out, t)" by force
  have selected: "t \<in> set tools \<and> \<not> (no_vision \<and> t_batch t = BATCH_VISION) \<and> json_string p ''name'' = Some (t_name t) \<and>
      args = (case json_member p ''arguments'' of Some a \<Rightarrow> a | None \<Rightarrow> JObject []) \<and> tool_accepts no_vision t args"
    if "selected_tool no_vision p = Inr (t, args)" for p t args
    using that validate_catalog [of no_vision args]
    by (auto simp: selected_tool_def find_tool_def list_all_iff find_Some_iff call_arguments_def split: option.splits if_splits)
  show ?thesis
  proof (cases out)
    case (CallTool i p result)
    with request_calls_tool [OF out] have "tool_request request s" "p = json_member request ''params''" by blast+
    then show ?thesis using selected [of p] CallTool
      by (cases "selected_tool no_vision p") (auto simp: handle_request_def out Let_def)
  qed (simp_all add: handle_request_def out)
qed

end
