(* ===== verification/Host_Service.thy ===== *)
theory Host_Service
  imports Mcp_Protocol
begin

text \<open>
  src/native/scu_service.h: the desktop-control service of a graphical session. Controllers on the host
  register leases (a listening socket that is mounted into one space each); the frontends of the spaces
  connect to these sockets as clients and send tool calls. All of it runs on one main loop. Callbacks only
  read, frame and queue; the loop takes one event at a time from the queue. While a tool runs or a
  lease is registered, desktop code dispatches the loop's callbacks again, so that any callback may
  run in the middle of an event.

  Clients and leases are objects on a heap (\<open>h_client_heap\<close>, \<open>h_lease_heap\<close>): using one that
  was freed sets \<open>h_fault\<close>, and so does closing a descriptor that is not open or belongs to another object
  (\<open>h_fds\<close> says who holds which). Addresses come from a counter. What the kernel answers is an argument of each
  callback; that the kernel hands out a descriptor which is open already is no possible
  answer and has no effect here.

  Desktop work (what a tool does, \<open>desktop_bind\<close>, \<open>release_input\<close>, \<open>desktop_maintain\<close>) is not part of this
  component; its results are arguments too.
\<close>

section \<open>State\<close>

record host_client =
  hc_lease :: nat
  hc_serial :: nat
  hc_fd :: int
  hc_source :: bool
  hc_writer :: bool
  hc_pending :: nat
  hc_buffer :: line_buffer
  hc_output :: string
  hc_sent :: nat
  hc_closed :: bool
  hc_vision_tree :: "string option"
  hc_accessibility_tree :: "string option"

record host_lease =
  hl_control :: int
  hl_listener :: int
  hl_source :: bool
  hl_accept_source :: bool
  hl_received_fds :: nat
  hl_input :: string
  hl_registered :: bool
  hl_revoked :: bool
  hl_acknowledged :: bool
  hl_used :: bool
  hl_idle_since :: int
  hl_session :: string
  hl_wayland :: string

datatype host_event = HostCall nat "json option" | HostRegister nat | HostRevoke nat

datatype holder = ClientFd nat | ListenerFd nat | ControlFd nat

datatype host_action =
    Executes nat
  | SendLine nat string
  | Ready nat
  | Released nat

record host =
  h_client_heap :: "nat \<Rightarrow> host_client option"
  h_lease_heap :: "nat \<Rightarrow> host_lease option"
  h_clients :: "nat list"
  h_leases :: "nat list"
  h_events :: "host_event list"
  h_running :: "host_event option"
  h_current :: "nat option"
  h_serial :: nat
  h_fresh :: nat
  h_fds :: "int \<Rightarrow> holder option"
  h_mcp :: mcp
  h_call :: "(string \<times> json \<times> (string \<times> json) list) option"
  h_registered_once :: bool
  h_trace :: "host_action list"
  h_fault :: bool

definition host_max_clients :: nat where "host_max_clients = 32"
definition host_max_pending :: nat where "host_max_pending = 64"
definition host_max_leases :: nat where "host_max_leases = 64"
definition OUTPUT_MAXIMUM :: nat where "OUTPUT_MAXIMUM = 128 * 1024 * 1024"
definition REGISTRATION_MAXIMUM :: nat where "REGISTRATION_MAXIMUM = 8192"

definition fault :: "host \<Rightarrow> host" where
  "fault s = s\<lparr>h_fault := True\<rparr>"

definition host_act :: "host_action \<Rightarrow> host \<Rightarrow> host" where
  "host_act a s = s\<lparr>h_trace := h_trace s @ [a]\<rparr>"

definition on_client :: "nat \<Rightarrow> (host_client \<Rightarrow> host \<Rightarrow> host) \<Rightarrow> host \<Rightarrow> host" where
  "on_client c f s = (case h_client_heap s c of None \<Rightarrow> fault s | Some cl \<Rightarrow> f cl s)"

definition on_lease :: "nat \<Rightarrow> (host_lease \<Rightarrow> host \<Rightarrow> host) \<Rightarrow> host \<Rightarrow> host" where
  "on_lease l f s = (case h_lease_heap s l of None \<Rightarrow> fault s | Some le \<Rightarrow> f le s)"

definition put_client :: "nat \<Rightarrow> host_client \<Rightarrow> host \<Rightarrow> host" where
  "put_client c cl s = s\<lparr>h_client_heap := (h_client_heap s)(c \<mapsto> cl)\<rparr>"

definition put_lease :: "nat \<Rightarrow> host_lease \<Rightarrow> host \<Rightarrow> host" where
  "put_lease l le s = s\<lparr>h_lease_heap := (h_lease_heap s)(l \<mapsto> le)\<rparr>"

definition close_fd :: "int \<Rightarrow> holder \<Rightarrow> host \<Rightarrow> host" where
  "close_fd d x s = (if h_fds s d = Some x then s\<lparr>h_fds := (h_fds s)(d := None)\<rparr> else fault s)"

section \<open>Clients\<close>

definition client_prefix :: "nat \<Rightarrow> string" where
  "client_prefix serial = show_nat serial @ '':''"

definition client_request_key :: "(json \<Rightarrow> string) \<Rightarrow> nat \<Rightarrow> json option \<Rightarrow> string" where
  "client_request_key encode serial identifier =
     client_prefix serial @ (case identifier of Some i \<Rightarrow> encode i | None \<Rightarrow> ''null'')"

definition host_client_close :: "nat \<Rightarrow> host \<Rightarrow> host" where
  "host_client_close c = on_client c (\<lambda>cl s.
     if hc_closed cl then s
     else let s = put_client c (cl\<lparr>hc_closed := True, hc_source := False, hc_writer := False, hc_fd := - 1\<rparr>) s;
              s = (if h_current s = Some c then s\<lparr>h_mcp := (h_mcp s)\<lparr>m_cancelled := True\<rparr>\<rparr> else s);
              s = close_fd (hc_fd cl) (ClientFd c) s
          in s\<lparr>h_mcp := (h_mcp s)\<lparr>m_cancelled_ids :=
               filter (\<lambda>k. \<not> g_str_has_prefix k (client_prefix (hc_serial cl))) (m_cancelled_ids (h_mcp s))\<rparr>\<rparr>)"

datatype send_answer = Sent nat | SendAgain | SendFailed

definition host_write :: "nat \<Rightarrow> bool \<Rightarrow> send_answer \<Rightarrow> host \<Rightarrow> host" where
  "host_write c broken answer = on_client c (\<lambda>cl s.
     if broken then host_client_close c s
     else case answer of
            SendAgain \<Rightarrow> s
          | SendFailed \<Rightarrow> host_client_close c s
          | Sent n \<Rightarrow>
              if n = 0 then host_client_close c s
              else let sent = hc_sent cl + n
                   in if sent = length (hc_output cl)
                      then put_client c (cl\<lparr>hc_output := [], hc_sent := 0, hc_writer := False\<rparr>) s
                      else put_client c (cl\<lparr>hc_sent := sent\<rparr>) s)"

definition host_send_line :: "string \<Rightarrow> host \<Rightarrow> host" where
  "host_send_line line s =
     (case h_current s of
        None \<Rightarrow> s
      | Some c \<Rightarrow> on_client c (\<lambda>cl s.
          if hc_closed cl then s
          else if length (hc_output cl) + length line > OUTPUT_MAXIMUM then host_client_close c s
          else host_act (SendLine c line)
                 (put_client c (cl\<lparr>hc_output := hc_output cl @ line @ [line_end], hc_writer := True\<rparr>) s)) s)"

definition host_queue :: "host_event \<Rightarrow> host \<Rightarrow> host" where
  "host_queue e s =
     (let s = (case e of HostCall c _ \<Rightarrow> on_client c (\<lambda>cl. put_client c (cl\<lparr>hc_pending := hc_pending cl + 1\<rparr>)) s | _ \<Rightarrow> s)
      in s\<lparr>h_events := h_events s @ [e]\<rparr>)"

definition host_cancel :: "string \<Rightarrow> nat \<Rightarrow> host \<Rightarrow> host" where
  "host_cancel key c s =
     (let s = (if length (m_cancelled_ids (h_mcp s)) < 256
               then s\<lparr>h_mcp := (h_mcp s)\<lparr>m_cancelled_ids := table_add key (m_cancelled_ids (h_mcp s))\<rparr>\<rparr> else s)
      in if h_current s = Some c \<and> m_active (h_mcp s) = Some key
         then s\<lparr>h_mcp := (h_mcp s)\<lparr>m_cancelled := True\<rparr>\<rparr> else s)"

definition host_line :: "(string \<Rightarrow> json option) \<Rightarrow> (json \<Rightarrow> string) \<Rightarrow> nat \<Rightarrow> host \<Rightarrow> host" where
  "host_line parse encode c = on_client c (\<lambda>cl s.
     let d = line_document parse (hc_buffer cl);
         s = (if is_cancellation d
              then host_cancel (client_request_key encode (hc_serial cl) (cancelled_request d)) c s
              else if length (h_events s) < host_max_pending then host_queue (HostCall c d) s
              else host_client_close c s)
     in on_client c (\<lambda>cl. put_client c (cl\<lparr>hc_buffer := empty_line\<rparr>)) s)"

definition is_open :: "nat \<Rightarrow> host \<Rightarrow> bool" where
  "is_open c s = (case h_client_heap s c of Some cl \<Rightarrow> \<not> hc_closed cl | None \<Rightarrow> False)"

definition host_byte :: "(string \<Rightarrow> json option) \<Rightarrow> (json \<Rightarrow> string) \<Rightarrow> nat \<Rightarrow> char \<Rightarrow> host \<Rightarrow> host" where
  "host_byte parse encode c b s =
     (if \<not> is_open c s then s
      else if b = line_end then host_line parse encode c s
      else on_client c (\<lambda>cl. put_client c (cl\<lparr>hc_buffer := line_byte b (hc_buffer cl)\<rparr>)) s)"

datatype recv_answer = Received string | RecvAgain | RecvEnd

fun host_turns :: "(string \<Rightarrow> json option) \<Rightarrow> (json \<Rightarrow> string) \<Rightarrow> nat \<Rightarrow> recv_answer list \<Rightarrow> host \<Rightarrow> host" where
  "host_turns parse encode c [] s = s"
| "host_turns parse encode c (a # as) s =
     (if \<not> is_open c s then s
      else case a of
             Received bs \<Rightarrow> host_turns parse encode c as (fold (host_byte parse encode c) bs s)
           | RecvAgain \<Rightarrow> s
           | RecvEnd \<Rightarrow> host_client_close c s)"

definition host_read :: "(string \<Rightarrow> json option) \<Rightarrow> (json \<Rightarrow> string) \<Rightarrow> nat \<Rightarrow> bool \<Rightarrow> recv_answer list \<Rightarrow> host \<Rightarrow> host" where
  "host_read parse encode c broken answers s =
     (let s = host_turns parse encode c (take 16 answers) s
      in if is_open c s \<and> broken then host_client_close c s else s)"

definition host_client_count :: "host \<Rightarrow> nat" where
  "host_client_count s = length (filter (\<lambda>c. is_open c s) (h_clients s))"

text \<open>What the semantic worker is told: who asks, and which clients there are.\<close>

definition atspi_request_clients :: "host \<Rightarrow> nat \<times> nat list" where
  "atspi_request_clients s =
     (case h_current s of Some c \<Rightarrow> (case h_client_heap s c of Some cl \<Rightarrow> hc_serial cl | None \<Rightarrow> 0) | None \<Rightarrow> 0,
      List.map_filter (\<lambda>c. case h_client_heap s c of Some cl \<Rightarrow> if hc_closed cl then None else Some (hc_serial cl)
         | None \<Rightarrow> None) (h_clients s))"

definition host_clear_tree_baselines :: "host \<Rightarrow> host" where
  "host_clear_tree_baselines s =
     fold (\<lambda>c. on_client c (\<lambda>cl. put_client c (cl\<lparr>hc_vision_tree := None, hc_accessibility_tree := None\<rparr>))) (h_clients s) s"

text \<open>\<open>host_tree_baseline\<close> and the assignment its only caller makes through it.\<close>

definition set_tree_baseline :: "bool \<Rightarrow> string \<Rightarrow> host \<Rightarrow> host" where
  "set_tree_baseline vision tree s =
     (case h_current s of None \<Rightarrow> s
      | Some c \<Rightarrow> on_client c (\<lambda>cl s. if hc_closed cl then s
          else put_client c (if vision then cl\<lparr>hc_vision_tree := Some tree\<rparr> else cl\<lparr>hc_accessibility_tree := Some tree\<rparr>) s) s)"

section \<open>Connections and leases\<close>

text \<open>An accepted connection: its descriptor and the user at the other end, if the kernel tells.\<close>

type_synonym accepted = "int \<times> int option"

definition possible_fd :: "int \<Rightarrow> host \<Rightarrow> bool" where
  "possible_fd d s = (0 \<le> d \<and> h_fds s d = None)"

definition new_client :: "nat \<Rightarrow> nat \<Rightarrow> int \<Rightarrow> host_client" where
  "new_client l serial peer = \<lparr>hc_lease = l, hc_serial = serial, hc_fd = peer, hc_source = True, hc_writer = False,
     hc_pending = 0, hc_buffer = empty_line, hc_output = [], hc_sent = 0, hc_closed = False,
     hc_vision_tree = None, hc_accessibility_tree = None\<rparr>"

definition accept_client :: "int \<Rightarrow> nat \<Rightarrow> accepted \<Rightarrow> host \<Rightarrow> host" where
  "accept_client uid l a = on_lease l (\<lambda>le s.
     case a of (peer, user) \<Rightarrow>
       if \<not> possible_fd peer s then s
       else if hl_revoked le \<or> host_client_count s \<ge> host_max_clients \<or> user \<noteq> Some uid then s
       else let c = h_fresh s;
                serial = h_serial s + 1;
                s = put_client c (new_client l serial peer)
                      (s\<lparr>h_fresh := h_fresh s + 1, h_serial := serial, h_fds := (h_fds s)(peer \<mapsto> ClientFd c)\<rparr>)
            in put_lease l (le\<lparr>hl_used := True\<rparr>) (s\<lparr>h_clients := h_clients s @ [c]\<rparr>))"

definition host_accept :: "int \<Rightarrow> nat \<Rightarrow> accepted list \<Rightarrow> host \<Rightarrow> host" where
  "host_accept uid l = fold (accept_client uid l)"

definition close_of_lease :: "nat \<Rightarrow> nat \<Rightarrow> host \<Rightarrow> host" where
  "close_of_lease l c = on_client c (\<lambda>cl s. if hc_lease cl = l then host_client_close c s else s)"

definition host_revoke :: "nat \<Rightarrow> host \<Rightarrow> host" where
  "host_revoke l = on_lease l (\<lambda>le s.
     if hl_revoked le then s
     else let s = put_lease l (le\<lparr>hl_revoked := True, hl_accept_source := False, hl_source := False, hl_listener := - 1\<rparr>) s;
              s = (if hl_listener le \<ge> 0 then close_fd (hl_listener le) (ListenerFd l) s else s);
              s = fold (close_of_lease l) (h_clients s) s
          in host_queue (HostRevoke l) s)"

text \<open>A message on a control connection that is not registered yet: bytes, whether something was cut off, descriptors.\<close>

datatype control_answer =
    ControlAgain
  | ControlEnd
  | ControlMessage string bool "int list"

definition receive_fd :: "nat \<Rightarrow> int \<Rightarrow> host \<Rightarrow> host" where
  "receive_fd l d = on_lease l (\<lambda>le s.
     if \<not> possible_fd d s then s
     else if hl_received_fds le = 0
     then put_lease l (le\<lparr>hl_received_fds := 1, hl_listener := d\<rparr>) (s\<lparr>h_fds := (h_fds s)(d \<mapsto> ListenerFd l)\<rparr>)
     else put_lease l (le\<lparr>hl_received_fds := hl_received_fds le + 1\<rparr>) s)"

definition registration_valid :: "json option \<Rightarrow> bool \<Rightarrow> host_lease \<Rightarrow> bool" where
  "registration_valid d listening le =
     (hl_received_fds le = 1 \<and>
      (case json_string d ''session'' of Some t \<Rightarrow> t \<noteq> [] | None \<Rightarrow> False) \<and>
      (case json_string d ''wayland'' of Some t \<Rightarrow> t \<noteq> [] | None \<Rightarrow> False) \<and> listening)"

definition host_register_line :: "(string \<Rightarrow> json option) \<Rightarrow> bool \<Rightarrow> nat \<Rightarrow> host \<Rightarrow> host" where
  "host_register_line parse listening l = on_lease l (\<lambda>le s.
     let d = parse (hl_input le)
     in if registration_valid d listening le
        then host_queue (HostRegister l) (put_lease l (le\<lparr>hl_session := the (json_string d ''session''),
               hl_wayland := the (json_string d ''wayland''), hl_registered := True\<rparr>) s)
        else host_revoke l s)"

text \<open>\<open>listening\<close> is what the checks of the received descriptor say: a socket of this user in listening state.\<close>

definition host_control_read :: "(string \<Rightarrow> json option) \<Rightarrow> bool \<Rightarrow> nat \<Rightarrow> control_answer \<Rightarrow> host \<Rightarrow> host" where
  "host_control_read parse listening l answer = on_lease l (\<lambda>le s.
     if hl_registered le then (case answer of ControlAgain \<Rightarrow> s | _ \<Rightarrow> host_revoke l s)
     else case answer of
            ControlAgain \<Rightarrow> s
          | ControlEnd \<Rightarrow> host_revoke l s
          | ControlMessage bytes truncated fds \<Rightarrow>
              let s = (if bytes = [] then s else fold (receive_fd l) fds s)
              in on_lease l (\<lambda>le s.
                   if bytes = [] \<or> truncated \<or> length (hl_input le) + length bytes > REGISTRATION_MAXIMUM then host_revoke l s
                   else let s = put_lease l (le\<lparr>hl_input := hl_input le @ bytes\<rparr>) s
                        in if line_end \<notin> set (hl_input le @ bytes) then s
                           else host_register_line parse listening l s) s)"

definition new_lease :: "int \<Rightarrow> host_lease" where
  "new_lease peer = \<lparr>hl_control = peer, hl_listener = - 1, hl_source = True, hl_accept_source = False,
     hl_received_fds = 0, hl_input = [], hl_registered = False, hl_revoked = False, hl_acknowledged = False,
     hl_used = False, hl_idle_since = 0, hl_session = [], hl_wayland = []\<rparr>"

definition accept_control :: "int \<Rightarrow> accepted \<Rightarrow> host \<Rightarrow> host" where
  "accept_control uid a s =
     (case a of (peer, user) \<Rightarrow>
        if \<not> possible_fd peer s then s
        else if length (h_leases s) \<ge> host_max_leases \<or> (user \<noteq> Some 0 \<and> user \<noteq> Some uid) then s
        else let l = h_fresh s
             in put_lease l (new_lease peer) (s\<lparr>h_fresh := h_fresh s + 1, h_leases := h_leases s @ [l],
                  h_fds := (h_fds s)(peer \<mapsto> ControlFd l)\<rparr>))"

definition host_control_accept :: "int \<Rightarrow> accepted list \<Rightarrow> host \<Rightarrow> host" where
  "host_control_accept uid = fold (accept_control uid)"

section \<open>Events\<close>

text \<open>A call is done: its client may be freed again. \<open>handle_request\<close> is atomic unless it runs a tool; then the loop's
  callbacks may run until the desktop code returns with the members of a result (\<open>end_call\<close>).\<close>

definition finish_event :: "host \<Rightarrow> host" where
  "finish_event s =
     (let s = (case h_running s of
                 Some (HostCall c _) \<Rightarrow> on_client c (\<lambda>cl. put_client c (cl\<lparr>hc_pending := hc_pending cl - 1\<rparr>)) s
               | _ \<Rightarrow> s)
      in s\<lparr>h_current := None, h_running := None\<rparr>)"

definition conclude_call :: "(json \<Rightarrow> string) \<Rightarrow> string \<Rightarrow> json \<Rightarrow> (string \<times> json) list \<Rightarrow> host \<Rightarrow> host" where
  "conclude_call encode key identifier result s =
     (let s = s\<lparr>h_mcp := finish_call key (h_mcp s), h_call := None\<rparr>;
          s = (if m_cancelled (h_mcp s) then s
               else host_send_line (encode (result_response (m_modern (h_mcp s)) (Some identifier) result)) s)
      in finish_event s)"

definition start_request :: "(json \<Rightarrow> string) \<Rightarrow> string \<Rightarrow> nat \<Rightarrow> nat \<Rightarrow> json \<Rightarrow> host \<Rightarrow> host" where
  "start_request encode instructions c serial request s =
     (case request_outcome False instructions (Some request) (h_mcp s) of
        (Silent, m) \<Rightarrow> finish_event (s\<lparr>h_mcp := m\<rparr>)
      | (Respond r, m) \<Rightarrow> finish_event (host_send_line (encode r) (s\<lparr>h_mcp := m\<rparr>))
      | (CallTool i parameters result, m) \<Rightarrow>
          let key = client_request_key encode serial (Some i);
              s = s\<lparr>h_mcp := begin_call key m\<rparr>
          in case selected_tool False parameters of
               Inl (code, hint) \<Rightarrow> conclude_call encode key i (failed_result code hint result) s
             | Inr _ \<Rightarrow> host_act (Executes c) (s\<lparr>h_call := Some (key, i, result)\<rparr>))"

definition start_call :: "(json \<Rightarrow> string) \<Rightarrow> string \<Rightarrow> nat \<Rightarrow> json option \<Rightarrow> host \<Rightarrow> host" where
  "start_call encode instructions c d s = on_client c (\<lambda>cl s.
     if hc_closed cl then finish_event s
     else case d of
            None \<Rightarrow> finish_event (host_send_line (encode
              (error_response None (- 32700) ''Malformed or oversized JSON message'')) s)
          | Some request \<Rightarrow> start_request encode instructions c (hc_serial cl) request s) (s\<lparr>h_current := Some c\<rparr>)"

definition end_call :: "(json \<Rightarrow> string) \<Rightarrow> (string \<times> json) list \<Rightarrow> host \<Rightarrow> host" where
  "end_call encode members s =
     (case h_call s of None \<Rightarrow> s
      | Some (key, i, result) \<Rightarrow> conclude_call encode key i (fold (\<lambda>(k, v). result_member k v) members result) s)"

definition start_register :: "nat \<Rightarrow> host \<Rightarrow> host" where
  "start_register l = on_lease l (\<lambda>le s.
     if hl_revoked le then finish_event s else s\<lparr>h_mcp := (h_mcp s)\<lparr>m_cancelled := False\<rparr>\<rparr>)"

definition end_register :: "bool \<Rightarrow> bool \<Rightarrow> nat \<Rightarrow> host \<Rightarrow> host" where
  "end_register bound sent l s =
     (let s = (if bound then
                 (let s = (if sent then host_act (Ready l) s else host_revoke l s)
                  in on_lease l (\<lambda>le s. if hl_revoked le then s
                       else put_lease l (le\<lparr>hl_accept_source := True\<rparr>) (s\<lparr>h_registered_once := True\<rparr>)) s)
               else host_revoke l s)
      in finish_event s)"

definition acknowledge :: "nat \<Rightarrow> host \<Rightarrow> host" where
  "acknowledge l s = finish_event (on_lease l (\<lambda>le s.
     put_lease l (le\<lparr>hl_acknowledged := True\<rparr>) (if hl_control le \<ge> 0 then host_act (Released l) s else s)) s)"

definition take_event :: "(json \<Rightarrow> string) \<Rightarrow> string \<Rightarrow> host \<Rightarrow> host" where
  "take_event encode instructions s =
     (case h_events s of
        [] \<Rightarrow> s
      | e # es \<Rightarrow>
          let s = s\<lparr>h_events := es, h_running := Some e\<rparr>
          in case e of
               HostCall c d \<Rightarrow> start_call encode instructions c d s
             | HostRegister l \<Rightarrow> start_register l s
             | HostRevoke l \<Rightarrow> acknowledge l s)"

section \<open>Maintenance\<close>

definition connected :: "nat \<Rightarrow> host \<Rightarrow> bool" where
  "connected l s =
     list_ex (\<lambda>c. case h_client_heap s c of Some cl \<Rightarrow> hc_lease cl = l \<and> \<not> hc_closed cl | None \<Rightarrow> False) (h_clients s)"

definition idle_lease :: "(nat \<Rightarrow> int) \<Rightarrow> nat \<Rightarrow> host \<Rightarrow> host" where
  "idle_lease now l = on_lease l (\<lambda>le s.
     if hl_control le < 0 \<or> \<not> hl_used le \<or> hl_revoked le then s
     else if connected l s then put_lease l (le\<lparr>hl_idle_since := 0\<rparr>) s
     else if hl_idle_since le = 0 then put_lease l (le\<lparr>hl_idle_since := now l\<rparr>) s
     else if now l - hl_idle_since le \<ge> 2 * 1000000 then host_revoke l s
     else s)"

definition collect_client :: "nat \<Rightarrow> host \<Rightarrow> host" where
  "collect_client c = on_client c (\<lambda>cl s.
     if hc_closed cl \<and> hc_pending cl = 0 \<and> h_current s \<noteq> Some c
     then s\<lparr>h_client_heap := (h_client_heap s)(c := None), h_clients := filter (\<lambda>x. x \<noteq> c) (h_clients s)\<rparr>
     else s)"

definition referenced :: "nat \<Rightarrow> host \<Rightarrow> bool" where
  "referenced l s =
     list_ex (\<lambda>c. case h_client_heap s c of Some cl \<Rightarrow> hc_lease cl = l | None \<Rightarrow> False) (h_clients s)"

definition collect_lease :: "nat \<Rightarrow> host \<Rightarrow> host" where
  "collect_lease l = on_lease l (\<lambda>le s.
     if hl_acknowledged le \<and> \<not> referenced l s
     then let s = (if hl_control le \<ge> 0 then close_fd (hl_control le) (ControlFd l) s else s)
          in s\<lparr>h_lease_heap := (h_lease_heap s)(l := None), h_leases := filter (\<lambda>x. x \<noteq> l) (h_leases s)\<rparr>
     else s)"

text \<open>The arrays are walked from their end, and an element that is removed is replaced by the last one, which has been
  looked at already; the order of the arrays means nothing, so that it is kept here.\<close>

definition host_collect :: "host \<Rightarrow> host" where
  "host_collect s =
     (let s = fold collect_client (rev (h_clients s)) s
      in fold collect_lease (rev (h_leases s)) s)"

definition maintain :: "(nat \<Rightarrow> int) \<Rightarrow> host \<Rightarrow> host" where
  "maintain now s = host_collect (fold (idle_lease now) (h_leases s) s)"

text \<open>When the loop has ended.\<close>

definition shut_lease :: "nat \<Rightarrow> host \<Rightarrow> host" where
  "shut_lease l = on_lease l (\<lambda>le s.
     let s = put_lease l (le\<lparr>hl_source := False, hl_accept_source := False\<rparr>) s;
         s = (if hl_listener le \<ge> 0 then close_fd (hl_listener le) (ListenerFd l) s else s)
     in if hl_control le \<ge> 0 then close_fd (hl_control le) (ControlFd l) s else s)"

definition shut_down :: "host \<Rightarrow> host" where
  "shut_down s = (let s = fold host_client_close (h_clients s) s in fold shut_lease (h_leases s) s)"

definition finished :: "bool \<Rightarrow> bool \<Rightarrow> host \<Rightarrow> bool" where
  "finished test late s = (\<not> test \<and> h_leases s = [] \<and> (h_registered_once s \<or> late))"

section \<open>The service as a step relation\<close>

definition initial_mcp :: mcp where
  "initial_mcp = \<lparr>m_modern = False, m_initialized = True, m_cancelled_ids = [], m_active = None, m_cancelled = False\<rparr>"

definition no_host :: host where
  "no_host = \<lparr>h_client_heap = (\<lambda>_. None), h_lease_heap = (\<lambda>_. None), h_clients = [], h_leases = [], h_events = [],
     h_running = None, h_current = None, h_serial = 0, h_fresh = 0, h_fds = (\<lambda>_. None), h_mcp = initial_mcp,
     h_call = None, h_registered_once = False, h_trace = [], h_fault = False\<rparr>"

text \<open>A service started for tests has one lease from the start, without a controller.\<close>

definition start_test :: "int \<Rightarrow> host" where
  "start_test listener = put_lease 0 ((new_lease (- 1))\<lparr>hl_listener := listener, hl_source := False,
       hl_registered := True, hl_accept_source := True\<rparr>)
     (no_host\<lparr>h_fresh := 1, h_leases := [0], h_fds := [listener \<mapsto> ListenerFd 0]\<rparr>)"

inductive host_init :: "host \<Rightarrow> bool" where
  "host_init no_host"
| "0 \<le> listener \<Longrightarrow> host_init (start_test listener)"

inductive host_step :: "(string \<Rightarrow> json option) \<Rightarrow> (json \<Rightarrow> string) \<Rightarrow> string \<Rightarrow> int \<Rightarrow> host \<Rightarrow> host \<Rightarrow> bool"
  for parse encode instructions uid where
  step_read: "h_client_heap s c = Some cl \<Longrightarrow> hc_source cl \<Longrightarrow>
    host_step parse encode instructions uid s (host_read parse encode c broken answers s)"
| step_write: "h_client_heap s c = Some cl \<Longrightarrow> hc_writer cl \<Longrightarrow>
    (case answer of Sent n \<Rightarrow> hc_sent cl + n \<le> length (hc_output cl) | _ \<Rightarrow> True) \<Longrightarrow>
    host_step parse encode instructions uid s (host_write c broken answer s)"
| step_accept: "h_lease_heap s l = Some le \<Longrightarrow> hl_accept_source le \<Longrightarrow>
    host_step parse encode instructions uid s (host_accept uid l accepted s)"
| step_control_read: "h_lease_heap s l = Some le \<Longrightarrow> hl_source le \<Longrightarrow>
    host_step parse encode instructions uid s (host_control_read parse listening l answer s)"
| step_control_accept: "host_step parse encode instructions uid s (host_control_accept uid accepted s)"
| step_take: "h_running s = None \<Longrightarrow> host_step parse encode instructions uid s (take_event encode instructions s)"
| step_end_call: "h_call s \<noteq> None \<Longrightarrow> host_step parse encode instructions uid s (end_call encode members s)"
| step_end_register: "h_running s = Some (HostRegister l) \<Longrightarrow>
    host_step parse encode instructions uid s (end_register bound sent l s)"
| step_baseline: "h_call s \<noteq> None \<Longrightarrow> host_step parse encode instructions uid s (set_tree_baseline vision tree s)"
| step_clear: "host_step parse encode instructions uid s (host_clear_tree_baselines s)"
| step_maintain: "h_running s = None \<Longrightarrow> host_step parse encode instructions uid s (maintain now s)"

end
