(* ===== verification/Host_Invariant.thy ===== *)
theory Host_Invariant
  imports Host_Service
begin

text \<open>
  What holds of the desktop-control service in every state it can reach, whatever controllers and
  clients send and whenever callbacks run: no client or lease is used after it was freed, no descriptor is closed
  twice, queues and tables are bounded, and a lease whose release was acknowledged has no client left.
\<close>

section \<open>The invariant\<close>

definition queue :: "host \<Rightarrow> host_event list" where
  "queue s = (case h_running s of Some e \<Rightarrow> [e] | None \<Rightarrow> []) @ h_events s"

definition calls_for :: "nat \<Rightarrow> host_event list \<Rightarrow> nat" where
  "calls_for c q = length (filter (\<lambda>e. case e of HostCall d _ \<Rightarrow> d = c | _ \<Rightarrow> False) q)"

definition calls :: "host_event list \<Rightarrow> nat" where
  "calls q = length (filter (\<lambda>e. case e of HostCall _ _ \<Rightarrow> True | _ \<Rightarrow> False) q)"

definition revokes :: "nat \<Rightarrow> host_event list \<Rightarrow> nat" where
  "revokes l q = length (filter (\<lambda>e. e = HostRevoke l) q)"

text \<open>No registration of a lease comes after its revocation.\<close>

fun in_order :: "nat \<Rightarrow> host_event list \<Rightarrow> bool" where
  "in_order l [] = True"
| "in_order l (e # q) = (if e = HostRevoke l then HostRegister l \<notin> set q else in_order l q)"

definition client_ok :: "nat option \<Rightarrow> host \<Rightarrow> nat \<Rightarrow> host_client \<Rightarrow> bool" where
  "client_ok x s c cl =
     (c < h_fresh s \<and> hc_serial cl \<le> h_serial s \<and> h_lease_heap s (hc_lease cl) \<noteq> None \<and>
      hc_pending cl = calls_for c (queue s) \<and>
      (if hc_closed cl then \<not> hc_source cl \<and> \<not> hc_writer cl else h_fds s (hc_fd cl) = Some (ClientFd c)) \<and>
      (\<forall>le. h_lease_heap s (hc_lease cl) = Some le \<longrightarrow> hl_revoked le \<longrightarrow> x \<noteq> Some (hc_lease cl) \<longrightarrow> hc_closed cl) \<and>
      hc_sent cl \<le> length (hc_output cl) \<and> length (hc_output cl) \<le> OUTPUT_MAXIMUM + 1 \<and>
      length (lb_input (hc_buffer cl)) \<le> LINE_MAXIMUM)"

definition lease_ok :: "nat option \<Rightarrow> host \<Rightarrow> nat \<Rightarrow> host_lease \<Rightarrow> bool" where
  "lease_ok x s l le =
     (l < h_fresh s \<and>
      (0 \<le> hl_listener le \<longrightarrow> h_fds s (hl_listener le) = Some (ListenerFd l)) \<and>
      (0 \<le> hl_control le \<longrightarrow> h_fds s (hl_control le) = Some (ControlFd l)) \<and>
      (hl_revoked le \<longrightarrow> hl_listener le < 0 \<and> \<not> hl_source le \<and> \<not> hl_accept_source le) \<and>
      (\<not> hl_registered le \<and> hl_received_fds le = 0 \<longrightarrow> hl_listener le < 0) \<and>
      (hl_acknowledged le \<longrightarrow> hl_revoked le \<and> HostRegister l \<notin> set (queue s)) \<and>
      revokes l (queue s) = (if hl_revoked le \<and> \<not> hl_acknowledged le \<and> x \<noteq> Some l then 1 else 0) \<and>
      in_order l (queue s) \<and> length (hl_input le) \<le> REGISTRATION_MAXIMUM)"

fun holder_ok :: "host \<Rightarrow> int \<Rightarrow> holder \<Rightarrow> bool" where
  "holder_ok s d (ClientFd c) = (0 \<le> d \<and> (\<exists>cl. h_client_heap s c = Some cl \<and> \<not> hc_closed cl \<and> hc_fd cl = d))"
| "holder_ok s d (ListenerFd l) = (0 \<le> d \<and> (\<exists>le. h_lease_heap s l = Some le \<and> hl_listener le = d))"
| "holder_ok s d (ControlFd l) = (0 \<le> d \<and> (\<exists>le. h_lease_heap s l = Some le \<and> hl_control le = d))"

fun event_ok :: "host \<Rightarrow> host_event \<Rightarrow> bool" where
  "event_ok s (HostCall c d) = (h_client_heap s c \<noteq> None)"
| "event_ok s (HostRegister l) = (h_lease_heap s l \<noteq> None)"
| "event_ok s (HostRevoke l) = (h_lease_heap s l \<noteq> None)"

definition lists_ok :: "host \<Rightarrow> bool" where
  "lists_ok s =
     (distinct (h_clients s) \<and> set (h_clients s) = dom (h_client_heap s) \<and>
      distinct (h_leases s) \<and> set (h_leases s) = dom (h_lease_heap s))"

definition sizes_ok :: "host \<Rightarrow> bool" where
  "sizes_ok s =
     (host_client_count s \<le> host_max_clients \<and> length (h_leases s) \<le> host_max_leases \<and>
      calls (h_events s) \<le> host_max_pending)"

definition serials_ok :: "host \<Rightarrow> bool" where
  "serials_ok s = (\<forall>c d cl dl. h_client_heap s c = Some cl \<longrightarrow> h_client_heap s d = Some dl \<longrightarrow>
     hc_serial cl = hc_serial dl \<longrightarrow> c = d)"

text \<open>A request that is marked as cancelled belongs to a client that is connected.\<close>

definition owned_key :: "host \<Rightarrow> string \<Rightarrow> bool" where
  "owned_key s k = (\<exists>c cl. h_client_heap s c = Some cl \<and> \<not> hc_closed cl \<and>
     g_str_has_prefix k (client_prefix (hc_serial cl)))"

definition keys_ok :: "host \<Rightarrow> bool" where
  "keys_ok s =
     (length (m_cancelled_ids (h_mcp s)) \<le> 256 \<and> list_all (owned_key s) (m_cancelled_ids (h_mcp s)))"

definition current_ok :: "host \<Rightarrow> bool" where
  "current_ok s = (\<forall>c. h_current s = Some c \<longrightarrow> h_client_heap s c \<noteq> None)"

definition host_ok :: "nat option \<Rightarrow> host \<Rightarrow> bool" where
  "host_ok x s =
     (\<not> h_fault s \<and> lists_ok s \<and> sizes_ok s \<and> serials_ok s \<and> keys_ok s \<and> current_ok s \<and>
      (\<forall>c cl. h_client_heap s c = Some cl \<longrightarrow> client_ok x s c cl) \<and>
      (\<forall>l le. h_lease_heap s l = Some le \<longrightarrow> lease_ok x s l le) \<and>
      (\<forall>d h. h_fds s d = Some h \<longrightarrow> holder_ok s d h) \<and>
      list_all (event_ok s) (queue s))"

text \<open>What is being handled between two callbacks.\<close>

definition phase_ok :: "host \<Rightarrow> bool" where
  "phase_ok s =
     (case h_running s of
        None \<Rightarrow> h_current s = None \<and> h_call s = None \<and> m_active (h_mcp s) = None
      | Some (HostCall c d) \<Rightarrow> h_current s = Some c \<and>
          (case (h_call s, h_client_heap s c) of
             (Some (key, i, _), Some cl) \<Rightarrow> m_active (h_mcp s) = Some key \<and>
                g_str_has_prefix key (client_prefix (hc_serial cl))
           | _ \<Rightarrow> False)
      | Some (HostRegister l) \<Rightarrow> h_current s = None \<and> h_call s = None \<and> m_active (h_mcp s) = None
      | Some (HostRevoke l) \<Rightarrow> False)"

section \<open>Counting\<close>

lemma calls_for_simps [simp]:
  "calls_for c [] = 0" "calls_for c (p @ q) = calls_for c p + calls_for c q"
  "calls_for c (HostCall d x # q) = (if d = c then 1 else 0) + calls_for c q"
  "calls_for c (HostRegister l # q) = calls_for c q" "calls_for c (HostRevoke l # q) = calls_for c q"
  by (simp_all add: calls_for_def)

lemma queued_calls_simps [simp]:
  "calls [] = 0" "calls (p @ q) = calls p + calls q" "calls (HostCall d x # q) = 1 + calls q"
  "calls (HostRegister l # q) = calls q" "calls (HostRevoke l # q) = calls q"
  by (simp_all add: calls_def)

lemma revokes_simps [simp]:
  "revokes l [] = 0" "revokes l (p @ q) = revokes l p + revokes l q"
  "revokes l (e # q) = (if e = HostRevoke l then 1 else 0) + revokes l q"
  by (simp_all add: revokes_def)

lemma calls_length: "calls q \<le> length q"
  by (simp add: calls_def)

lemma in_order_snoc [simp]:
  "in_order l (q @ [e]) = (in_order l q \<and> (e = HostRegister l \<longrightarrow> HostRevoke l \<notin> set q))"
  by (induction q) auto

lemma in_order_free: "HostRegister l \<notin> set q \<Longrightarrow> in_order l q"
  by (induction q) auto

lemma in_order_tl: "in_order l (e # q) \<Longrightarrow> in_order l q"
  by (auto split: if_splits intro: in_order_free)

lemma revokes_zero: "revokes l q = 0 \<longleftrightarrow> HostRevoke l \<notin> set q"
  by (auto simp: revokes_def filter_empty_conv)

lemma calls_for_zero: "calls_for c q = 0 \<longleftrightarrow> (\<forall>d. HostCall c d \<notin> set q)"
  unfolding calls_for_def length_0_conv filter_empty_conv
  by (auto split: host_event.splits)

lemma open_iff: "h_client_heap s c = Some cl \<Longrightarrow> is_open c s = (\<not> hc_closed cl)"
  by (simp add: is_open_def)

section \<open>Updates that keep the invariant\<close>

lemma live [simp]:
  "h_client_heap s c = Some cl \<Longrightarrow> on_client c f s = f cl s"
  "h_lease_heap s l = Some le \<Longrightarrow> on_lease l g s = g le s"
  by (simp_all add: on_client_def on_lease_def)

lemma queue_update [simp]:
  "queue (s\<lparr>h_client_heap := a\<rparr>) = queue s" "queue (s\<lparr>h_lease_heap := b\<rparr>) = queue s"
  "queue (s\<lparr>h_clients := c\<rparr>) = queue s" "queue (s\<lparr>h_leases := c\<rparr>) = queue s"
  "queue (s\<lparr>h_fds := f\<rparr>) = queue s" "queue (s\<lparr>h_mcp := m\<rparr>) = queue s"
  "queue (s\<lparr>h_fresh := n\<rparr>) = queue s" "queue (s\<lparr>h_serial := n\<rparr>) = queue s"
  by (simp_all add: queue_def)

text \<open>Fields the invariant does not look at.\<close>

lemma ok_frame:
  assumes "host_ok x s"
    and "h_client_heap t = h_client_heap s" "h_lease_heap t = h_lease_heap s" "h_clients t = h_clients s"
      "h_leases t = h_leases s" "h_events t = h_events s" "h_running t = h_running s" "h_serial t = h_serial s"
      "h_fresh t = h_fresh s" "h_fds t = h_fds s" "m_cancelled_ids (h_mcp t) = m_cancelled_ids (h_mcp s)"
      "h_fault t = h_fault s" "h_current t = h_current s \<or> h_current t = None"
  shows "host_ok x t"
proof -
  have q: "queue t = queue s" by (simp add: queue_def assms)
  have "client_ok x t = client_ok x s" "lease_ok x t = lease_ok x s"
    by (simp_all add: fun_eq_iff client_ok_def lease_ok_def assms q)
  moreover have "holder_ok t d h = holder_ok s d h" for d h by (cases h; simp add: assms)
  moreover have "event_ok t e = event_ok s e" for e by (cases e; simp add: assms)
  moreover have "host_client_count t = host_client_count s" by (simp add: host_client_count_def is_open_def assms)
  moreover have "current_ok t"
    using assms(1,13) by (auto simp: host_ok_def current_ok_def assms(2) split: option.splits)
  moreover have "owned_key t = owned_key s" by (simp add: fun_eq_iff owned_key_def assms)
  then have "keys_ok t" using assms(1) by (simp add: host_ok_def keys_ok_def assms)
  ultimately show ?thesis
    using assms(1) by (simp add: host_ok_def q lists_ok_def sizes_ok_def serials_ok_def assms list_all_iff)
qed

lemma ok_put_client:
  assumes ok: "host_ok x s" and c: "h_client_heap s c = Some cl"
    and same: "hc_lease cl' = hc_lease cl" "hc_serial cl' = hc_serial cl" "hc_fd cl' = hc_fd cl"
      "hc_pending cl' = hc_pending cl" "hc_closed cl' = hc_closed cl"
    and shape: "hc_closed cl \<Longrightarrow> \<not> hc_source cl' \<and> \<not> hc_writer cl'" "hc_sent cl' \<le> length (hc_output cl')"
      "length (hc_output cl') \<le> OUTPUT_MAXIMUM + 1" "length (lb_input (hc_buffer cl')) \<le> LINE_MAXIMUM"
  shows "host_ok x (put_client c cl' s)"
proof -
  let ?t = "put_client c cl' s"
  have q: "queue ?t = queue s" by (simp add: queue_def put_client_def)
  have cok: "client_ok x s c cl" using ok c by (simp add: host_ok_def)
  have "client_ok x ?t d dl" if "h_client_heap ?t d = Some dl" for d dl
  proof (cases "d = c")
    case True
    with that cok same shape show ?thesis by (auto simp: client_ok_def put_client_def q)
  next
    case False
    with that ok have "client_ok x s d dl" by (simp add: host_ok_def put_client_def)
    then show ?thesis by (simp add: client_ok_def put_client_def q)
  qed
  moreover have "lease_ok x ?t = lease_ok x s"
    by (simp add: fun_eq_iff lease_ok_def put_client_def q)
  moreover have "holder_ok ?t d h = holder_ok s d h" for d h
    using c same by (cases h) (auto simp: put_client_def)
  moreover have "event_ok ?t e = event_ok s e" for e
    using c by (cases e) (auto simp: put_client_def)
  moreover have "is_open d ?t = is_open d s" for d using c same by (simp add: is_open_def put_client_def)
  moreover have "lists_ok ?t" using ok c by (auto simp: host_ok_def lists_ok_def put_client_def)
  moreover have "serials_ok ?t" using ok c same(2) by (auto simp: host_ok_def serials_ok_def put_client_def)
  moreover have "owned_key ?t k = owned_key s k" for k
    unfolding owned_key_def put_client_def using c same(2,5) by (simp, metis option.inject)
  then have "keys_ok ?t" using ok by (simp add: host_ok_def keys_ok_def list_all_iff) (simp add: put_client_def)
  moreover have "current_ok ?t" using ok by (auto simp: host_ok_def current_ok_def put_client_def split: option.splits)
  ultimately show ?thesis
    using ok by (simp add: host_ok_def q sizes_ok_def host_client_count_def list_all_iff) (simp add: put_client_def)
qed

lemma ok_client: "host_ok x s \<Longrightarrow> h_client_heap s c = Some cl \<Longrightarrow> client_ok x s c cl"
  by (simp add: host_ok_def)

lemma ok_lease: "host_ok x s \<Longrightarrow> h_lease_heap s l = Some le \<Longrightarrow> lease_ok x s l le"
  by (simp add: host_ok_def)

lemma ok_holder: "host_ok x s \<Longrightarrow> h_fds s d = Some h \<Longrightarrow> holder_ok s d h"
  by (simp add: host_ok_def)

lemma ok_fd: "host_ok x s \<Longrightarrow> h_client_heap s c = Some cl \<Longrightarrow> \<not> hc_closed cl \<Longrightarrow> h_fds s (hc_fd cl) = Some (ClientFd c)"
  using ok_client [of x s c cl] by (simp add: client_ok_def)

section \<open>Closing a client\<close>

definition closed_client :: "host_client \<Rightarrow> host_client" where
  "closed_client cl = cl\<lparr>hc_closed := True, hc_source := False, hc_writer := False, hc_fd := - 1\<rparr>"

lemma closed_client_simps [simp]:
  "hc_lease (closed_client cl) = hc_lease cl" "hc_serial (closed_client cl) = hc_serial cl"
  "hc_closed (closed_client cl)" "\<not> hc_source (closed_client cl)" "\<not> hc_writer (closed_client cl)"
  "hc_pending (closed_client cl) = hc_pending cl" "hc_sent (closed_client cl) = hc_sent cl"
  "hc_output (closed_client cl) = hc_output cl" "hc_buffer (closed_client cl) = hc_buffer cl"
  by (simp_all add: closed_client_def)

definition closed_keys :: "nat \<Rightarrow> mcp \<Rightarrow> mcp" where
  "closed_keys serial m = m\<lparr>m_cancelled_ids := filter (\<lambda>k. \<not> g_str_has_prefix k (client_prefix serial)) (m_cancelled_ids m)\<rparr>"

lemma host_client_close_eq:
  assumes "h_client_heap s c = Some cl" "\<not> hc_closed cl" "h_fds s (hc_fd cl) = Some (ClientFd c)"
  shows "host_client_close c s = s\<lparr>h_client_heap := (h_client_heap s)(c \<mapsto> closed_client cl),
    h_fds := (h_fds s)(hc_fd cl := None),
    h_mcp := closed_keys (hc_serial cl)
      (if h_current s = Some c then (h_mcp s)\<lparr>m_cancelled := True\<rparr> else h_mcp s)\<rparr>"
  using assms by (simp add: host_client_close_def put_client_def close_fd_def closed_client_def closed_keys_def Let_def)

lemma open_filter_le:
  "(\<And>c. P c \<Longrightarrow> Q c) \<Longrightarrow> length (filter P xs) \<le> length (filter Q xs)"
  by (induction xs) auto

lemma ok_closed:
  fixes m :: mcp
  assumes ok: "host_ok x s" and c: "h_client_heap s c = Some cl" and op: "\<not> hc_closed cl"
  defines "t \<equiv> s\<lparr>h_client_heap := (h_client_heap s)(c \<mapsto> closed_client cl), h_fds := (h_fds s)(hc_fd cl := None),
    h_mcp := closed_keys (hc_serial cl) m\<rparr>"
  assumes m: "m_cancelled_ids m = m_cancelled_ids (h_mcp s)"
  shows "host_ok x t"
proof -
  have q: "queue t = queue s" by (simp add: t_def queue_def)
  have cok: "client_ok x s c cl" by (rule ok_client [OF ok c])
  have fd: "h_fds s (hc_fd cl) = Some (ClientFd c)" by (rule ok_fd [OF ok c op])
  have "client_ok x t d dl" if "h_client_heap t d = Some dl" for d dl
  proof (cases "d = c")
    case True
    with that cok show ?thesis by (auto simp: client_ok_def t_def)
  next
    case False
    with that have d: "h_client_heap s d = Some dl" by (simp add: t_def)
    have "hc_closed dl \<or> hc_fd dl \<noteq> hc_fd cl" using ok_fd [OF ok d] fd False by auto
    with ok_client [OF ok d] show ?thesis by (auto simp: client_ok_def t_def)
  qed
  moreover have "lease_ok x t l le" if "h_lease_heap s l = Some le" for l le
    using ok_lease [OF ok that] fd by (auto simp: lease_ok_def t_def)
  moreover have "holder_ok t d h" if "h_fds t d = Some h" for d h
  proof -
    have d: "h_fds s d = Some h" "d \<noteq> hc_fd cl" using that by (auto simp: t_def split: if_splits)
    then have "holder_ok s d h" using ok by (simp add: host_ok_def)
    then show ?thesis using d(2) c by (cases h) (auto simp: t_def)
  qed
  moreover have "event_ok t e = event_ok s e" for e
    using c by (cases e) (auto simp: t_def)
  moreover have "is_open d t \<Longrightarrow> is_open d s" for d using c op by (auto simp: is_open_def t_def split: if_splits)
  then have "host_client_count t \<le> host_client_count s"
    unfolding host_client_count_def by (simp add: t_def open_filter_le)
  moreover have "lists_ok t" using ok c by (auto simp: host_ok_def lists_ok_def t_def)
  moreover have "serials_ok t" using ok c unfolding host_ok_def serials_ok_def t_def by (auto split: if_splits)
  moreover have "owned_key t k" if "owned_key s k" "\<not> g_str_has_prefix k (client_prefix (hc_serial cl))" for k
  proof -
    from that(1) obtain d dl where d: "h_client_heap s d = Some dl" "\<not> hc_closed dl"
      "g_str_has_prefix k (client_prefix (hc_serial dl))" by (auto simp: owned_key_def)
    with that(2) c have "d \<noteq> c" by auto
    with d show ?thesis by (auto simp: owned_key_def t_def)
  qed
  then have "keys_ok t"
    using ok by (auto simp: host_ok_def keys_ok_def t_def closed_keys_def m list_all_iff intro: le_trans [OF length_filter_le])
  moreover have "current_ok t" using ok by (auto simp: host_ok_def current_ok_def t_def split: option.splits)
  ultimately show ?thesis
    using ok by (simp add: host_ok_def q sizes_ok_def list_all_iff) (simp add: t_def)
qed

lemma ok_client_close:
  assumes "host_ok x s" "h_client_heap s c \<noteq> None" shows "host_ok x (host_client_close c s)"
proof -
  from assms(2) obtain cl where c: "h_client_heap s c = Some cl" by blast
  show ?thesis
  proof (cases "hc_closed cl")
    case True
    with assms c show ?thesis by (simp add: host_client_close_def)
  next
    case False
    show ?thesis
      unfolding host_client_close_eq [OF c False ok_fd [OF assms(1) c False]]
      by (intro ok_closed [OF assms(1) c False]) simp
  qed
qed

text \<open>What closing a client leaves alone.\<close>

lemma close_keeps:
  assumes "host_ok x s" "h_client_heap s c = Some cl"
  shows "h_lease_heap (host_client_close c s) = h_lease_heap s" "h_clients (host_client_close c s) = h_clients s"
    "h_leases (host_client_close c s) = h_leases s" "h_events (host_client_close c s) = h_events s"
    "h_running (host_client_close c s) = h_running s" "h_current (host_client_close c s) = h_current s"
    "h_call (host_client_close c s) = h_call s" "m_active (h_mcp (host_client_close c s)) = m_active (h_mcp s)"
    "h_client_heap (host_client_close c s) = (h_client_heap s)(c \<mapsto> if hc_closed cl then cl else closed_client cl)"
    "h_fresh (host_client_close c s) = h_fresh s" "h_serial (host_client_close c s) = h_serial s"
    "h_trace (host_client_close c s) = h_trace s"
proof -
  have "hc_closed cl \<or> h_fds s (hc_fd cl) = Some (ClientFd c)" using ok_fd [OF assms] by blast
  then have "host_client_close c s = s \<and> hc_closed cl \<or> \<not> hc_closed cl \<and>
     host_client_close c s = s\<lparr>h_client_heap := (h_client_heap s)(c \<mapsto> closed_client cl), h_fds := (h_fds s)(hc_fd cl := None),
       h_mcp := closed_keys (hc_serial cl) (if h_current s = Some c then (h_mcp s)\<lparr>m_cancelled := True\<rparr> else h_mcp s)\<rparr>"
    using host_client_close_eq [OF assms(2)] assms(2) by (auto simp: host_client_close_def)
  then show "h_lease_heap (host_client_close c s) = h_lease_heap s" "h_clients (host_client_close c s) = h_clients s"
    "h_leases (host_client_close c s) = h_leases s" "h_events (host_client_close c s) = h_events s"
    "h_running (host_client_close c s) = h_running s" "h_current (host_client_close c s) = h_current s"
    "h_call (host_client_close c s) = h_call s" "m_active (h_mcp (host_client_close c s)) = m_active (h_mcp s)"
    "h_client_heap (host_client_close c s) = (h_client_heap s)(c \<mapsto> if hc_closed cl then cl else closed_client cl)"
    "h_fresh (host_client_close c s) = h_fresh s" "h_serial (host_client_close c s) = h_serial s"
    "h_trace (host_client_close c s) = h_trace s"
    using assms(2) by (auto simp: closed_keys_def fun_upd_idem_iff)
qed

section \<open>What callbacks leave alone\<close>

text \<open>A callback frees nothing and does not touch what is being handled.\<close>

definition keeps :: "host \<Rightarrow> host \<Rightarrow> bool" where
  "keeps s t =
     (h_running t = h_running s \<and> h_current t = h_current s \<and> h_call t = h_call s \<and>
      m_active (h_mcp t) = m_active (h_mcp s) \<and>
      (\<forall>c cl. h_client_heap s c = Some cl \<longrightarrow> (\<exists>cl'. h_client_heap t c = Some cl' \<and>
         hc_serial cl' = hc_serial cl \<and> hc_lease cl' = hc_lease cl \<and> (hc_closed cl \<longrightarrow> hc_closed cl'))) \<and>
      (\<forall>l le. h_lease_heap s l = Some le \<longrightarrow> (\<exists>le'. h_lease_heap t l = Some le' \<and>
         hl_acknowledged le' = hl_acknowledged le \<and> (hl_revoked le \<longrightarrow> hl_revoked le'))))"

lemma keeps_refl [simp]: "keeps s s"
  by (auto simp: keeps_def)

lemma keeps_clientD:
  "keeps s t \<Longrightarrow> h_client_heap s c = Some cl \<Longrightarrow> \<exists>cl'. h_client_heap t c = Some cl' \<and>
     hc_serial cl' = hc_serial cl \<and> hc_lease cl' = hc_lease cl \<and> (hc_closed cl \<longrightarrow> hc_closed cl')"
  by (simp add: keeps_def)

lemma keeps_leaseD:
  "keeps s t \<Longrightarrow> h_lease_heap s l = Some le \<Longrightarrow> \<exists>le'. h_lease_heap t l = Some le' \<and>
     hl_acknowledged le' = hl_acknowledged le \<and> (hl_revoked le \<longrightarrow> hl_revoked le')"
  by (simp add: keeps_def)

lemma keeps_trans [trans]:
  assumes "keeps s t" "keeps t u" shows "keeps s u"
proof -
  have "\<exists>cl'. h_client_heap u c = Some cl' \<and> hc_serial cl' = hc_serial cl \<and> hc_lease cl' = hc_lease cl \<and>
      (hc_closed cl \<longrightarrow> hc_closed cl')" if "h_client_heap s c = Some cl" for c cl
    using keeps_clientD [OF assms(1) that] keeps_clientD [OF assms(2)] by fastforce
  moreover have "\<exists>le'. h_lease_heap u l = Some le' \<and> hl_acknowledged le' = hl_acknowledged le \<and>
      (hl_revoked le \<longrightarrow> hl_revoked le')" if "h_lease_heap s l = Some le" for l le
    using keeps_leaseD [OF assms(1) that] keeps_leaseD [OF assms(2)] by fastforce
  ultimately show ?thesis using assms by (simp add: keeps_def)
qed

lemma keeps_client: "keeps s t \<Longrightarrow> h_client_heap s c \<noteq> None \<Longrightarrow> h_client_heap t c \<noteq> None"
  by (fastforce simp: keeps_def)

lemma keeps_lease: "keeps s t \<Longrightarrow> h_lease_heap s l \<noteq> None \<Longrightarrow> h_lease_heap t l \<noteq> None"
  by (fastforce simp: keeps_def)

lemma keeps_phase: "keeps s t \<Longrightarrow> phase_ok s \<Longrightarrow> phase_ok t"
  by (fastforce simp: keeps_def phase_ok_def split: option.splits host_event.splits)

text \<open>An operation is safe from a state if it keeps the invariant and leaves those things alone.\<close>

definition safe :: "host \<Rightarrow> host \<Rightarrow> bool" where
  "safe s t = (host_ok None t \<and> keeps s t)"

lemma safe_trans: "safe s t \<Longrightarrow> safe t u \<Longrightarrow> safe s u"
  by (auto simp: safe_def intro: keeps_trans)

lemma safe_refl: "host_ok None s \<Longrightarrow> safe s s"
  by (simp add: safe_def)

lemma safe_fold:
  assumes "host_ok None s" "P s"
    and "\<And>a t. a \<in> set as \<Longrightarrow> host_ok None t \<Longrightarrow> P t \<Longrightarrow> safe t (f a t)"
    and "\<And>t u. P t \<Longrightarrow> keeps t u \<Longrightarrow> P u"
  shows "safe s (fold f as s)"
  using assms
proof (induction as arbitrary: s)
  case (Cons a as)
  then have step: "safe s (f a s)" by simp
  then have "safe (f a s) (fold f as (f a s))"
    using Cons.prems by (intro Cons.IH) (auto simp: safe_def)
  with step show ?case by (simp add: safe_trans)
qed (simp add: safe_refl)

lemma keeps_put_client:
  "h_client_heap s c = Some cl \<Longrightarrow> hc_serial cl' = hc_serial cl \<Longrightarrow> hc_lease cl' = hc_lease cl \<Longrightarrow>
     hc_closed cl' = hc_closed cl \<Longrightarrow> keeps s (put_client c cl' s)"
  by (auto simp: keeps_def put_client_def)

lemma safe_close: "host_ok None s \<Longrightarrow> h_client_heap s c \<noteq> None \<Longrightarrow> safe s (host_client_close c s)"
  using ok_client_close [of None s c] close_keeps [of None s c] by (auto simp: safe_def keeps_def)

lemma safe_put_client:
  assumes "host_ok None s" "h_client_heap s c = Some cl"
    and "hc_lease cl' = hc_lease cl" "hc_serial cl' = hc_serial cl" "hc_fd cl' = hc_fd cl"
      "hc_pending cl' = hc_pending cl" "hc_closed cl' = hc_closed cl"
    and "hc_closed cl \<Longrightarrow> \<not> hc_source cl' \<and> \<not> hc_writer cl'" "hc_sent cl' \<le> length (hc_output cl')"
      "length (hc_output cl') \<le> OUTPUT_MAXIMUM + 1" "length (lb_input (hc_buffer cl')) \<le> LINE_MAXIMUM"
  shows "safe s (put_client c cl' s)"
  using ok_put_client [OF assms] keeps_put_client [OF assms(2,4,3,7)] by (simp add: safe_def)

lemma client_sizes:
  assumes "host_ok x s" "h_client_heap s c = Some cl"
  shows "hc_sent cl \<le> length (hc_output cl)" "length (hc_output cl) \<le> OUTPUT_MAXIMUM + 1"
    "length (lb_input (hc_buffer cl)) \<le> LINE_MAXIMUM" "hc_closed cl \<Longrightarrow> \<not> hc_source cl \<and> \<not> hc_writer cl"
  using ok_client [OF assms] by (auto simp: client_ok_def)

lemma safe_write:
  assumes ok: "host_ok None s" and c: "h_client_heap s c = Some cl" and w: "hc_writer cl"
    and n: "case answer of Sent n \<Rightarrow> hc_sent cl + n \<le> length (hc_output cl) | _ \<Rightarrow> True"
  shows "safe s (host_write c broken answer s)"
proof -
  have close: "safe s (host_client_close c s)" using safe_close [OF ok] c by simp
  show ?thesis
  proof (cases "broken \<or> answer = SendFailed \<or> answer = Sent 0")
    case True
    with c close show ?thesis by (auto simp: host_write_def)
  next
    case False
    note sizes = client_sizes [OF ok c]
    have op: "\<not> hc_closed cl" using sizes(4) w by blast
    from False n c sizes show ?thesis
      by (cases answer) (auto simp: host_write_def safe_refl ok op Let_def intro!: safe_put_client [OF ok c])
  qed
qed

lemma frame_safe:
  assumes "host_ok None s"
    and "h_client_heap t = h_client_heap s" "h_lease_heap t = h_lease_heap s" "h_clients t = h_clients s"
      "h_leases t = h_leases s" "h_events t = h_events s" "h_running t = h_running s" "h_serial t = h_serial s"
      "h_fresh t = h_fresh s" "h_fds t = h_fds s" "m_cancelled_ids (h_mcp t) = m_cancelled_ids (h_mcp s)"
      "h_fault t = h_fault s" "h_current t = h_current s" "h_call t = h_call s"
      "m_active (h_mcp t) = m_active (h_mcp s)"
  shows "safe s t"
proof -
  have "host_ok None t" by (rule ok_frame [OF assms(1)]) (simp_all add: assms)
  moreover have "keeps s t" by (auto simp: keeps_def assms)
  ultimately show ?thesis by (simp add: safe_def)
qed

lemma safe_act: "host_ok None s \<Longrightarrow> safe s (host_act a s)"
  by (rule frame_safe) (simp_all add: host_act_def)

lemma safe_send_line:
  assumes ok: "host_ok None s" shows "safe s (host_send_line line s)"
proof (cases "h_current s")
  case (Some c)
  then obtain cl where c: "h_client_heap s c = Some cl" using ok by (auto simp: host_ok_def current_ok_def)
  note sizes = client_sizes [OF ok c]
  show ?thesis
  proof (cases "hc_closed cl \<or> length (hc_output cl) + length line > OUTPUT_MAXIMUM")
    case True
    with Some c show ?thesis using safe_close [OF ok, of c] by (auto simp: host_send_line_def safe_refl ok)
  next
    case False
    let ?cl = "cl\<lparr>hc_output := hc_output cl @ line @ [line_end], hc_writer := True\<rparr>"
    have put: "safe s (put_client c ?cl s)" using False sizes by (intro safe_put_client [OF ok c]) auto
    moreover have "safe (put_client c ?cl s) (host_act (SendLine c line) (put_client c ?cl s))"
      using put by (intro safe_act) (simp add: safe_def)
    ultimately show ?thesis using False Some c by (simp add: host_send_line_def safe_trans)
  qed
qed (simp add: host_send_line_def safe_refl ok)

section \<open>Reading\<close>

lemma ok_mcp:
  assumes "host_ok x s" "length (m_cancelled_ids m) \<le> 256" "list_all (owned_key s) (m_cancelled_ids m)"
  shows "host_ok x (s\<lparr>h_mcp := m\<rparr>)"
proof -
  let ?t = "s\<lparr>h_mcp := m\<rparr>"
  have "client_ok x ?t = client_ok x s" "lease_ok x ?t = lease_ok x s"
    by (simp_all add: fun_eq_iff client_ok_def lease_ok_def)
  moreover have "holder_ok ?t d h = holder_ok s d h" for d h by (cases h) simp_all
  moreover have "event_ok ?t e = event_ok s e" for e by (cases e) simp_all
  moreover have "host_client_count ?t = host_client_count s" by (simp add: host_client_count_def is_open_def)
  moreover have "owned_key ?t = owned_key s" by (simp add: fun_eq_iff owned_key_def)
  ultimately show ?thesis
    using assms by (simp add: host_ok_def lists_ok_def sizes_ok_def serials_ok_def keys_ok_def current_ok_def list_all_iff)
qed

lemma safe_mcp:
  assumes "host_ok None s" "length (m_cancelled_ids m) \<le> 256" "list_all (owned_key s) (m_cancelled_ids m)"
    and "m_active m = m_active (h_mcp s)"
  shows "safe s (s\<lparr>h_mcp := m\<rparr>)"
  using ok_mcp [OF assms(1-3)] assms(4) by (auto simp: safe_def keeps_def)

lemma owned: "h_client_heap s c = Some cl \<Longrightarrow> \<not> hc_closed cl \<Longrightarrow> owned_key s (client_request_key encode (hc_serial cl) i)"
  unfolding owned_key_def client_request_key_def using g_str_has_prefix_append by blast

lemma table_add_set [simp]: "set (table_add k ks) = insert k (set ks)"
  by (auto simp: table_add_def)

lemma table_add_length: "length (table_add k ks) \<le> Suc (length ks)"
  by (simp add: table_add_def)

lemma safe_cancel:
  assumes ok: "host_ok None s" and key: "owned_key s key" shows "safe s (host_cancel key c s)"
proof -
  have ids: "length (m_cancelled_ids (h_mcp s)) \<le> 256" "list_all (owned_key s) (m_cancelled_ids (h_mcp s))"
    using ok by (simp_all add: host_ok_def keys_ok_def)
  let ?ids = "if length (m_cancelled_ids (h_mcp s)) < 256 then table_add key (m_cancelled_ids (h_mcp s)) else m_cancelled_ids (h_mcp s)"
  let ?m = "(h_mcp s)\<lparr>m_cancelled_ids := ?ids,
     m_cancelled := (m_cancelled (h_mcp s) \<or> (h_current s = Some c \<and> m_active (h_mcp s) = Some key))\<rparr>"
  have "safe s (s\<lparr>h_mcp := ?m\<rparr>)"
  proof (rule safe_mcp [OF ok])
    show "length (m_cancelled_ids ?m) \<le> 256"
      using ids(1) table_add_length [of key "m_cancelled_ids (h_mcp s)"] by auto
    show "list_all (owned_key s) (m_cancelled_ids ?m)" using ids(2) key by (auto simp: list_all_iff)
  qed simp
  moreover have "host_cancel key c s = s\<lparr>h_mcp := ?m\<rparr>"
    by (auto simp: host_cancel_def Let_def intro!: host.equality mcp.equality)
  ultimately show ?thesis by simp
qed

lemma ok_queue_call:
  assumes ok: "host_ok None s" and c: "h_client_heap s c = Some cl" and room: "length (h_events s) < host_max_pending"
  shows "host_ok None (host_queue (HostCall c d) s)"
proof -
  let ?t = "host_queue (HostCall c d) s"
  have t: "?t = s\<lparr>h_client_heap := (h_client_heap s)(c \<mapsto> cl\<lparr>hc_pending := hc_pending cl + 1\<rparr>), h_events := h_events s @ [HostCall c d]\<rparr>"
    using c by (simp add: host_queue_def put_client_def)
  have q: "queue ?t = queue s @ [HostCall c d]" by (simp add: t queue_def)
  have "client_ok None ?t e el" if "h_client_heap ?t e = Some el" for e el
  proof (cases "e = c")
    case True
    with that have "el = cl\<lparr>hc_pending := hc_pending cl + 1\<rparr>" by (simp add: t)
    with ok_client [OF ok c] True show ?thesis by (simp add: client_ok_def q) (auto simp: t)
  next
    case False
    with that have "h_client_heap s e = Some el" by (simp add: t)
    from ok_client [OF ok this] False show ?thesis by (simp add: client_ok_def q) (auto simp: t)
  qed
  moreover have "lease_ok None ?t l le" if "h_lease_heap s l = Some le" for l le
    using ok_lease [OF ok that] by (simp add: lease_ok_def q) (simp add: t)
  moreover have "holder_ok ?t e h" if "h_fds s e = Some h" for e h
    using ok_holder [OF ok that] c by (cases h) (auto simp: t)
  moreover have "event_ok ?t e = event_ok s e" for e using c by (cases e) (auto simp: t)
  moreover have "is_open e ?t = is_open e s" for e using c by (simp add: is_open_def t)
  then have "host_client_count ?t = host_client_count s" unfolding host_client_count_def by (simp add: t)
  moreover have "lists_ok ?t" using ok c by (auto simp: host_ok_def lists_ok_def t)
  moreover have "serials_ok ?t" using ok c unfolding host_ok_def serials_ok_def t by (auto split: if_splits)
  moreover have "owned_key ?t k" if "owned_key s k" for k
    using that c by (auto simp: owned_key_def t) (metis option.inject)
  then have "keys_ok ?t" using ok by (auto simp: host_ok_def keys_ok_def t list_all_iff)
  moreover have "current_ok ?t" using ok by (auto simp: host_ok_def current_ok_def t split: option.splits)
  moreover have "calls (h_events ?t) \<le> host_max_pending"
    using room calls_length [of "h_events s"] by (simp add: t)
  ultimately show ?thesis
    using ok c by (simp add: host_ok_def q sizes_ok_def list_all_iff) (simp add: t)
qed

lemma safe_queue_call:
  assumes "host_ok None s" "h_client_heap s c = Some cl" "length (h_events s) < host_max_pending"
  shows "safe s (host_queue (HostCall c d) s)"
  using ok_queue_call [OF assms] assms(2) by (auto simp: safe_def keeps_def host_queue_def put_client_def)

lemma safe_set_buffer:
  assumes ok: "host_ok None s" and c: "h_client_heap s c \<noteq> None"
    and b: "\<And>cl. length (lb_input (hc_buffer cl)) \<le> LINE_MAXIMUM \<Longrightarrow> length (lb_input (f cl)) \<le> LINE_MAXIMUM"
  shows "safe s (on_client c (\<lambda>cl. put_client c (cl\<lparr>hc_buffer := f cl\<rparr>)) s)"
proof -
  from c obtain cl where c: "h_client_heap s c = Some cl" by blast
  note sizes = client_sizes [OF ok c]
  have "safe s (put_client c (cl\<lparr>hc_buffer := f cl\<rparr>) s)"
    using sizes b by (intro safe_put_client [OF ok c]) auto
  with c show ?thesis by simp
qed

lemma safe_line:
  assumes ok: "host_ok None s" and c: "h_client_heap s c = Some cl" and op: "\<not> hc_closed cl"
  shows "safe s (host_line parse encode c s)"
proof -
  let ?d = "line_document parse (hc_buffer cl)"
  let ?t = "if is_cancellation ?d
            then host_cancel (client_request_key encode (hc_serial cl) (cancelled_request ?d)) c s
            else if length (h_events s) < host_max_pending then host_queue (HostCall c ?d) s
            else host_client_close c s"
  have first: "safe s ?t"
    using safe_cancel [OF ok owned [OF c op]] safe_queue_call [OF ok c] safe_close [OF ok, of c] c by simp
  have "safe ?t (on_client c (\<lambda>cl. put_client c (cl\<lparr>hc_buffer := empty_line\<rparr>)) ?t)"
    using first keeps_client [of s ?t c] c
    by (intro safe_set_buffer) (auto simp: safe_def empty_line_def)
  with first have "safe s (on_client c (\<lambda>cl. put_client c (cl\<lparr>hc_buffer := empty_line\<rparr>)) ?t)" by (rule safe_trans)
  with c show ?thesis by (simp add: host_line_def Let_def)
qed

lemma safe_byte:
  assumes ok: "host_ok None s" and c: "h_client_heap s c \<noteq> None" shows "safe s (host_byte parse encode c b s)"
proof (cases "is_open c s")
  case True
  then obtain cl where cl: "h_client_heap s c = Some cl" "\<not> hc_closed cl" by (auto simp: is_open_def split: option.splits)
  show ?thesis
  proof (cases "b = line_end")
    case True
    with \<open>is_open c s\<close> safe_line [OF ok cl] show ?thesis by (simp add: host_byte_def)
  next
    case False
    have "safe s (on_client c (\<lambda>cl. put_client c (cl\<lparr>hc_buffer := line_byte b (hc_buffer cl)\<rparr>)) s)"
      by (rule safe_set_buffer [OF ok c]) (simp add: line_byte_def)
    with False \<open>is_open c s\<close> show ?thesis by (simp add: host_byte_def)
  qed
qed (simp add: host_byte_def safe_refl ok)

lemma safe_turns:
  "host_ok None s \<Longrightarrow> h_client_heap s c \<noteq> None \<Longrightarrow> safe s (host_turns parse encode c as s)"
proof (induction as arbitrary: s)
  case (Cons a as)
  show ?case
  proof (cases "is_open c s")
    case True
    show ?thesis
    proof (cases a)
      case (Received bs)
      have step: "safe s (fold (host_byte parse encode c) bs s)"
        using Cons.prems by (intro safe_fold [where P = "\<lambda>t. h_client_heap t c \<noteq> None"]) (auto intro: safe_byte dest: keeps_client)
      then have "safe (fold (host_byte parse encode c) bs s) (host_turns parse encode c as (fold (host_byte parse encode c) bs s))"
        using Cons.prems by (intro Cons.IH) (auto simp: safe_def dest: keeps_client)
      with step True Received show ?thesis by (simp add: safe_trans)
    next
      case RecvEnd
      with True Cons.prems show ?thesis by (simp add: safe_close)
    qed (use True Cons.prems in \<open>simp add: safe_refl\<close>)
  qed (use Cons.prems in \<open>simp add: safe_refl\<close>)
qed (simp add: safe_refl)

lemma safe_read:
  assumes ok: "host_ok None s" and c: "h_client_heap s c \<noteq> None"
  shows "safe s (host_read parse encode c broken as s)"
proof -
  let ?t = "host_turns parse encode c (take 16 as) s"
  have step: "safe s ?t" by (rule safe_turns [OF ok c])
  then have "safe ?t (host_client_close c ?t)" using c by (intro safe_close) (auto simp: safe_def dest: keeps_client)
  with step show ?thesis by (auto simp: host_read_def Let_def intro: safe_trans)
qed

section \<open>Accepting\<close>

lemma ok_new_client:
  assumes ok: "host_ok None s" and l: "h_lease_heap s l = Some le" and rev: "\<not> hl_revoked le"
    and room: "host_client_count s < host_max_clients" and fd: "possible_fd peer s"
  defines "c \<equiv> h_fresh s"
  defines "t \<equiv> s\<lparr>h_client_heap := (h_client_heap s)(c \<mapsto> new_client l (h_serial s + 1) peer),
    h_lease_heap := (h_lease_heap s)(l \<mapsto> le\<lparr>hl_used := True\<rparr>),
    h_clients := h_clients s @ [c], h_fresh := c + 1, h_serial := h_serial s + 1, h_fds := (h_fds s)(peer \<mapsto> ClientFd c)\<rparr>"
  shows "safe s t"
proof -
  have fresh: "h_client_heap s c = None"
    using ok_client [OF ok, of c] by (cases "h_client_heap s c") (auto simp: c_def client_ok_def)
  have q: "queue t = queue s" by (simp add: t_def queue_def)
  have none: "calls_for c (queue s) = 0"
    unfolding calls_for_zero using ok fresh by (fastforce simp: host_ok_def list_all_iff)
  have lease: "h_lease_heap t k = (if k = l then Some (le\<lparr>hl_used := True\<rparr>) else h_lease_heap s k)" for k
    by (simp add: t_def)
  have f: "h_client_heap t = (h_client_heap s)(c \<mapsto> new_client l (h_serial s + 1) peer)"
    "h_fresh t = c + 1" "h_serial t = h_serial s + 1" "h_fds t = (h_fds s)(peer \<mapsto> ClientFd c)"
    by (simp_all add: t_def)
  have "client_ok None t d dl" if "h_client_heap t d = Some dl" for d dl
  proof (cases "d = c")
    case True
    with that have "dl = new_client l (h_serial s + 1) peer" by (simp add: f)
    with True rev none show ?thesis by (simp add: client_ok_def q lease f new_client_def empty_line_def)
  next
    case False
    with that have d: "h_client_heap s d = Some dl" by (simp add: t_def)
    have "hc_closed dl \<or> hc_fd dl \<noteq> peer" using ok_fd [OF ok d] fd by (auto simp: possible_fd_def)
    with ok_client [OF ok d] rev l show ?thesis by (auto simp: client_ok_def q lease f c_def)
  qed
  moreover have "lease_ok None t k ke" if ke: "h_lease_heap t k = Some ke" for k ke
  proof -
    from fd have peer: "0 \<le> peer" "h_fds s peer = None" by (simp_all add: possible_fd_def)
    show ?thesis
    proof (cases "k = l")
      case True
      with ke have "ke = le\<lparr>hl_used := True\<rparr>" by (simp add: lease)
      with True ok_lease [OF ok l] peer show ?thesis by (auto simp: lease_ok_def q f c_def)
    next
      case False
      with ke have "h_lease_heap s k = Some ke" by (simp add: lease)
      with ok_lease [OF ok this] peer show ?thesis by (auto simp: lease_ok_def q f c_def)
    qed
  qed
  moreover have "holder_ok t d h" if "h_fds t d = Some h" for d h
  proof (cases "d = peer")
    case True
    with that fd show ?thesis by (auto simp: t_def new_client_def possible_fd_def)
  next
    case False
    with that have "h_fds s d = Some h" by (simp add: t_def)
    from ok_holder [OF ok this] fresh l show ?thesis by (cases h) (auto simp: t_def)
  qed
  moreover have "event_ok s e \<Longrightarrow> event_ok t e" for e by (cases e) (auto simp: t_def)
  moreover have "is_open d t = (d = c \<or> is_open d s)" for d using fresh by (simp add: is_open_def t_def new_client_def)
  moreover have "c \<notin> set (h_clients s)" using ok fresh by (auto simp: host_ok_def lists_ok_def)
  ultimately have "client_ok None t d dl" if "h_client_heap t d = Some dl" for d dl using that by blast
  have count: "host_client_count t = Suc (host_client_count s)"
  proof -
    have "filter (\<lambda>d. d = c \<or> is_open d s) (h_clients s) = filter (\<lambda>d. is_open d s) (h_clients s)"
      using \<open>c \<notin> set (h_clients s)\<close> by (intro filter_cong) auto
    then show ?thesis using \<open>\<And>d. is_open d t = (d = c \<or> is_open d s)\<close>
      by (simp add: host_client_count_def) (simp add: t_def)
  qed
  have "lists_ok t" using ok l \<open>c \<notin> set (h_clients s)\<close> by (auto simp: host_ok_def lists_ok_def t_def)
  moreover have "serials_ok t"
  proof -
    have "hc_serial dl \<noteq> Suc (h_serial s)" if "h_client_heap s d = Some dl" for d dl
      using ok_client [OF ok that] by (simp add: client_ok_def)
    then show ?thesis using ok fresh unfolding host_ok_def serials_ok_def t_def
      by (auto simp: new_client_def split: if_splits) (metis)+
  qed
  moreover have "owned_key t k" if "owned_key s k" for k
    using that fresh by (auto simp: owned_key_def t_def) (metis option.distinct(1))
  then have "keys_ok t" using ok by (auto simp: host_ok_def keys_ok_def t_def list_all_iff)
  moreover have "current_ok t" using ok by (auto simp: host_ok_def current_ok_def t_def)
  moreover have "sizes_ok t" using ok room count by (simp add: host_ok_def sizes_ok_def) (simp add: t_def)
  moreover have "list_all (event_ok t) (queue t)"
    using ok \<open>\<And>e. event_ok s e \<Longrightarrow> event_ok t e\<close> by (auto simp: host_ok_def q list_all_iff)
  moreover have "\<not> h_fault t" using ok by (simp add: host_ok_def t_def)
  ultimately have "host_ok None t"
    unfolding host_ok_def
    using \<open>\<And>d dl. h_client_heap t d = Some dl \<Longrightarrow> client_ok None t d dl\<close>
      \<open>\<And>k ke. h_lease_heap t k = Some ke \<Longrightarrow> lease_ok None t k ke\<close>
      \<open>\<And>d h. h_fds t d = Some h \<Longrightarrow> holder_ok t d h\<close> by blast
  moreover have "keeps s t" using fresh l by (auto simp: keeps_def t_def)
  ultimately show ?thesis by (simp add: safe_def)
qed

lemma safe_accept_client:
  assumes ok: "host_ok None s" and l: "h_lease_heap s l \<noteq> None" shows "safe s (accept_client uid l a s)"
proof -
  from l obtain le where le: "h_lease_heap s l = Some le" by blast
  obtain peer user where a: "a = (peer, user)" by force
  show ?thesis
  proof (cases "\<not> possible_fd peer s \<or> hl_revoked le \<or> host_client_count s \<ge> host_max_clients \<or> user \<noteq> Some uid")
    case True
    then show ?thesis by (auto simp: accept_client_def a le safe_refl ok)
  next
    case False
    then have "safe s (s\<lparr>h_client_heap := (h_client_heap s)(h_fresh s \<mapsto> new_client l (h_serial s + 1) peer),
        h_lease_heap := (h_lease_heap s)(l \<mapsto> le\<lparr>hl_used := True\<rparr>),
        h_clients := h_clients s @ [h_fresh s], h_fresh := h_fresh s + 1, h_serial := h_serial s + 1,
        h_fds := (h_fds s)(peer \<mapsto> ClientFd (h_fresh s))\<rparr>)"
      by (intro ok_new_client [OF ok le]) auto
    moreover have "accept_client uid l a s = s\<lparr>h_client_heap := (h_client_heap s)(h_fresh s \<mapsto> new_client l (h_serial s + 1) peer),
        h_lease_heap := (h_lease_heap s)(l \<mapsto> le\<lparr>hl_used := True\<rparr>),
        h_clients := h_clients s @ [h_fresh s], h_fresh := h_fresh s + 1, h_serial := h_serial s + 1,
        h_fds := (h_fds s)(peer \<mapsto> ClientFd (h_fresh s))\<rparr>"
      using False by (intro host.equality) (simp_all add: accept_client_def a le Let_def put_client_def put_lease_def)
    ultimately show ?thesis by simp
  qed
qed

lemma safe_accept:
  "host_ok None s \<Longrightarrow> h_lease_heap s l \<noteq> None \<Longrightarrow> safe s (host_accept uid l as s)"
  unfolding host_accept_def
  by (rule safe_fold [where P = "\<lambda>t. h_lease_heap t l \<noteq> None"]) (auto intro: safe_accept_client dest: keeps_lease)

section \<open>Leases\<close>

lemma ok_put_lease:
  assumes ok: "host_ok x s" and l: "h_lease_heap s l = Some le"
    and same: "hl_control le' = hl_control le" "hl_listener le' = hl_listener le" "hl_revoked le' = hl_revoked le"
      "hl_acknowledged le' = hl_acknowledged le"
    and shape: "hl_revoked le \<Longrightarrow> \<not> hl_source le' \<and> \<not> hl_accept_source le'"
      "\<not> hl_registered le' \<Longrightarrow> hl_received_fds le' = 0 \<Longrightarrow> hl_listener le < 0"
      "length (hl_input le') \<le> REGISTRATION_MAXIMUM"
  shows "host_ok x (put_lease l le' s)"
proof -
  let ?t = "put_lease l le' s"
  have heap: "h_lease_heap ?t k = (if k = l then Some le' else h_lease_heap s k)" for k by (simp add: put_lease_def)
  have others: "h_client_heap ?t = h_client_heap s" "h_fds ?t = h_fds s" "h_fresh ?t = h_fresh s" "h_serial ?t = h_serial s"
    "queue ?t = queue s" "h_clients ?t = h_clients s" "h_leases ?t = h_leases s" "h_mcp ?t = h_mcp s"
    "h_current ?t = h_current s" "h_events ?t = h_events s" "h_fault ?t = h_fault s"
    by (simp_all add: put_lease_def)
  have "client_ok x ?t c cl" if "h_client_heap s c = Some cl" for c cl
    using ok_client [OF ok that] same(3) l by (auto simp: client_ok_def heap others split: if_splits)
  moreover have "lease_ok x ?t k ke" if "h_lease_heap ?t k = Some ke" for k ke
  proof (cases "k = l")
    case True
    with that have "ke = le'" by (simp add: heap)
    with True ok_lease [OF ok l] same shape show ?thesis by (auto simp: lease_ok_def others)
  next
    case False
    with that have "h_lease_heap s k = Some ke" by (simp add: heap)
    from ok_lease [OF ok this] show ?thesis by (simp add: lease_ok_def others)
  qed
  moreover have "holder_ok ?t d h" if "h_fds s d = Some h" for d h
    using ok_holder [OF ok that] l same(1,2) by (cases h) (auto simp: heap others)
  moreover have "event_ok ?t e = event_ok s e" for e using l by (cases e) (auto simp: heap others)
  moreover have "host_client_count ?t = host_client_count s" by (simp add: host_client_count_def is_open_def others)
  moreover have "lists_ok ?t" using ok l by (auto simp: host_ok_def lists_ok_def others put_lease_def)
  moreover have "owned_key ?t = owned_key s" by (simp add: fun_eq_iff owned_key_def others)
  ultimately show ?thesis
    using ok by (simp add: host_ok_def sizes_ok_def serials_ok_def keys_ok_def current_ok_def others list_all_iff)
qed

lemma keeps_put_lease:
  "h_lease_heap s l = Some le \<Longrightarrow> hl_revoked le' = hl_revoked le \<Longrightarrow> hl_acknowledged le' = hl_acknowledged le \<Longrightarrow>
     keeps s (put_lease l le' s)"
  by (auto simp: keeps_def put_lease_def)

lemma safe_put_lease:
  assumes "host_ok None s" "h_lease_heap s l = Some le"
    and "hl_control le' = hl_control le" "hl_listener le' = hl_listener le" "hl_revoked le' = hl_revoked le"
      "hl_acknowledged le' = hl_acknowledged le"
    and "hl_revoked le \<Longrightarrow> \<not> hl_source le' \<and> \<not> hl_accept_source le'"
      "\<not> hl_registered le' \<Longrightarrow> hl_received_fds le' = 0 \<Longrightarrow> hl_listener le < 0"
      "length (hl_input le') \<le> REGISTRATION_MAXIMUM"
  shows "safe s (put_lease l le' s)"
  unfolding safe_def using ok_put_lease [OF assms] keeps_put_lease [OF assms(2,5,6)] by (rule conjI)

definition revoked_lease :: "host_lease \<Rightarrow> host_lease" where
  "revoked_lease le = le\<lparr>hl_revoked := True, hl_accept_source := False, hl_source := False, hl_listener := - 1\<rparr>"

text \<open>Revoking starts with the lease itself; its clients may still be connected for a moment.\<close>

lemma ok_revoked:
  assumes ok: "host_ok None s" and l: "h_lease_heap s l = Some le" and rev: "\<not> hl_revoked le"
  defines "t \<equiv> s\<lparr>h_lease_heap := (h_lease_heap s)(l \<mapsto> revoked_lease le),
    h_fds := (if hl_listener le \<ge> 0 then (h_fds s)(hl_listener le := None) else h_fds s)\<rparr>"
  shows "host_ok (Some l) t"
proof -
  have lok: "lease_ok None s l le" by (rule ok_lease [OF ok l])
  have heap: "h_lease_heap t k = (if k = l then Some (revoked_lease le) else h_lease_heap s k)" for k by (simp add: t_def)
  have others: "h_client_heap t = h_client_heap s" "h_fresh t = h_fresh s" "h_serial t = h_serial s"
    "queue t = queue s" "h_clients t = h_clients s" "h_leases t = h_leases s" "h_mcp t = h_mcp s"
    "h_current t = h_current s" "h_events t = h_events s" "h_fault t = h_fault s"
    by (simp_all add: t_def)
  have fds: "h_fds t d = (if 0 \<le> hl_listener le \<and> d = hl_listener le then None else h_fds s d)" for d by (simp add: t_def)
  have held: "h_fds s (hl_listener le) = Some (ListenerFd l)" if "0 \<le> hl_listener le"
    using lok that by (simp add: lease_ok_def)
  have "client_ok (Some l) t c cl" if "h_client_heap s c = Some cl" for c cl
    using ok_client [OF ok that] held by (auto simp: client_ok_def heap others fds split: if_splits)
  moreover have "lease_ok (Some l) t k ke" if "h_lease_heap t k = Some ke" for k ke
  proof (cases "k = l")
    case True
    with that have "ke = revoked_lease le" by (simp add: heap)
    with True lok rev held show ?thesis by (auto simp: lease_ok_def others fds revoked_lease_def)
  next
    case False
    with that have "h_lease_heap s k = Some ke" by (simp add: heap)
    from ok_lease [OF ok this] False held show ?thesis by (auto simp: lease_ok_def others fds)
  qed
  moreover have "holder_ok t d h" if "h_fds t d = Some h" for d h
  proof -
    from that have d: "h_fds s d = Some h" "\<not> (0 \<le> hl_listener le \<and> d = hl_listener le)" by (auto simp: fds split: if_splits)
    from ok_holder [OF ok d(1)] d(2) l show ?thesis by (cases h) (auto simp: heap others revoked_lease_def)
  qed
  moreover have "event_ok t e = event_ok s e" for e using l by (cases e) (auto simp: heap others)
  moreover have "host_client_count t = host_client_count s" by (simp add: host_client_count_def is_open_def others)
  moreover have "lists_ok t" using ok l by (auto simp: host_ok_def lists_ok_def others t_def)
  moreover have "owned_key t = owned_key s" by (simp add: fun_eq_iff owned_key_def others)
  ultimately show ?thesis
    using ok by (simp add: host_ok_def sizes_ok_def serials_ok_def keys_ok_def current_ok_def others list_all_iff)
qed

lemma keeps_close: "host_ok x s \<Longrightarrow> h_client_heap s c \<noteq> None \<Longrightarrow> keeps s (host_client_close c s)"
  using close_keeps [of x s c] by (auto simp: keeps_def)

text \<open>Then its clients are closed.\<close>

lemma close_all_of_lease:
  "host_ok x s \<Longrightarrow> set cs \<subseteq> dom (h_client_heap s) \<Longrightarrow>
     host_ok x (fold (close_of_lease l) cs s) \<and> keeps s (fold (close_of_lease l) cs s) \<and>
     h_lease_heap (fold (close_of_lease l) cs s) = h_lease_heap s \<and>
     h_events (fold (close_of_lease l) cs s) = h_events s \<and>
     dom (h_client_heap (fold (close_of_lease l) cs s)) = dom (h_client_heap s) \<and>
     (\<forall>c\<in>set cs. \<forall>cl. h_client_heap (fold (close_of_lease l) cs s) c = Some cl \<longrightarrow> hc_lease cl = l \<longrightarrow> hc_closed cl)"
proof (induction cs arbitrary: s)
  case (Cons c cs)
  from Cons.prems(2) obtain cl where c: "h_client_heap s c = Some cl" by auto
  let ?t = "close_of_lease l c s"
  have t: "?t = (if hc_lease cl = l then host_client_close c s else s)" by (simp add: close_of_lease_def c)
  note keep = close_keeps [OF Cons.prems(1) c]
  have ok: "host_ok x ?t" using ok_client_close [OF Cons.prems(1)] Cons.prems(1) c by (simp add: t)
  have ks: "keeps s ?t" using keeps_close [OF Cons.prems(1)] c by (simp add: t)
  have dom: "dom (h_client_heap ?t) = dom (h_client_heap s)" using c by (auto simp: t keep)
  have closed: "\<exists>cl'. h_client_heap ?t c = Some cl' \<and> hc_lease cl' = hc_lease cl \<and> (hc_lease cl = l \<longrightarrow> hc_closed cl')"
    using c by (auto simp: t keep)
  from Cons.IH [OF ok] Cons.prems(2) dom have IH:
    "host_ok x (fold (close_of_lease l) cs ?t)" "keeps ?t (fold (close_of_lease l) cs ?t)"
    "h_lease_heap (fold (close_of_lease l) cs ?t) = h_lease_heap ?t" "h_events (fold (close_of_lease l) cs ?t) = h_events ?t"
    "dom (h_client_heap (fold (close_of_lease l) cs ?t)) = dom (h_client_heap ?t)"
    "\<forall>c\<in>set cs. \<forall>cl. h_client_heap (fold (close_of_lease l) cs ?t) c = Some cl \<longrightarrow> hc_lease cl = l \<longrightarrow> hc_closed cl"
    by auto
  have "hc_closed cl'" if "h_client_heap (fold (close_of_lease l) cs ?t) c = Some cl'" "hc_lease cl' = l" for cl'
    using closed keeps_clientD [OF IH(2)] that by fastforce
  then show ?case
    using IH keeps_trans [OF ks IH(2)] by (auto simp: dom) (auto simp: t keep split: if_splits)
qed simp

text \<open>Last, the release is queued.\<close>

lemma ok_queue_revoke:
  assumes ok: "host_ok (Some l) s" and l: "h_lease_heap s l = Some le" "hl_revoked le" "\<not> hl_acknowledged le"
    and closed: "\<And>c cl. h_client_heap s c = Some cl \<Longrightarrow> hc_lease cl = l \<Longrightarrow> hc_closed cl"
  shows "host_ok None (host_queue (HostRevoke l) s)"
proof -
  let ?t = "host_queue (HostRevoke l) s"
  have t: "?t = s\<lparr>h_events := h_events s @ [HostRevoke l]\<rparr>" by (simp add: host_queue_def)
  have q: "queue ?t = queue s @ [HostRevoke l]" by (simp add: t queue_def)
  have others: "h_client_heap ?t = h_client_heap s" "h_lease_heap ?t = h_lease_heap s" "h_fds ?t = h_fds s"
    "h_fresh ?t = h_fresh s" "h_serial ?t = h_serial s" "h_clients ?t = h_clients s" "h_leases ?t = h_leases s"
    "h_mcp ?t = h_mcp s" "h_current ?t = h_current s" "h_fault ?t = h_fault s"
    "h_events ?t = h_events s @ [HostRevoke l]" by (simp_all add: t)
  have "client_ok None ?t c cl" if "h_client_heap s c = Some cl" for c cl
    using ok_client [OF ok that] closed [OF that] by (cases "hc_lease cl = l") (auto simp: client_ok_def q others)
  moreover have "lease_ok None ?t k ke" if k: "h_lease_heap s k = Some ke" for k ke
    using ok_lease [OF ok k] l k by (cases "k = l") (auto simp: lease_ok_def q others)
  moreover have "holder_ok ?t d h = holder_ok s d h" for d h by (cases h) (simp_all add: others)
  moreover have "event_ok ?t e = event_ok s e" for e by (cases e) (simp_all add: others)
  moreover have "host_client_count ?t = host_client_count s" by (simp add: host_client_count_def is_open_def others)
  moreover have "owned_key ?t = owned_key s" by (simp add: fun_eq_iff owned_key_def others)
  ultimately show ?thesis
    using ok l(1) by (simp add: host_ok_def lists_ok_def sizes_ok_def serials_ok_def keys_ok_def current_ok_def others q list_all_iff)
qed

lemma keeps_queue_revoke: "keeps s (host_queue (HostRevoke l) s)"
  by (auto simp: keeps_def host_queue_def)

lemma safe_revoke:
  assumes ok: "host_ok None s" and l: "h_lease_heap s l \<noteq> None" shows "safe s (host_revoke l s)"
proof -
  from l obtain le where le: "h_lease_heap s l = Some le" by blast
  show ?thesis
  proof (cases "hl_revoked le")
    case True
    with le show ?thesis by (simp add: host_revoke_def safe_refl ok)
  next
    case False
    let ?t = "s\<lparr>h_lease_heap := (h_lease_heap s)(l \<mapsto> revoked_lease le),
      h_fds := (if hl_listener le \<ge> 0 then (h_fds s)(hl_listener le := None) else h_fds s)\<rparr>"
    let ?u = "fold (close_of_lease l) (h_clients s) ?t"
    note lok = ok_lease [OF ok le]
    have okt: "host_ok (Some l) ?t" by (rule ok_revoked [OF ok le False])
    have keep: "keeps s ?t" using le by (auto simp: keeps_def revoked_lease_def)
    have clients: "set (h_clients s) = dom (h_client_heap s)" using ok by (simp add: host_ok_def lists_ok_def)
    then have "set (h_clients s) \<subseteq> dom (h_client_heap ?t)" by simp
    note all = close_all_of_lease [OF okt this, of l]
    have ack: "\<not> hl_acknowledged le" using lok False by (simp add: lease_ok_def)
    have "hc_closed cl" if "h_client_heap ?u c = Some cl" "hc_lease cl = l" for c cl
    proof -
      have "c \<in> dom (h_client_heap ?u)" using that(1) by blast
      with all clients have "c \<in> set (h_clients s)" by simp
      with all that show ?thesis by blast
    qed
    then have "host_ok None (host_queue (HostRevoke l) ?u)"
      using all ack by (intro ok_queue_revoke [where le = "revoked_lease le"]) (auto simp: revoked_lease_def)
    moreover have "keeps ?u (host_queue (HostRevoke l) ?u)" by (rule keeps_queue_revoke)
    ultimately have "safe s (host_queue (HostRevoke l) ?u)"
      using keep all by (auto simp: safe_def intro: keeps_trans)
    moreover have "host_revoke l s = host_queue (HostRevoke l) ?u"
      using le False lok
      by (auto simp: host_revoke_def Let_def put_lease_def close_fd_def lease_ok_def revoked_lease_def
          intro!: arg_cong [where f = "host_queue (HostRevoke l)"] arg_cong [where f = "fold (close_of_lease l) (h_clients s)"]
            host.equality)
    ultimately show ?thesis by simp
  qed
qed

lemma ok_queue_register:
  assumes ok: "host_ok None s" and l: "h_lease_heap s l = Some le" "\<not> hl_revoked le"
  shows "safe s (host_queue (HostRegister l) s)"
proof -
  let ?t = "host_queue (HostRegister l) s"
  have t: "?t = s\<lparr>h_events := h_events s @ [HostRegister l]\<rparr>" by (simp add: host_queue_def)
  have q: "queue ?t = queue s @ [HostRegister l]" by (simp add: t queue_def)
  have others: "h_client_heap ?t = h_client_heap s" "h_lease_heap ?t = h_lease_heap s" "h_fds ?t = h_fds s"
    "h_fresh ?t = h_fresh s" "h_serial ?t = h_serial s" "h_clients ?t = h_clients s" "h_leases ?t = h_leases s"
    "h_mcp ?t = h_mcp s" "h_current ?t = h_current s" "h_fault ?t = h_fault s"
    "h_events ?t = h_events s @ [HostRegister l]" by (simp_all add: t)
  have "client_ok None ?t c cl" if "h_client_heap s c = Some cl" for c cl
    using ok_client [OF ok that] by (simp add: client_ok_def q others)
  moreover have "lease_ok None ?t k ke" if k: "h_lease_heap s k = Some ke" for k ke
    using ok_lease [OF ok k] l k by (cases "k = l") (auto simp: lease_ok_def q others revokes_zero)
  moreover have "holder_ok ?t d h = holder_ok s d h" for d h by (cases h) (simp_all add: others)
  moreover have "event_ok ?t e = event_ok s e" for e by (cases e) (simp_all add: others)
  moreover have "host_client_count ?t = host_client_count s" by (simp add: host_client_count_def is_open_def others)
  moreover have "owned_key ?t = owned_key s" by (simp add: fun_eq_iff owned_key_def others)
  ultimately have "host_ok None ?t"
    using ok l(1) by (simp add: host_ok_def lists_ok_def sizes_ok_def serials_ok_def keys_ok_def current_ok_def others q list_all_iff)
  moreover have "keeps s ?t" by (auto simp: keeps_def t)
  ultimately show ?thesis by (simp add: safe_def)
qed

end
