(* ===== verification/Host_Leases.thy ===== *)
theory Host_Leases
  imports Host_Invariant
begin

text \<open>
  The operations on leases keep the invariant of the desktop-control service: registering one, its control
  connection, new controllers, and what the maintenance of an idle lease does.
\<close>

lemma safe_fold_step:
  assumes "host_ok None s" "P s"
    and "\<And>a t. host_ok None t \<Longrightarrow> P t \<Longrightarrow> safe t (f a t) \<and> P (f a t)"
  shows "safe s (fold f as s) \<and> P (fold f as s)"
  using assms(1,2)
proof (induction as arbitrary: s)
  case (Cons a as)
  from assms(3) [OF Cons.prems] have step: "safe s (f a s)" "P (f a s)" by simp_all
  then have "safe (f a s) (fold f as (f a s)) \<and> P (fold f as (f a s))"
    by (intro Cons.IH) (auto simp: safe_def)
  with step show ?case by (auto intro: safe_trans)
qed (simp add: safe_refl)

definition unregistered :: "nat \<Rightarrow> host \<Rightarrow> bool" where
  "unregistered l s = (\<exists>le. h_lease_heap s l = Some le \<and> \<not> hl_registered le \<and> \<not> hl_revoked le \<and>
     length (hl_input le) \<le> REGISTRATION_MAXIMUM)"

lemma ok_new_listener:
  assumes ok: "host_ok None s" and l: "h_lease_heap s l = Some le" and rev: "\<not> hl_revoked le" "\<not> hl_registered le"
    "hl_received_fds le = 0" and fd: "possible_fd d s"
  defines "t \<equiv> s\<lparr>h_lease_heap := (h_lease_heap s)(l \<mapsto> le\<lparr>hl_received_fds := 1, hl_listener := d\<rparr>),
    h_fds := (h_fds s)(d \<mapsto> ListenerFd l)\<rparr>"
  shows "safe s t"
proof -
  have heap: "h_lease_heap t k = (if k = l then Some (le\<lparr>hl_received_fds := 1, hl_listener := d\<rparr>) else h_lease_heap s k)" for k
    by (simp add: t_def)
  have others: "h_client_heap t = h_client_heap s" "h_fresh t = h_fresh s" "h_serial t = h_serial s"
    "queue t = queue s" "h_clients t = h_clients s" "h_leases t = h_leases s" "h_mcp t = h_mcp s"
    "h_current t = h_current s" "h_events t = h_events s" "h_fault t = h_fault s"
    "h_fds t = (h_fds s)(d \<mapsto> ListenerFd l)"
    by (simp_all add: t_def)
  have lok: "lease_ok None s l le" by (rule ok_lease [OF ok l])
  then have none: "hl_listener le < 0" using rev by (simp add: lease_ok_def)
  from fd have free: "h_fds s d = None" "0 \<le> d" by (simp_all add: possible_fd_def)
  have "client_ok None t c cl" if c: "h_client_heap s c = Some cl" for c cl
  proof -
    have "hc_closed cl \<or> hc_fd cl \<noteq> d" using ok_fd [OF ok c] free by auto
    with ok_client [OF ok c] l rev show ?thesis by (cases "hc_lease cl = l") (auto simp: client_ok_def heap others)
  qed
  moreover have "lease_ok None t k ke" if "h_lease_heap t k = Some ke" for k ke
  proof (cases "k = l")
    case True
    with that have "ke = le\<lparr>hl_received_fds := 1, hl_listener := d\<rparr>" by (simp add: heap)
    with True lok rev free show ?thesis by (auto simp: lease_ok_def others)
  next
    case False
    with that have "h_lease_heap s k = Some ke" by (simp add: heap)
    from ok_lease [OF ok this] free show ?thesis by (auto simp: lease_ok_def others)
  qed
  moreover have "holder_ok t e h" if "h_fds t e = Some h" for e h
  proof (cases "e = d")
    case True
    with that free show ?thesis by (auto simp: others heap)
  next
    case False
    with that have "h_fds s e = Some h" by (simp add: others)
    from ok_holder [OF ok this] none l False show ?thesis by (cases h) (auto simp: heap others)
  qed
  moreover have "event_ok t e = event_ok s e" for e using l by (cases e) (auto simp: heap others)
  moreover have "host_client_count t = host_client_count s" by (simp add: host_client_count_def is_open_def others)
  moreover have "lists_ok t" using ok l by (auto simp: host_ok_def lists_ok_def others t_def)
  moreover have "owned_key t = owned_key s" by (simp add: fun_eq_iff owned_key_def others)
  ultimately have "host_ok None t"
    using ok by (simp add: host_ok_def sizes_ok_def serials_ok_def keys_ok_def current_ok_def others list_all_iff)
  moreover have "keeps s t" using l by (auto simp: keeps_def t_def)
  ultimately show ?thesis by (simp add: safe_def)
qed

lemma safe_receive_fd:
  assumes ok: "host_ok None s" and u: "unregistered l s"
  shows "safe s (receive_fd l d s) \<and> unregistered l (receive_fd l d s)"
proof -
  from u obtain le where le: "h_lease_heap s l = Some le" "\<not> hl_registered le" "\<not> hl_revoked le"
    "length (hl_input le) \<le> REGISTRATION_MAXIMUM" by (auto simp: unregistered_def)
  consider "\<not> possible_fd d s" | "possible_fd d s" "hl_received_fds le = 0" | "possible_fd d s" "hl_received_fds le \<noteq> 0" by blast
  then show ?thesis
  proof cases
    case 1
    with le u ok show ?thesis by (simp add: receive_fd_def safe_refl)
  next
    case 2
    have "receive_fd l d s = s\<lparr>h_lease_heap := (h_lease_heap s)(l \<mapsto> le\<lparr>hl_received_fds := 1, hl_listener := d\<rparr>),
        h_fds := (h_fds s)(d \<mapsto> ListenerFd l)\<rparr>"
      using 2 le by (intro host.equality) (simp_all add: receive_fd_def put_lease_def)
    with ok_new_listener [OF ok le(1,3,2) 2(2,1)] le show ?thesis by (simp add: unregistered_def)
  next
    case 3
    have "safe s (put_lease l (le\<lparr>hl_received_fds := hl_received_fds le + 1\<rparr>) s)"
      using le by (intro safe_put_lease [OF ok le(1)]) simp_all
    with 3 le show ?thesis by (simp add: receive_fd_def unregistered_def) (simp add: put_lease_def)
  qed
qed

lemma safe_register_line:
  assumes ok: "host_ok None s" and u: "unregistered l s" shows "safe s (host_register_line parse listening l s)"
proof -
  from u obtain le where le: "h_lease_heap s l = Some le" "\<not> hl_registered le" "\<not> hl_revoked le"
    "length (hl_input le) \<le> REGISTRATION_MAXIMUM" by (auto simp: unregistered_def)
  let ?le = "le\<lparr>hl_session := the (json_string (parse (hl_input le)) ''session''),
    hl_wayland := the (json_string (parse (hl_input le)) ''wayland''), hl_registered := True\<rparr>"
  have put: "safe s (put_lease l ?le s)" using le by (intro safe_put_lease [OF ok le(1)]) simp_all
  have heap: "h_lease_heap (put_lease l ?le s) l = Some ?le" by (simp add: put_lease_def)
  have "safe (put_lease l ?le s) (host_queue (HostRegister l) (put_lease l ?le s))"
    using put le by (intro ok_queue_register [OF _ heap]) (auto simp: safe_def)
  with put have "safe s (host_queue (HostRegister l) (put_lease l ?le s))" by (rule safe_trans)
  moreover have "safe s (host_revoke l s)" using le by (intro safe_revoke [OF ok]) simp
  ultimately show ?thesis using le by (simp add: host_register_line_def Let_def)
qed

lemma safe_control_message:
  assumes ok: "host_ok None s" and u: "unregistered l s"
  shows "safe s (on_lease l (\<lambda>le s.
    if bytes = [] \<or> truncated \<or> length (hl_input le) + length bytes > REGISTRATION_MAXIMUM then host_revoke l s
    else let s = put_lease l (le\<lparr>hl_input := hl_input le @ bytes\<rparr>) s
         in if line_end \<notin> set (hl_input le @ bytes) then s else host_register_line parse listening l s) s)"
proof -
  from u obtain le where le: "h_lease_heap s l = Some le" "\<not> hl_registered le" "\<not> hl_revoked le" by (auto simp: unregistered_def)
  show ?thesis
  proof (cases "bytes = [] \<or> truncated \<or> length (hl_input le) + length bytes > REGISTRATION_MAXIMUM")
    case True
    then show ?thesis using le safe_revoke [OF ok, of l] by auto
  next
    case False
    let ?t = "put_lease l (le\<lparr>hl_input := hl_input le @ bytes\<rparr>) s"
    have "safe s ?t"
    proof (rule safe_put_lease [OF ok le(1)])
      assume "\<not> hl_registered (le\<lparr>hl_input := hl_input le @ bytes\<rparr>)" "hl_received_fds (le\<lparr>hl_input := hl_input le @ bytes\<rparr>) = 0"
      then show "hl_listener le < 0" using ok_lease [OF ok le(1)] by (simp add: lease_ok_def)
    qed (use False le in auto)
    moreover have "unregistered l ?t" using False le by (simp add: unregistered_def put_lease_def)
    ultimately have "safe s ?t" "safe s (host_register_line parse listening l ?t)"
      using safe_register_line [of ?t l] by (auto simp: safe_def intro: keeps_trans)
    with False le show ?thesis by (simp add: Let_def)
  qed
qed

lemma safe_control_read:
  assumes ok: "host_ok None s" and l: "h_lease_heap s l = Some le" and src: "hl_source le"
  shows "safe s (host_control_read parse listening l answer s)"
proof -
  note lok = ok_lease [OF ok l]
  have rev: "\<not> hl_revoked le" "length (hl_input le) \<le> REGISTRATION_MAXIMUM" using lok src by (auto simp: lease_ok_def)
  have revoke: "safe s (host_revoke l s)" using l by (intro safe_revoke [OF ok]) simp
  show ?thesis
  proof (cases "hl_registered le")
    case True
    with l revoke safe_refl [OF ok] show ?thesis by (cases answer) (simp_all add: host_control_read_def)
  next
    case False
    show ?thesis
    proof (cases answer)
      case (ControlMessage bytes truncated fds)
      let ?t = "if bytes = [] then s else fold (receive_fd l) fds s"
      have "unregistered l s" using l rev False by (simp add: unregistered_def)
      then have "safe s ?t \<and> unregistered l ?t"
        using safe_fold_step [OF ok, where P = "unregistered l" and f = "receive_fd l" and as = fds] safe_receive_fd ok
        by (simp add: safe_refl)
      then have t: "safe s ?t" "host_ok None ?t" "unregistered l ?t" by (simp_all add: safe_def)
      show ?thesis
        using safe_trans [OF t(1) safe_control_message [OF t(2,3)]] l False ControlMessage
        by (simp add: host_control_read_def Let_def)
    qed (use l revoke safe_refl [OF ok] False in \<open>simp_all add: host_control_read_def\<close>)
  qed
qed

section \<open>Controllers\<close>

lemma ok_new_lease:
  assumes ok: "host_ok None s" and room: "length (h_leases s) < host_max_leases" and fd: "possible_fd peer s"
  defines "l \<equiv> h_fresh s"
  defines "t \<equiv> s\<lparr>h_lease_heap := (h_lease_heap s)(l \<mapsto> new_lease peer), h_leases := h_leases s @ [l],
    h_fresh := l + 1, h_fds := (h_fds s)(peer \<mapsto> ControlFd l)\<rparr>"
  shows "safe s t"
proof -
  have fresh: "h_lease_heap s l = None"
    using ok_lease [OF ok, of l] by (cases "h_lease_heap s l") (auto simp: l_def lease_ok_def)
  have heap: "h_lease_heap t k = (if k = l then Some (new_lease peer) else h_lease_heap s k)" for k by (simp add: t_def)
  have others: "h_client_heap t = h_client_heap s" "h_fresh t = l + 1" "h_serial t = h_serial s"
    "queue t = queue s" "h_clients t = h_clients s" "h_leases t = h_leases s @ [l]" "h_mcp t = h_mcp s"
    "h_current t = h_current s" "h_events t = h_events s" "h_fault t = h_fault s"
    "h_fds t = (h_fds s)(peer \<mapsto> ControlFd l)"
    by (simp_all add: t_def queue_def)
  from fd have free: "h_fds s peer = None" "0 \<le> peer" by (simp_all add: possible_fd_def)
  have "event_ok s e" if "e \<in> set (queue s)" for e using ok that by (simp add: host_ok_def list_all_iff)
  then have unqueued: "HostRegister l \<notin> set (queue s)" "HostRevoke l \<notin> set (queue s)" using fresh by fastforce+
  have "client_ok None t c cl" if c: "h_client_heap s c = Some cl" for c cl
  proof -
    have "hc_closed cl \<or> hc_fd cl \<noteq> peer" using ok_fd [OF ok c] free by auto
    moreover have "hc_lease cl \<noteq> l" using ok_client [OF ok c] fresh by (auto simp: client_ok_def)
    ultimately show ?thesis using ok_client [OF ok c] by (auto simp: client_ok_def heap others l_def)
  qed
  moreover have "lease_ok None t k ke" if "h_lease_heap t k = Some ke" for k ke
  proof (cases "k = l")
    case True
    with that have "ke = new_lease peer" by (simp add: heap)
    with True unqueued free show ?thesis
      by (simp add: lease_ok_def others new_lease_def in_order_free revokes_zero)
  next
    case False
    with that have "h_lease_heap s k = Some ke" by (simp add: heap)
    from ok_lease [OF ok this] free show ?thesis by (auto simp: lease_ok_def others l_def)
  qed
  moreover have "holder_ok t e h" if "h_fds t e = Some h" for e h
  proof (cases "e = peer")
    case True
    with that free show ?thesis by (auto simp: others heap new_lease_def)
  next
    case False
    with that have "h_fds s e = Some h" by (simp add: others)
    from ok_holder [OF ok this] fresh False show ?thesis by (cases h) (auto simp: heap others)
  qed
  moreover have "event_ok s e \<Longrightarrow> event_ok t e" for e by (cases e) (auto simp: heap others)
  then have "list_all (event_ok t) (queue t)" using ok by (auto simp: host_ok_def others list_all_iff)
  moreover have "host_client_count t = host_client_count s" by (simp add: host_client_count_def is_open_def others)
  moreover have "lists_ok t" using ok fresh by (auto simp: host_ok_def lists_ok_def others) (auto simp: t_def)
  moreover have "owned_key t = owned_key s" by (simp add: fun_eq_iff owned_key_def others)
  ultimately have "host_ok None t"
    using ok room by (simp add: host_ok_def sizes_ok_def serials_ok_def keys_ok_def current_ok_def others)
  moreover have "keeps s t" using fresh by (auto simp: keeps_def t_def)
  ultimately show ?thesis by (simp add: safe_def)
qed

lemma safe_accept_control:
  assumes ok: "host_ok None s" shows "safe s (accept_control uid a s)"
proof -
  obtain peer user where a: "a = (peer, user)" by force
  show ?thesis
  proof (cases "\<not> possible_fd peer s \<or> length (h_leases s) \<ge> host_max_leases \<or> (user \<noteq> Some 0 \<and> user \<noteq> Some uid)")
    case True
    then show ?thesis by (auto simp: accept_control_def a safe_refl ok)
  next
    case False
    then have "accept_control uid a s = s\<lparr>h_lease_heap := (h_lease_heap s)(h_fresh s \<mapsto> new_lease peer),
        h_leases := h_leases s @ [h_fresh s], h_fresh := h_fresh s + 1, h_fds := (h_fds s)(peer \<mapsto> ControlFd (h_fresh s))\<rparr>"
      by (intro host.equality) (auto simp add: accept_control_def a Let_def put_lease_def)
    with ok_new_lease [OF ok, of peer] False show ?thesis by simp
  qed
qed

lemma safe_control_accept: "host_ok None s \<Longrightarrow> safe s (host_control_accept uid as s)"
  unfolding host_control_accept_def
  by (rule safe_fold [where P = "\<lambda>_. True"]) (auto intro: safe_accept_control)

section \<open>Trees and idle leases\<close>

lemma safe_baseline: "host_ok None s \<Longrightarrow> safe s (set_tree_baseline vision tree s)"
proof (cases "h_current s")
  case (Some c)
  assume ok: "host_ok None s"
  then obtain cl where c: "h_client_heap s c = Some cl" using Some by (auto simp: host_ok_def current_ok_def)
  note sizes = client_sizes [OF ok c]
  have "safe s (put_client c (cl\<lparr>hc_vision_tree := Some tree\<rparr>) s)" "safe s (put_client c (cl\<lparr>hc_accessibility_tree := Some tree\<rparr>) s)"
    using sizes by (auto intro!: safe_put_client [OF ok c])
  with ok Some c show ?thesis by (simp add: set_tree_baseline_def safe_refl)
qed (simp add: set_tree_baseline_def safe_refl)

lemma safe_clear: "host_ok None s \<Longrightarrow> safe s (host_clear_tree_baselines s)"
  unfolding host_clear_tree_baselines_def
proof (rule safe_fold [where P = "\<lambda>t. set (h_clients s) \<subseteq> dom (h_client_heap t)"])
  fix c t
  assume c: "c \<in> set (h_clients s)" and ok: "host_ok None t" and "set (h_clients s) \<subseteq> dom (h_client_heap t)"
  then obtain cl where cl: "h_client_heap t c = Some cl" by auto
  note sizes = client_sizes [OF ok cl]
  have "safe t (put_client c (cl\<lparr>hc_vision_tree := None, hc_accessibility_tree := None\<rparr>) t)"
    using sizes by (intro safe_put_client [OF ok cl]) simp_all
  with cl show "safe t (on_client c (\<lambda>cl. put_client c (cl\<lparr>hc_vision_tree := None, hc_accessibility_tree := None\<rparr>)) t)" by simp
next
  fix t u
  assume "set (h_clients s) \<subseteq> dom (h_client_heap t)" and k: "keeps t u"
  then show "set (h_clients s) \<subseteq> dom (h_client_heap u)" using keeps_client [OF k] by (auto simp: dom_def)
qed (auto simp: host_ok_def lists_ok_def)

lemma safe_idle:
  assumes ok: "host_ok None s" and l: "h_lease_heap s l \<noteq> None" shows "safe s (idle_lease now l s)"
proof -
  from l obtain le where le: "h_lease_heap s l = Some le" by blast
  note lok = ok_lease [OF ok le]
  have "safe s (put_lease l (le\<lparr>hl_idle_since := t\<rparr>) s)" for t
    using lok by (intro safe_put_lease [OF ok le]) (auto simp: lease_ok_def)
  with le safe_revoke [OF ok l] safe_refl [OF ok] show ?thesis by (simp add: idle_lease_def)
qed

lemma safe_idle_all:
  assumes ok: "host_ok None s" shows "safe s (fold (idle_lease now) (h_leases s) s)"
proof (rule safe_fold [OF ok, where P = "\<lambda>t. set (h_leases s) \<subseteq> dom (h_lease_heap t)"])
  fix t u
  assume "set (h_leases s) \<subseteq> dom (h_lease_heap t)" and k: "keeps t u"
  then show "set (h_leases s) \<subseteq> dom (h_lease_heap u)" using keeps_lease [OF k] by (auto simp: dom_def)
next
  fix l t
  assume l: "l \<in> set (h_leases s)" and t: "host_ok None t" "set (h_leases s) \<subseteq> dom (h_lease_heap t)"
  then have "h_lease_heap t l \<noteq> None" by blast
  then show "safe t (idle_lease now l t)" by (rule safe_idle [OF t(1)])
qed (use ok in \<open>auto simp: host_ok_def lists_ok_def\<close>)

end
