(* ===== verification/Host_Safety.thy ===== *)
theory Host_Safety
  imports Host_Leases
begin

text \<open>
  The desktop-control service as a whole: what handling an event and collecting finished clients and
  leases do to the invariant, that the invariant holds in every reachable state, and what follows from it.
\<close>

section \<open>Taking an event\<close>

definition stable :: "host \<Rightarrow> bool" where
  "stable s = (host_ok None s \<and> phase_ok s)"

text \<open>An event has been taken and no tool is running for it.\<close>

definition handling :: "host_event \<Rightarrow> host \<Rightarrow> bool" where
  "handling e s = (host_ok None s \<and> h_running s = Some e \<and> h_call s = None \<and> m_active (h_mcp s) = None)"

lemma stable_safe: "stable s \<Longrightarrow> safe s t \<Longrightarrow> stable t"
  using keeps_phase by (auto simp: stable_def safe_def)

lemma handling_safe: "handling e s \<Longrightarrow> safe s t \<Longrightarrow> handling e t"
  by (auto simp: handling_def safe_def keeps_def)

lemma handling_ok: "handling e s \<Longrightarrow> host_ok None s"
  by (simp add: handling_def)

lemma ok_move:
  assumes ok: "host_ok None s"
    and same: "h_client_heap t = h_client_heap s" "h_lease_heap t = h_lease_heap s" "h_clients t = h_clients s"
      "h_leases t = h_leases s" "h_serial t = h_serial s" "h_fresh t = h_fresh s" "h_fds t = h_fds s"
      "m_cancelled_ids (h_mcp t) = m_cancelled_ids (h_mcp s)" "h_fault t = h_fault s"
    and q: "queue t = queue s" and e: "calls (h_events t) \<le> calls (h_events s)" and c: "current_ok t"
  shows "host_ok None t"
proof -
  have "client_ok None t = client_ok None s" "lease_ok None t = lease_ok None s"
    by (simp_all add: fun_eq_iff client_ok_def lease_ok_def same q)
  moreover have "holder_ok t d h = holder_ok s d h" for d h by (cases h) (simp_all add: same)
  moreover have "event_ok t e = event_ok s e" for e by (cases e) (simp_all add: same)
  moreover have "host_client_count t = host_client_count s" by (simp add: host_client_count_def is_open_def same)
  moreover have "owned_key t = owned_key s" by (simp add: fun_eq_iff owned_key_def same)
  ultimately show ?thesis
    using ok e c by (simp add: host_ok_def lists_ok_def sizes_ok_def serials_ok_def keys_ok_def same q list_all_iff)
qed

lemma handling_taken:
  assumes "stable s" "h_running s = None" "h_events s = e # es"
  shows "handling e (s\<lparr>h_events := es, h_running := Some e\<rparr>)"
proof -
  let ?t = "s\<lparr>h_events := es, h_running := Some e\<rparr>"
  have "host_ok None ?t"
  proof (rule ok_move [of s])
    show "calls (h_events ?t) \<le> calls (h_events s)" using assms(3) by (cases e) simp_all
    show "current_ok ?t" using assms by (auto simp: stable_def host_ok_def current_ok_def)
  qed (use assms in \<open>simp_all add: stable_def queue_def\<close>)
  then show ?thesis using assms(1,2) by (simp add: handling_def stable_def phase_ok_def)
qed

lemma handling_current:
  assumes h: "handling e s" and c: "h_client_heap s c \<noteq> None"
  shows "handling e (s\<lparr>h_current := Some c\<rparr>)"
proof -
  have "host_ok None (s\<lparr>h_current := Some c\<rparr>)"
    by (rule ok_move [OF handling_ok [OF h]]) (use c in \<open>auto simp: queue_def current_ok_def\<close>)
  then show ?thesis using h by (simp add: handling_def)
qed

section \<open>The end of an event\<close>

lemma finished_call:
  assumes h: "handling (HostCall c d) s" shows "stable (finish_event s)"
proof -
  have ok: "host_ok None s" and run: "h_running s = Some (HostCall c d)" using h by (simp_all add: handling_def)
  have q: "queue s = HostCall c d # h_events s" by (simp add: queue_def run)
  then obtain cl where c: "h_client_heap s c = Some cl" using ok by (auto simp: host_ok_def)
  let ?t = "finish_event s"
  have t: "?t = s\<lparr>h_client_heap := (h_client_heap s)(c \<mapsto> cl\<lparr>hc_pending := hc_pending cl - 1\<rparr>), h_current := None, h_running := None\<rparr>"
    using c run by (simp add: finish_event_def put_client_def Let_def)
  have heap: "h_client_heap ?t k = (if k = c then Some (cl\<lparr>hc_pending := hc_pending cl - 1\<rparr>) else h_client_heap s k)" for k
    by (simp add: t)
  have others: "h_lease_heap ?t = h_lease_heap s" "h_fds ?t = h_fds s" "h_fresh ?t = h_fresh s" "h_serial ?t = h_serial s"
    "queue ?t = h_events s" "h_clients ?t = h_clients s" "h_leases ?t = h_leases s" "h_mcp ?t = h_mcp s"
    "h_current ?t = None" "h_events ?t = h_events s" "h_fault ?t = h_fault s" "h_running ?t = None" "h_call ?t = h_call s"
    by (simp_all add: t queue_def)
  have "client_ok None ?t e el" if "h_client_heap ?t e = Some el" for e el
  proof (cases "e = c")
    case True
    with that have "el = cl\<lparr>hc_pending := hc_pending cl - 1\<rparr>" by (simp add: heap)
    with ok_client [OF ok c] True show ?thesis by (simp add: client_ok_def q others)
  next
    case False
    with that have "h_client_heap s e = Some el" by (simp add: heap)
    from ok_client [OF ok this] False show ?thesis by (simp add: client_ok_def q others)
  qed
  moreover have "lease_ok None ?t l le" if "h_lease_heap s l = Some le" for l le
    using ok_lease [OF ok that] by (simp add: lease_ok_def q others)
  moreover have "holder_ok ?t e h" if "h_fds s e = Some h" for e h
    using ok_holder [OF ok that] c by (cases h) (auto simp: heap others)
  moreover have "event_ok ?t e = event_ok s e" for e using c by (cases e) (auto simp: heap others)
  moreover have "is_open e ?t = is_open e s" for e using c by (simp add: is_open_def heap)
  then have "host_client_count ?t = host_client_count s" unfolding host_client_count_def by (simp add: others)
  moreover have "lists_ok ?t" using ok c by (auto simp: host_ok_def lists_ok_def others t)
  moreover have "serials_ok ?t" using ok c unfolding host_ok_def serials_ok_def t by (auto split: if_splits)
  moreover have "owned_key ?t k" if "owned_key s k" for k
    using that c by (auto simp: owned_key_def t) (metis option.inject)
  then have "keys_ok ?t" using ok by (auto simp: host_ok_def keys_ok_def others list_all_iff)
  moreover have "current_ok ?t" by (simp add: current_ok_def others)
  ultimately have "host_ok None ?t" using ok by (simp add: host_ok_def q sizes_ok_def others list_all_iff)
  then show ?thesis using h by (simp add: stable_def phase_ok_def others handling_def)
qed

lemma finished_register:
  assumes h: "handling (HostRegister l) s" shows "stable (finish_event s)"
proof -
  have ok: "host_ok None s" and run: "h_running s = Some (HostRegister l)" using h by (simp_all add: handling_def)
  have q: "queue s = HostRegister l # h_events s" by (simp add: queue_def run)
  let ?t = "finish_event s"
  have others: "h_client_heap ?t = h_client_heap s" "h_lease_heap ?t = h_lease_heap s" "h_fds ?t = h_fds s"
    "h_fresh ?t = h_fresh s" "h_serial ?t = h_serial s"
    "queue ?t = h_events s" "h_clients ?t = h_clients s" "h_leases ?t = h_leases s" "h_mcp ?t = h_mcp s"
    "h_current ?t = None" "h_events ?t = h_events s" "h_fault ?t = h_fault s" "h_running ?t = None" "h_call ?t = h_call s"
    by (simp_all add: finish_event_def queue_def run)
  have "client_ok None ?t c cl" if "h_client_heap s c = Some cl" for c cl
    using ok_client [OF ok that] by (simp add: client_ok_def q others)
  moreover have "lease_ok None ?t k ke" if "h_lease_heap s k = Some ke" for k ke
    using ok_lease [OF ok that] by (auto simp: lease_ok_def q others)
  moreover have "holder_ok ?t e h = holder_ok s e h" for e h by (cases h) (simp_all add: others)
  moreover have "event_ok ?t e = event_ok s e" for e by (cases e) (simp_all add: others)
  moreover have "host_client_count ?t = host_client_count s" by (simp add: host_client_count_def is_open_def others)
  moreover have "owned_key ?t = owned_key s" by (simp add: fun_eq_iff owned_key_def others)
  ultimately have "host_ok None ?t"
    using ok by (simp add: host_ok_def lists_ok_def sizes_ok_def serials_ok_def keys_ok_def current_ok_def others q list_all_iff)
  then show ?thesis using h by (simp add: stable_def phase_ok_def others handling_def)
qed

text \<open>The release of a lease is acknowledged: nothing that is queued registers it any more.\<close>

lemma finished_revoke:
  assumes h: "handling (HostRevoke l) s" shows "stable (acknowledge l s)"
proof -
  have ok: "host_ok None s" and run: "h_running s = Some (HostRevoke l)" using h by (simp_all add: handling_def)
  have q: "queue s = HostRevoke l # h_events s" by (simp add: queue_def run)
  then obtain le where l: "h_lease_heap s l = Some le" using ok by (auto simp: host_ok_def)
  note lok = ok_lease [OF ok l]
  have one: "revokes l (queue s) \<noteq> 0" by (simp add: q)
  then have rev: "hl_revoked le" "\<not> hl_acknowledged le" "revokes l (h_events s) = 0"
    using lok by (simp_all add: lease_ok_def q split: if_splits)
  have reg: "HostRegister l \<notin> set (h_events s)" using lok by (simp add: lease_ok_def q)
  let ?t = "acknowledge l s"
  have heap: "h_lease_heap ?t k = (if k = l then Some (le\<lparr>hl_acknowledged := True\<rparr>) else h_lease_heap s k)" for k
    using l run by (simp add: acknowledge_def finish_event_def put_lease_def host_act_def)
  have others: "h_client_heap ?t = h_client_heap s" "h_fds ?t = h_fds s"
    "h_fresh ?t = h_fresh s" "h_serial ?t = h_serial s"
    "queue ?t = h_events s" "h_clients ?t = h_clients s" "h_leases ?t = h_leases s" "h_mcp ?t = h_mcp s"
    "h_current ?t = None" "h_events ?t = h_events s" "h_fault ?t = h_fault s" "h_running ?t = None" "h_call ?t = h_call s"
    using l run by (simp_all add: acknowledge_def finish_event_def queue_def put_lease_def host_act_def)
  have "client_ok None ?t c cl" if "h_client_heap s c = Some cl" for c cl
    using ok_client [OF ok that] l by (cases "hc_lease cl = l") (auto simp: client_ok_def q others heap)
  moreover have "lease_ok None ?t k ke" if "h_lease_heap ?t k = Some ke" for k ke
  proof (cases "k = l")
    case True
    with that have "ke = le\<lparr>hl_acknowledged := True\<rparr>" by (simp add: heap)
    with lok True rev reg show ?thesis by (simp add: lease_ok_def others q in_order_free)
  next
    case False
    with that have "h_lease_heap s k = Some ke" by (simp add: heap)
    from ok_lease [OF ok this] False show ?thesis by (simp add: lease_ok_def others q)
  qed
  moreover have "holder_ok ?t e h" if "h_fds s e = Some h" for e h
    using ok_holder [OF ok that] l by (cases h) (auto simp: others heap)
  moreover have "event_ok ?t e = event_ok s e" for e using l by (cases e) (auto simp: others heap)
  moreover have "host_client_count ?t = host_client_count s" by (simp add: host_client_count_def is_open_def others)
  moreover have "owned_key ?t = owned_key s" by (simp add: fun_eq_iff owned_key_def others)
  moreover have "dom (h_lease_heap ?t) = dom (h_lease_heap s)" using l by (auto simp: heap split: if_splits)
  then have "lists_ok ?t" using ok by (simp add: host_ok_def lists_ok_def others)
  ultimately have "host_ok None ?t"
    using ok by (simp add: host_ok_def sizes_ok_def serials_ok_def keys_ok_def current_ok_def others q list_all_iff)
  then show ?thesis using h by (simp add: stable_def phase_ok_def others handling_def)
qed

section \<open>Calls\<close>

lemma request_outcome_keeps:
  "request_outcome no_vision instructions request m = (out, m') \<Longrightarrow>
     m_cancelled_ids m' = m_cancelled_ids m \<and> m_active m' = m_active m"
  by (auto simp: request_outcome_def method_outcome_def Let_def split: option.splits if_splits)

lemma handling_mcp:
  assumes h: "handling e s" and m: "m_cancelled_ids m = m_cancelled_ids (h_mcp s)" "m_active m = m_active (h_mcp s)"
  shows "handling e (s\<lparr>h_mcp := m\<rparr>)"
proof (rule handling_safe [OF h])
  have "keys_ok s" using handling_ok [OF h] by (simp add: host_ok_def)
  then show "safe s (s\<lparr>h_mcp := m\<rparr>)" using m by (intro safe_mcp [OF handling_ok [OF h]]) (simp_all add: keys_ok_def)
qed

lemma finished_answer:
  "handling (HostCall c d) s \<Longrightarrow> stable (finish_event (host_send_line line s))"
  using finished_call handling_safe safe_send_line handling_ok by blast

lemma ok_begin_call:
  "host_ok None s \<Longrightarrow> m_cancelled_ids m = m_cancelled_ids (h_mcp s) \<Longrightarrow> host_ok None (s\<lparr>h_mcp := begin_call key m, h_call := v\<rparr>)"
  by (rule ok_frame [of None s]) (simp_all add: begin_call_def)

lemma handling_finish_call:
  assumes ok: "host_ok None s" and run: "h_running s = Some e"
  shows "handling e (s\<lparr>h_mcp := finish_call key (h_mcp s), h_call := None\<rparr>)"
proof -
  have ids: "length (removeAll key (m_cancelled_ids (h_mcp s))) \<le> 256"
    "list_all (owned_key s) (removeAll key (m_cancelled_ids (h_mcp s)))"
    using ok by (auto simp: host_ok_def keys_ok_def list_all_iff intro: le_trans [OF length_removeAll_less_eq])
  have "host_ok None (s\<lparr>h_mcp := finish_call key (h_mcp s)\<rparr>)"
    using ids by (intro ok_mcp [OF ok]) (simp_all add: finish_call_def)
  then have "host_ok None (s\<lparr>h_mcp := finish_call key (h_mcp s), h_call := None\<rparr>)"
    by (rule ok_frame) simp_all
  then show ?thesis using run by (simp add: handling_def finish_call_def)
qed

lemma stable_conclude:
  assumes ok: "host_ok None s" and run: "h_running s = Some (HostCall c d)"
  shows "stable (conclude_call encode key i result s)"
  using handling_finish_call [OF ok run, of key] finished_answer finished_call
  by (simp add: conclude_call_def Let_def)

lemma stable_request:
  assumes h: "handling (HostCall c d) s" and cur: "h_current s = Some c" and c: "h_client_heap s c = Some cl"
  shows "stable (start_request encode instructions c (hc_serial cl) request s)"
proof -
  obtain out m where o: "request_outcome False instructions (Some request) (h_mcp s) = (out, m)" by force
  note keep = request_outcome_keeps [OF o]
  have hm: "handling (HostCall c d) (s\<lparr>h_mcp := m\<rparr>)" using keep by (intro handling_mcp [OF h]) simp_all
  show ?thesis
  proof (cases out)
    case Silent
    with o finished_call [OF hm] show ?thesis by (simp add: start_request_def)
  next
    case (Respond r)
    with o finished_answer [OF hm] show ?thesis by (simp add: start_request_def)
  next
    case (CallTool i parameters result)
    let ?key = "client_request_key encode (hc_serial cl) (Some i)"
    let ?t = "s\<lparr>h_mcp := begin_call ?key m\<rparr>"
    have okt: "host_ok None (?t\<lparr>h_call := v\<rparr>)" for v using ok_begin_call [OF handling_ok [OF h], of m] keep by simp
    have "?t\<lparr>h_call := h_call s\<rparr> = ?t" by simp
    then have ok: "host_ok None ?t" using okt by metis
    show ?thesis
    proof (cases "selected_tool False parameters")
      case (Inl e)
      have "stable (conclude_call encode ?key i (failed_result (fst e) (snd e) result) ?t)"
        using h by (intro stable_conclude [OF ok]) (simp add: handling_def)
      with Inl CallTool o show ?thesis by (cases e) (simp add: start_request_def Let_def)
    next
      case (Inr e)
      let ?u = "host_act (Executes c) (?t\<lparr>h_call := Some (?key, i, result)\<rparr>)"
      have "host_ok None ?u" using safe_act [OF okt] by (simp add: safe_def)
      moreover have "g_str_has_prefix ?key (client_prefix (hc_serial cl))" by (simp add: client_request_key_def)
      then have "phase_ok ?u" using h cur c by (simp add: phase_ok_def host_act_def handling_def begin_call_def)
      ultimately have "stable ?u" by (simp add: stable_def)
      with Inr CallTool o show ?thesis by (simp add: start_request_def Let_def)
    qed
  qed
qed

lemma stable_take:
  assumes s: "stable s" and run: "h_running s = None" shows "stable (take_event encode instructions s)"
proof (cases "h_events s")
  case (Cons e es)
  let ?t = "s\<lparr>h_events := es, h_running := Some e\<rparr>"
  have h: "handling e ?t" by (rule handling_taken [OF s run Cons])
  have "event_ok ?t e" using handling_ok [OF h] by (simp add: host_ok_def queue_def)
  show ?thesis
  proof (cases e)
    case (HostCall c d)
    with \<open>event_ok ?t e\<close> obtain cl where c: "h_client_heap s c = Some cl" by auto
    have hc: "handling (HostCall c d) (?t\<lparr>h_current := Some c\<rparr>)"
      using handling_current [OF h, of c] HostCall c by simp
    then have "stable (start_call encode instructions c d ?t)"
      using c finished_call [OF hc] finished_answer [OF hc] stable_request [OF hc, of cl]
      by (simp add: start_call_def split: option.split)
    with Cons HostCall show ?thesis by (simp add: take_event_def)
  next
    case (HostRegister l)
    with \<open>event_ok ?t e\<close> obtain le where l: "h_lease_heap s l = Some le" by auto
    have "stable (?t\<lparr>h_mcp := (h_mcp s)\<lparr>m_cancelled := False\<rparr>\<rparr>)"
      using handling_mcp [OF h, of "(h_mcp s)\<lparr>m_cancelled := False\<rparr>"] HostRegister s run
      by (simp add: stable_def handling_def phase_ok_def)
    with Cons HostRegister finished_register h l show ?thesis
      by (simp add: take_event_def start_register_def)
  next
    case (HostRevoke l)
    with Cons finished_revoke h show ?thesis by (simp add: take_event_def)
  qed
qed (use s in \<open>simp add: take_event_def\<close>)

lemma running_register:
  "stable s \<Longrightarrow> h_running s = Some (HostRegister l) \<Longrightarrow> handling (HostRegister l) s"
  by (simp add: stable_def handling_def phase_ok_def)

lemma running_call:
  assumes "stable s" "h_call s \<noteq> None" obtains c d where "h_running s = Some (HostCall c d)" "h_current s = Some c"
  using assms by (auto simp: stable_def phase_ok_def split: option.splits host_event.splits)

lemma stable_end_call:
  assumes s: "stable s" shows "stable (end_call encode members s)"
proof (cases "h_call s")
  case (Some v)
  obtain key i result where v: "v = (key, i, result)" by (cases v)
  from Some s obtain c d where run: "h_running s = Some (HostCall c d)" by (auto elim: running_call)
  have "host_ok None s" using s by (simp add: stable_def)
  from stable_conclude [OF this run] Some v show ?thesis by (simp add: end_call_def)
qed (use s in \<open>simp add: end_call_def\<close>)

lemma stable_end_register:
  assumes s: "stable s" and run: "h_running s = Some (HostRegister l)"
  shows "stable (end_register bound sent l s)"
proof -
  have h: "handling (HostRegister l) s" by (rule running_register [OF s run])
  note ok = handling_ok [OF h]
  have "event_ok s (HostRegister l)" using ok run by (simp add: host_ok_def queue_def)
  then have l: "h_lease_heap s l \<noteq> None" by simp
  have bound: "safe t (on_lease l (\<lambda>le s. if hl_revoked le then s
      else put_lease l (le\<lparr>hl_accept_source := True\<rparr>) (s\<lparr>h_registered_once := True\<rparr>)) t)"
    if st: "safe s t" for t
  proof -
    from st have okt: "host_ok None t" and lt: "h_lease_heap t l \<noteq> None" using keeps_lease l by (auto simp: safe_def)
    then obtain le where le: "h_lease_heap t l = Some le" by blast
    let ?u = "t\<lparr>h_registered_once := True\<rparr>"
    have u: "safe t ?u" by (rule frame_safe [OF okt]) simp_all
    then have "host_ok None ?u" "h_lease_heap ?u l = Some le" using le by (simp_all add: safe_def)
    note put = safe_put_lease [OF this, of "le\<lparr>hl_accept_source := True\<rparr>"]
    have "safe t (put_lease l (le\<lparr>hl_accept_source := True\<rparr>) ?u)" if "\<not> hl_revoked le"
      using safe_trans [OF u put] that ok_lease [OF okt le] by (simp add: lease_ok_def)
    with le show ?thesis by (simp add: safe_refl okt)
  qed
  have "safe s (if sent then host_act (Ready l) s else host_revoke l s)" using safe_act ok safe_revoke [OF ok l] by simp
  from this safe_trans [OF this bound [OF this]] safe_revoke [OF ok l]
  show ?thesis
    unfolding end_register_def Let_def by (auto intro!: finished_register handling_safe [OF h])
qed

section \<open>Collecting\<close>

definition resting :: "host \<Rightarrow> bool" where
  "resting s = (stable s \<and> h_running s = None)"

lemma resting_safe: "resting s \<Longrightarrow> safe s t \<Longrightarrow> resting t"
  using stable_safe by (auto simp: resting_def safe_def keeps_def)

lemma resting_ok: "resting s \<Longrightarrow> host_ok None s"
  by (simp add: resting_def stable_def)

lemma resting_client:
  assumes s: "resting s" and c: "h_client_heap s c \<noteq> None"
  shows "resting (collect_client c s) \<and> dom (h_client_heap s) - {c} \<subseteq> dom (h_client_heap (collect_client c s)) \<and>
    h_leases (collect_client c s) = h_leases s"
proof -
  from c obtain cl where cl: "h_client_heap s c = Some cl" by blast
  note ok = resting_ok [OF s]
  show ?thesis
  proof (cases "hc_closed cl \<and> hc_pending cl = 0 \<and> h_current s \<noteq> Some c")
    case False
    then have "collect_client c s = s" using cl by (auto simp: collect_client_def)
    with s show ?thesis by auto
  next
    case True
    let ?t = "collect_client c s"
    have t: "?t = s\<lparr>h_client_heap := (h_client_heap s)(c := None), h_clients := filter (\<lambda>x. x \<noteq> c) (h_clients s)\<rparr>"
      using cl True by (simp add: collect_client_def)
    have heap: "h_client_heap ?t k = (if k = c then None else h_client_heap s k)" for k by (simp add: t)
    have others: "h_lease_heap ?t = h_lease_heap s" "h_fds ?t = h_fds s" "h_fresh ?t = h_fresh s" "h_serial ?t = h_serial s"
      "queue ?t = queue s" "h_leases ?t = h_leases s" "h_mcp ?t = h_mcp s"
      "h_current ?t = h_current s" "h_events ?t = h_events s" "h_fault ?t = h_fault s" "h_running ?t = h_running s" "h_call ?t = h_call s"
      "h_clients ?t = filter (\<lambda>x. x \<noteq> c) (h_clients s)"
      by (simp_all add: t)
    have none: "HostCall c d \<notin> set (queue s)" for d
      using ok_client [OF ok cl] True calls_for_zero [of c "queue s"] by (auto simp: client_ok_def)
    have "client_ok None ?t e el" if "h_client_heap s e = Some el" for e el
      using ok_client [OF ok that] by (simp add: client_ok_def others)
    then have "\<forall>e el. h_client_heap ?t e = Some el \<longrightarrow> client_ok None ?t e el" by (simp add: heap)
    moreover have "lease_ok None ?t = lease_ok None s" by (simp add: fun_eq_iff lease_ok_def others)
    moreover have "holder_ok ?t d h" if "h_fds s d = Some h" for d h
      using ok_holder [OF ok that] True cl by (cases h) (auto simp: heap others)
    moreover have "event_ok ?t e" if "e \<in> set (queue s)" for e
      using ok none that by (cases e) (auto simp: host_ok_def list_all_iff heap others)
    then have "list_all (event_ok ?t) (queue s)" by (simp add: list_all_iff)
    moreover have "is_open e ?t = is_open e s" for e using cl True by (simp add: is_open_def heap)
    then have "host_client_count ?t \<le> host_client_count s"
      unfolding host_client_count_def others filter_filter by (intro open_filter_le) simp
    moreover have "lists_ok ?t" using ok by (auto simp: host_ok_def lists_ok_def others t)
    moreover have "serials_ok ?t" using ok unfolding host_ok_def serials_ok_def by (auto simp: heap split: if_splits)
    moreover have "owned_key ?t k" if "owned_key s k" for k
    proof -
      from that obtain e el where "h_client_heap s e = Some el" "\<not> hc_closed el" "g_str_has_prefix k (client_prefix (hc_serial el))"
        by (auto simp: owned_key_def)
      moreover from this True cl have "e \<noteq> c" by auto
      ultimately show ?thesis by (auto simp: owned_key_def heap)
    qed
    then have "keys_ok ?t" using ok by (auto simp: host_ok_def keys_ok_def others list_all_iff)
    moreover have "current_ok ?t" using ok True by (auto simp: host_ok_def current_ok_def heap others)
    ultimately have "host_ok None ?t" using ok by (simp add: host_ok_def sizes_ok_def others)
    then have "resting ?t" using s by (auto simp: resting_def stable_def phase_ok_def others)
    then show ?thesis by (auto simp: heap others)
  qed
qed

lemma resting_clients:
  "resting s \<Longrightarrow> distinct cs \<Longrightarrow> set cs \<subseteq> dom (h_client_heap s) \<Longrightarrow>
     resting (fold collect_client cs s) \<and> h_leases (fold collect_client cs s) = h_leases s"
proof (induction cs arbitrary: s)
  case (Cons c cs)
  then have "h_client_heap s c \<noteq> None" by auto
  note step = resting_client [OF Cons.prems(1) this]
  have "set cs \<subseteq> dom (h_client_heap s) - {c}" using Cons.prems by auto
  then have "set cs \<subseteq> dom (h_client_heap (collect_client c s))" using step by (meson subset_trans)
  with Cons.IH [of "collect_client c s"] step Cons.prems(2) show ?case by simp
qed simp

lemma resting_lease:
  assumes s: "resting s" and l: "h_lease_heap s l \<noteq> None"
  shows "resting (collect_lease l s) \<and> dom (h_lease_heap s) - {l} \<subseteq> dom (h_lease_heap (collect_lease l s))"
proof -
  from l obtain le where le: "h_lease_heap s l = Some le" by blast
  note ok = resting_ok [OF s]
  note lok = ok_lease [OF ok le]
  show ?thesis
  proof (cases "hl_acknowledged le \<and> \<not> referenced l s")
    case False
    then have "collect_lease l s = s" using le by (auto simp: collect_lease_def)
    with s show ?thesis by auto
  next
    case True
    let ?t = "collect_lease l s"
    have heap: "h_lease_heap ?t k = (if k = l then None else h_lease_heap s k)" for k
      using le True lok by (simp add: collect_lease_def Let_def close_fd_def lease_ok_def)
    have fds: "h_fds ?t d = (if 0 \<le> hl_control le \<and> d = hl_control le then None else h_fds s d)" for d
      using le True lok by (simp add: collect_lease_def Let_def close_fd_def lease_ok_def)
    have others: "h_client_heap ?t = h_client_heap s" "h_fresh ?t = h_fresh s" "h_serial ?t = h_serial s"
      "queue ?t = queue s" "h_clients ?t = h_clients s" "h_mcp ?t = h_mcp s"
      "h_current ?t = h_current s" "h_events ?t = h_events s" "h_fault ?t = h_fault s" "h_running ?t = h_running s" "h_call ?t = h_call s"
      "h_leases ?t = filter (\<lambda>x. x \<noteq> l) (h_leases s)"
      using le True lok by (simp_all add: collect_lease_def Let_def close_fd_def lease_ok_def)
    have control: "h_fds s (hl_control le) = Some (ControlFd l)" if "0 \<le> hl_control le" using lok that by (simp add: lease_ok_def)
    have unused: "hc_lease cl \<noteq> l" if c: "h_client_heap s c = Some cl" for c cl
    proof -
      have "c \<in> set (h_clients s)" using ok c by (auto simp: host_ok_def lists_ok_def)
      with True c show ?thesis by (force simp: referenced_def list_ex_iff)
    qed
    have unqueued: "HostRegister l \<notin> set (queue s)" "HostRevoke l \<notin> set (queue s)"
      using lok True by (auto simp: lease_ok_def revokes_zero)
    have "client_ok None ?t c cl" if "h_client_heap s c = Some cl" for c cl
    proof -
      have "hc_closed cl \<or> hc_fd cl \<noteq> hl_control le \<or> hl_control le < 0" using ok_fd [OF ok that] control by force
      with ok_client [OF ok that] unused [OF that] show ?thesis
        by (cases "hc_closed cl") (auto simp: client_ok_def others heap fds)
    qed
    moreover have "lease_ok None ?t k ke" if "h_lease_heap ?t k = Some ke" for k ke
    proof -
      from that have k: "k \<noteq> l" "h_lease_heap s k = Some ke" by (auto simp: heap split: if_splits)
      from ok_lease [OF ok k(2)] k(1) control show ?thesis by (auto simp: lease_ok_def others fds)
    qed
    moreover have "holder_ok ?t d h" if "h_fds ?t d = Some h" for d h
    proof -
      from that have d: "h_fds s d = Some h" "\<not> (0 \<le> hl_control le \<and> d = hl_control le)" by (auto simp: fds split: if_splits)
      have "hl_listener le < 0" using lok True by (simp add: lease_ok_def)
      with ok_holder [OF ok d(1)] d(2) le show ?thesis by (cases h) (auto simp: heap others)
    qed
    moreover have "event_ok ?t e" if "e \<in> set (queue s)" for e
      using ok unqueued that by (cases e) (auto simp: host_ok_def list_all_iff heap others)
    then have "list_all (event_ok ?t) (queue s)" by (simp add: list_all_iff)
    moreover have "host_client_count ?t = host_client_count s" by (simp add: host_client_count_def is_open_def others)
    moreover have "dom (h_lease_heap ?t) = dom (h_lease_heap s) - {l}" by (auto simp: heap split: if_splits)
    then have "lists_ok ?t" using ok by (auto simp: host_ok_def lists_ok_def others)
    moreover have "length (h_leases s) \<le> host_max_leases" using ok by (simp add: host_ok_def sizes_ok_def)
    then have "length (filter (\<lambda>x. x \<noteq> l) (h_leases s)) \<le> host_max_leases" by (rule le_trans [OF length_filter_le])
    moreover have "owned_key ?t = owned_key s" by (simp add: fun_eq_iff owned_key_def others)
    ultimately have "host_ok None ?t"
      using ok by (simp add: host_ok_def sizes_ok_def serials_ok_def keys_ok_def current_ok_def others)
    then have "resting ?t" using s by (auto simp: resting_def stable_def phase_ok_def others)
    then show ?thesis by (auto simp: heap)
  qed
qed

lemma resting_leases:
  "resting s \<Longrightarrow> distinct ls \<Longrightarrow> set ls \<subseteq> dom (h_lease_heap s) \<Longrightarrow> resting (fold collect_lease ls s)"
proof (induction ls arbitrary: s)
  case (Cons l ls)
  then have "h_lease_heap s l \<noteq> None" by auto
  note step = resting_lease [OF Cons.prems(1) this]
  have "set ls \<subseteq> dom (h_lease_heap s) - {l}" using Cons.prems by auto
  then have "set ls \<subseteq> dom (h_lease_heap (collect_lease l s))" using step by (meson subset_trans)
  with Cons.IH [of "collect_lease l s"] step Cons.prems(2) show ?case by simp
qed simp

lemma resting_maintain:
  assumes "resting s" shows "resting (maintain now s)"
proof -
  let ?t = "fold (idle_lease now) (h_leases s) s"
  let ?u = "fold collect_client (rev (h_clients ?t)) ?t"
  have t: "resting ?t" using safe_idle_all [OF resting_ok [OF assms]] by (rule resting_safe [OF assms])
  have "lists_ok ?t" using resting_ok [OF t] by (simp add: host_ok_def)
  then have u: "resting ?u \<and> h_leases ?u = h_leases ?t"
    by (intro resting_clients [OF t]) (auto simp: lists_ok_def)
  then have "lists_ok ?u" using resting_ok by (simp add: host_ok_def)
  then have "resting (fold collect_lease (rev (h_leases ?u)) ?u)"
    using u by (intro resting_leases) (auto simp: lists_ok_def)
  then show ?thesis by (simp add: maintain_def host_collect_def Let_def)
qed

section \<open>The service\<close>

lemma stable_initial: "host_init s \<Longrightarrow> stable s"
proof (induction rule: host_init.induct)
  case 1
  show ?case
    by (simp add: no_host_def stable_def host_ok_def phase_ok_def lists_ok_def sizes_ok_def serials_ok_def keys_ok_def
        current_ok_def queue_def host_client_count_def initial_mcp_def)
next
  case (2 listener)
  then show ?case
    by (simp add: start_test_def put_lease_def no_host_def stable_def host_ok_def phase_ok_def lists_ok_def sizes_ok_def serials_ok_def
        keys_ok_def current_ok_def queue_def host_client_count_def initial_mcp_def lease_ok_def new_lease_def host_max_leases_def)
qed

lemma stable_step:
  assumes "stable s" "host_step parse encode instructions uid s t" shows "stable t"
  using assms(2,1)
proof (cases rule: host_step.cases)
  case (step_take)
  with stable_take assms(1) show ?thesis by simp
next
  case step_end_call
  with stable_end_call assms(1) show ?thesis by simp
next
  case step_end_register
  with stable_end_register assms(1) show ?thesis by simp
next
  case step_maintain
  with resting_maintain [of s] assms(1) show ?thesis by (simp add: resting_def)
next
  case step_read
  then show ?thesis using stable_safe [OF assms(1) safe_read] assms(1) by (simp add: stable_def)
next
  case (step_write c cl answer broken)
  then show ?thesis using stable_safe [OF assms(1) safe_write] assms(1) by (simp add: stable_def)
next
  case step_accept
  then show ?thesis using stable_safe [OF assms(1) safe_accept] assms(1) by (simp add: stable_def)
next
  case step_control_read
  then show ?thesis using stable_safe [OF assms(1) safe_control_read] assms(1) by (simp add: stable_def)
next
  case step_control_accept
  then show ?thesis using stable_safe [OF assms(1) safe_control_accept] assms(1) by (simp add: stable_def)
next
  case step_baseline
  then show ?thesis using stable_safe [OF assms(1) safe_baseline] assms(1) by (simp add: stable_def)
next
  case step_clear
  then show ?thesis using stable_safe [OF assms(1) safe_clear] assms(1) by (simp add: stable_def)
qed

interpretation host: inductive_invariant host_init "host_step parse encode instructions uid" stable
  for parse encode instructions uid
  by unfold_locales (auto intro: stable_initial stable_step)

end
