(* ===== verification/Host_Guarantees.thy ===== *)
theory Host_Guarantees
  imports Host_Safety
begin

section \<open>What was executed\<close>

definition executes :: "nat \<Rightarrow> host \<Rightarrow> nat" where
  "executes c s = length (filter (\<lambda>a. a = Executes c) (h_trace s))"

text \<open>Nothing but the start of a call is traced as an execution.\<close>

definition idle_trace :: "host \<Rightarrow> host \<Rightarrow> bool" where
  "idle_trace s t = (\<forall>c. executes c t = executes c s)"

lemma idle_trace_refl [simp]: "idle_trace s s"
  by (simp add: idle_trace_def)

lemma idle_trace_trans: "idle_trace s t \<Longrightarrow> idle_trace t u \<Longrightarrow> idle_trace s u"
  by (simp add: idle_trace_def)

lemma same_trace: "h_trace t = h_trace s \<Longrightarrow> idle_trace s t"
  by (simp add: idle_trace_def executes_def)

lemma trace_act: "(case a of Executes _ \<Rightarrow> False | _ \<Rightarrow> True) \<Longrightarrow> idle_trace s (host_act a s)"
  by (cases a) (simp_all add: idle_trace_def executes_def host_act_def)

lemma trace_put [simp]: "h_trace (put_client c cl s) = h_trace s" "h_trace (put_lease l le s) = h_trace s"
  "h_trace (fault s) = h_trace s" "h_trace (close_fd d h s) = h_trace s"
  by (simp_all add: put_client_def put_lease_def fault_def close_fd_def)

lemma trace_on_client: "(\<And>cl. h_trace (f cl s) = h_trace s) \<Longrightarrow> h_trace (on_client c f s) = h_trace s"
  by (simp add: on_client_def split: option.split)

lemma trace_on_lease: "(\<And>le. h_trace (f le s) = h_trace s) \<Longrightarrow> h_trace (on_lease l f s) = h_trace s"
  by (simp add: on_lease_def split: option.split)

lemma trace_fold: "(\<And>a s. h_trace (f a s) = h_trace s) \<Longrightarrow> h_trace (fold f as s) = h_trace s"
  by (induction as arbitrary: s) simp_all

lemma trace_close [simp]: "h_trace (host_client_close c s) = h_trace s"
  unfolding host_client_close_def by (rule trace_on_client) (simp add: Let_def)

lemma trace_queue [simp]: "h_trace (host_queue e s) = h_trace s"
  by (cases e) (simp_all add: host_queue_def Let_def trace_on_client)

lemma trace_revoke [simp]: "h_trace (host_revoke l s) = h_trace s"
  unfolding host_revoke_def
  by (rule trace_on_lease) (simp add: Let_def trace_fold close_of_lease_def trace_on_client)

lemma trace_line [simp]: "h_trace (host_line parse encode c s) = h_trace s"
  unfolding host_line_def by (rule trace_on_client) (simp add: Let_def host_cancel_def trace_on_client)

lemma trace_byte [simp]: "h_trace (host_byte parse encode c b s) = h_trace s"
  by (simp add: host_byte_def trace_on_client)

lemma trace_turns [simp]: "h_trace (host_turns parse encode c as s) = h_trace s"
  by (induction as arbitrary: s) (simp_all add: trace_fold split: recv_answer.split)

lemma trace_read [simp]: "h_trace (host_read parse encode c broken as s) = h_trace s"
  by (simp add: host_read_def Let_def)

lemma trace_write [simp]: "h_trace (host_write c broken answer s) = h_trace s"
  unfolding host_write_def by (rule trace_on_client) (simp add: Let_def split: send_answer.split)

lemma trace_accept [simp]: "h_trace (host_accept uid l as s) = h_trace s"
  unfolding host_accept_def
  by (rule trace_fold) (simp add: accept_client_def trace_on_lease Let_def split: prod.split)

lemma trace_control_accept [simp]: "h_trace (host_control_accept uid as s) = h_trace s"
  unfolding host_control_accept_def by (rule trace_fold) (simp add: accept_control_def Let_def split: prod.split)

lemma trace_register [simp]: "h_trace (host_register_line parse listening l s) = h_trace s"
  unfolding host_register_line_def by (rule trace_on_lease) (simp add: Let_def)

lemma trace_receive [simp]: "h_trace (receive_fd l d s) = h_trace s"
  unfolding receive_fd_def by (rule trace_on_lease) simp

lemma trace_control_read [simp]: "h_trace (host_control_read parse listening l answer s) = h_trace s"
  unfolding host_control_read_def
  by (rule trace_on_lease) (simp add: Let_def trace_on_lease trace_fold split: control_answer.split)

lemma trace_baseline [simp]: "h_trace (set_tree_baseline vision tree s) = h_trace s"
  by (simp add: set_tree_baseline_def trace_on_client split: option.split)

lemma trace_clear [simp]: "h_trace (host_clear_tree_baselines s) = h_trace s"
  unfolding host_clear_tree_baselines_def by (rule trace_fold) (simp add: trace_on_client)

lemma trace_maintain [simp]: "h_trace (maintain now s) = h_trace s"
proof -
  have "h_trace (idle_lease now l s) = h_trace s" for l s unfolding idle_lease_def by (rule trace_on_lease) simp
  moreover have "h_trace (collect_client c s) = h_trace s" for c s unfolding collect_client_def by (rule trace_on_client) simp
  moreover have "h_trace (collect_lease l s) = h_trace s" for l s
    unfolding collect_lease_def by (rule trace_on_lease) (simp add: Let_def)
  ultimately show ?thesis by (simp add: maintain_def host_collect_def Let_def trace_fold)
qed

lemma idle_send_line: "idle_trace s (host_send_line line s)"
proof (cases "h_current s")
  case (Some c)
  have "idle_trace s (host_act (SendLine c line) (put_client c cl s))" for cl
    by (rule idle_trace_trans [OF same_trace trace_act]) simp_all
  with Some show ?thesis by (auto simp: host_send_line_def on_client_def same_trace split: option.split)
qed (simp add: host_send_line_def)

lemma trace_finish [simp]: "h_trace (finish_event s) = h_trace s"
  by (simp add: finish_event_def Let_def trace_on_client split: option.split host_event.split)

lemma idle_conclude: "idle_trace s (conclude_call encode key i result s)"
proof -
  let ?t = "s\<lparr>h_mcp := finish_call key (h_mcp s), h_call := None\<rparr>"
  have t: "idle_trace s ?t" by (rule same_trace) simp
  have "idle_trace ?t (finish_event ?t)" by (rule same_trace) simp
  moreover have "idle_trace ?t (finish_event (host_send_line line ?t))" for line
    using idle_send_line same_trace by (rule idle_trace_trans) simp
  ultimately show ?thesis by (simp add: conclude_call_def Let_def idle_trace_trans [OF t])
qed

lemma idle_answer: "idle_trace s (finish_event (host_send_line line s))"
  using idle_send_line same_trace by (rule idle_trace_trans) simp

lemma idle_end_call: "idle_trace s (end_call encode members s)"
  by (simp add: end_call_def idle_conclude split: option.split prod.split)

lemma idle_finish: "idle_trace s t \<Longrightarrow> idle_trace s (finish_event t)"
  by (erule idle_trace_trans) (simp add: same_trace)

lemma idle_end_register: "idle_trace s (end_register bound sent l s)"
proof -
  have bind: "idle_trace t (on_lease l (\<lambda>le s. if hl_revoked le then s
      else put_lease l (le\<lparr>hl_accept_source := True\<rparr>) (s\<lparr>h_registered_once := True\<rparr>)) t)" for t
    by (intro same_trace trace_on_lease) simp
  have "idle_trace s (if sent then host_act (Ready l) s else host_revoke l s)"
    by (simp add: trace_act same_trace)
  note idle_trace_trans [OF this bind]
  moreover have "idle_trace s (host_revoke l s)" by (rule same_trace) simp
  ultimately show ?thesis
    unfolding end_register_def Let_def
    by (cases bound) (simp_all add: idle_finish)
qed

lemma idle_acknowledge: "idle_trace s (acknowledge l s)"
proof (cases "h_lease_heap s l")
  case (Some le)
  have "idle_trace s (if hl_control le \<ge> 0 then host_act (Released l) s else s)" by (simp add: trace_act)
  moreover have "idle_trace t (finish_event (put_lease l ke t))" for t ke by (rule same_trace) simp
  ultimately show ?thesis using Some by (auto simp: acknowledge_def intro: idle_trace_trans)
qed (simp add: acknowledge_def on_lease_def same_trace)

text \<open>A call that is taken runs a tool only for a client that is connected.\<close>

lemma executes_start:
  assumes "h_client_heap s c = Some cl"
  shows "executes k (start_call encode instructions c d s) = executes k s \<or> (k = c \<and> \<not> hc_closed cl)"
proof -
  let ?t = "s\<lparr>h_current := Some c\<rparr>"
  have t: "idle_trace s ?t" by (rule same_trace) simp
  have silent: "idle_trace s (finish_event ?t)" by (rule same_trace) simp
  have answer: "idle_trace s (finish_event (host_send_line line ?t))" for line
    by (rule idle_trace_trans [OF t idle_answer])
  have "k = c \<or> executes k (start_request encode instructions c n r ?t) = executes k s" for n r
  proof -
    obtain out m where o: "request_outcome False instructions (Some r) (h_mcp s) = (out, m)" by force
    have m: "idle_trace s (?t\<lparr>h_mcp := m'\<rparr>)" for m' by (rule same_trace) simp
    have "idle_trace s (finish_event (?t\<lparr>h_mcp := m\<rparr>))" by (rule same_trace) simp
    moreover note idle_trace_trans [OF m idle_answer] idle_trace_trans [OF m idle_conclude]
    ultimately show ?thesis
      by (cases out) (auto simp: start_request_def o Let_def idle_trace_def executes_def host_act_def split: sum.split prod.split)
  qed
  with silent answer assms show ?thesis
    by (auto simp: start_call_def idle_trace_def split: option.split)
qed

lemma executes_step:
  assumes s: "stable s" and step: "host_step parse encode instructions uid s t"
  shows "executes k t = executes k s \<or> (\<exists>cl. h_client_heap s k = Some cl \<and> \<not> hc_closed cl)"
  using step
proof (cases rule: host_step.cases)
  case step_take
  show ?thesis
  proof (cases "h_events s")
    case Nil
    with step_take show ?thesis by (simp add: take_event_def)
  next
    case (Cons e es)
    let ?t = "s\<lparr>h_events := es, h_running := Some e\<rparr>"
    have idle: "idle_trace s ?t" by (rule same_trace) simp
    have "event_ok s e" using s Cons by (auto simp: stable_def host_ok_def queue_def list_all_iff)
    show ?thesis
    proof (cases e)
      case (HostCall c d)
      with \<open>event_ok s e\<close> obtain cl where cl: "h_client_heap s c = Some cl" by auto
      from executes_start [of ?t c cl k encode instructions d] cl idle step_take Cons HostCall show ?thesis
        by (auto simp: take_event_def idle_trace_def)
    next
      case (HostRegister l)
      have "idle_trace ?t (start_register l ?t)" unfolding start_register_def
        by (intro same_trace trace_on_lease) simp
      with idle step_take Cons HostRegister show ?thesis by (simp add: take_event_def idle_trace_def)
    next
      case (HostRevoke l)
      with idle idle_acknowledge [of ?t l] step_take Cons show ?thesis by (simp add: take_event_def idle_trace_def)
    qed
  qed
qed (simp_all add: executes_def idle_end_call [unfolded idle_trace_def executes_def] idle_end_register [unfolded idle_trace_def executes_def])

section \<open>What runs\<close>

text \<open>A lease is not acknowledged while a call of one of its clients runs.\<close>

definition active_ok :: "host \<Rightarrow> bool" where
  "active_ok s = (case h_running s of
      Some (HostCall c _) \<Rightarrow> (\<forall>cl le. h_client_heap s c = Some cl \<longrightarrow> h_lease_heap s (hc_lease cl) = Some le \<longrightarrow> \<not> hl_acknowledged le)
    | _ \<Rightarrow> True)"

lemma active_none [simp]: "h_running s = None \<Longrightarrow> active_ok s"
  by (simp add: active_ok_def)

lemma active_safe:
  assumes s: "stable s" "active_ok s" and t: "safe s t" shows "active_ok t"
proof (cases "h_running s")
  case (Some e)
  have run: "h_running t = Some e" using t Some by (simp add: safe_def keeps_def)
  show ?thesis
  proof (cases e)
    case (HostCall c d)
    from s(1) Some HostCall obtain cl where c: "h_client_heap s c = Some cl"
      by (auto simp: stable_def phase_ok_def split: option.splits)
    have "h_lease_heap s (hc_lease cl) \<noteq> None"
      using ok_client [of None s c cl] s(1) c by (simp add: stable_def client_ok_def)
    then obtain le where le: "h_lease_heap s (hc_lease cl) = Some le" by blast
    have keep: "keeps s t" using t by (simp add: safe_def)
    from keeps_clientD [OF keep c] keeps_leaseD [OF keep le] show ?thesis
      using s(2) run c le Some HostCall by (auto simp: active_ok_def)
  qed (simp_all add: active_ok_def run)
qed (use t in \<open>simp add: safe_def keeps_def\<close>)

lemma running_finish [simp]: "h_running (finish_event s) = None"
  by (simp add: finish_event_def Let_def)

lemma running_conclude [simp]: "h_running (conclude_call encode key i result s) = None"
  by (simp add: conclude_call_def Let_def)

lemma running_start:
  assumes "h_client_heap s c = Some cl"
  shows "let t = start_call encode instructions c d s in
    h_running t = None \<or> \<not> hc_closed cl \<and> h_running t = h_running s \<and> h_client_heap t = h_client_heap s \<and> h_lease_heap t = h_lease_heap s"
  using assms
  by (auto simp: start_call_def start_request_def Let_def host_act_def split: option.split outcome.split sum.split prod.split)

lemma active_take:
  assumes s: "stable s" and run: "h_running s = None" shows "active_ok (take_event encode instructions s)"
proof (cases "h_events s")
  case (Cons e es)
  let ?t = "s\<lparr>h_events := es, h_running := Some e\<rparr>"
  have ok: "host_ok None s" using s by (simp add: stable_def)
  show ?thesis
  proof (cases e)
    case (HostCall c d)
    have "event_ok s e" using ok Cons by (auto simp: host_ok_def queue_def list_all_iff)
    with HostCall obtain cl where c: "h_client_heap s c = Some cl" by auto
    have "\<not> hl_acknowledged le" if "\<not> hc_closed cl" "h_lease_heap s (hc_lease cl) = Some le" for le
      using ok_client [OF ok c] ok_lease [OF ok that(2)] that by (auto simp: client_ok_def lease_ok_def)
    with running_start [of ?t c cl encode instructions d] c Cons HostCall show ?thesis
      by (auto simp: take_event_def active_ok_def Let_def split: option.split host_event.split)
  next
    case (HostRegister l)
    with Cons show ?thesis
      by (simp add: take_event_def start_register_def on_lease_def active_ok_def fault_def Let_def split: option.split)
  next
    case (HostRevoke l)
    with Cons show ?thesis by (simp add: take_event_def acknowledge_def Let_def)
  qed
qed (use run in \<open>simp add: take_event_def\<close>)

definition sound :: "host \<Rightarrow> bool" where
  "sound s = (stable s \<and> active_ok s)"

lemma sound_safe: "sound s \<Longrightarrow> safe s t \<Longrightarrow> sound t"
  unfolding sound_def by (blast intro: stable_safe active_safe)

lemma sound_ok: "sound s \<Longrightarrow> host_ok None s"
  by (simp add: sound_def stable_def)

lemma sound_initial: "host_init s \<Longrightarrow> sound s"
  using stable_initial by (auto simp: sound_def no_host_def start_test_def put_lease_def elim!: host_init.cases)

lemma sound_step:
  assumes s: "sound s" and step: "host_step parse encode instructions uid s t" shows "sound t"
proof -
  have t: "stable t" using stable_step [OF _ step] s by (simp add: sound_def)
  have "active_ok t" if "safe s t" using sound_safe [OF s that] by (simp add: sound_def)
  then have "active_ok t" if "host_ok None s \<Longrightarrow> safe s t" using that sound_ok [OF s] by blast
  note safely = this
  from step have "active_ok t"
  proof (cases rule: host_step.cases)
    case step_take
    with active_take s show ?thesis by (simp add: sound_def)
  next
    case step_end_call
    then show ?thesis by (auto simp: end_call_def split: prod.split)
  next
    case step_end_register
    then show ?thesis by (simp add: end_register_def Let_def)
  next
    case step_maintain
    with resting_maintain [of s] s show ?thesis by (simp add: sound_def resting_def)
  next
    case step_read
    show ?thesis by (rule safely) (use step_read in \<open>simp add: safe_read\<close>)
  next
    case step_write
    show ?thesis by (rule safely) (use step_write in \<open>simp add: safe_write\<close>)
  next
    case step_accept
    show ?thesis by (rule safely) (use step_accept in \<open>simp add: safe_accept\<close>)
  next
    case step_control_read
    show ?thesis by (rule safely) (use step_control_read in \<open>simp add: safe_control_read\<close>)
  next
    case step_control_accept
    show ?thesis by (rule safely) (use step_control_accept in \<open>simp add: safe_control_accept\<close>)
  next
    case step_baseline
    show ?thesis by (rule safely) (use step_baseline in \<open>simp add: safe_baseline\<close>)
  next
    case step_clear
    show ?thesis by (rule safely) (use step_clear in \<open>simp add: safe_clear\<close>)
  qed
  with t show ?thesis by (simp add: sound_def)
qed

interpretation service: inductive_invariant host_init "host_step parse encode instructions uid" sound
  for parse encode instructions uid
  by unfold_locales (auto intro: sound_initial sound_step)

section \<open>Acknowledged leases\<close>

text \<open>An acknowledged lease stays acknowledged until it is freed.\<close>

definition acked :: "nat \<Rightarrow> host \<Rightarrow> bool" where
  "acked l s = (map_option hl_acknowledged (h_lease_heap s l) = Some True)"

definition ack_kept :: "host \<Rightarrow> host \<Rightarrow> bool" where
  "ack_kept s t = (\<forall>l. acked l s \<longrightarrow> h_lease_heap t l = None \<or> acked l t)"

lemma acked_iff: "acked l s \<longleftrightarrow> (\<exists>le. h_lease_heap s l = Some le \<and> hl_acknowledged le)"
  by (auto simp: acked_def)

lemma ack_safe: "safe s t \<Longrightarrow> ack_kept s t"
  by (fastforce simp: safe_def keeps_def ack_kept_def acked_iff)

lemma ack_same: "h_lease_heap t = h_lease_heap s \<Longrightarrow> ack_kept s t"
  by (simp add: ack_kept_def acked_def)

lemma ack_more: "h_lease_heap t = (h_lease_heap s)(l \<mapsto> le\<lparr>hl_acknowledged := True\<rparr>) \<Longrightarrow> ack_kept s t"
  by (simp add: ack_kept_def acked_def)

lemma ack_later:
  assumes "ack_kept s t" "\<And>l. h_lease_heap u l = None \<or>
    map_option hl_acknowledged (h_lease_heap u l) = map_option hl_acknowledged (h_lease_heap t l)"
  shows "ack_kept s u"
  unfolding ack_kept_def
proof (intro allI impI)
  fix l assume "acked l s"
  with assms(1) have "h_lease_heap t l = None \<or> acked l t" by (simp add: ack_kept_def)
  with assms(2) [of l] show "h_lease_heap u l = None \<or> acked l u" by (auto simp: acked_def)
qed

lemma leases_put [simp]: "h_lease_heap (put_client c cl s) = h_lease_heap s" "h_lease_heap (fault s) = h_lease_heap s"
  "h_lease_heap (close_fd d h s) = h_lease_heap s" "h_lease_heap (host_act a s) = h_lease_heap s"
  by (simp_all add: put_client_def fault_def close_fd_def host_act_def)

lemma leases_on_client: "(\<And>cl. h_lease_heap (f cl s) = h_lease_heap s) \<Longrightarrow> h_lease_heap (on_client c f s) = h_lease_heap s"
  by (simp add: on_client_def split: option.split)

lemma leases_close [simp]: "h_lease_heap (host_client_close c s) = h_lease_heap s"
  unfolding host_client_close_def by (rule leases_on_client) (simp add: Let_def)

lemma leases_send_line [simp]: "h_lease_heap (host_send_line line s) = h_lease_heap s"
  by (simp add: host_send_line_def leases_on_client split: option.split)

lemma leases_finish [simp]: "h_lease_heap (finish_event s) = h_lease_heap s"
  by (simp add: finish_event_def Let_def leases_on_client split: option.split host_event.split)

lemma leases_conclude [simp]: "h_lease_heap (conclude_call encode key i result s) = h_lease_heap s"
  by (simp add: conclude_call_def Let_def)

lemma leases_request [simp]: "h_lease_heap (start_request encode instructions c n r s) = h_lease_heap s"
  by (simp add: start_request_def Let_def split: prod.split outcome.split sum.split)

lemma leases_call [simp]: "h_lease_heap (start_call encode instructions c d s) = h_lease_heap s"
  by (simp add: start_call_def on_client_def split: option.split)

lemma leases_start_register [simp]: "h_lease_heap (start_register l s) = h_lease_heap s"
  by (simp add: start_register_def on_lease_def split: option.split)

lemma ack_take: "ack_kept s (take_event encode instructions s)"
proof (cases "h_events s")
  case (Cons e es)
  show ?thesis
  proof (cases e)
    case (HostRevoke l)
    show ?thesis
    proof (cases "h_lease_heap s l")
      case (Some le)
      with Cons HostRevoke show ?thesis
        by (intro ack_more [where l = l and le = le]) (simp add: take_event_def acknowledge_def put_lease_def host_act_def)
    qed (use Cons HostRevoke in \<open>auto simp: take_event_def acknowledge_def on_lease_def intro: ack_same\<close>)
  qed (use Cons in \<open>simp_all add: take_event_def ack_same\<close>)
qed (simp add: take_event_def ack_same)

lemma collected_leases:
  "h_lease_heap (fold collect_lease ls s) l = None \<or> h_lease_heap (fold collect_lease ls s) l = h_lease_heap s l"
proof (induction ls arbitrary: s)
  case (Cons k ks)
  have "h_lease_heap (collect_lease k s) l = None \<or> h_lease_heap (collect_lease k s) l = h_lease_heap s l"
    by (auto simp: collect_lease_def on_lease_def Let_def split: option.split)
  with Cons.IH [of "collect_lease k s"] show ?case by auto
qed simp

lemma collected_clients: "h_lease_heap (fold collect_client cs s) = h_lease_heap s"
  by (induction cs arbitrary: s) (simp_all add: collect_client_def on_client_def fault_def split: option.split)

lemma collected: "h_lease_heap (host_collect s) l = None \<or> h_lease_heap (host_collect s) l = h_lease_heap s l"
proof -
  let ?t = "fold collect_client (rev (h_clients s)) s"
  show ?thesis
    using collected_leases [of "rev (h_leases ?t)" ?t l] by (simp add: host_collect_def Let_def collected_clients)
qed

lemma ack_maintain:
  assumes "host_ok None s" shows "ack_kept s (maintain now s)"
  unfolding maintain_def
proof (rule ack_later [OF ack_safe [OF safe_idle_all [OF assms]]])
  fix l
  let ?t = "fold (idle_lease now) (h_leases s) s"
  show "h_lease_heap (host_collect ?t) l = None \<or>
      map_option hl_acknowledged (h_lease_heap (host_collect ?t) l) = map_option hl_acknowledged (h_lease_heap ?t l)"
    using collected [of ?t l] by auto
qed

lemma ack_end_register:
  assumes ok: "host_ok None s" and l: "h_lease_heap s l \<noteq> None"
  shows "ack_kept s (end_register bound sent l s)"
proof -
  have r: "ack_kept s (host_revoke l s)" by (rule ack_safe [OF safe_revoke [OF ok l]])
  have "ack_kept s (if sent then host_act (Ready l) s else host_revoke l s)" using r by (simp add: ack_same)
  then have "ack_kept s (on_lease l (\<lambda>le s. if hl_revoked le then s
      else put_lease l (le\<lparr>hl_accept_source := True\<rparr>) (s\<lparr>h_registered_once := True\<rparr>))
     (if sent then host_act (Ready l) s else host_revoke l s))"
    by (rule ack_later) (simp add: on_lease_def put_lease_def split: option.split)
  with r show ?thesis by (simp add: end_register_def Let_def ack_kept_def acked_def)
qed

lemma ack_step:
  assumes s: "sound s" and step: "host_step parse encode instructions uid s t" shows "ack_kept s t"
proof -
  note ok = sound_ok [OF s]
  from step show ?thesis
  proof (cases rule: host_step.cases)
    case (step_end_register l bound sent)
    then have "h_lease_heap s l \<noteq> None" using ok by (auto simp: host_ok_def queue_def)
    with step_end_register show ?thesis by (simp add: ack_end_register ok)
  next
    case step_end_call
    then show ?thesis by (auto simp: end_call_def intro: ack_same split: prod.split)
  next
    case step_read
    then show ?thesis by (simp add: ack_safe safe_read ok)
  next
    case step_write
    then show ?thesis by (simp add: ack_safe safe_write ok)
  next
    case step_accept
    then show ?thesis by (simp add: ack_safe safe_accept ok)
  next
    case step_control_read
    then show ?thesis by (simp add: ack_safe safe_control_read ok)
  qed (simp_all add: ack_take ack_maintain ack_safe safe_control_accept safe_baseline safe_clear ok)
qed

section \<open>Guarantees\<close>

text \<open>C12. No reachable state of the desktop-control service has used a client or a lease after it was freed
  or closed a descriptor that was not its own, whatever arrives and whenever callbacks run. Each client counts
  exactly the calls that are queued or running for it, its lease exists, and no two owners share a
  descriptor.\<close>

theorem host_memory_safe:
  assumes "reach host_init (host_step parse encode instructions uid) s"
  shows "\<not> h_fault s \<and>
    (\<forall>c cl. h_client_heap s c = Some cl \<longrightarrow> c \<in> set (h_clients s) \<and>
       hc_pending cl = calls_for c (queue s) \<and> h_lease_heap s (hc_lease cl) \<noteq> None \<and>
       (\<not> hc_closed cl \<longrightarrow> h_fds s (hc_fd cl) = Some (ClientFd c))) \<and>
    (\<forall>l le. h_lease_heap s l = Some le \<longrightarrow> l \<in> set (h_leases s) \<and>
       (0 \<le> hl_listener le \<longrightarrow> h_fds s (hl_listener le) = Some (ListenerFd l)) \<and>
       (0 \<le> hl_control le \<longrightarrow> h_fds s (hl_control le) = Some (ControlFd l))) \<and>
    list_all (event_ok s) (queue s)"
proof -
  have ok: "host_ok None s" using service.always [OF assms] by (rule sound_ok)
  then have lists: "set (h_clients s) = dom (h_client_heap s)" "set (h_leases s) = dom (h_lease_heap s)"
    by (simp_all add: host_ok_def lists_ok_def)
  have "c \<in> set (h_clients s) \<and> hc_pending cl = calls_for c (queue s) \<and> h_lease_heap s (hc_lease cl) \<noteq> None \<and>
      (\<not> hc_closed cl \<longrightarrow> h_fds s (hc_fd cl) = Some (ClientFd c))" if "h_client_heap s c = Some cl" for c cl
    using ok_client [OF ok that] that lists by (auto simp: client_ok_def)
  moreover have "l \<in> set (h_leases s) \<and> (0 \<le> hl_listener le \<longrightarrow> h_fds s (hl_listener le) = Some (ListenerFd l)) \<and>
       (0 \<le> hl_control le \<longrightarrow> h_fds s (hl_control le) = Some (ControlFd l))" if "h_lease_heap s l = Some le" for l le
    using ok_lease [OF ok that] that lists by (auto simp: lease_ok_def)
  ultimately show ?thesis using ok by (auto simp: host_ok_def)
qed

lemma example_reach:
  "reach host_init (host_step parse encode instructions 1000) (host_accept 1000 0 [(7, Some 1000)] (start_test 5))"
proof (rule reach_step [OF reach_init])
  show "host_init (start_test 5)" by (rule host_init.intros(2)) simp
  show "host_step parse encode instructions 1000 (start_test 5) (host_accept 1000 0 [(7, Some 1000)] (start_test 5))"
    by (rule step_accept) (simp add: start_test_def put_lease_def new_lease_def, simp)
qed

lemmas example_state = host_accept_def accept_client_def start_test_def put_lease_def put_client_def no_host_def possible_fd_def
  new_lease_def new_client_def host_client_count_def host_max_clients_def Let_def on_lease_def

theorem host_memory_safe_witness:
  "(let s = host_accept 1000 0 [(7, Some 1000)] (start_test 5)
    in h_clients s = [1] \<and> h_fds s 7 = Some (ClientFd 1) \<and> \<not> h_fault s)"
  using host_memory_safe [OF example_reach [of "\<lambda>_. None" "\<lambda>_. []" "[]"]]
  by (simp add: example_state)

text \<open>C25. The tables of the service are bounded whatever arrives: at most 32 clients are connected, 64 leases known,
  64 calls queued and 256 cancellations remembered; of a client's line at most 1 MiB is kept, and its
  output never grows beyond 128 MiB and a line end.\<close>

theorem host_bounds:
  assumes "reach host_init (host_step parse encode instructions uid) s"
  shows "host_client_count s \<le> 32 \<and> length (h_leases s) \<le> 64 \<and> calls (h_events s) \<le> 64 \<and>
    length (m_cancelled_ids (h_mcp s)) \<le> 256 \<and>
    (\<forall>c cl. h_client_heap s c = Some cl \<longrightarrow> length (lb_input (hc_buffer cl)) \<le> 1024 * 1024 \<and>
       hc_sent cl \<le> length (hc_output cl) \<and> length (hc_output cl) \<le> 128 * 1024 * 1024 + 1) \<and>
    (\<forall>l le. h_lease_heap s l = Some le \<longrightarrow> length (hl_input le) \<le> 8192)"
proof -
  have ok: "host_ok None s" using service.always [OF assms] by (rule sound_ok)
  have "length (lb_input (hc_buffer cl)) \<le> 1024 * 1024 \<and>
       hc_sent cl \<le> length (hc_output cl) \<and> length (hc_output cl) \<le> 128 * 1024 * 1024 + 1" if "h_client_heap s c = Some cl" for c cl
    using client_sizes [OF ok that] by (simp add: LINE_MAXIMUM_def OUTPUT_MAXIMUM_def)
  moreover have "length (hl_input le) \<le> 8192" if "h_lease_heap s l = Some le" for l le
    using ok_lease [OF ok that] by (simp add: lease_ok_def REGISTRATION_MAXIMUM_def)
  ultimately show ?thesis
    using ok by (simp add: host_ok_def sizes_ok_def keys_ok_def host_max_clients_def host_max_leases_def host_max_pending_def)
qed

theorem host_bounds_witness:
  "(let s = host_accept 1000 0 [(7, Some 1000)] (start_test 5) in host_client_count s = 1 \<and> length (h_leases s) = 1 \<and>
     host_client_count s \<le> 32 \<and> length (h_leases s) \<le> 64)"
  using host_bounds [OF example_reach [of "\<lambda>_. None" "\<lambda>_. []" "[]"]]
  by (simp add: example_state is_open_def)

text \<open>C13. Once the release of a lease was acknowledged to its controller, its socket is not accepted from any more,
  all of its clients are disconnected, no call of theirs runs, no registration of it is queued, and this remains so: a
  further step runs no tool for one of its clients and leaves the lease acknowledged or frees it.\<close>

theorem acknowledged_lease_quiet:
  assumes reach: "reach host_init (host_step parse encode instructions uid) s"
    and l: "h_lease_heap s l = Some le" "hl_acknowledged le"
  shows "hl_listener le < 0 \<and> \<not> hl_source le \<and> \<not> hl_accept_source le \<and> HostRegister l \<notin> set (queue s) \<and>
    (\<forall>c cl. h_client_heap s c = Some cl \<longrightarrow> hc_lease cl = l \<longrightarrow> hc_closed cl \<and> (\<forall>d. h_running s \<noteq> Some (HostCall c d)) \<and>
       (\<forall>t. host_step parse encode instructions uid s t \<longrightarrow> executes c t = executes c s)) \<and>
    (\<forall>t. host_step parse encode instructions uid s t \<longrightarrow> h_lease_heap t l = None \<or> acked l t)"
proof -
  have s: "sound s" using service.always [OF reach] .
  have ok: "host_ok None s" using s by (rule sound_ok)
  have lease: "hl_revoked le \<and> hl_listener le < 0 \<and> \<not> hl_source le \<and> \<not> hl_accept_source le \<and> HostRegister l \<notin> set (queue s)"
    using ok_lease [OF ok l(1)] l(2) by (simp add: lease_ok_def)
  have "hc_closed cl \<and> (\<forall>d. h_running s \<noteq> Some (HostCall c d)) \<and>
       (\<forall>t. host_step parse encode instructions uid s t \<longrightarrow> executes c t = executes c s)"
    if c: "h_client_heap s c = Some cl" "hc_lease cl = l" for c cl
  proof -
    have "hc_closed cl" using ok_client [OF ok c(1)] c(2) l lease by (auto simp: client_ok_def)
    moreover have "\<forall>d. h_running s \<noteq> Some (HostCall c d)" using s c l by (auto simp: sound_def active_ok_def)
    moreover have "executes c t = executes c s" if "host_step parse encode instructions uid s t" for t
      using executes_step [OF _ that, of c] s \<open>hc_closed cl\<close> c(1) by (auto simp: sound_def)
    ultimately show ?thesis by blast
  qed
  moreover have "h_lease_heap t l = None \<or> acked l t" if "host_step parse encode instructions uid s t" for t
    using ack_step [OF s that] l by (simp add: ack_kept_def acked_iff)
  ultimately show ?thesis using lease by blast
qed

lemma revoked_reach:
  "reach host_init (host_step (\<lambda>_. None) (\<lambda>_. []) [] 1000)
     (host_control_read (\<lambda>_. None) False 0 ControlEnd (host_control_accept 1000 [(6, Some 1000)] no_host))"
proof -
  let ?t = "host_control_accept 1000 [(6, Some 1000)] no_host"
  have "reach host_init (host_step (\<lambda>_. None) (\<lambda>_. []) [] 1000) ?t"
    by (rule reach_step [OF reach_init]) (rule host_init.intros(1), rule step_control_accept)
  then show ?thesis
  proof (rule reach_step)
    show "host_step (\<lambda>_. None) (\<lambda>_. []) [] 1000 ?t (host_control_read (\<lambda>_. None) False 0 ControlEnd ?t)"
      by (rule step_control_read) (simp add: host_control_accept_def accept_control_def possible_fd_def no_host_def put_lease_def
          new_lease_def Let_def host_max_leases_def, simp)
  qed
qed

lemma released_reach:
  defines "s \<equiv> host_control_read (\<lambda>_. None) False 0 ControlEnd (host_control_accept 1000 [(6, Some 1000)] no_host)"
  shows "reach host_init (host_step (\<lambda>_. None) (\<lambda>_. []) [] 1000) (take_event (\<lambda>_. []) [] s)"
proof (rule reach_step)
  show "reach host_init (host_step (\<lambda>_. None) (\<lambda>_. []) [] 1000) s" unfolding s_def by (rule revoked_reach)
  have "h_running s = None"
    by (simp add: s_def host_control_read_def host_revoke_def on_lease_def host_control_accept_def accept_control_def possible_fd_def
        no_host_def put_lease_def new_lease_def Let_def host_max_leases_def host_queue_def)
  then show "host_step (\<lambda>_. None) (\<lambda>_. []) [] 1000 s (take_event (\<lambda>_. []) [] s)" by (rule step_take)
qed

theorem acknowledged_lease_quiet_witness:
  "(let s = take_event (\<lambda>_. []) [] (host_control_read (\<lambda>_. None) False 0 ControlEnd
       (host_control_accept 1000 [(6, Some 1000)] no_host))
    in h_trace s = [Released 0] \<and> acked 0 s \<and> HostRegister 0 \<notin> set (queue s))"
proof -
  let ?s = "take_event (\<lambda>_. []) [] (host_control_read (\<lambda>_. None) False 0 ControlEnd
       (host_control_accept 1000 [(6, Some 1000)] no_host))"
  have s: "h_trace ?s = [Released 0] \<and> (\<exists>le. h_lease_heap ?s 0 = Some le \<and> hl_acknowledged le)"
    by (simp add: host_control_read_def host_revoke_def on_lease_def host_control_accept_def accept_control_def possible_fd_def
        no_host_def put_lease_def new_lease_def Let_def host_max_leases_def host_queue_def take_event_def acknowledge_def
        host_act_def finish_event_def)
  then obtain le where "h_lease_heap ?s 0 = Some le" "hl_acknowledged le" by blast
  from acknowledged_lease_quiet [OF released_reach this] s show ?thesis by (auto simp: Let_def acked_iff)
qed

section \<open>Isolation of cancellations\<close>

text \<open>What a callback for one client leaves alone: the flag of a call of another client, and the cancellations of others.\<close>

definition own_key :: "nat \<Rightarrow> string \<Rightarrow> bool" where
  "own_key serial k = g_str_has_prefix k (client_prefix serial)"

definition isolated :: "nat \<Rightarrow> host \<Rightarrow> host \<Rightarrow> bool" where
  "isolated c s t = (h_current t = h_current s \<and>
     (case h_client_heap s c of None \<Rightarrow> t = s \<or> h_client_heap t c = None | Some cl \<Rightarrow>
        (h_current s = Some c \<or> m_cancelled (h_mcp t) = m_cancelled (h_mcp s)) \<and>
        filter (\<lambda>k. \<not> own_key (hc_serial cl) k) (m_cancelled_ids (h_mcp t)) =
          filter (\<lambda>k. \<not> own_key (hc_serial cl) k) (m_cancelled_ids (h_mcp s)) \<and>
        (\<exists>cl'. h_client_heap t c = Some cl' \<and> hc_serial cl' = hc_serial cl)))"

lemma isolated_refl [simp]: "isolated c s s"
  by (simp add: isolated_def split: option.split)

lemma isolated_trans: "isolated c s t \<Longrightarrow> isolated c t u \<Longrightarrow> isolated c s u"
  by (auto simp: isolated_def split: option.splits)

lemma isolatedI:
  assumes "h_client_heap s c = Some cl" "h_current t = h_current s"
    and "h_current s = Some c \<or> m_cancelled (h_mcp t) = m_cancelled (h_mcp s)"
    and "filter (\<lambda>k. \<not> own_key (hc_serial cl) k) (m_cancelled_ids (h_mcp t)) =
      filter (\<lambda>k. \<not> own_key (hc_serial cl) k) (m_cancelled_ids (h_mcp s))"
    and "h_client_heap t c = Some cl'" "hc_serial cl' = hc_serial cl"
  shows "isolated c s t"
  using assms by (simp add: isolated_def)

lemma isolated_put: "h_client_heap s c = Some cl \<Longrightarrow> hc_serial cl' = hc_serial cl \<Longrightarrow> isolated c s (put_client c cl' s)"
  by (simp add: isolated_def put_client_def)

lemma isolated_fault: "h_client_heap s c = None \<Longrightarrow> isolated c s (fault s)"
  by (simp add: isolated_def fault_def)

lemma isolated_on_client:
  "(\<And>cl. h_client_heap s c = Some cl \<Longrightarrow> isolated c s (f cl s)) \<Longrightarrow> isolated c s (on_client c f s)"
  by (simp add: on_client_def isolated_fault split: option.split)

lemma isolated_close: "isolated c s (host_client_close c s)"
  unfolding host_client_close_def
proof (rule isolated_on_client)
  fix cl
  assume c: "h_client_heap s c = Some cl"
  show "isolated c s (if hc_closed cl then s
     else let s = put_client c (cl\<lparr>hc_closed := True, hc_source := False, hc_writer := False, hc_fd := - 1\<rparr>) s;
              s = (if h_current s = Some c then s\<lparr>h_mcp := (h_mcp s)\<lparr>m_cancelled := True\<rparr>\<rparr> else s);
              s = close_fd (hc_fd cl) (ClientFd c) s
          in s\<lparr>h_mcp := (h_mcp s)\<lparr>m_cancelled_ids :=
               filter (\<lambda>k. \<not> g_str_has_prefix k (client_prefix (hc_serial cl))) (m_cancelled_ids (h_mcp s))\<rparr>\<rparr>)"
    by (cases "hc_closed cl") (auto simp: put_client_def close_fd_def fault_def Let_def own_key_def intro!: isolatedI [OF c])
qed

lemma isolated_cancel:
  assumes c: "h_client_heap s c = Some cl" and k: "own_key (hc_serial cl) key" shows "isolated c s (host_cancel key c s)"
  using k by (auto simp: host_cancel_def Let_def table_add_def c intro!: isolatedI [OF c])

lemma isolated_line: "isolated c s (host_line parse encode c s)"
  unfolding host_line_def
proof (rule isolated_on_client)
  fix cl
  assume c: "h_client_heap s c = Some cl"
  have buffer: "isolated c t (on_client c (\<lambda>cl. put_client c (cl\<lparr>hc_buffer := empty_line\<rparr>)) t)" for t
    by (rule isolated_on_client) (simp add: isolated_put)
  have "isolated c s (host_queue (HostCall c d) s)" for d
    by (simp add: isolated_def host_queue_def put_client_def c)
  moreover have "own_key (hc_serial cl) (client_request_key encode (hc_serial cl) i)" for i
    by (simp add: own_key_def client_request_key_def)
  then have "isolated c s (host_cancel (client_request_key encode (hc_serial cl) i) c s)" for i by (rule isolated_cancel [OF c])
  ultimately show "isolated c s (let d = line_document parse (hc_buffer cl);
         s = (if is_cancellation d
              then host_cancel (client_request_key encode (hc_serial cl) (cancelled_request d)) c s
              else if length (h_events s) < host_max_pending then host_queue (HostCall c d) s
              else host_client_close c s)
     in on_client c (\<lambda>cl. put_client c (cl\<lparr>hc_buffer := empty_line\<rparr>)) s)"
    unfolding Let_def by (intro isolated_trans [OF _ buffer]) (simp add: isolated_close)
qed

lemma isolated_byte: "isolated c s (host_byte parse encode c b s)"
  by (simp add: host_byte_def isolated_line isolated_on_client isolated_put)

lemma isolated_bytes: "isolated c s (fold (host_byte parse encode c) bs s)"
proof (induction bs arbitrary: s)
  case (Cons b bs)
  from isolated_trans [OF isolated_byte Cons.IH] show ?case by simp
qed simp

lemma isolated_turns: "isolated c s (host_turns parse encode c as s)"
proof (induction as arbitrary: s)
  case (Cons a as)
  have "isolated c s (host_turns parse encode c as (fold (host_byte parse encode c) bs s))" for bs
    by (rule isolated_trans [OF isolated_bytes Cons.IH])
  then show ?case by (simp add: isolated_close split: recv_answer.split)
qed simp

text \<open>Keys of different clients are different, because a number is over where the first colon is.\<close>

lemma until_colon: "takeWhile (\<lambda>x. x \<noteq> CHR '':'') (client_prefix n @ k) = show_nat n"
proof -
  have "x \<noteq> CHR '':''" if "x \<in> set (show_nat n)" for x
    using show_nat_digits [OF that] by (auto simp: is_digit_def)
  then show ?thesis by (simp add: client_prefix_def takeWhile_append2)
qed

lemma prefix_unique: "own_key n k \<Longrightarrow> own_key m k \<Longrightarrow> n = m"
  unfolding own_key_def g_str_has_prefix_iff by (metis decimal_show_nat until_colon)

lemma own_request: "own_key n (client_request_key encode n i)"
  by (simp add: own_key_def client_request_key_def)

lemma filter_others:
  assumes "filter (\<lambda>k. \<not> P k) xs = filter (\<lambda>k. \<not> P k) ys" "\<And>k. Q k \<Longrightarrow> \<not> P k"
  shows "filter Q xs = filter Q ys"
proof -
  have "filter Q zs = filter Q (filter (\<lambda>k. \<not> P k) zs)" for zs
    using assms(2) by (auto simp: filter_filter intro: filter_cong)
  then show ?thesis using assms(1) by metis
qed

text \<open>C26. In every state that the service can reach, whatever one client sends, it does not touch the flag that cancels the running call
  unless that call is its own, and of the remembered cancellations all those that another client has asked for are the same, in the same order, after
  its input was read. The two have different numbers, the prefix that the number gives marks a client's keys, no key of
  the one carries the prefix of the other, and no request of the one has the key of a request of the other.\<close>

theorem cancellation_isolated:
  assumes reach: "reach host_init (host_step parse encode instructions uid) s"
    and c: "h_client_heap s c = Some cl" and d: "h_client_heap s d = Some dl" "c \<noteq> d"
  shows "let t = host_read parse encode c broken answers s;
           others = filter (\<lambda>k. g_str_has_prefix k (client_prefix (hc_serial dl)))
     in (h_current s = Some c \<or> m_cancelled (h_mcp t) = m_cancelled (h_mcp s)) \<and>
        others (m_cancelled_ids (h_mcp t)) = others (m_cancelled_ids (h_mcp s)) \<and>
        filter (\<lambda>k. \<not> g_str_has_prefix k (client_prefix (hc_serial cl))) (m_cancelled_ids (h_mcp t)) =
          filter (\<lambda>k. \<not> g_str_has_prefix k (client_prefix (hc_serial cl))) (m_cancelled_ids (h_mcp s)) \<and>
        hc_serial cl \<noteq> hc_serial dl \<and>
        g_str_has_prefix (client_request_key encode (hc_serial dl) i) (client_prefix (hc_serial dl)) \<and>
        \<not> g_str_has_prefix (client_request_key encode (hc_serial dl) i) (client_prefix (hc_serial cl)) \<and>
        client_request_key encode (hc_serial cl) j \<noteq> client_request_key encode (hc_serial dl) i"
proof -
  have ok: "host_ok None s" using service.always [OF reach] by (rule sound_ok)
  then have serial: "hc_serial cl \<noteq> hc_serial dl" using c d by (auto simp: host_ok_def serials_ok_def)
  have other: "\<not> own_key (hc_serial cl) k" if "own_key (hc_serial dl) k" for k
    using prefix_unique [OF _ that] serial by blast
  let ?u = "host_turns parse encode c (take 16 answers) s"
  have u: "isolated c s ?u" by (rule isolated_turns)
  have "isolated c s (host_read parse encode c broken answers s)"
    using u isolated_trans [OF u isolated_close] by (simp add: host_read_def Let_def)
  then show ?thesis
    using c serial other own_request [of "hc_serial dl" encode i] own_request [of "hc_serial cl" encode j]
    by (auto simp: isolated_def own_key_def Let_def elim!: filter_others)
qed

definition two_clients :: host where
  "two_clients = host_accept 1000 0 [(5, Some 1000), (6, Some 1000)] (start_test 4)"

lemma two_clients_reach: "reach host_init (host_step (\<lambda>_. None) (\<lambda>_. []) [] 1000) two_clients"
proof (rule reach_step [OF reach_init])
  show "host_init (start_test 4)" by (rule host_init.intros(2)) simp
  show "host_step (\<lambda>_. None) (\<lambda>_. []) [] 1000 (start_test 4) two_clients"
    unfolding two_clients_def
    by (rule step_accept [of _ 0 "(new_lease (- 1))\<lparr>hl_listener := 4, hl_source := False, hl_registered := True, hl_accept_source := True\<rparr>"])
      (simp_all add: start_test_def put_lease_def new_lease_def)
qed

lemma two_clients_heap: "h_client_heap two_clients 1 = Some (new_client 0 1 5)" "h_client_heap two_clients 2 = Some (new_client 0 2 6)"
  by (simp_all add: two_clients_def host_accept_def accept_client_def on_lease_def start_test_def put_lease_def put_client_def
      possible_fd_def new_lease_def no_host_def host_client_count_def host_max_clients_def Let_def new_client_def)

theorem cancellation_isolated_witness:
  "hc_serial (new_client 0 1 5) \<noteq> hc_serial (new_client 0 2 6) \<and>
   m_cancelled (h_mcp (host_read (\<lambda>_. None) (\<lambda>_. []) 1 True [] two_clients)) = m_cancelled (h_mcp two_clients)"
proof -
  have "h_current two_clients \<noteq> Some 1"
    by (simp add: two_clients_def host_accept_def accept_client_def on_lease_def start_test_def put_lease_def put_client_def
      possible_fd_def new_lease_def no_host_def host_client_count_def host_max_clients_def Let_def new_client_def)
  with cancellation_isolated [OF two_clients_reach two_clients_heap, of True "[]" None None] show ?thesis by (simp add: Let_def)
qed

section \<open>Progress\<close>

text \<open>One turn of the loop in \<open>run_shared_host\<close>, up to the maintenance, when no callback runs in the meantime: an event
  is taken and handled to its end.\<close>

type_synonym turn_answer = "(string \<times> json) list \<times> bool \<times> bool"

definition loop_turn :: "(json \<Rightarrow> string) \<Rightarrow> string \<Rightarrow> turn_answer \<Rightarrow> host \<Rightarrow> host" where
  "loop_turn encode instructions a s =
     (let t = take_event encode instructions s
      in case a of (members, bound, sent) \<Rightarrow>
         case h_running t of
           Some (HostCall c d) \<Rightarrow> end_call encode members t
         | Some (HostRegister l) \<Rightarrow> end_register bound sent l t
         | _ \<Rightarrow> t)"

definition work :: "host_event list \<Rightarrow> nat" where
  "work q = sum_list (map (\<lambda>e. case e of HostRegister _ \<Rightarrow> 2 | _ \<Rightarrow> 1) q)"

lemma work_simps [simp]:
  "work [] = 0" "work (p @ q) = work p + work q" "work (HostCall c d # q) = Suc (work q)"
  "work (HostRegister l # q) = 2 + work q" "work (HostRevoke l # q) = Suc (work q)"
  by (simp_all add: work_def)

lemma work_zero: "work q = 0 \<longleftrightarrow> q = []"
proof (cases q)
  case (Cons e q)
  then show ?thesis by (cases e) simp_all
qed simp

lemma events_put [simp]: "h_events (put_client c cl s) = h_events s" "h_events (put_lease l le s) = h_events s"
  "h_events (fault s) = h_events s" "h_events (close_fd d h s) = h_events s" "h_events (host_act a s) = h_events s"
  by (simp_all add: put_client_def put_lease_def fault_def close_fd_def host_act_def)

lemma events_on_client: "(\<And>cl. h_events (f cl s) = h_events s) \<Longrightarrow> h_events (on_client c f s) = h_events s"
  by (simp add: on_client_def split: option.split)

lemma events_close [simp]: "h_events (host_client_close c s) = h_events s"
  unfolding host_client_close_def by (rule events_on_client) (simp add: Let_def)

lemma events_send_line [simp]: "h_events (host_send_line line s) = h_events s"
  by (simp add: host_send_line_def events_on_client split: option.split)

lemma events_finish [simp]: "h_events (finish_event s) = h_events s"
  by (simp add: finish_event_def Let_def events_on_client split: option.split host_event.split)

lemma events_conclude [simp]: "h_events (conclude_call encode key i result s) = h_events s"
  by (simp add: conclude_call_def Let_def)

lemma events_request [simp]: "h_events (start_request encode instructions c n r s) = h_events s"
  by (simp add: start_request_def Let_def split: prod.split outcome.split sum.split)

lemma events_call [simp]: "h_events (start_call encode instructions c d s) = h_events s"
  by (simp add: start_call_def on_client_def split: option.split)

lemma events_start_register [simp]: "h_events (start_register l s) = h_events s"
  by (simp add: start_register_def on_lease_def split: option.split)

lemma events_end_call [simp]: "h_events (end_call encode members s) = h_events s"
  by (simp add: end_call_def split: option.split prod.split)

lemma events_acknowledge [simp]: "h_events (acknowledge l s) = h_events s"
  by (simp add: acknowledge_def on_lease_def split: option.split)

lemma work_revoke: "work (h_events (host_revoke l s)) \<le> Suc (work (h_events s))"
proof -
  have "h_events (fold (close_of_lease l) cs s) = h_events s" for cs s
    by (induction cs arbitrary: s) (simp_all add: close_of_lease_def events_on_client)
  then show ?thesis by (simp add: host_revoke_def on_lease_def Let_def host_queue_def split: option.split)
qed

lemma work_end_register: "work (h_events (end_register bound sent l s)) \<le> Suc (work (h_events s))"
proof -
  have "h_events (on_lease l (\<lambda>le s. if hl_revoked le then s
      else put_lease l (le\<lparr>hl_accept_source := True\<rparr>) (s\<lparr>h_registered_once := True\<rparr>)) t) = h_events t" for t
    by (simp add: on_lease_def split: option.split)
  with work_revoke [of l s] show ?thesis by (simp add: end_register_def Let_def)
qed

lemma running_end_call: "h_call s \<noteq> None \<Longrightarrow> h_running (end_call encode members s) = None"
  by (auto simp: end_call_def split: prod.split)

lemma turn_reach:
  fixes a :: turn_answer
  assumes reach: "reach host_init (host_step parse encode instructions uid) s" and run: "h_running s = None"
  defines "t \<equiv> loop_turn encode instructions a s"
  shows "reach host_init (host_step parse encode instructions uid) t \<and> h_running t = None \<and>
    work (h_events t) \<le> work (h_events s) - 1"
proof -
  let ?u = "take_event encode instructions s"
  have u: "reach host_init (host_step parse encode instructions uid) ?u" using reach run by (blast intro: reach_step step_take)
  obtain members bound sent where a: "a = (members, bound, sent)" by (cases a)
  have phase: "phase_ok ?u" using service.always [OF u] by (simp add: sound_def stable_def)
  have queue: "h_events s = [] \<and> ?u = s \<or> (\<exists>e. h_events s = e # h_events ?u \<and>
      (case h_running ?u of None \<Rightarrow> True | Some f \<Rightarrow> f = e))"
  proof (cases "h_events s")
    case (Cons e es)
    have c: "case h_running (start_call encode instructions c d v) of None \<Rightarrow> True | Some f \<Rightarrow> Some f = h_running v" for c d v
      using running_start [of v c _ encode instructions d]
      by (cases "h_client_heap v c") (auto simp: Let_def start_call_def on_client_def fault_def split: option.splits)
    show ?thesis
    proof (cases e)
      case (HostCall k d)
      with Cons c [where c = k and d = d and v = "s\<lparr>h_events := es, h_running := Some e\<rparr>"] show ?thesis
        by (auto simp: take_event_def split: option.splits)
    next
      case (HostRegister l)
      with Cons show ?thesis
        by (auto simp: take_event_def start_register_def on_lease_def fault_def Let_def split: option.splits)
    next
      case (HostRevoke l)
      with Cons show ?thesis by (auto simp: take_event_def acknowledge_def on_lease_def Let_def split: option.splits)
    qed
  qed (simp add: take_event_def)
  show ?thesis
  proof (cases "h_running ?u")
    case None
    then have "t = ?u" by (simp add: t_def loop_turn_def a)
    moreover have "work (h_events ?u) \<le> work (h_events s) - 1"
      using queue by (elim disjE exE conjE) (simp, case_tac e, simp_all)
    ultimately show ?thesis using u None by simp
  next
    case (Some e)
    with queue run have q: "h_events s = e # h_events ?u" by auto
    show ?thesis
    proof (cases e)
      case (HostCall c d)
      then have t: "t = end_call encode members ?u" using Some by (simp add: t_def loop_turn_def a)
      have call: "h_call ?u \<noteq> None" using phase Some HostCall by (auto simp: phase_ok_def split: option.splits)
      from u have "reach host_init (host_step parse encode instructions uid) t"
        unfolding t by (rule reach_step) (rule step_end_call [OF call])
      then show ?thesis using q HostCall by (simp add: t running_end_call [OF call])
    next
      case (HostRegister l)
      then have t: "t = end_register bound sent l ?u" using Some by (simp add: t_def loop_turn_def a)
      from u have "reach host_init (host_step parse encode instructions uid) t"
        unfolding t by (rule reach_step) (rule step_end_register, use Some HostRegister in simp)
      then show ?thesis
        using q HostRegister work_end_register [of bound sent l ?u] by (simp add: t end_register_def Let_def)
    next
      case (HostRevoke l)
      with phase Some show ?thesis by (simp add: phase_ok_def)
    qed
  qed
qed

lemma turns_reach:
  "reach host_init (host_step parse encode instructions uid) s \<Longrightarrow> h_running s = None \<Longrightarrow>
     reach host_init (host_step parse encode instructions uid) (fold (loop_turn encode instructions) as s) \<and>
     h_running (fold (loop_turn encode instructions) as s) = None \<and>
     work (h_events (fold (loop_turn encode instructions) as s)) \<le> work (h_events s) - length as"
proof (induction as arbitrary: s)
  case (Cons a as)
  from turn_reach [OF Cons.prems, of a] have step:
    "reach host_init (host_step parse encode instructions uid) (loop_turn encode instructions a s)"
    "h_running (loop_turn encode instructions a s) = None"
    "work (h_events (loop_turn encode instructions a s)) \<le> work (h_events s) - 1" by simp_all
  from Cons.IH [OF step(1,2)] step(3) show ?case by auto
qed simp

text \<open>C14. The service gets done with what is queued: once nothing new arrives, the queue is empty after at most two
  turns for each event, whatever the tools answer and whether leases can be bound or not, and then every lease
  that was revoked has been acknowledged.\<close>

theorem queue_drains:
  assumes "reach host_init (host_step parse encode instructions uid) s" "h_running s = None"
    and "2 * length (h_events s) \<le> length as"
  shows "let t = fold (loop_turn encode instructions) as s
    in h_events t = [] \<and> h_running t = None \<and>
       (\<forall>l le. h_lease_heap t l = Some le \<longrightarrow> hl_acknowledged le = hl_revoked le)"
proof -
  let ?t = "fold (loop_turn encode instructions) as s"
  note t = turns_reach [OF assms(1,2), of as]
  have "work q \<le> 2 * length q" for q
  proof (induction q)
    case (Cons e q)
    then show ?case by (cases e) simp_all
  qed simp
  then have "work (h_events ?t) = 0" using t assms(3) by (metis diff_is_0_eq le_trans le_zero_eq)
  then have empty: "h_events ?t = []" by (simp add: work_zero)
  have ok: "host_ok None ?t" using t service.always sound_ok by blast
  have "hl_acknowledged le = hl_revoked le" if "h_lease_heap ?t l = Some le" for l le
    using ok_lease [OF ok that] empty t by (auto simp: lease_ok_def queue_def split: if_splits)
  with empty t show ?thesis by (simp add: Let_def)
qed

theorem queue_drains_witness:
  "(let s = host_control_read (\<lambda>_. None) False 0 ControlEnd (host_control_accept 1000 [(6, Some 1000)] no_host);
        t = fold (loop_turn (\<lambda>_. []) []) [([], False, False), ([], False, False)] s
    in h_events s = [HostRevoke 0] \<and> h_events t = [])"
proof -
  let ?s = "host_control_read (\<lambda>_. None) False 0 ControlEnd (host_control_accept 1000 [(6, Some 1000)] no_host)"
  have s: "h_events ?s = [HostRevoke 0]" "h_running ?s = None"
    by (simp_all add: host_control_read_def host_revoke_def on_lease_def host_control_accept_def accept_control_def possible_fd_def
        no_host_def put_lease_def new_lease_def Let_def host_max_leases_def host_queue_def)
  from queue_drains [OF revoked_reach s(2), of "[([], False, False), ([], False, False)]"] s(1) show ?thesis
    by (simp add: Let_def)
qed

section \<open>The end of the service\<close>

definition only_leases :: "nat list \<Rightarrow> host \<Rightarrow> bool" where
  "only_leases ls s = (\<not> h_fault s \<and> distinct ls \<and> set ls \<subseteq> dom (h_lease_heap s) \<and>
     (\<forall>l\<in>set ls. \<forall>le. h_lease_heap s l = Some le \<longrightarrow>
        (0 \<le> hl_listener le \<longrightarrow> h_fds s (hl_listener le) = Some (ListenerFd l)) \<and>
        (0 \<le> hl_control le \<longrightarrow> h_fds s (hl_control le) = Some (ControlFd l))) \<and>
     (\<forall>d h. h_fds s d = Some h \<longrightarrow> 0 \<le> d \<and> (\<exists>l\<in>set ls. \<exists>le. h_lease_heap s l = Some le \<and>
        (h = ListenerFd l \<and> hl_listener le = d \<or> h = ControlFd l \<and> hl_control le = d))))"

lemma only_leases_shut:
  assumes "only_leases (l # ls) s" shows "only_leases ls (shut_lease l s)"
proof -
  from assms obtain le where l: "h_lease_heap s l = Some le" by (auto simp: only_leases_def)
  have own: "0 \<le> hl_listener le \<longrightarrow> h_fds s (hl_listener le) = Some (ListenerFd l)"
    "0 \<le> hl_control le \<longrightarrow> h_fds s (hl_control le) = Some (ControlFd l)"
    using assms l by (auto simp: only_leases_def)
  let ?t = "shut_lease l s"
  have heap: "h_lease_heap ?t k = (if k = l then Some (le\<lparr>hl_source := False, hl_accept_source := False\<rparr>) else h_lease_heap s k)" for k
    using l own by (simp add: shut_lease_def put_lease_def close_fd_def Let_def)
  have fds: "h_fds ?t d = (if (0 \<le> hl_listener le \<and> d = hl_listener le) \<or> (0 \<le> hl_control le \<and> d = hl_control le) then None else h_fds s d)" for d
    using l own by (auto simp: shut_lease_def put_lease_def close_fd_def Let_def)
  have "h_fault ?t = h_fault s" using l own by (auto simp: shut_lease_def put_lease_def close_fd_def Let_def)
  moreover have "set ls \<subseteq> dom (h_lease_heap ?t)" using assms by (auto simp: only_leases_def heap)
  moreover have "(0 \<le> hl_listener ke \<longrightarrow> h_fds ?t (hl_listener ke) = Some (ListenerFd k)) \<and>
      (0 \<le> hl_control ke \<longrightarrow> h_fds ?t (hl_control ke) = Some (ControlFd k))"
    if k: "k \<in> set ls" "h_lease_heap ?t k = Some ke" for k ke
  proof -
    have kl: "k \<noteq> l" using assms k(1) by (auto simp: only_leases_def)
    with k have ks: "h_lease_heap s k = Some ke" by (simp add: heap)
    then have held: "0 \<le> hl_listener ke \<longrightarrow> h_fds s (hl_listener ke) = Some (ListenerFd k)"
      "0 \<le> hl_control ke \<longrightarrow> h_fds s (hl_control ke) = Some (ControlFd k)"
      using assms k(1) by (auto simp: only_leases_def)
    from held own kl show ?thesis by (auto simp: fds)
  qed
  moreover have "0 \<le> d \<and> (\<exists>k\<in>set ls. \<exists>ke. h_lease_heap ?t k = Some ke \<and>
        (h = ListenerFd k \<and> hl_listener ke = d \<or> h = ControlFd k \<and> hl_control ke = d))"
    if d: "h_fds ?t d = Some h" for d h
  proof -
    from d have d': "h_fds s d = Some h" and no: "\<not> (0 \<le> hl_listener le \<and> d = hl_listener le)" "\<not> (0 \<le> hl_control le \<and> d = hl_control le)"
      by (auto simp: fds split: if_splits)
    from assms d' obtain k ke where k: "0 \<le> d" "k \<in> set (l # ls)" "h_lease_heap s k = Some ke"
      "h = ListenerFd k \<and> hl_listener ke = d \<or> h = ControlFd k \<and> hl_control ke = d"
      unfolding only_leases_def by blast
    have "k \<noteq> l" using k no l by auto
    with k show ?thesis by (auto simp: heap)
  qed
  ultimately show ?thesis using assms by (simp add: only_leases_def)
qed

lemma only_leases_all: "only_leases ls s \<Longrightarrow> only_leases [] (fold shut_lease ls s)"
  by (induction ls arbitrary: s) (simp_all add: only_leases_shut)

lemma close_all:
  "host_ok x s \<Longrightarrow> set cs \<subseteq> dom (h_client_heap s) \<Longrightarrow>
     host_ok x (fold host_client_close cs s) \<and> h_leases (fold host_client_close cs s) = h_leases s \<and>
     dom (h_client_heap (fold host_client_close cs s)) = dom (h_client_heap s) \<and>
     (\<forall>c. c \<in> set cs \<or> \<not> is_open c s \<longrightarrow> \<not> is_open c (fold host_client_close cs s))"
proof (induction cs arbitrary: s)
  case (Cons c cs)
  from Cons.prems(2) obtain cl where c: "h_client_heap s c = Some cl" by auto
  let ?t = "host_client_close c s"
  note keep = close_keeps [OF Cons.prems(1) c]
  have ok: "host_ok x ?t" using ok_client_close [OF Cons.prems(1)] c by simp
  have dom: "dom (h_client_heap ?t) = dom (h_client_heap s)" using c by (auto simp: keep)
  have shut: "\<not> is_open d ?t" if "d = c \<or> \<not> is_open d s" for d
    using that c by (auto simp: is_open_def keep)
  have "set cs \<subseteq> dom (h_client_heap ?t)" using Cons.prems(2) dom by simp
  note IH = Cons.IH [OF ok this]
  have "\<not> is_open d (fold host_client_close cs ?t)" if "d \<in> set (c # cs) \<or> \<not> is_open d s" for d
    using that shut [of d] IH by auto
  with IH dom show ?case by (simp add: keep(3))
qed simp

text \<open>C27. When the service ends it has closed every descriptor it held, each one once.\<close>

theorem shut_down_closes:
  assumes "reach host_init (host_step parse encode instructions uid) s"
  shows "h_fds (shut_down s) = (\<lambda>_. None) \<and> \<not> h_fault (shut_down s)"
proof -
  have ok: "host_ok None s" using service.always [OF assms] by (rule sound_ok)
  let ?t = "fold host_client_close (h_clients s) s"
  have lists: "set (h_clients s) = dom (h_client_heap s)" using ok by (simp add: host_ok_def lists_ok_def)
  note all = close_all [OF ok, of "h_clients s"]
  have t: "host_ok None ?t" "h_leases ?t = h_leases s" using all lists by simp_all
  have closed: "hc_closed cl" if "h_client_heap ?t c = Some cl" for c cl
  proof -
    have "c \<in> dom (h_client_heap ?t)" using that by blast
    then have "c \<in> set (h_clients s)" using all lists by simp
    with all lists have "\<not> is_open c ?t" by blast
    with that show ?thesis by (simp add: is_open_def)
  qed
  have heap: "distinct (h_leases s)" "set (h_leases s) = dom (h_lease_heap ?t)" using t by (auto simp: host_ok_def lists_ok_def)
  have "0 \<le> d \<and> (\<exists>l\<in>set (h_leases s). \<exists>le. h_lease_heap ?t l = Some le \<and>
      (h = ListenerFd l \<and> hl_listener le = d \<or> h = ControlFd l \<and> hl_control le = d))" if "h_fds ?t d = Some h" for d h
    using ok_holder [OF t(1) that] closed heap(2) by (cases h) auto
  moreover have "(0 \<le> hl_listener le \<longrightarrow> h_fds ?t (hl_listener le) = Some (ListenerFd l)) \<and>
      (0 \<le> hl_control le \<longrightarrow> h_fds ?t (hl_control le) = Some (ControlFd l))" if "h_lease_heap ?t l = Some le" for l le
    using ok_lease [OF t(1) that] by (simp add: lease_ok_def)
  ultimately have "only_leases (h_leases s) ?t" using t heap by (simp add: only_leases_def host_ok_def)
  then have "only_leases [] (shut_down s)" using t(2) only_leases_all by (simp add: shut_down_def Let_def)
  then show ?thesis by (auto simp: only_leases_def fun_eq_iff)
qed

theorem shut_down_closes_witness:
  "(let s = host_accept 1000 0 [(7, Some 1000)] (start_test 5)
    in h_fds s 7 \<noteq> None \<and> h_fds s 5 \<noteq> None \<and> h_fds (shut_down s) 7 = None \<and> h_fds (shut_down s) 5 = None)"
  using shut_down_closes [OF example_reach [of "\<lambda>_. None" "\<lambda>_. []" "[]"]]
  by (simp add: Let_def) (simp add: example_state)

end
