(* ===== verification/Secret_Helper.thy ===== *)
theory Secret_Helper
  imports Spaces_Prelude
begin

text \<open>
  src/native/spaces_secret_helper.c: the program that D-Bus activation starts in a guest for the
  secret service. It asks the portal for the secret of the application, derives the key of a wallet from
  it, starts KWallet's storage daemon with that key on a pipe, and checks that the wallet opened. A managed
  wallet that stays locked is moved aside, once, and made anew.

  The program's own data are its two secret buffers, the buffer of the digest its key is taken from, and the files it
  looks at; every request to the bus
  and the kernel is an entry of the history with its answer. Other processes may change any file
  while such a request is under way (\<open>x_files\<close>). Operations on files act on the files at that
  moment, or fail for any reason the world gives (\<open>x_fault\<close>). A call repeated while interrupted is one
  request, and so are the loops that complete short writes and wait for the portal's signal.
\<close>

section \<open>Requests and answers\<close>

type_synonym octet = "8 word"

datatype fault = ENOENT | EEXIST | ENOSYS | ECHILD | EOther nat

record inode =
  f_regular :: bool
  f_owner :: int
  f_data :: nat

type_synonym files = "string \<Rightarrow> inode option"

datatype request =
    HasOwner string
  | ConnectionPid string
  | WalletOpen
  | WalletClose int
  | WalletIsOpen
  | AppendFd int
  | PortalRetrieve string "string option" int
  | PortalWait string
  | PortalClose string
  | UniqueName
  | Uuid
  | Clock
  | Sleep nat
  | Memfd
  | Seek int
  | Read int nat
  | Truncate int
  | Close int
  | Pipe
  | Socket
  | Bind int string
  | Connect int string
  | WriteAll int "octet list"
  | Fork
  | Exec string "string list"
  | Setenv string string
  | Kill int int
  | Waitpid int bool
  | IsExecutable string
  | Stat string
  | RenameNew string string
  | Link string string
  | Unlink string
  | Rename string string
  | OpenMarker string
  | CreateMarker string
  | ReadFile string
  | MakeDirectory string
  | WriteFile string string
  | Chmod string
  | OpenLock string
  | Flock int
  | SessionBus
  | Complain string

record reply =
  x_ok :: bool
  x_flag :: bool
  x_number :: int
  x_second :: int
  x_text :: string
  x_token :: "string option"
  x_bytes :: "octet list"
  x_timeout :: bool
  x_fault :: "fault option"
  x_files :: files

type_synonym event = "request \<times> reply"
type_synonym world = "request \<Rightarrow> event list \<Rightarrow> reply"

record helper =
  hp_files :: files
  hp_secret :: "octet list"
  hp_key :: "octet list"
  hp_digest :: "octet list"

type_synonym 'a helping = "(helper, event, 'a) comp"

definition ask :: "world \<Rightarrow> request \<Rightarrow> reply helping" where
  "ask w c = do { a \<leftarrow> sys (w c) (\<lambda>a. (c, a)); modify (hp_files_update (\<lambda>_. x_files a)); ret a }"

definition tell :: "world \<Rightarrow> request \<Rightarrow> unit helping" where
  "tell w c = do { _ \<leftarrow> ask w c; ret () }"

text \<open>An operation on the files: nothing else happens to them meanwhile. None means that it worked. Whether a
  file is there is not for the world to say, so that only its other faults count.\<close>

definition injected :: "reply \<Rightarrow> fault option" where
  "injected a = (case x_fault a of Some e \<Rightarrow> if e = ENOENT \<or> e = EEXIST then None else Some e | None \<Rightarrow> None)"

definition on_files :: "world \<Rightarrow> request \<Rightarrow> (files \<Rightarrow> fault + files) \<Rightarrow> fault option helping" where
  "on_files w c f = do {
     a \<leftarrow> sys (w c) (\<lambda>a. (c, a));
     fs \<leftarrow> gets hp_files;
     case injected a of
       Some e \<Rightarrow> ret (Some e)
     | None \<Rightarrow> (case f fs of Inl e \<Rightarrow> ret (Some e) | Inr fs' \<Rightarrow> do { modify (hp_files_update (\<lambda>_. fs')); ret None }) }"

text \<open>What the program is told when it starts: its environment, its user and its own number.\<close>

record setting =
  g_runtime :: "string option"
  g_environ :: "string list"
  g_uid :: int
  g_self :: int
  g_state :: "string option"
  g_home :: "string option"
  g_data :: string

definition SECRET_SIZE :: nat where "SECRET_SIZE = 64"
definition KWALLET_KEY_SIZE :: nat where "KWALLET_KEY_SIZE = 56"
definition SIGKILL :: int where "SIGKILL = 9"
definition SIGTERM :: int where "SIGTERM = 15"
definition SUN_PATH :: nat where "SUN_PATH = 108"

definition build_filename :: "string \<Rightarrow> string \<Rightarrow> string" where
  "build_filename directory name = rev (dropWhile (\<lambda>c. c = CHR ''/'') (rev directory)) @ ''/'' @ name"

definition bytes_of :: "string \<Rightarrow> octet list" where
  "bytes_of s = map of_char s"

section \<open>Secrets\<close>

definition secure_clear :: "nat \<Rightarrow> octet list" where
  "secure_clear got = replicate got 0"

definition clear_secret :: "unit helping" where
  "clear_secret = modify (hp_secret_update (\<lambda>_. secure_clear SECRET_SIZE))"

definition clear_key :: "unit helping" where
  "clear_key = modify (hp_key_update (\<lambda>_. secure_clear KWALLET_KEY_SIZE))"

definition clear_digest :: "unit helping" where
  "clear_digest = modify (hp_digest_update (\<lambda>_. secure_clear SECRET_SIZE))"

text \<open>The domain is hashed with its terminating zero byte.\<close>

definition key_domain :: "octet list" where
  "key_domain = bytes_of ''org.anatase.spaces.kwallet-unlock.v1'' @ [0]"

definition spaces_derive_kwallet_key :: "(octet list \<Rightarrow> octet list \<Rightarrow> octet list) \<Rightarrow> bool helping" where
  "spaces_derive_kwallet_key hmac = do {
     secret \<leftarrow> gets hp_secret;
     modify (hp_digest_update (\<lambda>_. hmac secret key_domain));
     digest \<leftarrow> gets hp_digest;
     if length digest \<noteq> SECRET_SIZE then do { clear_digest; ret False }
     else do {
       modify (hp_key_update (\<lambda>_. take KWALLET_KEY_SIZE digest));
       clear_digest;
       ret True } }"

section \<open>The portal's secret\<close>

definition token_path :: "setting \<Rightarrow> string option" where
  "token_path g =
     (case (case g_state g of Some s \<Rightarrow> if s = [] then None else Some s | None \<Rightarrow> None) of
        Some s \<Rightarrow> Some (build_filename (build_filename s ''spaces'') ''secret-portal-token'')
      | None \<Rightarrow>
          (case g_home g of None \<Rightarrow> None
           | Some h \<Rightarrow> Some (build_filename (build_filename (build_filename (build_filename h ''.local'') ''state'') ''spaces'')
               ''secret-portal-token'')))"

definition load_token :: "world \<Rightarrow> setting \<Rightarrow> string option helping" where
  "load_token w g =
     (case token_path g of
        None \<Rightarrow> ret None
      | Some path \<Rightarrow> do {
          a \<leftarrow> ask w (ReadFile path);
          ret (if x_ok a \<and> x_text a \<noteq> [] \<and> length (x_text a) \<le> 4096
               then Some (takeWhile (\<lambda>c. c \<noteq> CHR 0x00) (x_text a)) else None) })"

definition save_token :: "world \<Rightarrow> setting \<Rightarrow> string option \<Rightarrow> unit helping" where
  "save_token w g token =
     (case token of
        None \<Rightarrow> ret ()
      | Some t \<Rightarrow>
          if t = [] then ret ()
          else case token_path g of
                 None \<Rightarrow> ret ()
               | Some path \<Rightarrow> do {
                   d \<leftarrow> ask w (MakeDirectory (rev (tl (dropWhile (\<lambda>c. c \<noteq> CHR ''/'') (rev path)))));
                   if \<not> x_ok d then ret ()
                   else do {
                     f \<leftarrow> ask w (WriteFile path t);
                     cond (x_ok f) (tell w (Chmod path)) } })"

definition request_path :: "string \<Rightarrow> string \<Rightarrow> string" where
  "request_path unique token =
     ''/org/freedesktop/portal/desktop/request/'' @
     map (\<lambda>c. if c = CHR ''.'' then CHR ''_'' else c) (if take 1 unique = '':'' then drop 1 unique else unique) @
     ''/'' @ token"

definition put_at :: "nat \<Rightarrow> octet list \<Rightarrow> octet list \<Rightarrow> octet list" where
  "put_at got bs buffer = take got buffer @ bs @ drop (got + length bs) buffer"

text \<open>The kernel returns at most as many bytes as it is asked for.\<close>

lemma reading_progress:
  "\<not> SECRET_SIZE \<le> got \<Longrightarrow> bs \<noteq> [] \<Longrightarrow> SECRET_SIZE - (got + min (length bs) (SECRET_SIZE - got)) < SECRET_SIZE - got"
  by (cases bs) auto

function read_secret :: "world \<Rightarrow> int \<Rightarrow> nat \<Rightarrow> bool helping" where
  "read_secret w descriptor got =
     (if got \<ge> SECRET_SIZE then ret True
      else do {
        a \<leftarrow> ask w (Read descriptor (SECRET_SIZE - got));
        let bs = take (SECRET_SIZE - got) (x_bytes a);
        if \<not> x_ok a \<or> bs = [] then ret False
        else do {
          modify (hp_secret_update (put_at got bs));
          read_secret w descriptor (got + length bs) } })"
  by pat_completeness auto
termination
  by (relation "measure (\<lambda>(w, descriptor, got). SECRET_SIZE - got)") (auto intro: reading_progress)

declare read_secret.simps [simp del]

definition secret_at_end :: "world \<Rightarrow> int \<Rightarrow> bool helping" where
  "secret_at_end w descriptor = do {
     a \<leftarrow> ask w (Read descriptor 1);
     ret (x_ok a \<and> x_bytes a = []) }"

definition request_secret :: "world \<Rightarrow> setting \<Rightarrow> int \<Rightarrow> bool helping" where
  "request_secret w g descriptor = do {
     u \<leftarrow> ask w Uuid;
     let handle_token = map (\<lambda>c. if c = CHR ''-'' then CHR ''_'' else c) (x_text u);
     n \<leftarrow> ask w UniqueName;
     if \<not> x_ok n then ret False
     else do {
       let path = request_path (x_text n) handle_token;
       saved \<leftarrow> load_token w g;
       f \<leftarrow> ask w (AppendFd descriptor);
       r \<leftarrow> (if x_ok f then ask w (PortalRetrieve handle_token saved descriptor) else ret f);
       if \<not> x_ok r \<or> x_text r \<noteq> path then ret False
       else do {
         s \<leftarrow> ask w (PortalWait path);
         if \<not> x_ok s then do { tell w (PortalClose path); ret False }
         else if x_number s \<noteq> 0 then ret False
         else do {
           k \<leftarrow> ask w (Seek descriptor);
           if \<not> x_ok k then ret False
           else do {
             all \<leftarrow> read_secret w descriptor 0;
             if \<not> all then ret False
             else do {
               finished \<leftarrow> secret_at_end w descriptor;
               if \<not> finished then ret False
               else do { save_token w g (x_token s); ret True } } } } } } }"

definition retrieve_portal_secret :: "world \<Rightarrow> setting \<Rightarrow> bool helping" where
  "retrieve_portal_secret w g = do {
     m \<leftarrow> ask w Memfd;
     if \<not> x_ok m then do { clear_secret; ret False }
     else do {
       success \<leftarrow> request_secret w g (x_number m);
       cond (\<not> success) clear_secret;
       tell w (Truncate (x_number m));
       tell w (Close (x_number m));
       ret success } }"

section \<open>Names on the bus\<close>

definition name_has_owner :: "world \<Rightarrow> string \<Rightarrow> bool helping" where
  "name_has_owner w name = do { a \<leftarrow> ask w (HasOwner name); ret (x_ok a \<and> x_flag a) }"

text \<open>Every round of the wait sleeps for 50 ms or more, so that 15 seconds are over after 300 rounds.\<close>

fun wait_rounds :: "nat \<Rightarrow> world \<Rightarrow> string \<Rightarrow> int \<Rightarrow> bool helping" where
  "wait_rounds 0 w name child = ret False"
| "wait_rounds (Suc n) w name child = do {
     t \<leftarrow> ask w Clock;
     if x_timeout t then ret False
     else do {
       owned \<leftarrow> name_has_owner w name;
       if owned then ret True
       else do {
         gone \<leftarrow> (if child > 0 then do { a \<leftarrow> ask w (Waitpid child True); ret (x_number a = child) } else ret False);
         if gone then ret False
         else do { tell w (Sleep 50000); wait_rounds n w name child } } } }"

definition wait_for_owner :: "world \<Rightarrow> string \<Rightarrow> int \<Rightarrow> bool helping" where
  "wait_for_owner = wait_rounds 301"

datatype wallet_state = WALLET_OPEN | WALLET_CLOSED | WALLET_TIMEOUT | WALLET_ERROR

definition wallet_failed :: "reply \<Rightarrow> wallet_state" where
  "wallet_failed a = (if x_timeout a then WALLET_TIMEOUT else WALLET_ERROR)"

definition wallet_open_state :: "world \<Rightarrow> bool \<Rightarrow> wallet_state helping" where
  "wallet_open_state w kf6 =
     (if kf6 then do {
        a \<leftarrow> ask w WalletOpen;
        if \<not> x_ok a then ret (wallet_failed a)
        else if x_number a < 0 then ret WALLET_CLOSED
        else do { tell w (WalletClose (x_number a)); ret WALLET_OPEN } }
      else do {
        a \<leftarrow> ask w WalletIsOpen;
        ret (if x_ok a then (if x_flag a then WALLET_OPEN else WALLET_CLOSED) else wallet_failed a) })"

definition connection_pid :: "world \<Rightarrow> string \<Rightarrow> int helping" where
  "connection_pid w name = do {
     a \<leftarrow> ask w (ConnectionPid name);
     let pid = (if x_ok a then x_number a mod 2 ^ 32 else 0);
     ret (if pid > 1 \<and> pid \<le> 2 ^ 31 - 1 then pid else - 1) }"

fun await_release :: "nat \<Rightarrow> world \<Rightarrow> string \<Rightarrow> unit helping" where
  "await_release 0 w name = ret ()"
| "await_release (Suc n) w name = do {
     owned \<leftarrow> name_has_owner w name;
     if \<not> owned then ret ()
     else do {
       t \<leftarrow> ask w Clock;
       if x_timeout t then ret () else do { tell w (Sleep 50000); await_release n w name } } }"

definition reap_child :: "world \<Rightarrow> int \<Rightarrow> int helping" where
  "reap_child w child =
     (if child > 1 then do {
        a \<leftarrow> ask w (Waitpid child True);
        ret (if x_number a = child \<or> (x_number a < 0 \<and> x_fault a = Some ECHILD) then - 1 else child) }
      else ret child)"

definition kill_provider :: "world \<Rightarrow> setting \<Rightarrow> string \<Rightarrow> int \<Rightarrow> unit helping" where
  "kill_provider w g name child = do {
     owner \<leftarrow> connection_pid w name;
     child \<leftarrow> reap_child w child;
     cond (owner > 1 \<and> owner \<noteq> g_self g) (tell w (Kill owner SIGKILL));
     cond (child > 1 \<and> child \<noteq> owner \<and> child \<noteq> g_self g) (tell w (Kill child SIGKILL));
     cond (child > 1) (tell w (Waitpid child False));
     await_release 61 w name }"

section \<open>Moving a locked wallet aside\<close>

definition nofollow_stat :: "world \<Rightarrow> string \<Rightarrow> (fault + inode) helping" where
  "nofollow_stat w path = do {
     r \<leftarrow> on_files w (Stat path) (\<lambda>fs. case fs path of None \<Rightarrow> Inl ENOENT | Some _ \<Rightarrow> Inr fs);
     fs \<leftarrow> gets hp_files;
     ret (case r of Some e \<Rightarrow> Inl e | None \<Rightarrow> (case fs path of Some f \<Rightarrow> Inr f | None \<Rightarrow> Inl ENOENT)) }"

definition move_new :: "string \<Rightarrow> string \<Rightarrow> files \<Rightarrow> fault + files" where
  "move_new source destination fs =
     (case fs source of
        None \<Rightarrow> Inl ENOENT
      | Some f \<Rightarrow> if fs destination \<noteq> None then Inl EEXIST else Inr (fs(source := None, destination \<mapsto> f)))"

definition link_new :: "string \<Rightarrow> string \<Rightarrow> files \<Rightarrow> fault + files" where
  "link_new source destination fs =
     (case fs source of
        None \<Rightarrow> Inl ENOENT
      | Some f \<Rightarrow> if fs destination \<noteq> None then Inl EEXIST else Inr (fs(destination \<mapsto> f)))"

definition unlink_file :: "string \<Rightarrow> files \<Rightarrow> fault + files" where
  "unlink_file path fs = (if fs path = None then Inl ENOENT else Inr (fs(path := None)))"

definition move_over :: "string \<Rightarrow> string \<Rightarrow> files \<Rightarrow> fault + files" where
  "move_over source destination fs =
     (case fs source of None \<Rightarrow> Inl ENOENT
      | Some f \<Rightarrow> if source = destination then Inr fs else Inr (fs(source := None, destination \<mapsto> f)))"

definition unlink_path :: "world \<Rightarrow> string \<Rightarrow> unit helping" where
  "unlink_path w path = do { _ \<leftarrow> on_files w (Unlink path) (unlink_file path); ret () }"

definition rename_noreplace :: "world \<Rightarrow> string \<Rightarrow> string \<Rightarrow> bool helping" where
  "rename_noreplace w source destination = do {
     r \<leftarrow> on_files w (RenameNew source destination) (move_new source destination);
     case r of
       None \<Rightarrow> ret True
     | Some e \<Rightarrow>
         if e \<noteq> ENOSYS then ret False
         else do {
           l \<leftarrow> on_files w (Link source destination) (link_new source destination);
           if l \<noteq> None then ret False
           else do {
             u \<leftarrow> on_files w (Unlink source) (unlink_file source);
             if u = None then ret True
             else do {
               unlink_path w destination;
               ret False } } } }"

definition wallet_names :: "string list" where
  "wallet_names = [''spaces-managed-v1.kwl'', ''spaces-managed-v1.salt'', ''spaces-managed-v1_attributes.json'']"

definition numbered :: "string \<Rightarrow> nat \<Rightarrow> string" where
  "numbered source number = source @ ''.'' @ show_nat number"

text \<open>Which of the files are there; None if one of them cannot be moved.\<close>

fun present_files :: "world \<Rightarrow> setting \<Rightarrow> string list \<Rightarrow> bool list option helping" where
  "present_files w g [] = ret (Some [])"
| "present_files w g (source # sources) = do {
     m \<leftarrow> nofollow_stat w source;
     case m of
       Inr f \<Rightarrow>
         if \<not> f_regular f \<or> f_owner f \<noteq> g_uid g then ret None
         else do { r \<leftarrow> present_files w g sources; ret (map_option ((#) True) r) }
     | Inl e \<Rightarrow>
         if e \<noteq> ENOENT then ret None
         else do { r \<leftarrow> present_files w g sources; ret (map_option ((#) False) r) } }"

fun all_free :: "world \<Rightarrow> nat \<Rightarrow> string list \<Rightarrow> bool helping" where
  "all_free w number [] = ret True"
| "all_free w number (source # sources) = do {
     m \<leftarrow> nofollow_stat w (numbered source number);
     if m \<noteq> Inl ENOENT then ret False else all_free w number sources }"

definition G_MAXUINT :: nat where "G_MAXUINT = 2 ^ 32 - 1"

function free_number :: "world \<Rightarrow> string list \<Rightarrow> nat \<Rightarrow> nat option helping" where
  "free_number w sources number =
     (if number \<ge> G_MAXUINT then ret None
      else do {
        available \<leftarrow> all_free w number sources;
        if available then ret (Some number) else free_number w sources (number + 1) })"
  by pat_completeness auto
termination
  by (relation "measure (\<lambda>(w, sources, number). G_MAXUINT - number)") auto

declare free_number.simps [simp del]

text \<open>The files are moved in their order; the result is whether all were, and those that were.\<close>

fun move_files :: "world \<Rightarrow> nat \<Rightarrow> string list \<Rightarrow> string list \<Rightarrow> (bool \<times> string list) helping" where
  "move_files w number [] moved = ret (True, moved)"
| "move_files w number (source # sources) moved = do {
     done \<leftarrow> rename_noreplace w source (numbered source number);
     if \<not> done then ret (False, moved) else move_files w number sources (moved @ [source]) }"

definition move_back :: "world \<Rightarrow> nat \<Rightarrow> string \<Rightarrow> unit helping" where
  "move_back w number source = do {
     _ \<leftarrow> on_files w (Rename (numbered source number) source) (move_over (numbered source number) source);
     ret () }"

definition wallet_sources :: "string \<Rightarrow> string list" where
  "wallet_sources data_directory = map (build_filename (build_filename data_directory ''kwalletd'')) wallet_names"

definition spaces_backup_failed_wallet :: "world \<Rightarrow> setting \<Rightarrow> string \<Rightarrow> nat option helping" where
  "spaces_backup_failed_wallet w g data_directory =
     (if data_directory = [] then ret None
      else do {
        let sources = wallet_sources data_directory;
        p \<leftarrow> present_files w g sources;
        case p of
          None \<Rightarrow> ret None
        | Some present \<Rightarrow>
            if \<not> hd present then ret None
            else do {
              n \<leftarrow> free_number w sources 1;
              case n of
                None \<Rightarrow> ret None
              | Some number \<Rightarrow> do {
                  r \<leftarrow> move_files w number (map fst (filter snd (zip sources present))) [];
                  case r of (success, moved) \<Rightarrow>
                    if success then ret (Some number)
                    else do { each (move_back w number) (rev moved); ret None } } } })"

section \<open>Starting providers\<close>

fun send_lines :: "world \<Rightarrow> int \<Rightarrow> string list \<Rightarrow> bool helping" where
  "send_lines w descriptor [] = do {
     a \<leftarrow> ask w (WriteAll descriptor (bytes_of (''QT_QPA_PLATFORM=offscreen'' @ [CHR 0x0A])));
     ret (x_ok a) }"
| "send_lines w descriptor (entry # entries) =
     (if g_str_has_prefix entry ''QT_QPA_PLATFORM='' then send_lines w descriptor entries
      else if CHR 0x0A \<in> set entry then ret False
      else do {
        a \<leftarrow> ask w (WriteAll descriptor (bytes_of entry));
        if \<not> x_ok a then ret False
        else do {
          b \<leftarrow> ask w (WriteAll descriptor [10]);
          if \<not> x_ok b then ret False else send_lines w descriptor entries } })"

definition send_environment :: "world \<Rightarrow> setting \<Rightarrow> string \<Rightarrow> bool helping" where
  "send_environment w g path = do {
     s \<leftarrow> ask w Socket;
     if \<not> x_ok s then ret False
     else do {
       success \<leftarrow> (if length path \<ge> SUN_PATH then ret False
         else do {
           c \<leftarrow> ask w (Connect (x_number s) path);
           if \<not> x_ok c then ret False else send_lines w (x_number s) (g_environ g) });
       tell w (Close (x_number s));
       ret success } }"

text \<open>What the started process does before it is the storage daemon; it inherits both descriptors.\<close>

definition spaces_prepare_headless_qt :: "world \<Rightarrow> unit helping" where
  "spaces_prepare_headless_qt w = tell w (Setenv ''QT_QPA_PLATFORM'' ''offscreen'')"

definition storage_child :: "world \<Rightarrow> string \<Rightarrow> int \<Rightarrow> int \<Rightarrow> int \<Rightarrow> unit helping" where
  "storage_child w program key_read key_write listener = do {
     tell w (Close key_write);
     spaces_prepare_headless_qt w;
     tell w (Setenv ''PAM_KWALLET5_LOGIN'' ''1'');
     tell w (Exec program [program, ''--pam-login'', show_int key_read, show_int listener]) }"

definition plain_child :: "world \<Rightarrow> string \<Rightarrow> unit helping" where
  "plain_child w program = do {
     spaces_prepare_headless_qt w;
     tell w (Exec program [program]) }"

text \<open>A fork has a positive answer in the parent, which is the one that goes on here; - 1 stands for any failure.\<close>

definition fork_process :: "world \<Rightarrow> int helping" where
  "fork_process w = do { a \<leftarrow> ask w Fork; ret (if x_ok a \<and> x_number a > 0 then x_number a else - 1) }"

definition feed_provider :: "world \<Rightarrow> setting \<Rightarrow> int \<Rightarrow> int \<Rightarrow> string \<Rightarrow> int helping" where
  "feed_provider w g child key_write socket_path = do {
     key \<leftarrow> gets hp_key;
     k \<leftarrow> ask w (WriteAll key_write key);
     if \<not> x_ok k then do { tell w (Kill child SIGTERM); tell w (Close key_write); ret (- 1) }
     else do {
       tell w (Close key_write);
       sent \<leftarrow> send_environment w g socket_path;
       if sent then ret child else do { tell w (Kill child SIGTERM); ret (- 1) } } }"

definition spawn_storage_provider :: "world \<Rightarrow> setting \<Rightarrow> string \<Rightarrow> int helping" where
  "spawn_storage_provider w g program =
     (case g_runtime g of
        None \<Rightarrow> ret (- 1)
      | Some runtime \<Rightarrow>
          if runtime = [] then ret (- 1)
          else do {
            p \<leftarrow> ask w Pipe;
            if \<not> x_ok p then ret (- 1)
            else do {
              let socket_path = build_filename runtime ''spaces-kwallet-environment.socket'';
              child \<leftarrow> (if length socket_path \<ge> SUN_PATH
                then do { tell w (Close (x_number p)); tell w (Close (x_second p)); ret (- 1) }
                else do {
                  l \<leftarrow> ask w Socket;
                  if \<not> x_ok l
                  then do { tell w (Close (x_number p)); tell w (Close (x_second p)); ret (- 1) }
                  else do {
                    unlink_path w socket_path;
                    b \<leftarrow> ask w (Bind (x_number l) socket_path);
                    child \<leftarrow> (if x_ok b then fork_process w else ret (- 1));
                    if child < 0
                    then do { tell w (Close (x_number p)); tell w (Close (x_second p)); tell w (Close (x_number l)); ret (- 1) }
                    else do {
                      tell w (Close (x_number p));
                      child \<leftarrow> feed_provider w g child (x_second p) socket_path;
                      tell w (Close (x_number l));
                      ret child } } });
              unlink_path w socket_path;
              ret child } })"

definition spawn_plain :: "world \<Rightarrow> string \<Rightarrow> int helping" where
  "spawn_plain w program = fork_process w"

definition ensure_kf6_proxy :: "world \<Rightarrow> int helping" where
  "ensure_kf6_proxy w = do {
     owned \<leftarrow> name_has_owner w ''org.kde.kwalletd6'';
     if owned then ret 0
     else do {
       x \<leftarrow> ask w (IsExecutable ''/usr/bin/kwalletd6'');
       if \<not> x_flag x then do { tell w (Complain ''KWallet compatibility proxy is missing''); ret (- 1) }
       else do {
         child \<leftarrow> spawn_plain w ''/usr/bin/kwalletd6'';
         ready \<leftarrow> (if child \<le> 0 then ret False else wait_for_owner w ''org.kde.kwalletd6'' child);
         if ready then ret child
         else do {
           cond (child > 0) (tell w (Kill child SIGTERM));
           ret (- 1) } } } }"

section \<open>The marker\<close>

definition marker_exists :: "world \<Rightarrow> setting \<Rightarrow> string \<Rightarrow> bool helping" where
  "marker_exists w g path = do {
     r \<leftarrow> on_files w (OpenMarker path) (\<lambda>fs. case fs path of None \<Rightarrow> Inl ENOENT | Some _ \<Rightarrow> Inr fs);
     fs \<leftarrow> gets hp_files;
     ret (r = None \<and> (case fs path of Some f \<Rightarrow> f_regular f \<and> f_owner f = g_uid g | None \<Rightarrow> False)) }"

definition create_marker :: "world \<Rightarrow> setting \<Rightarrow> string \<Rightarrow> bool helping" where
  "create_marker w g path = do {
     r \<leftarrow> on_files w (CreateMarker path) (\<lambda>fs. case fs path of
            None \<Rightarrow> Inr (fs(path \<mapsto> \<lparr>f_regular = True, f_owner = g_uid g, f_data = 0\<rparr>))
          | Some f \<Rightarrow> if f_regular f then Inr fs else Inl (EOther 0));
     ret (r = None) }"

section \<open>Activation\<close>

abbreviation "secrets_name \<equiv> ''org.freedesktop.secrets''"
abbreviation "proxy_name \<equiv> ''org.kde.kwalletd6''"

definition kill_all :: "world \<Rightarrow> setting \<Rightarrow> bool \<Rightarrow> int \<Rightarrow> int \<Rightarrow> string \<Rightarrow> unit helping" where
  "kill_all w g kf6 proxy_child child marker = do {
     cond kf6 (kill_provider w g proxy_name proxy_child);
     kill_provider w g secrets_name child;
     unlink_path w marker }"

definition back_up :: "world \<Rightarrow> setting \<Rightarrow> bool helping" where
  "back_up w g = do {
     b \<leftarrow> spaces_backup_failed_wallet w g (g_data g);
     case b of
       None \<Rightarrow> do { tell w (Complain ''could not back up the locked wallet''); ret False }
     | Some n \<Rightarrow> do { tell w (Complain (''backed up the locked wallet as spaces-managed-v1.kwl.'' @ show_nat n)); ret True } }"

text \<open>A managed provider is running already. The result: whether to go on, and whether a new one is needed.\<close>

definition examine_provider :: "world \<Rightarrow> setting \<Rightarrow> bool \<Rightarrow> string \<Rightarrow> (bool \<times> bool) helping" where
  "examine_provider w g kf6 marker = do {
     proxy_child \<leftarrow> (if kf6 then ensure_kf6_proxy w else ret 0);
     if proxy_child < 0 then ret (False, False)
     else do {
       state \<leftarrow> wallet_open_state w kf6;
       case state of
         WALLET_TIMEOUT \<Rightarrow> do {
           kill_all w g kf6 proxy_child (- 1) marker;
           tell w (Complain ''KWallet timed out and was killed'');
           ret (False, False) }
       | WALLET_ERROR \<Rightarrow> do {
           cond kf6 (kill_provider w g proxy_name proxy_child);
           tell w (Complain ''could not query the managed wallet'');
           ret (False, False) }
       | WALLET_CLOSED \<Rightarrow> do {
           kill_all w g kf6 proxy_child (- 1) marker;
           saved \<leftarrow> back_up w g;
           ret (saved, saved) }
       | WALLET_OPEN \<Rightarrow> ret (True, False) } }"

text \<open>The loop that starts a provider: a second round only follows the one backup.\<close>

fun start_provider :: "nat \<Rightarrow> world \<Rightarrow> setting \<Rightarrow> bool \<Rightarrow> string \<Rightarrow> string \<Rightarrow> bool \<Rightarrow> int option helping" where
  "start_provider 0 w g kf6 program marker wallet_backed_up = ret None"
| "start_provider (Suc n) w g kf6 program marker wallet_backed_up = do {
     child \<leftarrow> spawn_storage_provider w g program;
     ready \<leftarrow> (if child \<le> 0 then ret False else wait_for_owner w secrets_name child);
     if \<not> ready then do {
       cond (child > 0) (kill_provider w g secrets_name child);
       unlink_path w marker;
       tell w (Complain ''KWallet startup timed out and was killed'');
       ret None }
     else do {
       proxy_child \<leftarrow> (if kf6 then ensure_kf6_proxy w else ret 0);
       if proxy_child < 0 then do { kill_provider w g secrets_name child; ret None }
       else do {
         state \<leftarrow> wallet_open_state w kf6;
         if state = WALLET_OPEN then ret (Some child)
         else do {
           kill_all w g kf6 proxy_child child marker;
           if state = WALLET_TIMEOUT then do { tell w (Complain ''KWallet timed out and was killed''); ret None }
           else if state = WALLET_CLOSED \<and> \<not> wallet_backed_up then do {
             saved \<leftarrow> back_up w g;
             if saved then start_provider n w g kf6 program marker True else ret None }
           else do {
             tell w (Complain (if state = WALLET_CLOSED then ''recreated KWallet did not open'' else ''could not query KWallet''));
             ret None } } } } }"

definition unlock_provider ::
    "(octet list \<Rightarrow> octet list \<Rightarrow> octet list) \<Rightarrow> world \<Rightarrow> setting \<Rightarrow> bool \<Rightarrow> string \<Rightarrow> string \<Rightarrow> bool \<Rightarrow> bool helping" where
  "unlock_provider hmac w g kf6 program marker wallet_backed_up = do {
     retrieved \<leftarrow> retrieve_portal_secret w g;
     derived \<leftarrow> (if retrieved then spaces_derive_kwallet_key hmac else ret False);
     if \<not> derived then do { tell w (Complain ''portal secret is unavailable''); ret False }
     else do {
       clear_secret;
       started \<leftarrow> start_provider 2 w g kf6 program marker wallet_backed_up;
       case started of
         None \<Rightarrow> ret False
       | Some child \<Rightarrow> do {
           marked \<leftarrow> create_marker w g marker;
           if \<not> marked then do { kill_provider w g secrets_name child; ret False }
           else do { clear_key; ret True } } } }"

definition provide ::
    "(octet list \<Rightarrow> octet list \<Rightarrow> octet list) \<Rightarrow> world \<Rightarrow> setting \<Rightarrow> string \<Rightarrow> string \<Rightarrow> int helping" where
  "provide hmac w g activation_name marker = do {
     k \<leftarrow> ask w (IsExecutable ''/usr/bin/ksecretd'');
     let kf6 = x_flag k;
     let program = (if kf6 then ''/usr/bin/ksecretd'' else ''/usr/bin/kwalletd5'');
     storage_owned \<leftarrow> name_has_owner w secrets_name;
     x \<leftarrow> ask w (IsExecutable program);
     if \<not> x_flag x then do { tell w (Complain ''no supported KWallet provider''); ret 1 }
     else do {
       managed \<leftarrow> (if storage_owned then marker_exists w g marker else ret True);
       if \<not> managed then do { tell w (Complain ''refusing an unmanaged secret provider''); ret 1 }
       else do {
         r \<leftarrow> (if storage_owned then examine_provider w g kf6 marker else ret (True, True));
         if \<not> fst r then ret 1
         else do {
           unlocked \<leftarrow> (if snd r then unlock_provider hmac w g kf6 program marker storage_owned else ret True);
           if \<not> unlocked then ret 1
           else do {
             claimed \<leftarrow> name_has_owner w activation_name;
             if claimed then ret 0
             else do { tell w (Complain (''provider did not claim '' @ activation_name)); ret 1 } } } } } }"

definition activate_provider ::
    "(octet list \<Rightarrow> octet list \<Rightarrow> octet list) \<Rightarrow> world \<Rightarrow> setting \<Rightarrow> string \<Rightarrow> string \<Rightarrow> int helping" where
  "activate_provider hmac w g activation_name marker = do {
     clear_secret;
     clear_key;
     result \<leftarrow> provide hmac w g activation_name marker;
     clear_key;
     clear_secret;
     ret result }"

definition activation_names :: "string list" where
  "activation_names = [''org.freedesktop.secrets'', ''org.kde.secretservicecompat'', ''org.kde.kwalletd5'', ''org.kde.kwalletd6'']"

definition helper_main ::
    "(octet list \<Rightarrow> octet list \<Rightarrow> octet list) \<Rightarrow> world \<Rightarrow> setting \<Rightarrow> string list \<Rightarrow> int helping" where
  "helper_main hmac w g argv =
     (let activation_name = (if length argv = 3 \<and> argv ! 1 = ''--activation-name'' then Some (argv ! 2) else None)
      in if activation_name = None \<or> the activation_name \<notin> set activation_names
         then do { tell w (Complain ''invalid activation name''); ret 2 }
         else case g_runtime g of
                None \<Rightarrow> do { tell w (Complain ''XDG_RUNTIME_DIR is unavailable''); ret 1 }
              | Some runtime \<Rightarrow>
                  if runtime = [] then do { tell w (Complain ''XDG_RUNTIME_DIR is unavailable''); ret 1 }
                  else do {
                    l \<leftarrow> ask w (OpenLock (build_filename runtime ''spaces-secret-helper.lock''));
                    if \<not> x_ok l then ret 1
                    else do {
                      k \<leftarrow> ask w (Flock (x_number l));
                      if \<not> x_ok k then do { tell w (Close (x_number l)); ret 1 }
                      else do {
                        b \<leftarrow> ask w SessionBus;
                        if \<not> x_ok b then do { tell w (Complain ''session bus is unavailable''); tell w (Close (x_number l)); ret 1 }
                        else do {
                          result \<leftarrow> activate_provider hmac w g (the activation_name)
                            (build_filename runtime ''spaces-secret-helper.ready'');
                          tell w (Close (x_number l));
                          ret result } } } })"

end
