(* ===== verification/Wallet_Backup.thy ===== *)
theory Wallet_Backup
  imports Secret_Helper
begin

text \<open>
  What \<open>spaces_backup_failed_wallet\<close> does to the files: it moves all the wallet's files to the first number that is free
  for all of them, or puts back what it moved.
\<close>

section \<open>Names\<close>

definition base :: "nat \<Rightarrow> string \<Rightarrow> string" where
  "base n p = take (length p - length (''.'' @ show_nat n)) p"

lemma base_numbered [simp]: "base n (numbered s n) = s"
  by (simp add: base_def numbered_def)

lemma numbered_inj [simp]: "numbered s n = numbered t n \<longleftrightarrow> s = t"
  by (simp add: numbered_def)

lemma numbered_digit: "is_digit (last (numbered s n))"
proof -
  have "last (numbered s n) = last (show_nat n)" by (simp add: numbered_def)
  also have "last (show_nat n) \<in> set (show_nat n)" by (rule last_in_set) simp
  ultimately show ?thesis using show_nat_digits by metis
qed

lemma source_last: "s \<in> set (wallet_sources d) \<Longrightarrow> \<not> is_digit (last s)"
  by (auto simp: wallet_sources_def wallet_names_def build_filename_def is_digit_def)

lemma numbered_source: "s \<in> set (wallet_sources d) \<Longrightarrow> numbered t n \<noteq> s"
  using numbered_digit source_last by metis

lemma sources_distinct: "distinct (wallet_sources d)"
  by (simp add: wallet_sources_def wallet_names_def build_filename_def)

section \<open>Files set aside\<close>

text \<open>The files \<open>M\<close> are moved to their numbered names, those of \<open>L\<close> are linked there as well.\<close>

definition aside :: "nat \<Rightarrow> string set \<Rightarrow> string set \<Rightarrow> files \<Rightarrow> files" where
  "aside n M L fs = (\<lambda>p. if p \<in> M then None else if p \<in> (\<lambda>m. numbered m n) ` (M \<union> L) then fs (base n p) else fs p)"

definition apart :: "nat \<Rightarrow> string set \<Rightarrow> files \<Rightarrow> bool" where
  "apart n S fs = (\<forall>m\<in>S. (\<forall>k\<in>S. numbered m n \<noteq> k) \<and> fs (numbered m n) = None)"

lemma aside_none [simp]: "aside n {} {} fs = fs"
  by (simp add: aside_def)

lemma aside_apply:
  assumes "apart n S fs" "M \<union> L \<subseteq> S" "m \<in> S"
  shows "aside n M L fs m = (if m \<in> M then None else fs m)"
    and "aside n M L fs (numbered m n) = (if m \<in> M \<union> L then fs m else None)"
  using assms by (auto simp: aside_def apart_def)

lemma aside_move:
  assumes "apart n S fs" "insert m M \<subseteq> S" "m \<notin> M"
  shows "(aside n M {} fs)(m := None, numbered m n := fs m) = aside n (insert m M) {} fs"
  using assms by (auto simp: aside_def apart_def fun_eq_iff)

lemma aside_link:
  assumes "apart n S fs" "insert m M \<subseteq> S" "m \<notin> M"
  shows "(aside n M {} fs)(numbered m n := fs m) = aside n M {m} fs"
  using assms by (auto simp: aside_def apart_def fun_eq_iff)

lemma aside_unlink_source:
  assumes "apart n S fs" "insert m M \<subseteq> S" "m \<notin> M"
  shows "(aside n M {m} fs)(m := None) = aside n (insert m M) {} fs"
  using assms by (auto simp: aside_def apart_def fun_eq_iff)

lemma aside_unlink_copy:
  assumes "apart n S fs" "insert m M \<subseteq> S" "m \<notin> M"
  shows "(aside n M {m} fs)(numbered m n := None) = aside n M {} fs"
  using assms by (auto simp: aside_def apart_def fun_eq_iff)

lemma aside_back:
  assumes "apart n S fs" "M \<union> L \<subseteq> S" "m \<in> M" "m \<notin> L"
  shows "(aside n M L fs)(numbered m n := None, m := fs m) = aside n (M - {m}) L fs"
  using assms by (auto simp: aside_def apart_def fun_eq_iff)

text \<open>Nothing that was there is gone: it is where it was or at a numbered name.\<close>

definition nothing_lost :: "string list \<Rightarrow> files \<Rightarrow> files \<Rightarrow> bool" where
  "nothing_lost sources fs fs' =
     (\<forall>p f. fs p = Some f \<longrightarrow> fs' p = Some f \<or> (p \<in> set sources \<and> (\<exists>n. fs' (numbered p n) = Some f)))"

lemma nothing_lost_refl [simp]: "nothing_lost sources fs fs"
  by (simp add: nothing_lost_def)

lemma aside_keeps:
  assumes "apart n (set sources) fs" "M \<union> L \<subseteq> set sources"
  shows "nothing_lost sources fs (aside n M L fs)"
  unfolding nothing_lost_def
proof (intro allI impI)
  fix p f
  assume p: "fs p = Some f"
  show "aside n M L fs p = Some f \<or> (p \<in> set sources \<and> (\<exists>k. aside n M L fs (numbered p k) = Some f))"
  proof (cases "p \<in> M")
    case True
    then have "aside n M L fs (numbered p n) = Some f" using assms p by (auto simp: aside_def apart_def)
    with True assms show ?thesis by blast
  next
    case False
    have "p \<notin> (\<lambda>m. numbered m n) ` (M \<union> L)" using assms p by (auto simp: apart_def)
    with False p show ?thesis by (simp add: aside_def)
  qed
qed

section \<open>Operations\<close>

text \<open>What an operation on the files does, written out as the event it adds.\<close>

definition file_effect :: "request \<Rightarrow> (files \<Rightarrow> fault + files) \<Rightarrow> helper \<Rightarrow> fault option \<Rightarrow> helper \<Rightarrow> event list \<Rightarrow> bool" where
  "file_effect c f p r p' es = (\<exists>a. es = [(c, a)] \<and>
     (case injected a of
        Some e \<Rightarrow> r = Some e \<and> p' = p
      | None \<Rightarrow> (case f (hp_files p) of
            Inl e \<Rightarrow> r = Some e \<and> p' = p
          | Inr fs \<Rightarrow> r = None \<and> p' = p\<lparr>hp_files := fs\<rparr>)))"

lemma on_files_emits: "emits (on_files w c f) s (file_effect c f (prog s))"
  by (auto simp: on_files_def emits_def wp_simps file_effect_def split: option.split sum.split)

text \<open>An operation that would put a file back was refused.\<close>

definition undo_failed :: "string list \<Rightarrow> event list \<Rightarrow> bool" where
  "undo_failed sources es = list_ex (\<lambda>(c, a). injected a \<noteq> None \<and>
     (case c of Rename _ _ \<Rightarrow> True | Unlink p \<Rightarrow> p \<notin> set sources | _ \<Rightarrow> False)) es"

lemma undo_failed_append [simp]: "undo_failed ss (es @ fs) = (undo_failed ss es \<or> undo_failed ss fs)"
  by (simp add: undo_failed_def)

lemma undo_failed_none [simp]: "\<not> undo_failed ss []"
  by (simp add: undo_failed_def)

text \<open>The world has refused something.\<close>

definition faulty :: "event list \<Rightarrow> bool" where
  "faulty es = list_ex (\<lambda>e. injected (snd e) \<noteq> None) es"

lemma faulty_append [simp]: "faulty (es @ fs) = (faulty es \<or> faulty fs)"
  by (simp add: faulty_def)

text \<open>What one attempt to move a file leaves behind.\<close>

lemma rename_noreplace_emits:
  assumes sep: "apart n (set sources) fs" and M: "insert m M \<subseteq> set sources" "m \<notin> M" and f: "fs m \<noteq> None"
    and s: "hp_files (prog s) = aside n M {} fs"
  shows "emits (rename_noreplace w m (numbered m n)) s (\<lambda>done p es. p = (prog s)\<lparr>hp_files := hp_files p\<rparr> \<and>
    hp_files p = (if done then aside n (insert m M) {} fs else hp_files p) \<and>
    (done \<or> faulty es) \<and>
    (done \<or> hp_files p = aside n M {} fs \<or> (hp_files p = aside n M {m} fs \<and> undo_failed sources es)))"
proof -
  from f obtain v where v: "fs m = Some v" by blast
  have here: "aside n M {} fs m = Some v" "aside n M {} fs (numbered m n) = None"
    using aside_apply [OF sep, of M "{}" m] M v by auto
  have there: "aside n M {m} fs m = Some v" "aside n M {m} fs (numbered m n) = Some v"
    using aside_apply [OF sep, of M "{m}" m] M v by auto
  have keep: "\<And>P :: string. numbered m n \<notin> set sources" using sep M by (auto simp: apart_def)
  have move: "move_new m (numbered m n) (aside n M {} fs) = Inr (aside n (insert m M) {} fs)"
    using here aside_move [OF sep M] v by (simp add: move_new_def)
  have link: "link_new m (numbered m n) (aside n M {} fs) = Inr (aside n M {m} fs)"
    using here aside_link [OF sep M] v by (simp add: link_new_def)
  have unlink: "unlink_file m (aside n M {m} fs) = Inr (aside n (insert m M) {} fs)"
    using there aside_unlink_source [OF sep M] by (simp add: unlink_file_def)
  have undo: "unlink_file (numbered m n) (aside n M {m} fs) = Inr (aside n M {} fs)"
    using there aside_unlink_copy [OF sep M] by (simp add: unlink_file_def)
  show ?thesis
    using s keep
    by (auto simp: rename_noreplace_def unlink_path_def emits_def on_files_def wp_simps move link unlink undo undo_failed_def faulty_def
        split: option.split)
qed

section \<open>The whole backup\<close>

lemma move_files_emits:
  assumes "apart n (set sources) fs" "set todo \<union> set moved \<subseteq> set sources" "distinct (moved @ todo)"
    and "\<And>m. m \<in> set todo \<Longrightarrow> fs m \<noteq> None" "hp_files (prog s) = aside n (set moved) {} fs"
  shows "emits (move_files w n todo moved) s (\<lambda>r p es. case r of (done, moved') \<Rightarrow>
    if done then moved' = moved @ todo \<and> hp_files p = aside n (set moved') {} fs
    else faulty es \<and> set moved' \<subseteq> set moved \<union> set todo \<and> distinct moved' \<and>
      (hp_files p = aside n (set moved') {} fs \<or>
       (\<exists>m. m \<in> set sources \<and> m \<notin> set moved' \<and> hp_files p = aside n (set moved') {m} fs \<and> undo_failed sources es)))"
  using assms(2-5)
proof (induction todo arbitrary: moved s)
  case Nil
  then show ?case by (auto intro: emits_return)
next
  case (Cons m todo)
  have M: "insert m (set moved) \<subseteq> set sources" "m \<notin> set moved" and m: "fs m \<noteq> None" using Cons.prems by auto
  have first: "emits (rename_noreplace w m (numbered m n)) s (\<lambda>done p es. p = (prog s)\<lparr>hp_files := hp_files p\<rparr> \<and>
    hp_files p = (if done then aside n (insert m (set moved)) {} fs else hp_files p) \<and> (done \<or> faulty es) \<and>
    (done \<or> hp_files p = aside n (set moved) {} fs \<or> (hp_files p = aside n (set moved) {m} fs \<and> undo_failed sources es)))"
    by (rule rename_noreplace_emits [OF assms(1) M m Cons.prems(4)])
  have next_step: "emits (move_files w n todo (moved @ [m])) t (\<lambda>r p es'. case r of (done, moved') \<Rightarrow>
      if done then moved' = (moved @ [m]) @ todo \<and> hp_files p = aside n (set moved') {} fs
      else faulty es' \<and> set moved' \<subseteq> set (moved @ [m]) \<union> set todo \<and> distinct moved' \<and>
        (hp_files p = aside n (set moved') {} fs \<or>
         (\<exists>m. m \<in> set sources \<and> m \<notin> set moved' \<and> hp_files p = aside n (set moved') {m} fs \<and> undo_failed sources es')))"
    if "hp_files (prog t) = aside n (insert m (set moved)) {} fs" for t
    using that Cons.prems by (intro Cons.IH) auto
  show ?case
    unfolding move_files.simps
  proof (rule emits_bind [OF first], goal_cases)
    case (1 ok t es)
    show ?case
    proof (cases ok)
      case True
      with 1 show ?thesis by (auto intro!: emits_mono [OF next_step] split: prod.splits)
    next
      case False
      with 1 Cons.prems show ?thesis by (auto intro!: emits_return)
    qed
  qed
qed

lemma move_back_emits:
  assumes sep: "apart n (set sources) fs" and M: "M \<union> L \<subseteq> set sources" "m \<in> M" "m \<notin> L" and f: "fs m \<noteq> None"
    and s: "hp_files (prog s) = aside n M L fs"
  shows "emits (move_back w n m) s (\<lambda>_ p es. hp_files p = aside n (M - {m}) L fs \<or>
    (hp_files p = aside n M L fs \<and> undo_failed sources es))"
proof -
  from f obtain v where v: "fs m = Some v" by blast
  have "aside n M L fs (numbered m n) = Some v" using aside_apply [OF sep, of M L m] M v by auto
  moreover have "numbered m n \<noteq> m" using sep M by (auto simp: apart_def)
  ultimately have "move_over (numbered m n) m (aside n M L fs) = Inr (aside n (M - {m}) L fs)"
    using aside_back [OF sep M] v by (simp add: move_over_def)
  then show ?thesis
    using s by (auto simp: move_back_def emits_def on_files_def wp_simps undo_failed_def split: option.split)
qed

lemma move_back_all:
  assumes "apart n (set sources) fs"
  shows "set ms \<union> M \<union> L \<subseteq> set sources \<Longrightarrow> distinct ms \<Longrightarrow> set ms \<subseteq> M \<Longrightarrow> set ms \<inter> L = {} \<Longrightarrow> (\<And>m. m \<in> set ms \<Longrightarrow> fs m \<noteq> None) \<Longrightarrow>
    hp_files (prog s) = aside n M L fs \<Longrightarrow>
    emits (each (move_back w n) ms) s (\<lambda>_ p es. \<exists>K. M - set ms \<subseteq> K \<and> K \<subseteq> M \<and> hp_files p = aside n K L fs \<and>
      (K = M - set ms \<or> undo_failed sources es))"
proof (induction ms arbitrary: M s)
  case Nil
  then show ?case by (auto intro!: emits_return)
next
  case (Cons m ms)
  have first: "emits (move_back w n m) s (\<lambda>_ p es. hp_files p = aside n (M - {m}) L fs \<or>
      (hp_files p = aside n M L fs \<and> undo_failed sources es))"
    using Cons.prems by (intro move_back_emits [OF assms]) auto
  show ?case
    unfolding each.simps
  proof (rule emits_bind [OF first], goal_cases)
    case (1 a t es)
    consider "hp_files (prog t) = aside n (M - {m}) L fs" | "hp_files (prog t) = aside n M L fs" "undo_failed sources es"
      using 1 by blast
    then show ?case
    proof cases
      case 1
      have "emits (each (move_back w n) ms) t (\<lambda>_ p es. \<exists>K. M - {m} - set ms \<subseteq> K \<and> K \<subseteq> M - {m} \<and> hp_files p = aside n K L fs \<and>
          (K = M - {m} - set ms \<or> undo_failed sources es))"
        by (rule Cons.IH) (use Cons.prems 1 in auto)
      then show ?thesis
      proof (rule emits_mono)
        fix a p es'
        assume "\<exists>K. M - {m} - set ms \<subseteq> K \<and> K \<subseteq> M - {m} \<and> hp_files p = aside n K L fs \<and> (K = M - {m} - set ms \<or> undo_failed sources es')"
        then obtain K where K: "M - {m} - set ms \<subseteq> K" "K \<subseteq> M - {m}" "hp_files p = aside n K L fs"
          "K = M - {m} - set ms \<or> undo_failed sources es'" by blast
        have "M - set (m # ms) = M - {m} - set ms" by auto
        with K show "\<exists>K. M - set (m # ms) \<subseteq> K \<and> K \<subseteq> M \<and> hp_files p = aside n K L fs \<and>
            (K = M - set (m # ms) \<or> undo_failed sources (es @ es'))" by (intro exI [of _ K]) auto
      qed
    next
      case 2
      have "emits (each (move_back w n) ms) t (\<lambda>_ p es. \<exists>K. M - set ms \<subseteq> K \<and> K \<subseteq> M \<and> hp_files p = aside n K L fs \<and>
          (K = M - set ms \<or> undo_failed sources es))"
        by (rule Cons.IH) (use Cons.prems 2 in auto)
      then show ?thesis by (rule emits_mono) (use 2 in auto)
    qed
  qed
qed

text \<open>The kernel refused to say whether a file is there.\<close>

definition unseen :: "string \<Rightarrow> event list \<Rightarrow> bool" where
  "unseen path es = list_ex (\<lambda>(c, a). c = Stat path \<and> injected a \<noteq> None) es"

lemma unseen_append [simp]: "unseen path (es @ fs) = (unseen path es \<or> unseen path fs)"
  by (simp add: unseen_def)

lemma unseen_faulty: "unseen path es \<Longrightarrow> faulty es"
  by (force simp: unseen_def faulty_def list_ex_iff)

text \<open>A number is taken where one of the names with it is, or may be.\<close>

definition taken :: "files \<Rightarrow> event list \<Rightarrow> string list \<Rightarrow> nat \<Rightarrow> bool" where
  "taken fs es sources n = list_ex (\<lambda>x. fs (numbered x n) \<noteq> None \<or> unseen (numbered x n) es) sources"

lemma taken_append: "taken fs es sources n \<Longrightarrow> taken fs (es @ es') sources n" "taken fs es' sources n \<Longrightarrow> taken fs (es @ es') sources n"
  by (auto simp: taken_def list_ex_iff)

text \<open>A file of the wallet that is not the user's own.\<close>

definition foreign :: "setting \<Rightarrow> files \<Rightarrow> string \<Rightarrow> bool" where
  "foreign g fs x = (case fs x of Some f \<Rightarrow> \<not> f_regular f \<or> f_owner f \<noteq> g_uid g | None \<Rightarrow> False)"

lemma foreign_simps [simp]:
  "fs x = None \<Longrightarrow> \<not> foreign g fs x"
  "fs x = Some f \<Longrightarrow> foreign g fs x \<longleftrightarrow> \<not> f_regular f \<or> f_owner f \<noteq> g_uid g"
  by (simp_all add: foreign_def)

text \<open>Looking changes nothing.\<close>

lemma nofollow_stat_emits:
  "emits (nofollow_stat w path) s (\<lambda>r p es. p = prog s \<and> \<not> undo_failed sources es \<and>
     (case r of Inr f \<Rightarrow> hp_files p path = Some f | Inl e \<Rightarrow> if e = ENOENT then hp_files p path = None else unseen path es))"
  by (auto simp: nofollow_stat_def emits_def on_files_def wp_simps injected_def undo_failed_def unseen_def split: option.split fault.split)

lemma present_files_emits:
  "emits (present_files w g sources) s (\<lambda>r p es. p = prog s \<and> \<not> undo_failed all es \<and>
     (case r of None \<Rightarrow> faulty es \<or> list_ex (foreign g (hp_files p)) sources
      | Some present \<Rightarrow> present = map (\<lambda>x. hp_files p x \<noteq> None) sources))"
proof (induction sources arbitrary: s)
  case Nil
  then show ?case by (auto intro: emits_return)
next
  case (Cons x sources)
  have rest: "emits (do { r \<leftarrow> present_files w g sources; ret (map_option ((#) b) r) }) t
      (\<lambda>r p es'. p = prog t \<and> \<not> undo_failed all es' \<and>
        (case r of None \<Rightarrow> faulty es' \<or> list_ex (foreign g (hp_files p)) sources
         | Some present \<Rightarrow> present = b # map (\<lambda>x. hp_files p x \<noteq> None) sources))" for b t
    by (rule emits_bind [OF Cons.IH]) (auto intro!: emits_return split: option.splits)
  show ?case
    unfolding present_files.simps
    by (rule emits_bind [OF nofollow_stat_emits [where sources = all]])
      (auto intro!: emits_return emits_mono [OF rest] dest: unseen_faulty split: sum.split option.splits if_splits)
qed

lemma all_free_emits:
  "emits (all_free w n sources) s (\<lambda>r p es. p = prog s \<and> \<not> undo_failed all es \<and>
     (if r then \<forall>x\<in>set sources. hp_files p (numbered x n) = None else taken (hp_files p) es sources n))"
proof (induction sources arbitrary: s)
  case Nil
  then show ?case by (auto intro: emits_return)
next
  case (Cons x sources)
  show ?case
    unfolding all_free.simps
  proof (rule emits_bind [OF nofollow_stat_emits [where sources = all]], goal_cases)
    case (1 m t es)
    then show ?case
      by (auto intro!: emits_return emits_mono [OF Cons.IH] simp: taken_def list_ex_iff split: if_splits sum.splits)
  qed
qed

definition searched :: "files \<Rightarrow> event list \<Rightarrow> string list \<Rightarrow> nat \<Rightarrow> nat option \<Rightarrow> bool" where
  "searched fs es sources k r = (case r of
     None \<Rightarrow> list_all (taken fs es sources) [k..<G_MAXUINT]
   | Some n \<Rightarrow> k \<le> n \<and> list_all (taken fs es sources) [k..<n] \<and> list_all (\<lambda>x. fs (numbered x n) = None) sources)"

lemma searched_next:
  assumes "\<not> G_MAXUINT \<le> k" "taken fs es sources k" "searched fs es' sources (k + 1) r"
  shows "searched fs (es @ es') sources k r"
proof (cases r)
  case None
  then show ?thesis
    using assms by (auto simp: searched_def upt_conv_Cons list_all_iff intro: taken_append)
next
  case (Some n)
  then show ?thesis
    using assms by (auto simp: searched_def upt_conv_Cons [of k n] list_all_iff intro: taken_append)
qed

lemma free_number_emits:
  "emits (free_number w sources k) s (\<lambda>r p es. p = prog s \<and> \<not> undo_failed all es \<and> searched (hp_files p) es sources k r)"
proof (induction w sources k arbitrary: s rule: free_number.induct)
  case (1 w sources k)
  show ?case
  proof (cases "k \<ge> G_MAXUINT")
    case True
    then show ?thesis by (subst free_number.simps) (auto intro: emits_return simp: searched_def)
  next
    case False
    have "emits (do { available \<leftarrow> all_free w k sources;
        if available then ret (Some k) else free_number w sources (k + 1) }) s
      (\<lambda>r p es. p = prog s \<and> \<not> undo_failed all es \<and> searched (hp_files p) es sources k r)"
    proof (rule emits_bind [OF all_free_emits [where all = all]], goal_cases)
      case (1 available t es)
      show ?case
      proof (cases available)
        case True
        with 1 show ?thesis by (auto intro!: emits_return simp: searched_def list_all_iff)
      next
        case no: False
        have "emits (free_number w sources (k + 1)) t (\<lambda>r p es'. p = prog s \<and> \<not> undo_failed all (es @ es') \<and>
            searched (hp_files p) (es @ es') sources k r)"
          by (rule emits_mono [OF "1.IH" [OF False no]]) (use 1 no in \<open>auto intro: searched_next [OF False]\<close>)
        with no show ?thesis by simp
      qed
    qed
    with False show ?thesis by (subst free_number.simps) simp
  qed
qed

text \<open>Why a backup may fail.\<close>

definition excuse :: "setting \<Rightarrow> string \<Rightarrow> files \<Rightarrow> event list \<Rightarrow> bool" where
  "excuse g d fs es = (let sources = wallet_sources d in
     d = [] \<or> fs (hd sources) = None \<or> list_ex (foreign g fs) sources \<or> faulty es \<or> list_all (taken fs es sources) [1..<G_MAXUINT])"

text \<open>C19. A locked wallet is moved aside as a whole or not at all. If the backup succeeds with a number, each of the wallet's
  files that was there is at its name with that number, and every other file is as before; the number is the first, from 1 on,
  that is free: none of the three names with it was there, and for every smaller number one of them was there or
  the kernel would not say. If the backup fails, the directory is not known, the wallet is not there, one of its files is not a regular file of the
  user, the kernel refused an operation, or no number was free; then every file is as before unless the kernel also refused to undo a
  move, and even then no file is lost or overwritten. Between the steps of the backup no other program changes the
  files.\<close>

theorem backup_all_or_nothing:
  "emits (spaces_backup_failed_wallet w g d) s (\<lambda>r p es.
     let fs = hp_files (prog s); sources = wallet_sources d in
     case r of
       Some n \<Rightarrow> 1 \<le> n \<and> list_all (taken fs es sources) [1..<n] \<and> list_all (\<lambda>x. fs (numbered x n) = None) sources \<and>
         fs (hd sources) \<noteq> None \<and> hp_files p = aside n {x \<in> set sources. fs x \<noteq> None} {} fs
     | None \<Rightarrow> excuse g d fs es \<and> (if undo_failed sources es then nothing_lost sources fs (hp_files p) else hp_files p = fs))"
proof -
  let ?fs = "hp_files (prog s)" and ?S = "wallet_sources d"
  let ?todo = "filter (\<lambda>x. ?fs x \<noteq> None) ?S"
  have todo: "map fst (filter snd (zip xs (map f xs))) = filter f xs" for f :: "string \<Rightarrow> bool" and xs
    by (induction xs) simp_all
  have hd: "hd (map (\<lambda>x. ?fs x \<noteq> None) ?S) = (?fs (hd ?S) \<noteq> None)"
    by (simp add: wallet_sources_def wallet_names_def)
  have moves: "emits (do { r \<leftarrow> move_files w n ?todo [];
        case r of (success, moved) \<Rightarrow>
          if success then ret (Some n) else do { each (move_back w n) (rev moved); ret None } }) t
      (\<lambda>r p es. case r of
         Some k \<Rightarrow> k = n \<and> hp_files p = aside n {x \<in> set ?S. ?fs x \<noteq> None} {} ?fs
       | None \<Rightarrow> faulty es \<and> (if undo_failed ?S es then nothing_lost ?S ?fs (hp_files p) else hp_files p = ?fs))"
    if free: "\<forall>x\<in>set ?S. ?fs (numbered x n) = None" and t: "prog t = prog s" for n t
  proof -
    have sep: "apart n (set ?S) ?fs" using free numbered_source by (auto simp: apart_def)
    have "emits (move_files w n ?todo []) t (\<lambda>r p es. case r of (ok, moved) \<Rightarrow>
        if ok then moved = [] @ ?todo \<and> hp_files p = aside n (set moved) {} ?fs
        else faulty es \<and> set moved \<subseteq> set [] \<union> set ?todo \<and> distinct moved \<and> (hp_files p = aside n (set moved) {} ?fs \<or>
          (\<exists>m. m \<in> set ?S \<and> m \<notin> set moved \<and> hp_files p = aside n (set moved) {m} ?fs \<and> undo_failed ?S es)))"
      using sources_distinct t by (intro move_files_emits [OF sep]) auto
    then show ?thesis
    proof (rule emits_bind, goal_cases)
      case (1 r u es)
      obtain ok moved where r: "r = (ok, moved)" by (cases r)
      show ?case
      proof (cases ok)
        case True
        with 1 r show ?thesis by (auto intro!: emits_return)
      next
        case False
        with 1(2) r have "faulty es" and todo': "set moved \<subseteq> set ?todo" and "distinct moved" and
          how: "hp_files (prog u) = aside n (set moved) {} ?fs \<or>
            (\<exists>m. m \<in> set ?S \<and> m \<notin> set moved \<and> hp_files (prog u) = aside n (set moved) {m} ?fs \<and> undo_failed ?S es)" by simp_all
        from how have "\<exists>L. set moved \<inter> L = {} \<and> L \<subseteq> set ?S \<and> hp_files (prog u) = aside n (set moved) L ?fs \<and> (L = {} \<or> undo_failed ?S es)"
        proof
          assume "hp_files (prog u) = aside n (set moved) {} ?fs"
          then show ?thesis by (intro exI [of _ "{}"]) simp
        next
          assume "\<exists>m. m \<in> set ?S \<and> m \<notin> set moved \<and> hp_files (prog u) = aside n (set moved) {m} ?fs \<and> undo_failed ?S es"
          then obtain m where "m \<in> set ?S" "m \<notin> set moved" "hp_files (prog u) = aside n (set moved) {m} ?fs" "undo_failed ?S es" by blast
          then show ?thesis by (intro exI [of _ "{m}"]) simp
        qed
        then obtain L where L: "set moved \<inter> L = {}" "L \<subseteq> set ?S"
          "hp_files (prog u) = aside n (set moved) L ?fs" "L = {} \<or> undo_failed ?S es" by blast
        have there: "?fs m \<noteq> None" if "m \<in> set moved" for m using todo' that by auto
        have moved: "set moved \<subseteq> set ?S" using todo' by auto
        note L = moved \<open>distinct moved\<close> L
        have "emits (each (move_back w n) (rev moved)) u (\<lambda>_ p es. \<exists>K. set moved - set (rev moved) \<subseteq> K \<and> K \<subseteq> set moved \<and>
            hp_files p = aside n K L ?fs \<and> (K = set moved - set (rev moved) \<or> undo_failed ?S es))"
          using L there by (intro move_back_all [OF sep]) simp_all
        then have "emits (do { each (move_back w n) (rev moved); ret None }) u (\<lambda>r p es'. r = None \<and>
            (if undo_failed ?S (es @ es') then nothing_lost ?S ?fs (hp_files p) else hp_files p = ?fs))"
        proof (rule emits_bind, goal_cases)
          case (1 a v es')
          then obtain K where K: "K \<subseteq> set moved" "hp_files (prog v) = aside n K L ?fs" "K = {} \<or> undo_failed ?S es'" by auto
          have "nothing_lost ?S ?fs (hp_files (prog v))" using K L by (auto intro!: aside_keeps [OF sep])
          with K L show ?case by (auto intro!: emits_return)
        qed
        with False r \<open>faulty es\<close> show ?thesis by (auto intro: emits_mono)
      qed
    qed
  qed
  show ?thesis
  proof (cases "d = []")
    case True
    then show ?thesis by (auto simp: spaces_backup_failed_wallet_def Let_def excuse_def intro!: emits_return)
  next
    case False
    then show ?thesis
      unfolding spaces_backup_failed_wallet_def Let_def if_not_P [OF False]
    proof (intro emits_bind [OF present_files_emits [where all = ?S]], goal_cases)
      case (1 r t es)
      show ?case
      proof (cases "r = None \<or> ?fs (hd ?S) = None")
        case True
        have "emits (ret None) t (\<lambda>r p es'. case r of
            Some n \<Rightarrow> 1 \<le> n \<and> list_all (taken ?fs (es @ es') ?S) [1..<n] \<and> list_all (\<lambda>x. ?fs (numbered x n) = None) ?S \<and>
              ?fs (hd ?S) \<noteq> None \<and> hp_files p = aside n {x \<in> set ?S. ?fs x \<noteq> None} {} ?fs
          | None \<Rightarrow> excuse g d ?fs (es @ es') \<and> (if undo_failed ?S (es @ es') then nothing_lost ?S ?fs (hp_files p) else hp_files p = ?fs))"
          using 1 True by (intro emits_return) (auto simp: excuse_def Let_def)
        moreover have "r = None \<or> (r = Some (map (\<lambda>x. ?fs x \<noteq> None) ?S) \<and> ?fs (hd ?S) = None)"
          using True 1 by (auto split: option.splits)
        ultimately show ?thesis by (elim disjE conjE) (simp_all only: option.case hd simp_thms if_True)
      next
        case False
        with 1 have r: "r = Some (map (\<lambda>x. ?fs x \<noteq> None) ?S)" and main: "?fs (hd ?S) \<noteq> None" and t: "prog t = prog s"
          and es: "\<not> undo_failed ?S es" by (auto simp: hd split: option.splits)
        let ?Q = "\<lambda>r p es'. case r of
            Some n \<Rightarrow> 1 \<le> n \<and> list_all (taken ?fs (es @ es') ?S) [1..<n] \<and> list_all (\<lambda>x. ?fs (numbered x n) = None) ?S \<and>
              ?fs (hd ?S) \<noteq> None \<and> hp_files p = aside n {x \<in> set ?S. ?fs x \<noteq> None} {} ?fs
          | None \<Rightarrow> excuse g d ?fs (es @ es') \<and> (if undo_failed ?S (es @ es') then nothing_lost ?S ?fs (hp_files p) else hp_files p = ?fs)"
        have "emits (do { n \<leftarrow> free_number w ?S 1; case n of
              None \<Rightarrow> ret None
            | Some number \<Rightarrow> do {
                r \<leftarrow> move_files w number ?todo [];
                case r of (success, moved) \<Rightarrow>
                  if success then ret (Some number) else do { each (move_back w number) (rev moved); ret None } } }) t ?Q"
        proof (rule emits_bind [OF free_number_emits [where all = ?S]], goal_cases)
          case (1 n u es')
          show ?case
          proof (cases n)
            case None
            with 1 t have "list_all (taken ?fs es' ?S) [1..<G_MAXUINT]" by (auto simp: searched_def)
            then have "excuse g d ?fs (es @ es')"
              by (auto simp: excuse_def Let_def list_all_iff intro: taken_append)
            with None 1 t es show ?thesis by (auto intro!: emits_return)
          next
            case (Some k)
            with 1 t have free: "\<forall>x\<in>set ?S. ?fs (numbered x k) = None" "prog u = prog s" "1 \<le> k" "\<not> undo_failed ?S es'"
              and low: "list_all (taken ?fs es' ?S) [1..<k]" by (auto simp: searched_def list_all_iff)
            have low': "list_all (taken ?fs (es @ es' @ xs) ?S) [1..<k]" for xs
              using low by (auto simp: list_all_iff intro: taken_append)
            have ex: "faulty xs \<Longrightarrow> excuse g d ?fs (es @ es' @ xs)" for xs by (simp add: excuse_def Let_def)
            show ?thesis
              unfolding Some option.case
              by (rule emits_mono [OF moves [OF free(1,2)]])
                (use es free main low' ex in \<open>auto simp: list_all_iff split: option.splits\<close>)
          qed
        qed
        then show ?thesis
          unfolding r option.case hd todo using main by (simp only: simp_thms if_False)
      qed
    qed
  qed
qed

end
