(* ===== verification/Secret_Signals.thy ===== *)
theory Secret_Signals
  imports Secret_Helper
begin

text \<open>
  When the secret helper may signal a process. A number that a call has given the helper stands for the process it means only
  for a while: until a child is reaped, until the bus names another owner. What a run holds at a moment is a set of such
  facts, and every signal has to rest on one that is still held.
\<close>

section \<open>Facts that expire\<close>

text \<open>
  \<open>Started p\<close>: the run forked \<open>p\<close> and has not reaped it. \<open>Running p\<close>: the last look at the child \<open>p\<close> found it still running.
  \<open>Named p\<close>: \<open>p\<close> is the owner that the bus named last. \<open>Reaped p\<close>: the request just made reaped \<open>p\<close>.
\<close>

datatype fact = Started int | Running int | Named int | Reaped int

definition unreaped :: "fact set \<Rightarrow> fact set" where
  "unreaped H = {h \<in> H. \<forall>p. h \<noteq> Reaped p}"

fun holding :: "fact set \<Rightarrow> event \<Rightarrow> fact set" where
  "holding H (Fork, a) = (if x_ok a \<and> x_number a > 0 then insert (Started (x_number a)) (unreaped H) else unreaped H)"
| "holding H (ConnectionPid name, a) =
     (if x_ok a then {Named (x_number a mod 2 ^ 32)} else {}) \<union> {h \<in> unreaped H. \<forall>p. h \<noteq> Named p}"
| "holding H (Waitpid p nonblocking, a) =
     (if nonblocking \<and> x_number a = p then insert (Reaped p) (unreaped H - {Started p, Running p})
      else if \<not> nonblocking then unreaped H - {Started p, Running p}
      else if x_number a < 0 \<and> x_fault a = Some ECHILD then unreaped H - {Running p}
      else insert (Running p) (unreaped H))"
| "holding H _ = unreaped H"

text \<open>A killed process is another one than the program and process 1. It is a child that the last look found running, or the owner that the bus
  named last. Any other signal goes to a child that was not reaped, or was so by the request just before.\<close>

fun signal_due :: "setting \<Rightarrow> fact set \<Rightarrow> request \<Rightarrow> bool" where
  "signal_due g H (Kill p s) =
     (if s = SIGKILL then 1 < p \<and> p \<noteq> g_self g \<and> (Running p \<in> H \<or> Named p \<in> H)
      else 0 < p \<and> (Started p \<in> H \<or> Reaped p \<in> H))"
| "signal_due g H _ = True"

fun timely :: "setting \<Rightarrow> fact set \<Rightarrow> event list \<Rightarrow> bool" where
  "timely g H [] = True"
| "timely g H (e # es) = (signal_due g H (fst e) \<and> timely g (holding H e) es)"

definition held :: "fact set \<Rightarrow> event list \<Rightarrow> fact set" where
  "held H es = fold (\<lambda>e H. holding H e) es H"

lemma held_simps [simp]: "held H [] = H" "held H (e # es) = held (holding H e) es" "held H (es @ fs) = held (held H es) fs"
  by (simp_all add: held_def)

lemma timely_append [simp]: "timely g H (es @ fs) = (timely g H es \<and> timely g (held H es) fs)"
  by (induction es arbitrary: H) simp_all

lemma unreaped_mono: "H \<subseteq> K \<Longrightarrow> unreaped H \<subseteq> unreaped K"
  by (auto simp: unreaped_def)

lemma unreaped_simps [simp]:
  "unreaped {} = {}" "unreaped (insert (Started p) H) = insert (Started p) (unreaped H)"
  "unreaped (insert (Running p) H) = insert (Running p) (unreaped H)" "unreaped (insert (Named p) H) = insert (Named p) (unreaped H)"
  "unreaped (insert (Reaped p) H) = unreaped H"
  by (auto simp: unreaped_def)

lemma holding_mono: "H \<subseteq> K \<Longrightarrow> holding H e \<subseteq> holding K e"
  by (induction H e rule: holding.induct) (auto simp: unreaped_def)

lemma signal_due_mono: "signal_due g H c \<Longrightarrow> H \<subseteq> K \<Longrightarrow> signal_due g K c"
  by (cases c) (auto split: if_splits)

lemma timely_mono: "timely g H es \<Longrightarrow> H \<subseteq> K \<Longrightarrow> timely g K es"
proof (induction es arbitrary: H K)
  case (Cons e es)
  then show ?case using signal_due_mono holding_mono by (metis timely.simps(2))
qed simp

lemma held_mono: "H \<subseteq> K \<Longrightarrow> held H es \<subseteq> held K es"
  by (induction es arbitrary: H K) (simp_all add: holding_mono)

section \<open>Computations that signal in time\<close>

text \<open>\<open>prompt g H J m\<close>: where \<open>H\<close> is held, \<open>m\<close> signals in time and leaves the digest alone, and its result comes with the facts \<open>J\<close>.\<close>

definition prompt :: "setting \<Rightarrow> fact set \<Rightarrow> ('a \<Rightarrow> fact set) \<Rightarrow> 'a helping \<Rightarrow> bool" where
  "prompt g H J m = (\<forall>s. emits m s (\<lambda>r p es. hp_digest p = hp_digest (prog s) \<and> timely g H es \<and> J r \<subseteq> held H es))"

abbreviation "no_facts \<equiv> \<lambda>_. {}"

lemma prompt_ret: "J a \<subseteq> H \<Longrightarrow> prompt g H J (ret a)"
  by (simp add: prompt_def emits_return)

lemma prompt_bind:
  assumes m: "prompt g H J m" and f: "\<And>a. prompt g (J a) K (f a)"
  shows "prompt g H K (State_Monad.bind m f)"
  unfolding prompt_def
proof (intro allI emits_bind [OF m [unfolded prompt_def, rule_format]])
  fix s t :: "(helper, event) mach" and a and es :: "event list"
  assume *: "hp_digest (prog t) = hp_digest (prog s) \<and> timely g H es \<and> J a \<subseteq> held H es"
  have "emits (f a) t (\<lambda>r p fs. hp_digest p = hp_digest (prog t) \<and> timely g (J a) fs \<and> K r \<subseteq> held (J a) fs)"
    using f by (simp add: prompt_def)
  then show "emits (f a) t (\<lambda>r p fs. hp_digest p = hp_digest (prog s) \<and> timely g H (es @ fs) \<and> K r \<subseteq> held H (es @ fs))"
  proof (rule emits_mono)
    fix r p fs
    assume **: "hp_digest p = hp_digest (prog t) \<and> timely g (J a) fs \<and> K r \<subseteq> held (J a) fs"
    have "K r \<subseteq> held (held H es) fs" using * ** held_mono by blast
    with * ** show "hp_digest p = hp_digest (prog s) \<and> timely g H (es @ fs) \<and> K r \<subseteq> held H (es @ fs)"
      by (auto intro: timely_mono)
  qed
qed

lemma prompt_weaken: "prompt g H J m \<Longrightarrow> H \<subseteq> H' \<Longrightarrow> (\<And>r. J' r \<subseteq> J r) \<Longrightarrow> prompt g H' J' m"
  unfolding prompt_def
  by (intro allI, drule spec, erule emits_mono) (meson held_mono order_trans timely_mono)

lemma prompt_seq: "prompt g H (\<lambda>_. H) m \<Longrightarrow> (\<And>a. prompt g H J (f a)) \<Longrightarrow> prompt g H J (State_Monad.bind m f)"
  by (rule prompt_bind)

lemma prompt_if: "(c \<Longrightarrow> prompt g H J m) \<Longrightarrow> (\<not> c \<Longrightarrow> prompt g H J n) \<Longrightarrow> prompt g H J (if c then m else n)"
  by simp

lemma prompt_option: "(x = None \<Longrightarrow> prompt g H J m) \<Longrightarrow> (\<And>y. x = Some y \<Longrightarrow> prompt g H J (f y)) \<Longrightarrow>
    prompt g H J (case x of None \<Rightarrow> m | Some y \<Rightarrow> f y)"
  by (simp split: option.split)

lemma prompt_sum: "(\<And>y. prompt g H J (h y)) \<Longrightarrow> (\<And>y. prompt g H J (f y)) \<Longrightarrow>
    prompt g H J (case x of Inl y \<Rightarrow> h y | Inr y \<Rightarrow> f y)"
  by (simp split: sum.split)

lemma prompt_prod: "(\<And>y z. prompt g H J (f y z)) \<Longrightarrow> prompt g H J (case x of (y, z) \<Rightarrow> f y z)"
  by (simp split: prod.split)

lemma prompt_let: "prompt g H J (f x) \<Longrightarrow> prompt g H J (let y = x in f y)"
  by simp

lemma prompt_cond: "prompt g H (\<lambda>_. H) m \<Longrightarrow> prompt g H (\<lambda>_. H) (cond c m)"
  by (simp add: cond_def prompt_ret)

lemma prompt_each: "(\<And>x. prompt g H (\<lambda>_. H) (f x)) \<Longrightarrow> prompt g H (\<lambda>_. H) (each f xs)"
  by (induction xs) (auto intro: prompt_seq prompt_ret)

lemma prompt_stays: "prompt g H (\<lambda>_. H) (ret a)"
  by (simp add: prompt_ret)

lemma prompt_gets: "prompt g H (\<lambda>_. H) (gets f)"
  by (simp add: prompt_def emits_gets)

lemma prompt_ask:
  assumes "signal_due g H c" "\<And>a. J a \<subseteq> holding H (c, a)"
  shows "prompt g H J (ask w c)"
  using assms by (auto simp: prompt_def ask_def emits_def wp_simps)

lemma prompt_tell:
  assumes "signal_due g H c" "\<And>a. J \<subseteq> holding H (c, a)"
  shows "prompt g H (\<lambda>_. J) (tell w c)"
  unfolding tell_def by (rule prompt_bind [OF prompt_ask [where J = "\<lambda>_. J"]]) (simp_all add: assms prompt_ret)

lemma prompt_files:
  assumes "signal_due g H c" "\<And>a. H \<subseteq> holding H (c, a)"
  shows "prompt g H (\<lambda>_. H) (on_files w c f)"
  using assms by (auto simp: prompt_def on_files_def emits_def wp_simps split: option.split sum.split)

text \<open>Nothing but facts about children is carried along.\<close>

definition carried :: "fact set \<Rightarrow> bool" where
  "carried H = (unreaped H = H \<and> (\<forall>p. Named p \<notin> H))"

lemma carried_simps [simp]: "carried {}" "carried {Started p}" "carried H \<Longrightarrow> unreaped H = H" "carried H \<Longrightarrow> Named p \<notin> H"
  by (auto simp: carried_def unreaped_def)

lemmas prompt_rules = prompt_seq prompt_if prompt_option prompt_sum prompt_prod prompt_let prompt_cond prompt_each prompt_stays
  prompt_gets prompt_ask prompt_tell prompt_files prompt_ret

section \<open>The parts\<close>

lemma prompt_owner: "carried H \<Longrightarrow> prompt g H (\<lambda>_. H) (name_has_owner w name)"
  unfolding name_has_owner_def by (intro prompt_rules) simp_all

lemma prompt_wallet: "prompt g {} no_facts (wallet_open_state w kf6)"
  unfolding wallet_open_state_def by (intro prompt_rules) simp_all

lemma prompt_release: "prompt g {} no_facts (await_release n w name)"
  by (induction n) (auto intro!: prompt_rules prompt_owner)

lemma prompt_stat: "carried H \<Longrightarrow> prompt g H (\<lambda>_. H) (nofollow_stat w path)"
  unfolding nofollow_stat_def by (intro prompt_rules) simp_all

lemma prompt_unlink: "carried H \<Longrightarrow> prompt g H (\<lambda>_. H) (unlink_path w path)"
  unfolding unlink_path_def by (intro prompt_rules) simp_all

lemma prompt_rename: "prompt g {} no_facts (rename_noreplace w source destination)"
  unfolding rename_noreplace_def by (intro prompt_rules prompt_unlink) simp_all

lemma prompt_present: "prompt g {} no_facts (present_files w g' sources)"
  by (induction sources) (auto intro!: prompt_rules prompt_stat)

lemma prompt_free: "prompt g {} no_facts (all_free w n sources)"
  by (induction sources) (auto intro!: prompt_rules prompt_stat)

lemma prompt_number: "prompt g {} no_facts (free_number w sources n)"
proof (induction w sources n rule: free_number.induct)
  case (1 w sources n)
  then show ?case by (subst free_number.simps) (auto intro!: prompt_rules prompt_free)
qed

lemma prompt_move: "prompt g {} no_facts (move_files w n sources moved)"
  by (induction sources arbitrary: moved) (auto intro!: prompt_rules prompt_rename)

lemma prompt_back_up: "prompt g {} no_facts (back_up w g')"
  unfolding back_up_def spaces_backup_failed_wallet_def move_back_def
  by (intro prompt_rules prompt_present prompt_number prompt_move) simp_all

lemma prompt_lines: "prompt g {Started c} (\<lambda>_. {Started c}) (send_lines w d entries)"
  by (induction entries) (auto intro!: prompt_rules)

lemma prompt_environment: "prompt g {Started c} (\<lambda>_. {Started c}) (send_environment w g' path)"
  unfolding send_environment_def by (intro prompt_rules prompt_lines) simp_all

lemma prompt_marker: "prompt g {} no_facts (marker_exists w g' path)"
  unfolding marker_exists_def by (intro prompt_rules) simp_all

lemma prompt_create: "prompt g {} no_facts (create_marker w g' path)"
  unfolding create_marker_def by (intro prompt_rules) simp_all

lemma prompt_retrieve: "prompt g {} no_facts (retrieve_portal_secret w g')"
proof -
  have modify: "prompt g {} no_facts (modify (hp_secret_update f))" for f
    by (simp add: prompt_def emits_modify)
  have read: "prompt g {} no_facts (read_secret w d got)" for d got
  proof (induction w d got rule: read_secret.induct)
    case (1 w d got)
    then show ?case by (subst read_secret.simps) (auto intro!: prompt_rules modify)
  qed
  show ?thesis
    unfolding retrieve_portal_secret_def request_secret_def secret_at_end_def load_token_def save_token_def clear_secret_def Let_def
    by (intro prompt_rules modify read) simp_all
qed

section \<open>Signals\<close>

text \<open>The owner and the child are looked up anew before they are killed.\<close>

lemma prompt_pid: "prompt g H (\<lambda>r. if 1 < r then {Named r} else {}) (connection_pid w name)"
  unfolding connection_pid_def
  by (rule prompt_bind [where J = "\<lambda>a. if x_ok a then {Named (x_number a mod 2 ^ 32)} else {}", OF prompt_ask])
    (auto intro!: prompt_ret prompt_let simp: Let_def)

definition known :: "int \<Rightarrow> int \<Rightarrow> fact set" where
  "known owner child = (if 1 < owner then {Named owner} else {}) \<union> (if 1 < child then {Running child} else {})"

lemma known_simps [simp]:
  "unreaped (known owner child) = known owner child" "Named p \<in> known owner child \<longleftrightarrow> p = owner \<and> 1 < p"
  "Running p \<in> known owner child \<longleftrightarrow> p = child \<and> 1 < p"
  by (auto simp: known_def unreaped_def)

lemma prompt_reap:
  "prompt g (if 1 < owner then {Named owner} else {}) (known owner) (reap_child w child)"
  unfolding reap_child_def
proof (rule prompt_if, rule prompt_bind [where J = "\<lambda>a. holding (if 1 < owner then {Named owner} else {}) (Waitpid child True, a)"], goal_cases)
  case 1
  show ?case by (rule prompt_ask) simp_all
next
  case (2 a)
  then show ?case by (intro prompt_ret) (auto simp: known_def unreaped_def)
next
  case 3
  then show ?case by (intro prompt_ret) (auto simp: known_def)
qed

lemma prompt_kill: "prompt g {} no_facts (kill_provider w g name child)"
  unfolding kill_provider_def
proof (rule prompt_bind [OF prompt_pid], rule prompt_bind [OF prompt_reap], goal_cases)
  case (1 owner child)
  have kill: "prompt g (known owner child) (\<lambda>_. known owner child) (cond c (tell w (Kill p SIGKILL)))"
    if "c \<Longrightarrow> 1 < p \<and> p \<noteq> g_self g \<and> (p = owner \<or> p = child)" for c p
    using that by (cases c) (auto simp: cond_def intro!: prompt_tell prompt_ret)
  have wait: "prompt g (known owner child) no_facts (cond (child > 1) (tell w (Waitpid child False)))"
    by (auto simp: cond_def intro!: prompt_tell prompt_ret)
  show ?case
    by (rule prompt_bind [OF kill], simp, rule prompt_bind [OF kill], simp, rule prompt_bind [OF wait], rule prompt_release)
qed

lemma prompt_kill_all: "prompt g {} no_facts (kill_all w g kf6 proxy child marker)"
  unfolding kill_all_def by (intro prompt_seq prompt_cond prompt_kill prompt_unlink) simp

lemma prompt_after_fork:
  assumes "\<And>r. 0 < r \<Longrightarrow> prompt g {Started r} K (f r)" "prompt g {} K (f (- 1))"
  shows "prompt g {} K (State_Monad.bind (fork_process w) f)"
  unfolding fork_process_def State_Monad.bind_assoc
proof (rule prompt_bind [where J = "\<lambda>a. if x_ok a \<and> x_number a > 0 then {Started (x_number a)} else {}", OF prompt_ask])
  fix a
  show "prompt g (if x_ok a \<and> x_number a > 0 then {Started (x_number a)} else {}) K
      (State_Monad.bind (ret (if x_ok a \<and> x_number a > 0 then x_number a else - 1)) f)"
    using assms(1) [of "x_number a"] assms(2) by simp
qed auto

text \<open>A wait ends with the child not reaped, or in the very request that reaped it.\<close>

lemma prompt_wait:
  assumes "\<And>r. prompt g {Started c} K (f r)" "prompt g {Reaped c} K (f False)"
  shows "prompt g {Started c} K (State_Monad.bind (wait_rounds n w name c) f)"
proof (induction n)
  case (Suc n)
  have look: "prompt g {Started c} K (State_Monad.bind
      (if c > 0 then do { a \<leftarrow> ask w (Waitpid c True); ret (x_number a = c) } else ret False) h)"
    if "prompt g {Started c} K (h False)" "prompt g {Reaped c} K (h True)" for h
  proof (cases "c > 0")
    case True
    have "prompt g {Started c} K (do { a \<leftarrow> ask w (Waitpid c True); h (x_number a = c) })"
    proof (rule prompt_bind [where J = "\<lambda>a. if x_number a = c then {Reaped c} else {Started c}"])
      show "prompt g {Started c} (\<lambda>a. if x_number a = c then {Reaped c} else {Started c}) (ask w (Waitpid c True))"
        by (rule prompt_ask) auto
    qed (use that in auto)
    with True show ?thesis by (simp add: State_Monad.bind_assoc)
  qed (use that in simp)
  show ?case
    unfolding wait_rounds.simps State_Monad.bind_assoc
  proof (rule prompt_seq)
    fix t
    show "prompt g {Started c} K (State_Monad.bind (if x_timeout t then ret False else do {
       owned \<leftarrow> name_has_owner w name;
       if owned then ret True
       else do {
         gone \<leftarrow> (if c > 0 then do { a \<leftarrow> ask w (Waitpid c True); ret (x_number a = c) } else ret False);
         if gone then ret False
         else do { tell w (Sleep 50000); wait_rounds n w name c } } }) f)"
    proof (cases "x_timeout t")
      case False
      have "prompt g {Started c} K (State_Monad.bind (name_has_owner w name) (\<lambda>owned. State_Monad.bind (if owned then ret True
       else do {
         gone \<leftarrow> (if c > 0 then do { a \<leftarrow> ask w (Waitpid c True); ret (x_number a = c) } else ret False);
         if gone then ret False
         else do { tell w (Sleep 50000); wait_rounds n w name c } }) f))"
      proof (rule prompt_seq [OF prompt_owner], simp)
        fix owned
        show "prompt g {Started c} K (State_Monad.bind (if owned then ret True
           else do {
             gone \<leftarrow> (if c > 0 then do { a \<leftarrow> ask w (Waitpid c True); ret (x_number a = c) } else ret False);
             if gone then ret False
             else do { tell w (Sleep 50000); wait_rounds n w name c } }) f)"
        proof (cases owned)
          case False
          then show ?thesis
            unfolding if_not_P [OF False] State_Monad.bind_assoc
            by (intro look) (simp_all add: assms State_Monad.bind_assoc prompt_seq [OF prompt_tell] Suc.IH)
        qed (simp add: assms)
      qed
      with False show ?thesis by (simp add: State_Monad.bind_assoc)
    qed (simp add: assms)
  qed (rule prompt_ask; simp)
qed (simp add: assms)

lemma prompt_term:
  "c > 0 \<longrightarrow> Started c \<in> H \<or> Reaped c \<in> H \<Longrightarrow> prompt g H no_facts (do { cond (c > 0) (tell w (Kill c SIGTERM)); ret r })"
  by (rule prompt_bind [where J = no_facts]) (auto simp: cond_def SIGTERM_def SIGKILL_def intro!: prompt_tell prompt_ret)

lemma prompt_proxy: "prompt g {} no_facts (ensure_kf6_proxy w)"
proof -
  have rest: "prompt g {Started child} no_facts (do {
         ready \<leftarrow> (if child \<le> 0 then ret False else wait_for_owner w name child);
         if ready then ret child
         else do { cond (child > 0) (tell w (Kill child SIGTERM)); ret (- 1) } })" if "0 < child" for child name
    using that prompt_term [of child "{Started child}" g w "- 1"] prompt_term [of child "{Reaped child}" g w "- 1"]
    unfolding wait_for_owner_def by (simp, intro prompt_wait) (auto intro!: prompt_ret)
  show ?thesis
    unfolding ensure_kf6_proxy_def spawn_plain_def
    by (intro prompt_seq [OF prompt_owner] prompt_if prompt_seq [OF prompt_ask] prompt_seq [OF prompt_tell]
        prompt_after_fork rest prompt_ret) (simp_all add: cond_def prompt_ret)
qed

lemma prompt_feed:
  assumes c: "0 < child"
  shows "prompt g {Started child} no_facts (feed_provider w g' child d path)"
proof -
  have refuse: "prompt g {Started child} no_facts (do { tell w (Kill child SIGTERM); m })" if "prompt g {} no_facts m" for m :: "int helping"
    by (rule prompt_bind [where J = no_facts]) (use c that in \<open>auto simp: SIGTERM_def SIGKILL_def intro!: prompt_tell\<close>)
  show ?thesis
    unfolding feed_provider_def
    by (intro prompt_seq [OF prompt_gets] prompt_seq [OF prompt_ask] prompt_if refuse prompt_seq [OF prompt_tell]
        prompt_seq [OF prompt_environment] prompt_ret) simp_all
qed

lemma prompt_closes:
  "(\<And>a. prompt g {} no_facts (f a)) \<Longrightarrow> prompt g {} no_facts (State_Monad.bind (tell w (Close d)) f)"
  by (rule prompt_seq [OF prompt_tell]) simp_all

lemma prompt_storage: "prompt g {} no_facts (spawn_storage_provider w g' program)"
proof -
  let ?f = "\<lambda>a b l path child. if child < 0 then do { tell w (Close a); tell w (Close b); tell w (Close l); ret (- 1) }
      else do { tell w (Close a); child \<leftarrow> feed_provider w g' child b path; tell w (Close l); ret child }"
  have failed: "prompt g {} no_facts (?f a b l path (- 1))" for a b l path
    by (simp, intro prompt_closes prompt_stays)
  have started: "prompt g {Started child} no_facts (?f a b l path child)" if "0 < child" for a b l path child
    using that by (simp, intro prompt_seq [OF prompt_tell] prompt_bind [OF prompt_feed] prompt_closes prompt_ret) simp_all
  have fork: "prompt g {} no_facts (State_Monad.bind (if c then fork_process w else ret (- 1)) (?f a b l path))" for c a b l path
    using started failed by (cases c) (simp_all add: prompt_after_fork)
  show ?thesis
    unfolding spawn_storage_provider_def
    by (intro prompt_option prompt_if prompt_seq [OF prompt_ask] prompt_let prompt_seq [OF prompt_unlink] prompt_stays fork
        prompt_bind [where J = no_facts] prompt_closes) simp_all
qed

section \<open>The whole run\<close>

lemma prompt_modify:
  "prompt g {} no_facts clear_secret" "prompt g {} no_facts clear_key"
  by (simp_all add: prompt_def clear_secret_def clear_key_def emits_modify)

lemma prompt_complain: "prompt g {} no_facts (tell w (Complain t))"
  by (rule prompt_tell) simp_all

lemma prompt_maybe_proxy: "prompt g {} no_facts (if kf6 then ensure_kf6_proxy w else ret 0)"
  by (simp add: prompt_proxy prompt_ret)

lemmas prompt_steps = prompt_seq prompt_if prompt_option prompt_cond prompt_stays prompt_complain prompt_maybe_proxy prompt_wallet
  prompt_kill prompt_kill_all prompt_back_up prompt_storage prompt_create prompt_retrieve prompt_modify prompt_marker

lemma prompt_examine: "prompt g {} no_facts (examine_provider w g kf6 marker)"
proof -
  have "prompt g {} no_facts (case state of
         WALLET_TIMEOUT \<Rightarrow> do { kill_all w g kf6 p (- 1) marker; tell w (Complain t); ret (False, False) }
       | WALLET_ERROR \<Rightarrow> do { cond kf6 (kill_provider w g proxy_name p); tell w (Complain u); ret (False, False) }
       | WALLET_CLOSED \<Rightarrow> do { kill_all w g kf6 p (- 1) marker; saved \<leftarrow> back_up w g; ret (saved, saved) }
       | WALLET_OPEN \<Rightarrow> ret (True, False))" for state p t u
    by (cases state; simp only: wallet_state.case; intro prompt_steps)
  then show ?thesis
    unfolding examine_provider_def by (intro prompt_steps)
qed

lemma prompt_plain_wait: "prompt g {} no_facts (wait_for_owner w name child)"
  unfolding wait_for_owner_def
proof -
  have look: "prompt g {} no_facts (do { a \<leftarrow> ask w (Waitpid c True); ret (x_number a = c) })" for c
    by (rule prompt_bind [where J = no_facts, OF prompt_ask]) (simp_all add: prompt_ret)
  show "prompt g {} no_facts (wait_rounds n w name child)" for n
    by (induction n) (auto intro!: prompt_rules prompt_owner look)
qed

lemma prompt_start: "prompt g {} no_facts (start_provider n w g kf6 program marker b)"
proof (induction n arbitrary: b)
  case (Suc n)
  show ?case
    unfolding start_provider.simps
    by (intro prompt_steps prompt_plain_wait prompt_unlink Suc.IH) simp_all
qed (simp add: prompt_ret)

text \<open>From the moment it is filled to the return the digest is only in its own buffer, which is erased on both ways out.\<close>

definition erased :: "octet list \<Rightarrow> octet list \<Rightarrow> bool" where
  "erased old new = (new = old \<or> new = replicate 64 0)"

definition orderly :: "setting \<Rightarrow> 'a helping \<Rightarrow> bool" where
  "orderly g m = (\<forall>s. emits m s (\<lambda>r p es. erased (hp_digest (prog s)) (hp_digest p) \<and> timely g {} es))"

lemma prompt_orderly: "prompt g {} J m \<Longrightarrow> orderly g m"
  unfolding prompt_def orderly_def by (intro allI, drule spec, erule emits_mono) (simp add: erased_def)

lemma orderly_bind:
  assumes "orderly g m" "\<And>a. orderly g (f a)"
  shows "orderly g (State_Monad.bind m f)"
  unfolding orderly_def
proof (intro allI emits_bind [OF assms(1) [unfolded orderly_def, rule_format]])
  fix s t :: "(helper, event) mach" and a and es :: "event list"
  assume *: "erased (hp_digest (prog s)) (hp_digest (prog t)) \<and> timely g {} es"
  have "emits (f a) t (\<lambda>r p fs. erased (hp_digest (prog t)) (hp_digest p) \<and> timely g {} fs)"
    using assms(2) by (simp add: orderly_def)
  then show "emits (f a) t (\<lambda>r p fs. erased (hp_digest (prog s)) (hp_digest p) \<and> timely g {} (es @ fs))"
    by (rule emits_mono) (use * in \<open>auto simp: erased_def intro: timely_mono\<close>)
qed

lemma orderly_if: "(c \<Longrightarrow> orderly g m) \<Longrightarrow> (\<not> c \<Longrightarrow> orderly g n) \<Longrightarrow> orderly g (if c then m else n)"
  by simp

lemma orderly_derive: "orderly g (spaces_derive_kwallet_key hmac)"
  by (auto simp: orderly_def spaces_derive_kwallet_key_def clear_digest_def secure_clear_def SECRET_SIZE_def erased_def emits_def wp_simps)

lemma orderly_unlock: "orderly g (unlock_provider hmac w g kf6 program marker b)"
  unfolding unlock_provider_def
  by (intro orderly_bind orderly_if orderly_derive prompt_orderly [OF prompt_retrieve] prompt_orderly [OF prompt_stays]
      prompt_orderly [where J = no_facts and g = g])
    (intro prompt_steps prompt_start)+

lemma orderly_activate: "orderly g (activate_provider hmac w g name marker)"
proof -
  have look: "orderly g (ask w c)" if "\<And>H. signal_due g H c" for c
    by (rule prompt_orderly [OF prompt_ask [where J = no_facts]]) (simp_all add: that)
  have say: "orderly g (do { tell w (Complain t); ret (r :: int) })" for t r
    by (rule prompt_orderly [where J = no_facts]) (intro prompt_steps)
  show ?thesis
    unfolding activate_provider_def provide_def Let_def
    by (intro orderly_bind orderly_if orderly_unlock look say prompt_orderly [OF prompt_stays] prompt_orderly [OF prompt_owner]
        prompt_orderly [OF prompt_examine] prompt_orderly [OF prompt_marker] prompt_orderly [OF prompt_modify(1)]
        prompt_orderly [OF prompt_modify(2)]) simp_all
qed

end
