(* ===== verification/Secret_Safety.thy ===== *)
theory Secret_Safety
  imports Secret_Signals
begin

text \<open>
  What the secret helper can do to the rest of the guest: which processes it signals, what it writes and where, what
  it leaves in memory, and when it reports success.
\<close>

section \<open>Rights\<close>

text \<open>Which things a run may ever act on: children it has forked, owners of names the bus told it, and ends of its pipes. When it may do
  so is the subject of \<open>Secret_Signals\<close>.\<close>

datatype right = Child int | Owner int | End int

fun rights_of :: "event \<Rightarrow> right set" where
  "rights_of (Fork, a) = {Child (if x_ok a \<and> x_number a > 0 then x_number a else - 1)}"
| "rights_of (ConnectionPid name, a) =
     {Owner (let pid = (if x_ok a then x_number a mod 2 ^ 32 else 0) in if pid > 1 \<and> pid \<le> 2 ^ 31 - 1 then pid else - 1)}"
| "rights_of (Pipe, a) = {End (x_second a)}"
| "rights_of _ = {}"

definition environment_lines :: "setting \<Rightarrow> octet list set" where
  "environment_lines g = insert [10] (insert (bytes_of (''QT_QPA_PLATFORM=offscreen'' @ [CHR 0x0A])) (bytes_of ` set (g_environ g)))"

fun allowed :: "setting \<Rightarrow> octet list \<Rightarrow> right set \<Rightarrow> request \<Rightarrow> bool" where
  "allowed g key T (Kill p s) = (0 < p \<and> (Child p \<in> T \<or> (s = SIGKILL \<and> 1 < p \<and> p \<noteq> g_self g \<and> Owner p \<in> T)))"
| "allowed g key T (WriteAll d bs) = (bs = key \<and> End d \<in> T \<or> bs \<in> environment_lines g)"
| "allowed g key T _ = True"

text \<open>Every request is allowed by what came before it.\<close>

fun trace_ok :: "setting \<Rightarrow> octet list \<Rightarrow> right set \<Rightarrow> event list \<Rightarrow> bool" where
  "trace_ok g key T [] = True"
| "trace_ok g key T (e # es) = (allowed g key T (fst e) \<and> trace_ok g key (T \<union> rights_of e) es)"

definition rights :: "event list \<Rightarrow> right set" where
  "rights es = \<Union> (rights_of ` set es)"

lemma rights_simps [simp]:
  "rights [] = {}" "rights (e # es) = rights_of e \<union> rights es" "rights (es @ fs) = rights es \<union> rights fs"
  by (simp_all add: rights_def)

lemma trace_ok_append [simp]:
  "trace_ok g key T (es @ fs) = (trace_ok g key T es \<and> trace_ok g key (T \<union> rights es) fs)"
  by (induction es arbitrary: T) (simp_all add: Un_assoc)

definition void :: "right \<Rightarrow> bool" where
  "void r = (case r of Child p \<Rightarrow> p \<le> 0 | Owner p \<Rightarrow> p \<le> 0 | End d \<Rightarrow> False)"

lemma allowed_mono:
  "allowed g key T c \<Longrightarrow> (\<And>r. r \<in> T \<Longrightarrow> void r \<or> r \<in> U) \<Longrightarrow> allowed g key U c"
  by (cases c) (fastforce simp: void_def)+

lemma trace_ok_mono:
  "trace_ok g key T es \<Longrightarrow> (\<And>r. r \<in> T \<Longrightarrow> void r \<or> r \<in> U) \<Longrightarrow> trace_ok g key U es"
proof (induction es arbitrary: T U)
  case (Cons e es)
  from Cons.prems have "allowed g key U (fst e)" by (auto intro: allowed_mono)
  moreover have "trace_ok g key (U \<union> rights_of e) es"
    by (rule Cons.IH [of "T \<union> rights_of e"]) (use Cons.prems in auto)
  ultimately show ?case by simp
qed simp

section \<open>What was read\<close>

text \<open>What the program has read, in the order of its requests.\<close>

fun bytes_read :: "event \<Rightarrow> octet list" where
  "bytes_read (Read d n, a) = take n (x_bytes a)"
| "bytes_read _ = []"

definition secret_read :: "event list \<Rightarrow> octet list" where
  "secret_read es = concat (map bytes_read es)"

lemma secret_read_simps [simp]:
  "secret_read [] = []" "secret_read (e # es) = bytes_read e @ secret_read es"
  "secret_read (es @ fs) = secret_read es @ secret_read fs"
  by (simp_all add: secret_read_def)

section \<open>Computations that stay within their rights\<close>

text \<open>\<open>works b g C P m\<close>: with the rights \<open>C\<close>, \<open>m\<close> makes allowed requests only, leaves the key alone, and its
  result stands for rights \<open>P\<close> it has. Where \<open>b\<close> is false it writes no key, where it is true it reads nothing and keeps the secret.\<close>

definition works :: "bool \<Rightarrow> setting \<Rightarrow> right set \<Rightarrow> ('a \<Rightarrow> right set) \<Rightarrow> 'a helping \<Rightarrow> bool" where
  "works b g C P m = (\<forall>s key. (b \<longrightarrow> hp_key (prog s) = key) \<longrightarrow>
     emits m s (\<lambda>r p es. hp_key p = hp_key (prog s) \<and> trace_ok g key C es \<and> (b \<longrightarrow> secret_read es = [] \<and> hp_secret p = hp_secret (prog s)) \<and> (\<forall>t\<in>P r. void t \<or> t \<in> C \<union> rights es)))"

abbreviation "nothing \<equiv> \<lambda>_. {}"

lemma works_ret: "(\<And>t. t \<in> P a \<Longrightarrow> void t \<or> t \<in> C) \<Longrightarrow> works b g C P (ret a)"
  by (auto simp: works_def intro!: emits_return)

lemma works_bind:
  assumes m: "works b g C P m" and f: "\<And>a. works b g (C \<union> P a) Q (f a)"
  shows "works b g C Q (State_Monad.bind m f)"
  unfolding works_def
proof (intro allI impI)
  fix s :: "(helper, event) mach" and key
  assume key: "b \<longrightarrow> hp_key (prog s) = key"
  have "emits m s (\<lambda>r p es. hp_key p = hp_key (prog s) \<and> trace_ok g key C es \<and> (b \<longrightarrow> secret_read es = [] \<and> hp_secret p = hp_secret (prog s)) \<and> (\<forall>t\<in>P r. void t \<or> t \<in> C \<union> rights es))"
    using m key by (simp add: works_def)
  then show "emits (State_Monad.bind m f) s (\<lambda>r p es. hp_key p = hp_key (prog s) \<and> trace_ok g key C es \<and> (b \<longrightarrow> secret_read es = [] \<and> hp_secret p = hp_secret (prog s)) \<and>
      (\<forall>t\<in>Q r. void t \<or> t \<in> C \<union> rights es))"
  proof (rule emits_bind, goal_cases)
    case (1 a u es)
    have "emits (f a) u (\<lambda>r p es'. hp_key p = hp_key (prog u) \<and> trace_ok g key (C \<union> P a) es' \<and> (b \<longrightarrow> secret_read es' = [] \<and> hp_secret p = hp_secret (prog u)) \<and>
        (\<forall>t\<in>Q r. void t \<or> t \<in> C \<union> P a \<union> rights es'))"
      using f [of a, unfolded works_def, rule_format, of u key] key 1 by auto
    then show ?case
    proof (rule emits_mono)
      fix r p es'
      assume 2: "hp_key p = hp_key (prog u) \<and> trace_ok g key (C \<union> P a) es' \<and> (b \<longrightarrow> secret_read es' = [] \<and> hp_secret p = hp_secret (prog u)) \<and>
        (\<forall>t\<in>Q r. void t \<or> t \<in> C \<union> P a \<union> rights es')"
      then have "trace_ok g key (C \<union> rights es) es'" using 1 by (auto elim!: trace_ok_mono)
      with 1 2 show "hp_key p = hp_key (prog s) \<and> trace_ok g key C (es @ es') \<and>
          (b \<longrightarrow> secret_read (es @ es') = [] \<and> hp_secret p = hp_secret (prog s)) \<and> (\<forall>t\<in>Q r. void t \<or> t \<in> C \<union> rights (es @ es'))"
        by auto
    qed
  qed
qed

lemma works_seq:
  "works b g C nothing m \<Longrightarrow> (\<And>a. works b g C Q (f a)) \<Longrightarrow> works b g C Q (State_Monad.bind m f)"
  using works_bind [of b g C nothing m Q f] by simp

lemma works_if: "(c \<Longrightarrow> works b g C P m) \<Longrightarrow> (\<not> c \<Longrightarrow> works b g C P n) \<Longrightarrow> works b g C P (if c then m else n)"
  by simp

lemma works_option: "(x = None \<Longrightarrow> works b g C P m) \<Longrightarrow> (\<And>y. x = Some y \<Longrightarrow> works b g C P (f y)) \<Longrightarrow>
    works b g C P (case x of None \<Rightarrow> m | Some y \<Rightarrow> f y)"
  by (simp split: option.split)

lemma works_sum: "(\<And>y. works b g C P (h y)) \<Longrightarrow> (\<And>y. works b g C P (f y)) \<Longrightarrow>
    works b g C P (case x of Inl y \<Rightarrow> h y | Inr y \<Rightarrow> f y)"
  by (simp split: sum.split)

lemma works_prod: "(\<And>y z. works b g C P (f y z)) \<Longrightarrow> works b g C P (case x of (y, z) \<Rightarrow> f y z)"
  by (simp split: prod.split)

lemma works_cond: "(c \<Longrightarrow> works b g C nothing m) \<Longrightarrow> works b g C nothing (cond c m)"
  by (auto simp: cond_def intro: works_ret)

lemma works_each: "(\<And>x. x \<in> set xs \<Longrightarrow> works b g C nothing (f x)) \<Longrightarrow> works b g C nothing (each f xs)"
  by (induction xs) (auto intro: works_seq works_ret)

lemma works_gets: "works b g C nothing (gets f)"
  by (auto simp: works_def intro!: emits_gets)

lemma works_ask:
  assumes "\<And>key a. allowed g key C c \<and> (b \<longrightarrow> bytes_read (c, a) = [])" "\<And>a t. t \<in> P a \<Longrightarrow> void t \<or> t \<in> C \<union> rights_of (c, a)"
  shows "works b g C P (ask w c)"
  using assms by (auto simp: works_def ask_def emits_def wp_simps)

lemma works_tell: "(\<And>key a. allowed g key C c \<and> (b \<longrightarrow> bytes_read (c, a) = [])) \<Longrightarrow> works b g C nothing (tell w c)"
  unfolding tell_def by (rule works_seq [OF works_ask]) (auto intro: works_ret)

lemma works_files: "(\<And>key a. allowed g key C c \<and> (b \<longrightarrow> bytes_read (c, a) = [])) \<Longrightarrow> works b g C nothing (on_files w c f)"
  by (auto simp: works_def on_files_def emits_def wp_simps split: option.split sum.split)

lemma works_let: "works b g C P (f x) \<Longrightarrow> works b g C P (let y = x in f y)"
  by simp

lemmas works_intros = works_seq works_if works_option works_sum works_prod works_cond works_gets works_tell works_let works_each

lemma works_nothing_ret: "works b g C nothing (ret a)"
  by (rule works_ret) simp

lemma works_nothing_ask: "(\<And>key a. allowed g key C c \<and> (b \<longrightarrow> bytes_read (c, a) = [])) \<Longrightarrow> works b g C nothing (ask w c)"
  by (rule works_ask) simp_all

lemmas works_plain = works_intros works_nothing_ret works_nothing_ask works_files

section \<open>The parts\<close>

lemma works_owner: "works b g C nothing (name_has_owner w name)"
  unfolding name_has_owner_def by (intro works_plain) simp

lemma works_wait: "works b g C nothing (wait_rounds n w name child)"
  by (induction n) (auto intro!: works_plain works_owner)

lemma works_wait_owner: "works b g C nothing (wait_for_owner w name child)"
  by (simp add: wait_for_owner_def works_wait)

lemma works_wallet: "works b g C nothing (wallet_open_state w kf6)"
  unfolding wallet_open_state_def by (intro works_plain) simp_all

lemma works_release: "works b g C nothing (await_release n w name)"
  by (induction n) (auto intro!: works_plain works_owner)

lemma works_stat: "works b g C nothing (nofollow_stat w path)"
  unfolding nofollow_stat_def by (intro works_plain) simp_all

lemma works_unlink: "works b g C nothing (unlink_path w path)"
  unfolding unlink_path_def by (intro works_plain) simp_all

lemma works_rename: "works b g C nothing (rename_noreplace w source destination)"
  unfolding rename_noreplace_def by (intro works_plain works_unlink) simp_all

lemma works_present: "works b g C nothing (present_files w g' sources)"
  by (induction sources) (auto intro!: works_plain works_stat)

lemma works_free: "works b g C nothing (all_free w n sources)"
  by (induction sources) (auto intro!: works_plain works_stat)

lemma works_number: "works b g C nothing (free_number w sources n)"
proof (induction w sources n rule: free_number.induct)
  case (1 w sources n)
  then show ?case by (subst free_number.simps) (auto intro!: works_plain works_free)
qed

lemma works_move: "works b g C nothing (move_files w n sources moved)"
  by (induction sources arbitrary: moved) (auto intro!: works_plain works_rename)

lemma works_back: "works b g C nothing (move_back w n m)"
  unfolding move_back_def by (intro works_plain) simp_all

lemma works_backup: "works b g C nothing (spaces_backup_failed_wallet w g' d)"
  unfolding spaces_backup_failed_wallet_def Let_def
  by (intro works_plain works_present works_number works_move works_back)

lemma works_back_up: "works b g C nothing (back_up w g')"
  unfolding back_up_def by (intro works_plain works_backup) simp_all

lemma works_pid: "works b g C (\<lambda>r. {Owner r}) (connection_pid w name)"
  unfolding connection_pid_def
  by (rule works_bind [where P = "\<lambda>a. rights_of (ConnectionPid name, a)", OF works_ask]) (auto intro!: works_ret works_let simp: Let_def)

lemma works_reap: "works b g C (\<lambda>r. {Child r}) (reap_child w child)" if "Child child \<in> C \<or> child \<le> 0"
  unfolding reap_child_def
  by (intro works_if works_seq works_nothing_ask works_ret) (use that in \<open>auto simp: void_def split: if_splits\<close>)

lemma works_kill: "works b g C nothing (kill_provider w g name child)" if c: "Child child \<in> C \<or> child \<le> 0"
  unfolding kill_provider_def
  by (rule works_bind [OF works_pid], rule works_bind [OF works_reap])
    (use c in \<open>auto intro!: works_plain works_release\<close>)

lemma works_kill_all: "Child child \<in> C \<or> child \<le> 0 \<Longrightarrow> Child proxy \<in> C \<or> proxy \<le> 0 \<Longrightarrow>
    works b g C nothing (kill_all w g kf6 proxy child marker)"
  unfolding kill_all_def by (intro works_plain works_kill works_unlink)

lemma works_fork: "works b g C (\<lambda>r. {Child r}) (fork_process w)"
  unfolding fork_process_def
  by (rule works_bind [where P = "\<lambda>a. rights_of (Fork, a)", OF works_ask]) (auto intro!: works_ret)

lemma works_after_fork:
  assumes "\<And>r. 0 < r \<Longrightarrow> works b g (insert (Child r) C) Q (f r)" "works b g C Q (f (- 1))"
  shows "works b g C Q (do { r \<leftarrow> (if c then fork_process w else ret (- 1)); f r })"
proof (cases c)
  case True
  have "works b g C Q (do { a \<leftarrow> ask w Fork; f (if x_ok a \<and> x_number a > 0 then x_number a else - 1) })"
  proof (rule works_bind [where P = "\<lambda>a. if x_ok a \<and> x_number a > 0 then {Child (x_number a)} else {}", OF works_ask])
    fix a
    show "works b g (C \<union> (if x_ok a \<and> x_number a > 0 then {Child (x_number a)} else {})) Q
        (f (if x_ok a \<and> x_number a > 0 then x_number a else - 1))"
      using assms(1) [of "x_number a"] assms(2) by simp
  qed auto
  with True show ?thesis by (simp add: fork_process_def State_Monad.bind_assoc)
qed (simp add: assms)

lemma works_lines: "set entries \<subseteq> set (g_environ g) \<Longrightarrow> works b g C nothing (send_lines w d entries)"
proof (induction entries)
  case Nil
  then show ?case by (auto intro!: works_plain simp: environment_lines_def)
next
  case (Cons entry entries)
  then show ?case by (auto intro!: works_plain simp: environment_lines_def)
qed

lemma works_environment: "works b g C nothing (send_environment w g path)"
  unfolding send_environment_def by (intro works_plain works_lines) simp_all

lemma works_feed:
  assumes "End d \<in> C" "Child child \<in> C" "child > 0"
  shows "works True g C (\<lambda>r. {Child r}) (feed_provider w g child d path)"
proof -
  have wrt: "works True g C nothing (do { key \<leftarrow> gets hp_key; ask w (WriteAll d key) })"
    using assms by (auto simp: works_def ask_def emits_def wp_simps)
  have "feed_provider w g child d path = do {
     k \<leftarrow> (do { key \<leftarrow> gets hp_key; ask w (WriteAll d key) });
     if \<not> x_ok k then do { tell w (Kill child SIGTERM); tell w (Close d); ret (- 1) }
     else do {
       tell w (Close d);
       sent \<leftarrow> send_environment w g path;
       if sent then ret child else do { tell w (Kill child SIGTERM); ret (- 1) } } }"
    by (simp add: feed_provider_def State_Monad.bind_assoc)
  then show ?thesis
    by (rule ssubst, intro works_seq [OF wrt] works_if, (intro works_seq works_if works_tell works_environment works_ret;
      use assms in \<open>auto simp: void_def\<close>)+)
qed

lemma works_storage: "works True g C (\<lambda>r. {Child r}) (spawn_storage_provider w g program)"
proof -
  have none: "works True g C' (\<lambda>r. {Child r}) (ret (- 1))" for C' by (rule works_ret) (simp add: void_def)
  have pipe: "works True g C (\<lambda>a. {End (x_second a)}) (ask w Pipe)" by (rule works_ask) simp_all
  show ?thesis
    unfolding spawn_storage_provider_def
    apply (intro works_option works_if none works_bind [OF pipe] works_let)
    apply (rule works_bind [where P = "\<lambda>r. {Child r}"])
     apply (rule works_if)
      apply (intro works_seq works_tell none; simp)
     apply (rule works_seq [OF works_nothing_ask], simp)
     apply (rule works_if)
      apply (intro works_seq works_tell none; simp)
     apply (rule works_seq [OF works_unlink])
     apply (rule works_seq [OF works_nothing_ask], simp)
     apply (rule works_after_fork)
      apply (rule works_if)
       apply (intro works_seq works_tell none; simp)
      apply (rule works_seq [OF works_tell], simp)
      apply (rule works_bind [OF works_feed]; (simp; fail)?)
      apply (rule works_seq [OF works_tell], simp)
      apply (rule works_ret, simp)
     apply (simp, intro works_seq works_tell none; simp)
    apply (rule works_seq [OF works_unlink], rule works_ret, simp)
    done
qed

lemma works_plain_spawn: "works b g C (\<lambda>r. {Child r}) (spawn_plain w program)"
  by (simp add: spawn_plain_def works_fork)

lemma works_proxy: "works b g C (\<lambda>r. {Child r}) (ensure_kf6_proxy w)"
  unfolding ensure_kf6_proxy_def
  by (intro works_seq [OF works_owner] works_if works_nothing_ask works_tell works_seq works_bind [OF works_plain_spawn] works_cond
      works_ret works_wait_owner; auto simp: void_def split: if_splits)

lemma works_marker: "works b g C nothing (marker_exists w g' path)"
  unfolding marker_exists_def by (intro works_plain) simp_all

lemma works_create: "works b g C nothing (create_marker w g' path)"
  unfolding create_marker_def by (intro works_plain) simp_all

lemma works_examine: "works b g C nothing (examine_provider w g kf6 marker)"
  unfolding examine_provider_def
proof (rule works_bind [where P = "\<lambda>r. {Child r}"])
  show "works b g C (\<lambda>r. {Child r}) (if kf6 then ensure_kf6_proxy w else ret 0)"
    by (intro works_if works_proxy works_ret) (simp add: void_def)
qed (auto intro!: works_plain works_wallet works_kill_all works_kill works_back_up split: wallet_state.split)

lemma works_start: "works True g C (\<lambda>r. case r of Some c \<Rightarrow> {Child c} | None \<Rightarrow> {})
    (start_provider n w g kf6 program marker b')"
proof (induction n arbitrary: b' C)
  case 0
  then show ?case by (auto intro: works_ret)
next
  case (Suc n)
  have proxy: "works True g C' (\<lambda>r. {Child r}) (if kf6 then ensure_kf6_proxy w else ret 0)" for C'
    by (intro works_if works_proxy works_ret) (simp add: void_def)
  have none: "works True g C' (\<lambda>r. case r of Some c \<Rightarrow> {Child c} | None \<Rightarrow> {}) (ret None)" for C'
    by (rule works_ret) simp
  show ?case
    unfolding start_provider.simps
    apply (rule works_bind [OF works_storage])
    apply (rule works_seq)
     apply (intro works_if works_wait_owner works_nothing_ret)
    apply (rule works_if)
     apply (intro works_seq works_cond works_kill works_unlink works_tell none; simp)
    apply (rule works_bind [OF proxy])
    apply (rule works_if)
     apply (intro works_seq works_kill none; simp)
    apply (rule works_seq [OF works_wallet])
    apply (rule works_if)
     apply (rule works_ret, simp)
    apply (rule works_seq [OF works_kill_all])
      apply simp_all [2]
    apply (intro works_if works_seq works_tell none Suc.IH works_back_up; simp)
    done
qed

text \<open>The run from the key on: it is not changed, and nothing else is written.\<close>

lemma start_works: "hp_key (prog s) = key \<Longrightarrow> emits (start_provider n w g kf6 program marker b') s
    (\<lambda>r p es. hp_key p = key \<and> trace_ok g key {} es \<and> secret_read es = [] \<and> (\<forall>c. r = Some c \<longrightarrow> c \<le> 0 \<or> Child c \<in> rights es))"
  using works_start [of g "{}" n w kf6 program marker b']
  by (auto simp: works_def void_def elim!: emits_mono dest!: spec [of _ s])

section \<open>The secret\<close>

text \<open>Neither secret is touched, and nothing is read.\<close>

definition keeps :: "'a helping \<Rightarrow> bool" where
  "keeps m = (\<forall>s. emits m s (\<lambda>r p es. hp_secret p = hp_secret (prog s) \<and> hp_key p = hp_key (prog s) \<and> secret_read es = []))"

lemma keeps_ret: "keeps (ret a)"
  by (auto simp: keeps_def intro!: emits_return)

lemma keeps_bind: "keeps m \<Longrightarrow> (\<And>a. keeps (f a)) \<Longrightarrow> keeps (State_Monad.bind m f)"
  unfolding keeps_def
  apply (intro allI)
  subgoal for s
    apply (rule emits_bind [of m s "\<lambda>r p es. hp_secret p = hp_secret (prog s) \<and> hp_key p = hp_key (prog s) \<and> secret_read es = []"])
     apply blast
    apply (rule emits_mono)
     apply blast
    apply simp
    done
  done

lemma keeps_ask: "(\<And>a. bytes_read (c, a) = []) \<Longrightarrow> keeps (ask w c)"
  by (auto simp: keeps_def ask_def emits_def wp_simps)

lemma keeps_tell: "(\<And>a. bytes_read (c, a) = []) \<Longrightarrow> keeps (tell w c)"
  unfolding tell_def by (intro keeps_bind keeps_ask keeps_ret)

lemma keeps_cond: "keeps m \<Longrightarrow> keeps (cond c m)"
  by (simp add: cond_def keeps_ret)

lemma keeps_if: "keeps m \<Longrightarrow> keeps n \<Longrightarrow> keeps (if c then m else n)"
  by simp

lemmas keeps_intros = keeps_ret keeps_bind keeps_ask keeps_tell keeps_cond keeps_if

lemma keeps_load: "keeps (load_token w g)"
  unfolding load_token_def by (auto intro!: keeps_intros split: option.split)

lemma keeps_save: "keeps (save_token w g t)"
  unfolding save_token_def by (auto intro!: keeps_intros split: option.split)

lemma works_secret: "works False g C nothing (modify (hp_secret_update f))"
  by (auto simp: works_def intro!: emits_modify)

lemma works_load: "works b g C nothing (load_token w g')"
  unfolding load_token_def by (intro works_plain) simp_all

lemma works_save: "works b g C nothing (save_token w g' t)"
  unfolding save_token_def by (intro works_plain) simp_all

lemma works_read: "works False g C nothing (read_secret w d got)"
proof (induction w d got rule: read_secret.induct)
  case (1 w d got)
  show ?case by (subst read_secret.simps) (auto intro!: works_plain works_secret 1)
qed

lemma works_request: "works False g C nothing (request_secret w g' d)"
  unfolding request_secret_def secret_at_end_def Let_def
  by (intro works_plain works_load works_read works_save) simp_all

lemma works_retrieve: "works False g C nothing (retrieve_portal_secret w g')"
  unfolding retrieve_portal_secret_def clear_secret_def
  by (intro works_plain works_secret works_request) simp_all

lemma emits_ask: "emits (ask w c) s (\<lambda>a p es. p = (prog s)\<lparr>hp_files := x_files a\<rparr> \<and> es = [(c, a)])"
  by (auto simp: ask_def emits_def wp_simps)

lemma put_at_take: "length buffer = SECRET_SIZE \<Longrightarrow> got + length bs \<le> SECRET_SIZE \<Longrightarrow>
    length (put_at got bs buffer) = SECRET_SIZE \<and> take (got + length bs) (put_at got bs buffer) = take got buffer @ bs"
  by (simp add: put_at_def)

lemma read_emits: "length (hp_secret (prog s)) = SECRET_SIZE \<Longrightarrow> got \<le> SECRET_SIZE \<Longrightarrow>
    emits (read_secret w d got) s (\<lambda>r p es. length (hp_secret p) = SECRET_SIZE \<and>
      (r \<longrightarrow> hp_secret p = take got (hp_secret (prog s)) @ secret_read es))"
proof (induction w d got arbitrary: s rule: read_secret.induct)
  case (1 w d got)
  show ?case
  proof (cases "got \<ge> SECRET_SIZE")
    case True
    then show ?thesis using "1.prems" by (subst read_secret.simps) (auto intro!: emits_return)
  next
    case False
    have "emits (do { a \<leftarrow> ask w (Read d (SECRET_SIZE - got));
        let bs = take (SECRET_SIZE - got) (x_bytes a);
        if \<not> x_ok a \<or> bs = [] then ret False
        else do { modify (hp_secret_update (put_at got bs)); read_secret w d (got + length bs) } }) s
      (\<lambda>r p es. length (hp_secret p) = SECRET_SIZE \<and> (r \<longrightarrow> hp_secret p = take got (hp_secret (prog s)) @ secret_read es))"
    proof (rule emits_bind [OF emits_ask], goal_cases)
      case (1 a t es)
      note t = this
      define bs where "bs = take (SECRET_SIZE - got) (x_bytes a)"
      have got: "got + length bs \<le> SECRET_SIZE" using False by (auto simp: bs_def min_def)
      show ?case
        unfolding Let_def bs_def [symmetric]
      proof (cases "\<not> x_ok a \<or> bs = []", goal_cases)
        case 1
        then show ?case using t "1.prems" by (auto intro!: emits_return)
      next
        case 2
        then show ?case
          apply (simp only: if_False)
          apply (rule emits_bind [where P = "\<lambda>_ p es. p = hp_secret_update (put_at got bs) (prog t) \<and> es = []"])
           apply (simp add: emits_modify)
          apply (rule emits_mono [OF "1.IH" [OF False bs_def]])
          using False t got "1.prems" put_at_take [of "hp_secret (prog s)" got bs]
          apply (auto simp: bs_def)
          done
      qed
    qed
    then show ?thesis by (subst read_secret.simps) (simp add: False)
  qed
qed

lemma end_emits: "emits (secret_at_end w d) s (\<lambda>r p es. hp_secret p = hp_secret (prog s) \<and> (r \<longrightarrow> secret_read es = []))"
  unfolding secret_at_end_def by (rule emits_bind [OF emits_ask]) (auto intro!: emits_return)

text \<open>The program asks for nothing but the secret before it reads, so that what it has read is the whole buffer.\<close>

lemma keeps_then: "keeps m \<Longrightarrow> (\<And>a s'. hp_secret (prog s') = hp_secret (prog s) \<Longrightarrow> emits (f a) s' (\<lambda>r p es. Q r p (secret_read es))) \<Longrightarrow>
    emits (State_Monad.bind m f) s (\<lambda>r p es. Q r p (secret_read es))"
  by (rule emits_bind [of m s "\<lambda>r p es. hp_secret p = hp_secret (prog s) \<and> secret_read es = []"])
    (auto simp: keeps_def elim!: emits_mono)

definition got_secret :: "bool \<Rightarrow> helper \<Rightarrow> octet list \<Rightarrow> bool" where
  "got_secret r p bs = (length (hp_secret p) = SECRET_SIZE \<and> (r \<longrightarrow> hp_secret p = bs))"

lemmas request_then = keeps_then [where Q = got_secret]

lemma helper_if: "(c \<Longrightarrow> emits m s P) \<Longrightarrow> (\<not> c \<Longrightarrow> emits n s P) \<Longrightarrow> emits (if c then m else n) s P"
  by simp

lemma failed_emits: "length (hp_secret (prog s)) = SECRET_SIZE \<Longrightarrow>
    emits (ret False) s (\<lambda>r p es. got_secret r p (secret_read es))"
  by (simp add: got_secret_def emits_return)

lemma request_emits:
  assumes "length (hp_secret (prog s)) = SECRET_SIZE"
  shows "emits (request_secret w g d) s (\<lambda>r p es. got_secret r p (secret_read es))"
proof -
  have tail: "emits (do { all \<leftarrow> read_secret w d 0;
      if \<not> all then ret False
      else do {
        finished \<leftarrow> secret_at_end w d;
        if \<not> finished then ret False
        else do { save_token w g k; ret True } } }) t (\<lambda>r p es. got_secret r p (secret_read es))"
    if t: "length (hp_secret (prog t)) = SECRET_SIZE" for t k
  proof (rule emits_bind [OF read_emits [OF t]], simp, goal_cases)
    case (1 all u es)
    show ?case
    proof (cases all)
      case True
      show ?thesis
        apply (simp add: True)
        apply (rule emits_bind [OF end_emits])
        subgoal for finished v es'
          using 1 True keeps_save [of w g k, unfolded keeps_def, rule_format, of v]
          by (auto simp: got_secret_def intro!: emits_return emits_bind [of "save_token w g k" v
                "\<lambda>r p es. hp_secret p = hp_secret (prog v) \<and> hp_key p = hp_key (prog v) \<and> secret_read es = []"])
        done
    qed (use 1 in \<open>simp add: got_secret_def emits_return\<close>)
  qed
  show ?thesis
    unfolding request_secret_def Let_def
    apply (rule request_then, rule keeps_ask, simp)
    apply (rule request_then, rule keeps_ask, simp)
    apply (rule helper_if, rule failed_emits, simp add: assms)
    apply (rule request_then, rule keeps_load)
    apply (rule request_then, rule keeps_ask, simp)
    apply (rule request_then, intro keeps_if keeps_ask keeps_ret, simp)
    apply (rule helper_if, rule failed_emits, simp add: assms)
    apply (rule request_then, rule keeps_ask, simp)
    apply (rule helper_if, rule request_then, rule keeps_tell, simp, rule failed_emits, simp add: assms)
    apply (rule helper_if, rule failed_emits, simp add: assms)
    apply (rule request_then, rule keeps_ask, simp)
    apply (rule helper_if, rule failed_emits, simp add: assms)
    apply (rule tail, simp add: assms)
    done
qed

definition blank :: "octet list" where
  "blank = replicate SECRET_SIZE 0"

lemma retrieve_emits:
  assumes "length (hp_secret (prog s)) = SECRET_SIZE"
  shows "emits (retrieve_portal_secret w g) s (\<lambda>r p es. hp_secret p = (if r then secret_read es else blank))"
proof -
  have rest: "keeps (do { tell w (Truncate d); tell w (Close d); ret r })" for d r
    by (intro keeps_intros) simp_all
  show ?thesis
    unfolding retrieve_portal_secret_def
  proof (rule emits_bind [OF emits_ask], rule helper_if, goal_cases)
    case (1 m t es)
    then show ?case
      by (auto simp: clear_secret_def blank_def secure_clear_def intro!: emits_bind [OF emits_modify [where P = "\<lambda>_ p _. hp_secret p = blank"]] emits_return)
  next
    case (2 m t es)
    show ?case
    proof (rule emits_bind [OF request_emits], goal_cases)
      case 1
      with assms 2 show ?case by simp
    next
      case (2 success u es')
      show ?case
      proof (cases success)
        case True
        have "emits (do { tell w (Truncate (x_number m)); tell w (Close (x_number m)); ret True }) u
            (\<lambda>r p es''. r \<and> hp_secret p = hp_secret (prog u) \<and> secret_read es'' = [])"
          by (auto simp: tell_def ask_def emits_def wp_simps)
        then show ?thesis
          using 2 \<open>prog t = _ \<and> _\<close> True by (auto simp: cond_def got_secret_def emits_return elim!: emits_mono)
      next
        case False
        then show ?thesis
          by (auto simp: cond_def clear_secret_def tell_def ask_def emits_def wp_simps blank_def secure_clear_def)
      qed
    qed
  qed
qed

section \<open>Opening, claiming and signals\<close>

fun opens :: "event \<Rightarrow> bool" where
  "opens (WalletOpen, a) = (x_ok a \<and> x_number a \<ge> 0)"
| "opens (WalletIsOpen, a) = (x_ok a \<and> x_flag a)"
| "opens _ = False"

fun kills :: "event \<Rightarrow> bool" where
  "kills (Kill p s, a) = True"
| "kills _ = False"

fun claims :: "string \<Rightarrow> event \<Rightarrow> bool" where
  "claims name (HasOwner n, a) = (n = name \<and> x_ok a \<and> x_flag a)"
| "claims name _ = False"

text \<open>The wallet was seen open, and no process was signalled since.\<close>

definition left_open :: "event list \<Rightarrow> bool" where
  "left_open es = list_ex opens (takeWhile (\<lambda>e. \<not> kills e) (rev es))"

lemma left_open_append [simp]:
  "left_open es \<Longrightarrow> \<not> list_ex kills fs \<Longrightarrow> left_open (es @ fs)"
  "left_open fs \<Longrightarrow> left_open (es @ fs)"
proof -
  assume *: "left_open es" "\<not> list_ex kills fs"
  then have "takeWhile (\<lambda>e. \<not> kills e) (rev fs @ rev es) = rev fs @ takeWhile (\<lambda>e. \<not> kills e) (rev es)"
    by (intro takeWhile_append2) (auto simp: list_ex_iff)
  with * show "left_open (es @ fs)" by (simp add: left_open_def)
next
  assume "left_open fs"
  then show "left_open (es @ fs)"
    by (auto simp: left_open_def takeWhile_append list_ex_iff dest!: set_takeWhileD)
qed

definition quiet :: "'a helping \<Rightarrow> bool" where
  "quiet m = (\<forall>s. emits m s (\<lambda>r p es. \<not> list_ex kills es))"

lemma works_any: "works b g C P m \<Longrightarrow> emits m s (\<lambda>_ _ _. True)"
  unfolding works_def by (drule spec [of _ s], drule spec [of _ "hp_key (prog s)"]) (auto elim: emits_mono)

lemma wallet_left_open: "emits (wallet_open_state w kf6) s (\<lambda>r p es. r = WALLET_OPEN \<longrightarrow> left_open es)"
  unfolding wallet_open_state_def
  by (auto simp: tell_def ask_def emits_def wp_simps left_open_def wallet_failed_def)

text \<open>Nobody is signalled, or the result does not count.\<close>

definition stays :: "('a \<Rightarrow> bool) \<Rightarrow> 'a helping \<Rightarrow> bool" where
  "stays c m = (\<forall>s. emits m s (\<lambda>r p es. c r \<longrightarrow> \<not> list_ex kills es))"

lemma stays_ret: "stays c (ret a)"
  by (simp add: stays_def emits_return)

lemma stays_refused:
  assumes "\<And>s. emits m s (\<lambda>_ _ _. True)" "\<not> c r"
  shows "stays c (do { _ \<leftarrow> m; ret r })"
  unfolding stays_def by (intro allI emits_bind [OF assms(1)]) (simp add: emits_return assms(2))

lemma stays_quiet:
  assumes "quiet m" "\<And>a. stays c (f a)"
  shows "stays c (State_Monad.bind m f)"
  unfolding stays_def
proof (intro allI emits_bind [OF assms(1) [unfolded quiet_def, rule_format]])
  fix a u and es :: "event list"
  assume *: "\<not> list_ex kills es"
  have "emits (f a) u (\<lambda>r p fs. c r \<longrightarrow> \<not> list_ex kills fs)" using assms(2) by (simp add: stays_def)
  then show "emits (f a) u (\<lambda>r p fs. c r \<longrightarrow> \<not> list_ex kills (es @ fs))" by (rule emits_mono) (simp add: *)
qed

lemma stays_if: "(d \<Longrightarrow> stays c m) \<Longrightarrow> (\<not> d \<Longrightarrow> stays c n) \<Longrightarrow> stays c (if d then m else n)"
  by simp

lemma works_forget: "works b g C P m \<Longrightarrow> works b g C nothing m"
  unfolding works_def by (intro allI impI, drule spec, drule spec, drule (1) mp) (auto elim: emits_mono)

text \<open>A result that needs an open wallet.\<close>

definition left_if :: "('a \<Rightarrow> bool) \<Rightarrow> 'a helping \<Rightarrow> bool" where
  "left_if c m = (\<forall>s. emits m s (\<lambda>r p es. c r \<longrightarrow> left_open es))"

lemma left_ret: "\<not> c a \<Longrightarrow> left_if c (ret a)"
  by (simp add: left_if_def emits_return)

lemma left_prefix:
  assumes "\<And>s. emits m s (\<lambda>_ _ _. True)" "\<And>a. left_if c (f a)"
  shows "left_if c (State_Monad.bind m f)"
  unfolding left_if_def
proof (intro allI emits_bind [OF assms(1)])
  fix a u and es :: "event list"
  have "emits (f a) u (\<lambda>r p fs. c r \<longrightarrow> left_open fs)" using assms(2) by (simp add: left_if_def)
  then show "emits (f a) u (\<lambda>r p fs. c r \<longrightarrow> left_open (es @ fs))" by (rule emits_mono) simp
qed

lemma left_any: "works b g UNIV P m \<Longrightarrow> (\<And>a. left_if c (f a)) \<Longrightarrow> left_if c (State_Monad.bind m f)"
  by (rule left_prefix) (rule works_any)

lemma left_if_if: "(d \<Longrightarrow> left_if c m) \<Longrightarrow> (\<not> d \<Longrightarrow> left_if c n) \<Longrightarrow> left_if c (if d then m else n)"
  by simp

lemma left_quiet:
  assumes m: "left_if d m" and q: "\<And>a. d a \<Longrightarrow> stays c (f a)" and n: "\<And>a. \<not> d a \<Longrightarrow> left_if c (f a)"
  shows "left_if c (State_Monad.bind m f)"
  unfolding left_if_def
proof (intro allI emits_bind [OF m [unfolded left_if_def, rule_format]])
  fix a s u and es :: "event list"
  assume *: "d a \<longrightarrow> left_open es"
  show "emits (f a) u (\<lambda>r p fs. c r \<longrightarrow> left_open (es @ fs))"
  proof (cases "d a")
    case True
    from q [OF True] have "emits (f a) u (\<lambda>r p fs. c r \<longrightarrow> \<not> list_ex kills fs)" by (simp add: stays_def)
    then show ?thesis by (rule emits_mono) (use True * in simp)
  next
    case False
    from n [OF False] have "emits (f a) u (\<lambda>r p fs. c r \<longrightarrow> left_open fs)" by (simp add: left_if_def)
    then show ?thesis by (rule emits_mono) simp
  qed
qed

lemma quiet_result: "quiet (ret a)"
  by (simp add: quiet_def emits_return)

lemma quiet_then:
  assumes "quiet m" "\<And>a. quiet (f a)"
  shows "quiet (State_Monad.bind m f)"
  unfolding quiet_def
proof (intro allI emits_bind [OF assms(1) [unfolded quiet_def, rule_format]])
  fix a u and es :: "event list"
  assume *: "\<not> list_ex kills es"
  have "emits (f a) u (\<lambda>r p fs. \<not> list_ex kills fs)" using assms(2) by (simp add: quiet_def)
  then show "emits (f a) u (\<lambda>r p fs. \<not> list_ex kills (es @ fs))" by (rule emits_mono) (simp add: *)
qed

lemma quiet_ask: "(\<And>a. \<not> kills (c, a)) \<Longrightarrow> quiet (ask w c)"
  by (auto simp: quiet_def ask_def emits_def wp_simps)

lemma quiet_modify: "quiet (modify f)"
  by (simp add: quiet_def emits_modify)

lemma quiet_owner: "quiet (name_has_owner w name)"
  unfolding name_has_owner_def by (intro quiet_then quiet_ask quiet_result) simp

lemma quiet_create: "quiet (create_marker w g marker)"
  unfolding create_marker_def on_files_def
  by (auto simp: quiet_def emits_def wp_simps split: option.split sum.split)

lemma left_wallet: "left_if (\<lambda>r. r = WALLET_OPEN) (wallet_open_state w kf6)"
  by (simp add: left_if_def wallet_left_open)

lemma works_maybe_proxy: "works b g C (\<lambda>r. {Child r}) (if kf6 then ensure_kf6_proxy w else ret 0)"
  by (intro works_if works_proxy works_ret) (simp add: void_def)

lemma left_steps:
  "(\<And>a. left_if c (f a)) \<Longrightarrow> left_if c (State_Monad.bind (tell w (Complain t)) f)"
  "(\<And>a. left_if c (f a)) \<Longrightarrow> left_if c (State_Monad.bind (kill_provider w g name child) f)"
  "(\<And>a. left_if c (f a)) \<Longrightarrow> left_if c (State_Monad.bind (cond d (kill_provider w g name child)) f)"
  "(\<And>a. left_if c (f a)) \<Longrightarrow> left_if c (State_Monad.bind (kill_all w g kf6 proxy child marker) f)"
  "(\<And>a. left_if c (f a)) \<Longrightarrow> left_if c (State_Monad.bind (unlink_path w path) f)"
  "(\<And>a. left_if c (h a)) \<Longrightarrow> left_if c (State_Monad.bind (back_up w g) h)"
  "(\<And>a. left_if c (k a)) \<Longrightarrow> left_if c (State_Monad.bind (if kf6 then ensure_kf6_proxy w else ret 0) k)"
  by - ((rule left_any [where g = g and b = True and P = nothing]; ((simp; fail) | (intro works_tell works_kill works_cond
      works_kill_all works_unlink works_back_up works_maybe_proxy [THEN works_forget]; simp)))+)

lemma left_examine: "left_if (\<lambda>r. fst r \<and> \<not> snd r) (examine_provider w g kf6 marker)"
  unfolding examine_provider_def
proof (intro left_steps left_if_if left_quiet [OF left_wallet], goal_cases)
  case (3 proxy state)
  then show ?case by (cases state) (auto intro!: left_steps left_ret)
qed (auto intro: left_ret stays_ret)

lemma left_start: "left_if (\<lambda>r. r \<noteq> None) (start_provider n w g kf6 program marker b)"
proof (induction n arbitrary: b)
  case (Suc n)
  show ?case
    unfolding start_provider.simps
    by (rule left_any [OF works_storage], rule left_any [OF works_if [OF works_nothing_ret works_wait_owner]])
      (intro left_if_if left_steps left_quiet [OF left_wallet] Suc.IH; simp add: left_ret stays_ret)
qed (simp add: left_ret)

section \<open>A whole run\<close>

definition wallet_key :: "(octet list \<Rightarrow> octet list \<Rightarrow> octet list) \<Rightarrow> octet list \<Rightarrow> octet list" where
  "wallet_key hmac secret = take KWALLET_KEY_SIZE (hmac secret key_domain)"

lemma emits_all: "(\<And>x. emits m s (P x)) \<Longrightarrow> emits m s (\<lambda>r p es. \<forall>x. P x r p es)"
  by (auto simp: emits_def wp_def split: prod.splits) (metis same_append_eq)

text \<open>Before the key is there, requests are allowed whatever the key will be.\<close>

lemma works_before:
  assumes "works False g {} nothing m"
  shows "emits m s (\<lambda>r p es. hp_key p = hp_key (prog s) \<and> (\<forall>key. trace_ok g key {} es))"
proof -
  have "emits m s (\<lambda>r p es. \<forall>key. hp_key p = hp_key (prog s) \<and> trace_ok g key {} es)"
    by (rule emits_all, rule emits_mono [of m s]) (use assms in \<open>auto simp: works_def\<close>)
  then show ?thesis by (rule emits_mono) simp
qed

lemma works_reads_nothing:
  assumes "works True g {} nothing m"
  shows "emits m s (\<lambda>r p es. hp_secret p = hp_secret (prog s) \<and> secret_read es = [] \<and> trace_ok g (hp_key (prog s)) {} es)"
proof -
  have "emits m s (\<lambda>r p es. hp_key p = hp_key (prog s) \<and> trace_ok g (hp_key (prog s)) {} es \<and>
      (secret_read es = [] \<and> hp_secret p = hp_secret (prog s)))"
    using assms by (simp add: works_def)
  then show ?thesis by (rule emits_mono) simp
qed

text \<open>With the key in place, \<open>proper g key T es\<close>: nothing is read, and the requests are allowed.\<close>

definition proper :: "setting \<Rightarrow> octet list \<Rightarrow> right set \<Rightarrow> event list \<Rightarrow> bool" where
  "proper g key T es = (secret_read es = [] \<and> trace_ok g key T es)"

lemma proper_simps [simp]: "proper g key T []" "proper g key T (es @ fs) = (proper g key T es \<and> proper g key (T \<union> rights es) fs)"
  by (auto simp: proper_def)

lemma works_after:
  assumes "works True g C nothing m" "hp_key (prog s) = key"
  shows "emits m s (\<lambda>r p es. hp_key p = key \<and> proper g key C es)"
proof -
  have "emits m s (\<lambda>r p es. hp_key p = hp_key (prog s) \<and> trace_ok g key C es \<and>
      (secret_read es = [] \<and> hp_secret p = hp_secret (prog s)))"
    using assms(1) by (simp add: works_def flip: assms(2))
  then show ?thesis by (rule emits_mono) (simp add: proper_def assms(2))
qed

lemma finish_emits:
  assumes key: "hp_key (prog s) = key"
  shows "emits (do {
      started \<leftarrow> start_provider n w g kf6 program marker b;
      case started of
        None \<Rightarrow> ret False
      | Some child \<Rightarrow> do {
          marked \<leftarrow> create_marker w g marker;
          if \<not> marked then do { kill_provider w g secrets_name child; ret False }
          else do { clear_key; ret True } } }) s (\<lambda>r p es. proper g key {} es)"
proof (rule emits_bind [OF start_works [OF key, where g = g]], goal_cases)
  case (1 started t es)
  then have t: "hp_key (prog t) = key" "proper g key {} es" by (simp_all add: proper_def)
  show ?case
  proof (cases started)
    case None
    with 1 show ?thesis by (simp add: emits_return proper_def)
  next
    case (Some child)
    then have child: "Child child \<in> rights es \<or> child \<le> 0" using 1 by auto
    show ?thesis
      apply (simp only: Some option.case)
      apply (rule emits_bind [OF works_after [OF works_create, where g = g and C = "rights es" and key = key]])
       apply (simp add: 1)
      subgoal for marked u es'
      proof (rule helper_if, goal_cases)
        case 1
        have "works True g (rights es \<union> rights es') nothing (do { kill_provider w g secrets_name child; ret False })"
          by (intro works_seq works_kill works_nothing_ret) (use child in blast)
        then have "emits (do { kill_provider w g secrets_name child; ret False }) u
            (\<lambda>r p fs. hp_key p = key \<and> proper g key (rights es \<union> rights es') fs)"
          by (rule works_after) (simp add: 1)
        then show ?case by (rule emits_mono) (use 1 t in \<open>simp add: Un_assoc\<close>)
      next
        case 2
        then show ?case using t by (auto simp: clear_key_def emits_def wp_simps)
      qed
      done
  qed
qed

lemma unlock_emits:
  assumes "length (hp_secret (prog s)) = SECRET_SIZE"
  shows "emits (unlock_provider hmac w g kf6 program marker b) s
    (\<lambda>r p es. trace_ok g (wallet_key hmac (secret_read es)) {} es)"
proof -
  have before: "emits (retrieve_portal_secret w g) s (\<lambda>r p es. hp_secret p = (if r then secret_read es else blank) \<and>
      (\<forall>key. trace_ok g key {} es))"
    by (rule emits_mono [OF emits_conj [OF retrieve_emits [OF assms] works_before [OF works_retrieve, where g = g]]]) simp
  have refuse: "emits (do { tell w (Complain m); ret False }) t (\<lambda>r p es. secret_read es = [] \<and> (\<forall>key T. trace_ok g key T es))" for m t
    by (auto simp: tell_def ask_def emits_def wp_simps)
  show ?thesis
    unfolding unlock_provider_def
    apply (rule emits_bind [OF before])
    subgoal for retrieved t es
      apply (cases retrieved)
       apply (rule emits_bind [of _ t "\<lambda>derived p es'. es' = [] \<and> (derived \<longrightarrow> hp_key p = wallet_key hmac (secret_read es))"])
        apply (auto simp: spaces_derive_kwallet_key_def clear_digest_def emits_def wp_simps wallet_key_def) [1]
       apply (rule helper_if)
        apply (rule emits_mono [OF refuse], simp)
       apply (rule emits_bind [of clear_secret _ "\<lambda>_ p es'. es' = [] \<and> hp_key p = wallet_key hmac (secret_read es)"])
        apply (simp add: clear_secret_def emits_modify)
       apply (rule emits_mono [OF finish_emits [where g = g]], simp)
       apply (auto simp: proper_def elim: trace_ok_mono) [1]
      apply (simp add: State_Monad.bind_assoc, rule emits_mono [OF refuse], simp)
      done
    done
qed

text \<open>A run that ends well leaves the wallet open, and the name it was started for is owned.\<close>

lemma derive_any: "emits (if b then spaces_derive_kwallet_key hmac else ret False) s (\<lambda>_ _ _. True)"
  by (auto simp: spaces_derive_kwallet_key_def clear_digest_def emits_def wp_simps)

lemma clear_any: "emits clear_secret s (\<lambda>_ _ _. True)"
  by (simp add: clear_secret_def emits_modify)

lemma left_unlock: "left_if (\<lambda>r. r) (unlock_provider hmac w g kf6 program marker b)"
  unfolding unlock_provider_def
proof (rule left_any [OF works_retrieve [where g = g]], rule left_prefix [OF derive_any], rule left_if_if, goal_cases)
  case 1
  then show ?case by (auto intro!: left_steps left_ret)
next
  case 2
  show ?case
  proof (rule left_prefix [OF clear_any], rule left_quiet [OF left_start], goal_cases)
    case (1 _ started)
    then obtain child where c: "started = Some child" by blast
    show ?case
      unfolding c option.case clear_key_def
      by (rule stays_quiet [OF quiet_create], rule stays_if, rule stays_refused,
          rule works_any [OF works_kill [where C = UNIV and g = g and b = True]])
        (simp_all add: stays_quiet [OF quiet_modify] stays_ret)
  qed (simp add: left_ret)
qed

text \<open>The last answer says that the name is owned.\<close>

definition claimed_last :: "string \<Rightarrow> event list \<Rightarrow> bool" where
  "claimed_last name es = (case rev es of e # _ \<Rightarrow> claims name e | [] \<Rightarrow> False)"

lemma claimed_last_append [simp]: "claimed_last name fs \<Longrightarrow> claimed_last name (es @ fs)"
  by (cases fs rule: rev_cases) (auto simp: claimed_last_def)

definition outcome :: "string \<Rightarrow> int \<Rightarrow> event list \<Rightarrow> bool" where
  "outcome name r es = (if r = 0 then left_open es \<and> claimed_last name es else r = 1)"

lemma outcome_prefix:
  assumes "\<And>s. emits m s (\<lambda>_ _ _. True)" "\<And>a s. emits (f a) s (\<lambda>r p es. outcome name r es)"
  shows "emits (State_Monad.bind m f) s (\<lambda>r p es. outcome name r es)"
  by (rule emits_bind [OF assms(1)], rule emits_mono [OF assms(2)]) (auto simp: outcome_def split: if_splits)

lemma outcome_one: "emits (do { tell w (Complain t); ret 1 }) s (\<lambda>r p es. outcome name r es)"
  "emits (ret 1) s (\<lambda>r p es. outcome name r es)"
  by (auto simp: tell_def ask_def emits_def wp_simps outcome_def)

definition conclude :: "world \<Rightarrow> string \<Rightarrow> int helping" where
  "conclude w name = do {
     claimed \<leftarrow> name_has_owner w name;
     if claimed then ret 0 else do { tell w (Complain (''provider did not claim '' @ name)); ret 1 } }"

lemma conclude_emits: "left_open es \<Longrightarrow> emits (conclude w name) s (\<lambda>r p fs. outcome name r (es @ fs))"
  by (auto simp: conclude_def name_has_owner_def tell_def ask_def emits_def wp_simps outcome_def claimed_last_def)

lemma opened_then:
  assumes m: "left_if c m" and "\<And>a. c a \<Longrightarrow> f a = conclude w name" "\<And>a s. \<not> c a \<Longrightarrow> emits (f a) s (\<lambda>r p es. outcome name r es)"
  shows "emits (State_Monad.bind m f) s (\<lambda>r p es. outcome name r es)"
proof (rule emits_bind [OF m [unfolded left_if_def, rule_format]])
  fix a u and es :: "event list"
  assume *: "c a \<longrightarrow> left_open es"
  show "emits (f a) u (\<lambda>r p fs. outcome name r (es @ fs))"
  proof (cases "c a")
    case True
    with * show ?thesis by (simp add: assms(2) conclude_emits)
  next
    case False
    show ?thesis by (rule emits_mono [OF assms(3) [OF False]]) (auto simp: outcome_def split: if_splits)
  qed
qed

lemma unlock_outcome: "emits (do {
     unlocked \<leftarrow> unlock_provider hmac w g kf6 program marker b;
     if \<not> unlocked then ret 1 else conclude w name }) s (\<lambda>r p es. outcome name r es)"
  by (rule opened_then [OF left_unlock]) (simp_all add: outcome_one)

lemma provider_outcome: "emits (do {
     r \<leftarrow> (if owned then examine_provider w g kf6 marker else ret (True, True));
     if \<not> fst r then ret 1
     else do {
       unlocked \<leftarrow> (if snd r then unlock_provider hmac w g kf6 program marker owned else ret True);
       if \<not> unlocked then ret 1 else conclude w name } }) s (\<lambda>r p es. outcome name r es)"
proof (cases owned)
  case True
  show ?thesis
    unfolding if_P [OF True]
    by (rule opened_then [OF left_examine]) (auto simp: outcome_one unlock_outcome)
next
  case False
  with unlock_outcome [of hmac w g kf6 program marker False name s] show ?thesis by simp
qed

lemma provide_outcome: "emits (provide hmac w g name marker) s (\<lambda>r p es. outcome name r es)"
  unfolding provide_def conclude_def [symmetric] Let_def
  apply (rule outcome_prefix, rule works_any, rule works_nothing_ask [where b = False], simp)
  apply (rule outcome_prefix, rule works_any, rule works_owner)
  apply (rule outcome_prefix, rule works_any, rule works_nothing_ask [where b = False], simp)
  apply (rule helper_if, rule outcome_one)
  apply (rule outcome_prefix)
   apply (rule works_any, rule works_if, rule works_marker, rule works_nothing_ret)
  apply (rule helper_if, rule outcome_one)
  apply (rule provider_outcome)
  done

definition traced :: "setting \<Rightarrow> (octet list \<Rightarrow> octet list \<Rightarrow> octet list) \<Rightarrow> event list \<Rightarrow> bool" where
  "traced g hmac es = trace_ok g (wallet_key hmac (secret_read es)) {} es"

definition harmless :: "setting \<Rightarrow> event list \<Rightarrow> bool" where
  "harmless g es = (secret_read es = [] \<and> (\<forall>key. trace_ok g key {} es))"

lemma traced_simps:
  "harmless g es \<Longrightarrow> traced g hmac es"
  "harmless g es \<Longrightarrow> traced g hmac fs \<Longrightarrow> traced g hmac (es @ fs)"
  "traced g hmac fs \<Longrightarrow> harmless g es \<Longrightarrow> traced g hmac (fs @ es)"
  by (auto simp: traced_def harmless_def elim: trace_ok_mono)

lemma works_harmless:
  assumes "\<And>b. works b g {} nothing m"
  shows "emits m s (\<lambda>r p es. hp_secret p = hp_secret (prog s) \<and> harmless g es)"
  by (rule emits_mono [OF emits_conj [OF works_before [OF assms] works_reads_nothing [OF assms]]]) (simp add: harmless_def)

lemma traced_prefix:
  assumes "\<And>b. works b g {} nothing m" "length (hp_secret (prog s)) = SECRET_SIZE"
    and "\<And>a s. length (hp_secret (prog s)) = SECRET_SIZE \<Longrightarrow> emits (f a) s (\<lambda>r p es. traced g hmac es)"
  shows "emits (State_Monad.bind m f) s (\<lambda>r p es. traced g hmac es)"
  by (rule emits_bind [OF works_harmless [OF assms(1)]], rule emits_mono [OF assms(3)]) (simp_all add: assms(2) traced_simps)

lemma works_traced: "(\<And>b. works b g {} nothing m) \<Longrightarrow> emits m s (\<lambda>r p es. traced g hmac es)"
  by (rule emits_mono [OF works_harmless], assumption) (blast intro: traced_simps(1))

lemma works_conclude: "works b g C nothing (conclude w name)"
  unfolding conclude_def by (intro works_plain works_owner) simp

lemma provide_traced:
  assumes "length (hp_secret (prog s)) = SECRET_SIZE"
  shows "emits (provide hmac w g name marker) s (\<lambda>r p es. traced g hmac es)"
proof -
  have one: "emits (do { tell w (Complain t); ret 1 }) s (\<lambda>r p es. traced g hmac es)"
    "emits (ret 1) s (\<lambda>r p es. traced g hmac es)" for t s
    by (rule works_traced, intro works_plain; simp)+
  have last: "emits (do { unlocked \<leftarrow> (if new then unlock_provider hmac w g kf6 program marker b else ret True);
      if \<not> unlocked then ret 1 else conclude w name }) s (\<lambda>r p es. traced g hmac es)"
    if "length (hp_secret (prog s)) = SECRET_SIZE" for new kf6 program b s
  proof (rule emits_bind [of _ s "\<lambda>r p es. traced g hmac es"])
    show "emits (if new then unlock_provider hmac w g kf6 program marker b else ret True) s (\<lambda>r p es. traced g hmac es)"
      using unlock_emits [OF that, of hmac w g kf6 program marker b] works_traced [where m = "ret True" and g = g and s = s and hmac = hmac, OF works_nothing_ret]
      by (simp add: traced_def)
    fix a and t :: "(helper, event) mach" and es
    assume "traced g hmac es"
    moreover have "emits (if \<not> a then ret 1 else conclude w name) t (\<lambda>r p fs. hp_secret p = hp_secret (prog t) \<and> harmless g fs)"
      by (rule works_harmless) (intro works_if works_nothing_ret works_conclude)
    ultimately show "emits (if \<not> a then ret 1 else conclude w name) t (\<lambda>r p fs. traced g hmac (es @ fs))"
      by (auto elim!: emits_mono simp: traced_simps)
  qed
  show ?thesis
    unfolding provide_def conclude_def [symmetric] Let_def
    apply (rule traced_prefix [OF works_nothing_ask], simp, rule assms)
    apply (rule traced_prefix [OF works_owner], assumption)
    apply (rule traced_prefix [OF works_nothing_ask], simp, assumption)
    apply (rule helper_if, rule one)
    apply (rule traced_prefix, intro works_if works_marker works_nothing_ret, assumption)
    apply (rule helper_if, rule one)
    apply (rule traced_prefix, intro works_if works_examine works_nothing_ret, assumption)
    apply (rule helper_if, rule one)
    apply (rule last, assumption)
    done
qed

section \<open>Providers it did not start\<close>

fun looks_only :: "event \<Rightarrow> bool" where
  "looks_only (HasOwner n, a) = True"
| "looks_only (IsExecutable p, a) = True"
| "looks_only (OpenMarker p, a) = True"
| "looks_only (Complain t, a) = True"
| "looks_only _ = False"

fun unowned :: "event \<Rightarrow> bool" where
  "unowned (HasOwner n, a) = (n = secrets_name \<and> \<not> (x_ok a \<and> x_flag a))"
| "unowned _ = False"

definition shows_marker :: "setting \<Rightarrow> string \<Rightarrow> event \<Rightarrow> bool" where
  "shows_marker g marker e = (case x_files (snd e) marker of Some f \<Rightarrow> f_regular f \<and> f_owner f = g_uid g | None \<Rightarrow> False)"

text \<open>What allows the helper to do more than look.\<close>

definition released :: "setting \<Rightarrow> string \<Rightarrow> event \<Rightarrow> bool" where
  "released g marker e = (unowned e \<or> shows_marker g marker e)"

definition defers :: "setting \<Rightarrow> string \<Rightarrow> int \<Rightarrow> event list \<Rightarrow> bool" where
  "defers g marker r es = (list_all looks_only (takeWhile (\<lambda>e. \<not> released g marker e) es) \<and>
     (list_ex (released g marker) es \<or> r = 1))"

lemma looks_while: "list_all looks_only es \<Longrightarrow> list_all looks_only (takeWhile P es)"
  by (auto simp: list_all_iff dest: set_takeWhileD)

lemma defers_released: "list_all looks_only es \<Longrightarrow> list_ex (released g marker) es \<Longrightarrow> defers g marker r (es @ fs)"
  by (auto simp: defers_def list_ex_iff takeWhile_append1 looks_while)

lemma defers_one: "list_all looks_only es \<Longrightarrow> defers g marker 1 es"
  by (simp add: defers_def looks_while)

lemma provide_defers: "emits (provide hmac w g name marker) s (\<lambda>r p es. defers g marker r es)"
proof -
  have any: "emits m t (\<lambda>r p fs. defers g marker r (es @ fs))"
    if "\<And>s. emits m s (\<lambda>_ _ _. True)" "list_all looks_only es" "list_ex (released g marker) es" for m :: "int helping" and t es
    by (rule emits_mono [OF that(1)]) (use that(2,3) in \<open>simp add: defers_released\<close>)
  have provider: "emits (do {
     r \<leftarrow> (if owned then examine_provider w g kf6 marker else ret (True, True));
     if \<not> fst r then ret 1
     else do {
       unlocked \<leftarrow> (if snd r then unlock_provider hmac w g kf6 program marker owned else ret True);
       if \<not> unlocked then ret 1 else conclude w name } }) t (\<lambda>_ _ _. True)" for owned kf6 program t
    by (rule emits_mono [OF provider_outcome]) simp
  have one: "emits (do { tell w (Complain m); ret 1 }) t (\<lambda>r p fs. r = 1 \<and> list_all looks_only fs)" for m t
    by (auto simp: tell_def ask_def emits_def wp_simps)
  have marked: "emits (if owned then marker_exists w g marker else ret True) t
      (\<lambda>r p fs. list_all looks_only fs \<and> (r \<longrightarrow> \<not> owned \<or>
        (case hp_files (prog t) marker of Some f \<Rightarrow> f_regular f \<and> f_owner f = g_uid g | None \<Rightarrow> False)))" for owned t
    by (auto simp: marker_exists_def on_files_def emits_def wp_simps split: option.split sum.split)
  have owner: "emits (name_has_owner w secrets_name) t (\<lambda>r p fs. list_all looks_only fs \<and> (r \<or> list_ex unowned fs))" for t
    by (auto simp: name_has_owner_def ask_def emits_def wp_simps)
  show ?thesis
    unfolding provide_def conclude_def [symmetric] Let_def
    apply (rule emits_bind [OF emits_ask])
    apply (rule emits_bind [OF owner])
    apply (rule emits_bind [OF emits_ask])
    apply (rule helper_if, rule emits_mono [OF one], simp add: defers_one)
    apply (rule emits_bind [OF marked])
    apply (rule helper_if, rule emits_mono [OF one], simp add: defers_one)
    subgoal for k s1 e1 owned s2 e2 x s3 e3 managed s4 e4
    proof goal_cases
      case 1
      then have "list_ex (released g marker) (e1 @ e2 @ e3 @ e4)" "list_all looks_only (e1 @ e2 @ e3 @ e4)"
        by (cases owned; auto simp: shows_marker_def released_def list_ex_iff)+
      from any [OF provider this(2,1)] show ?case by simp
    qed
    done
qed

section \<open>Properties\<close>

definition confined :: "setting \<Rightarrow> (octet list \<Rightarrow> octet list \<Rightarrow> octet list) \<Rightarrow> helper \<Rightarrow> helper \<Rightarrow> event list \<Rightarrow> bool" where
  "confined g hmac p p' es = (hp_secret p' = replicate 64 0 \<and> hp_key p' = replicate 56 0 \<and> erased (hp_digest p) (hp_digest p') \<and>
     trace_ok g (take 56 (hmac (secret_read es) (bytes_of ''org.anatase.spaces.kwallet-unlock.v1'' @ [0]))) {} es \<and> timely g {} es)"

text \<open>C18. Whatever the portal, the bus and the kernel answer, when the helper is done its secret and its key are zero, and the
  digest the key was taken from is zero as well, or was never written. The only bytes it writes to a descriptor are lines of its
  environment and, to the end of a pipe it has made, the first 56 bytes of the keyed hash of exactly the bytes it has read from the
  portal. It kills (SIGKILL) a process only when that is a child it has forked and the last look at that child found it still running, or
  the owner that the bus named last; never itself, process 1 or a group. Any other signal goes to a child it has forked and not reaped, with
  the one exception that the code has: the child that the request just before has reaped.\<close>

theorem activation_confined:
  "emits (activate_provider hmac w g name marker) s (\<lambda>r p es. confined g hmac (prog s) p es)"
proof -
  have start: "emits (do { clear_secret; clear_key }) s (\<lambda>r p es. es = [] \<and> length (hp_secret p) = SECRET_SIZE)"
    by (auto simp: clear_secret_def clear_key_def secure_clear_def emits_def wp_simps)
  have finish: "emits (do { clear_key; clear_secret; ret r }) t (\<lambda>r p es. es = [] \<and> hp_secret p = replicate 64 0 \<and> hp_key p = replicate 56 0)"
    for r t
    by (auto simp: clear_secret_def clear_key_def secure_clear_def emits_def wp_simps SECRET_SIZE_def KWALLET_KEY_SIZE_def)
  have "emits (do { _ \<leftarrow> (do { clear_secret; clear_key }); r \<leftarrow> provide hmac w g name marker; (do { clear_key; clear_secret; ret r }) }) s
      (\<lambda>r p es. hp_secret p = replicate 64 0 \<and> hp_key p = replicate 56 0 \<and> traced g hmac es)"
    by (rule emits_bind [OF start], rule emits_bind [OF provide_traced], simp, rule emits_mono [OF finish]) simp
  then have "emits (activate_provider hmac w g name marker) s
      (\<lambda>r p es. hp_secret p = replicate 64 0 \<and> hp_key p = replicate 56 0 \<and> traced g hmac es)"
    by (simp add: activate_provider_def State_Monad.bind_assoc)
  from emits_conj [OF this orderly_activate [unfolded orderly_def, rule_format]] show ?thesis
    by (rule emits_mono) (simp add: confined_def traced_def wallet_key_def KWALLET_KEY_SIZE_def key_domain_def)
qed

text \<open>C21. The helper reports success only when it has seen the wallet open, has signalled no process since, and the last thing it
  did was to ask the bus whether the name it was started for is owned, and the bus said yes; otherwise it reports 1.\<close>

theorem activation_success:
  "emits (activate_provider hmac w g name marker) s (\<lambda>r p es. if r = 0 then left_open es \<and> claimed_last name es else r = 1)"
proof -
  have start: "emits (do { clear_secret; clear_key }) t (\<lambda>_ _ _. True)" for t
    by (auto simp: clear_secret_def clear_key_def emits_def wp_simps)
  have finish: "emits (do { clear_key; clear_secret; ret r }) t (\<lambda>r' p es. es = [] \<and> r' = r)" for r t
    by (auto simp: clear_secret_def clear_key_def emits_def wp_simps)
  have "emits (do { r \<leftarrow> provide hmac w g name marker; (do { clear_key; clear_secret; ret r }) }) t
      (\<lambda>r p es. outcome name r es)" for t
    by (rule emits_bind [OF provide_outcome], rule emits_mono [OF finish]) simp
  then have "emits (do { _ \<leftarrow> (do { clear_secret; clear_key }); r \<leftarrow> provide hmac w g name marker; (do { clear_key; clear_secret; ret r }) }) s
      (\<lambda>r p es. outcome name r es)"
    by (rule outcome_prefix [OF start])
  then show ?thesis by (simp add: activate_provider_def State_Monad.bind_assoc outcome_def)
qed

text \<open>C20. A provider that somebody else runs is left alone: until the bus says that nobody owns the secret service, or
  the marker file is there as a regular file of this user, the helper only asks who owns which name, which programs and files there
  are, and complains; it signals nothing, starts nothing, moves no file and asks the portal for no secret. A
  run in which neither happens reports 1. (A marker that an earlier provider left behind counts as well: the
  code does not compare it with the provider that runs.)\<close>

theorem foreign_provider_untouched:
  "emits (activate_provider hmac w g name marker) s
     (\<lambda>r p es. list_all looks_only (takeWhile (\<lambda>e. \<not> unowned e \<and> \<not> shows_marker g marker e) es) \<and>
        (list_ex (\<lambda>e. unowned e \<or> shows_marker g marker e) es \<or> r = 1))"
proof -
  have start: "emits (do { clear_secret; clear_key }) t (\<lambda>_ _ es. es = [])" for t
    by (auto simp: clear_secret_def clear_key_def emits_def wp_simps)
  have finish: "emits (do { clear_key; clear_secret; ret r }) t (\<lambda>r' p es. es = [] \<and> r' = r)" for r t
    by (auto simp: clear_secret_def clear_key_def emits_def wp_simps)
  have "emits (do { _ \<leftarrow> (do { clear_secret; clear_key }); r \<leftarrow> provide hmac w g name marker; (do { clear_key; clear_secret; ret r }) }) s
      (\<lambda>r p es. defers g marker r es)"
    by (rule emits_bind [OF start], rule emits_bind [OF provide_defers], rule emits_mono [OF finish]) simp
  then show ?thesis by (simp add: activate_provider_def State_Monad.bind_assoc defers_def released_def [abs_def])
qed

lemma second_round: "start_provider (Suc n) w g kf6 program marker True = start_provider (Suc 0) w g kf6 program marker True"
  by (simp only: start_provider.simps simp_thms if_False not_True_eq_False)

text \<open>C22. The loop that starts a provider goes round at most twice: however many more rounds it is allowed, it does the same.\<close>

theorem start_provider_ends:
  "start_provider (Suc (Suc n)) w g kf6 program marker backed_up = start_provider 2 w g kf6 program marker backed_up"
proof (cases backed_up)
  case True
  then show ?thesis using second_round [of "Suc n"] second_round [of "Suc 0"] by (simp only: numeral_2_eq_2)
next
  case False
  show ?thesis
    unfolding numeral_2_eq_2 start_provider.simps(2) [of "Suc n"] start_provider.simps(2) [of "Suc 0"] second_round [of n] ..
qed

end
