(* ===== verification/Spec2Isabelle.thy ===== *)
theory Spec2Isabelle
  imports Pam_Relay Bridge_Safety Launcher_Safety Broker_Confinement Tree_Diff Host_Guarantees
    Wallet_Backup Secret_Safety
begin

text \<open>
Anatase Spaces runs desktop applications and whole distributions in containers
("spaces", or guests) that share the desktop of the host. The C programs under
src/native are the places where a guest, which is not trusted, talks to the
host, which is. This library models them and proves what keeps the host safe
and what makes the programs do their work.

The programs and how they interact.

  \<^item> protocol.h fixes the frames that pam_spaces.c (a PAM module, loaded by login
    programs of a guest) and spaces_pam.c (the worker on the host that runs the
    real PAM stack) exchange over a socket.
  \<^item> spaces_system_broker.c is one program with two roles. As relay it runs in a
    guest, owns the names of three system services on the guest's system bus and
    passes calls to the broker over a socket; as broker it runs on the host and
    places them on the host's system bus, under the policy of system_bus_policy.h.
    dbus_message.h holds the message helpers of both.
  \<^item> spaces_broker.c runs on the host beside the portal of a space's session. It
    registers itself as the application the portal asks for permissions, and
    offers the guest an interface of ten methods (open a file, wait for a portal
    request, retrieve a secret, install a launcher, and so on).
  \<^item> spaces.c starts one application in a guest: it takes a reference on the shared
    PolicyKit agent of the session, starts the agent if it is the first, merges
    the environment of the user's service manager into the application's, starts
    the application under a monitor, and reports the application's status.

  \<^item> scu_host.c is the desktop-control service of a session ("computer use"): clients in
    spaces, and the frontend scu.c that runs there for a model's tool calls, reach it over sockets
    which a controller on the host registers as leases. scu_mcp.h is the protocol both
    speak, scu_service.h the service's main loop with its clients and leases, scu_diff.h the
    differences between two readings of a window's tree.
  \<^item> spaces_secret_helper.c is started in a guest when a program wants the secret
    service: it asks the portal for the application's secret, derives the key of
    a wallet from it and starts KWallet with that key.

Theories, in the order of their imports. Definitions carry the names of the C
functions they translate; C constants keep their capitals; C structures are records whose
fields carry a short prefix (c_ for a client of the bridge, k_ for a call in flight).

  \<^item> Spaces_Prelude: collections of rules, lemmas on lists, options, words and
    maps, the state monad of the calls (wp_any, always_returns), and the locale
    inductive_invariant: what is kept by every step holds in every reachable state.
  \<^item> Frame_Protocol (protocol.h): the layout of a frame as bytes,
    spaces_write_all and spaces_read_all over a stream that takes and delivers any
    non-empty part of what is asked for, interruptions and end of file,
    spaces_send_frame, spaces_recv_frame, spaces_erase.
  \<^item> Pam_Relay (pam_spaces.c, spaces_pam.c): the module's loop over the frames
    (auth_loop, relay_message), its conversation with the application, the
    worker's conversation with the module, both mains.
  \<^item> Bus_Policy (system_bus_policy.h, dbus_message.h): which calls, properties and
    signals of resolve1, NetworkManager and UPower are admitted, with and
    without Network Admin.
  \<^item> System_Broker (spaces_system_broker.c): the bridge as one state record with a
    heap of reference-counted clients and calls, and one function per callback;
    process_event dispatches the callbacks the main loop runs.
  \<^item> Bridge_Safety: the invariant of the bridge and what follows from it.
  \<^item> Number_Parse, Path_Merge, Agent_Reference, Agent_Process, Launcher (spaces.c):
    the parsers of /proc and of the broker's numbers; manager_environment_value to
    merge_manager_path_environment; the state file of the shared agent and
    acquire, finish and release with their interleavings; the start and stop of
    the agent's process; the monitor, the command line and main. Posix holds the
    system calls: each is an event appended to a trace and an answer
    taken from an arbitrary world, so a theorem about every world is a
    theorem about every behaviour of the kernel.
  \<^item> Launcher_Safety: what the traces of the launcher cannot contain.
  \<^item> Portal_Identity, Host_Calls, Host_Broker, Host_Methods (spaces_broker.c):
    the registration with the portal as a step relation over its callbacks; the
    calls of the broker to the bus and the kernel; each method of the interface
    with its arguments; the mapping of guest paths to host paths.
  \<^item> Broker_Safety, Broker_Confinement: what the methods of the broker
    guarantee whatever the guest sends and the portal answers. The event LeaveStack in the
    broker's history is the return of finish_app_secret with what its two buffers hold then.
  \<^item> Tree_Diff (scu_diff.h): the table of longest common subsequences as the flat array of
    32-bit cells the code fills, and the hunks made from it.
  \<^item> Mcp_Schema, Mcp_Protocol (scu_mcp.h): the catalog of tools, the JSON schema built from it
    and its validator; the reader of the frontend, requests, tool calls and their answers.
    The JSON reader and writer (yyjson) are parameters (parse, encode).
  \<^item> Host_Service (scu_service.h): clients and leases on a heap, one function per
    callback, the event queue, and the step relation host_step, in which callbacks run
    at any moment, also in the middle of an event. Host_Invariant and Host_Leases show
    that each callback keeps the invariant host_ok and what is being handled,
    Host_Safety that events and collection do; Host_Guarantees draws the conclusions.
  \<^item> Secret_Helper (spaces_secret_helper.c): the whole program over its buffers for the secret,
    the key and the digest and the files it sees; requests to the bus and the kernel are events with answers.
    Wallet_Backup: what the backup of a locked wallet does to the files, which no other
    program changes between its steps. Secret_Signals: when a run may signal a process (prompt: every
    signal rests on a fact that has not expired). Secret_Safety: what a run may
    write and report, and on what it may act at all (works: a computation acts only on children, owners
    and pipes it got before).

What the groups of lemmas show.

  \<^item> Frames: what was sent is received however the stream is cut, whatever is
    received is a bounded well-formed frame, malformed headers are refused.
  \<^item> PAM: success is reported only on a success frame; answers are erased
    before they are freed.
  \<^item> Policy: admitted calls stay within the three services; without Network Admin
    the policy equals its read-only tables.
  \<^item> Bridge: every call on the host bus is admitted by the policy; no freed client
    is used and reference counts are exact; queues and tables stay within their
    limits; every forwarded method call is answered exactly once, with its own serial.
  \<^item> Launcher: the agent is not stopped while a launcher holds a reference,
    however launchers interleave; one status is reported and one reference
    given back on every path; only recorded children are signalled.
  \<^item> Host broker: the portal is addressed only through the owner that confirmed
    the registration; an opened file is the one whose descriptor the guest passed; what is
    written to the guest is the key derived from all that was read, and both buffers are
    cleared; a launcher that is installed
    runs in the space; copying is exact, bounded and ends.
  \<^item> Desktop control: a difference rebuilds the tree and is minimal; the validator accepts
    what the catalog says; only the tool that a request names runs, on validated arguments, and requests
    are answered once unless they were themselves cancelled; the service never uses freed clients or leases, is bounded, isolates
    the cancellations of its clients, drains its queue, and does nothing for a lease
    after its release was acknowledged.
  \<^item> Secret helper: secrets are erased on every path, only the derived key is written and only to
    the pipe of the started daemon; a process is killed only as a child seen running or as the owner named last;
    a provider is left alone until the bus or the marker file says that it is the helper's; a backup moves
    all the files of a wallet to the first free number or none.

Bounds and fuel. Loops over data are structural recursion or functions with a
measure. Loops whose end depends on answers of the kernel take fuel:
the drain of a pipe by the bytes it may still hold (the lemma drain_fuel shows that 2^20
is enough for what is read), copy_loop by the limit of a staged file (32 MiB
and one byte, shown enough by copy_loop_emits: every round but the last copies
a byte or more), read_master by the limit of the secret (64 KiB and two bytes, shown
enough by read_master_emits). Loops with a fixed number of attempts (polling the agent,
stopping it, updating the state file, waiting for a provider) recurse on the attempts left.
The loop that starts a storage provider has fuel 2, shown enough by start_provider_ends. Loops that
wait for children recurse on the list of answers. A call that the source repeats while
it is interrupted is one call of the model with its final answer.
Byte strings are lists of words of 8 bits or of characters, sizes that can wrap are words of their
width, and identifiers of the kernel are integers.

What is not modelled. GLib, GIO, D-Bus and the kernel are parameters or
answers: what they return is arbitrary, within the documented
shape of the result. Memory of one callback is not modelled beyond
what the source frees or erases by hand, except in the bridge, whose clients
outlive callbacks. The start-up of the bus connections in the mains of the broker and the
wrappers for __libc_start_main are calls to libraries in sequence. The
programs spaces_open.c, spaces_portal.c, the
desktop side of the desktop-control service (scu_host.c, scu_desktop.h,
scu_applications.h), its frontend scu.c, the prose of its catalog, the vendored
yyjson and the Python package are not part of this library.
\<close>

end
